(* ===== verification/Prelude.thy ===== *)
theory Prelude
  imports Main "HOL-Library.List_Lexorder" "HOL-Library.Char_ord" "HOL-Library.Word"
begin

text \<open>
  Shared vocabulary of the development: Rust's \<open>Result\<close> as a sum (\<open>Inl\<close> is \<open>Err\<close>,
  \<open>Inr\<close> is \<open>Ok\<close>), the few functions of the Rust standard library on strings and vectors that
  the crates call, and the generic lemmas about them that more than one component uses.
  A Rust \<open>str\<close> is the list of its UTF-8 bytes, one \<open>char\<close> each, so \<open>length\<close> is
  \<open>str::len\<close> and \<open><\<close> (lexicographic on the bytes) is \<open>str\<close>'s \<open>Ord\<close>.
\<close>

named_theorems result_simps \<open>evaluation of results and of the question-mark operator\<close>
named_theorems text_simps \<open>facts about the string functions of the standard library\<close>

type_synonym bytes = "8 word list"
type_synonym u32 = "32 word"
type_synonym u64 = "64 word"

section \<open>Results\<close>

fun and_then :: "'e + 'a \<Rightarrow> ('a \<Rightarrow> 'e + 'b) \<Rightarrow> 'e + 'b" where
  "and_then (Inl e) f = Inl e"
| "and_then (Inr a) f = f a"

fun map_err :: "('e \<Rightarrow> 'f) \<Rightarrow> 'e + 'a \<Rightarrow> 'f + 'a" where
  "map_err f (Inl e) = Inl (f e)"
| "map_err f (Inr a) = Inr a"

fun map_ok :: "('a \<Rightarrow> 'b) \<Rightarrow> 'e + 'a \<Rightarrow> 'e + 'b" where
  "map_ok f (Inl e) = Inl e"
| "map_ok f (Inr a) = Inr (f a)"

definition ok_or :: "'e \<Rightarrow> 'a option \<Rightarrow> 'e + 'a" where
  "ok_or e x = (case x of None \<Rightarrow> Inl e | Some a \<Rightarrow> Inr a)"

fun is_ok :: "'e + 'a \<Rightarrow> bool" where
  "is_ok (Inl e) = False"
| "is_ok (Inr a) = True"

text \<open>\<open>iter.collect::<Result<Vec<_>, _>>()\<close>: the first error wins.\<close>

fun collect_results :: "('e + 'a) list \<Rightarrow> 'e + 'a list" where
  "collect_results [] = Inr []"
| "collect_results (Inl e # rs) = Inl e"
| "collect_results (Inr a # rs) = map_ok ((#) a) (collect_results rs)"

lemma and_then_Inr [result_simps]:
  "and_then r f = Inr b \<longleftrightarrow> (\<exists>a. r = Inr a \<and> f a = Inr b)"
  by (cases r) auto

lemma and_then_Inl [result_simps]:
  "and_then r f = Inl e \<longleftrightarrow> r = Inl e \<or> (\<exists>a. r = Inr a \<and> f a = Inl e)"
  by (cases r) auto

lemma map_err_Inr [result_simps]: "map_err f r = Inr a \<longleftrightarrow> r = Inr a"
  by (cases r) auto

lemma map_err_Inl [result_simps]: "map_err f r = Inl e \<longleftrightarrow> (\<exists>d. r = Inl d \<and> e = f d)"
  by (cases r) auto

lemma map_ok_Inr [result_simps]: "map_ok f r = Inr b \<longleftrightarrow> (\<exists>a. r = Inr a \<and> b = f a)"
  by (cases r) auto

lemma map_ok_Inl [result_simps]: "map_ok f r = Inl e \<longleftrightarrow> r = Inl e"
  by (cases r) auto

lemma ok_or_Inr [result_simps]: "ok_or e x = Inr a \<longleftrightarrow> x = Some a"
  by (auto simp: ok_or_def split: option.splits)

lemma ok_or_Inl [result_simps]: "ok_or e x = Inl d \<longleftrightarrow> x = None \<and> d = e"
  by (auto simp: ok_or_def split: option.splits)

lemma collect_results_Inr:
  "collect_results rs = Inr xs \<longleftrightarrow> rs = map Inr xs"
proof (induction rs arbitrary: xs rule: collect_results.induct)
  case (3 a rs)
  show ?case by (cases xs) (auto simp: result_simps 3)
qed auto

lemma collect_results_map_Inr [result_simps]: "collect_results (map Inr xs) = Inr xs"
  by (simp add: collect_results_Inr)

section \<open>Fallible actions on a state\<close>

text \<open>
  An \<open>async fn\<close> that returns a \<open>Result\<close> and works on a state: the state is threaded, an error
  returns early with the state reached so far. \<open>seq_result m f\<close> is \<open>f(m.await?)\<close>.
\<close>

type_synonym ('s, 'e, 'a) action = "'s \<Rightarrow> ('e + 'a) \<times> 's"

definition seq_result :: "('s, 'e, 'a) action \<Rightarrow> ('a \<Rightarrow> ('s, 'e, 'b) action) \<Rightarrow> ('s, 'e, 'b) action" where
  "seq_result m f s = (case m s of (Inl e, t) \<Rightarrow> (Inl e, t) | (Inr a, t) \<Rightarrow> f a t)"

definition give :: "'e + 'a \<Rightarrow> ('s, 'e, 'a) action" where
  "give r s = (r, s)"

definition seq_err :: "('e \<Rightarrow> 'f) \<Rightarrow> ('s, 'e, 'a) action \<Rightarrow> ('s, 'f, 'a) action" where
  "seq_err f m s = map_prod (map_err f) id (m s)"

text \<open>\<open>try_join_all\<close> over a list, with the futures run in the order of the list.\<close>

fun collect_actions :: "('a \<Rightarrow> ('s, 'e, 'b) action) \<Rightarrow> 'a list \<Rightarrow> ('s, 'e, 'b list) action" where
  "collect_actions f [] = give (Inr [])"
| "collect_actions f (x # xs) =
     seq_result (f x) (\<lambda>y. seq_result (collect_actions f xs) (\<lambda>ys. give (Inr (y # ys))))"

lemma seq_result_Inr [result_simps]:
  "seq_result m f s = (Inr b, u) \<longleftrightarrow> (\<exists>a t. m s = (Inr a, t) \<and> f a t = (Inr b, u))"
  by (auto simp: seq_result_def split: prod.splits sum.splits)

lemma seq_result_Inl [result_simps]:
  "seq_result m f s = (Inl e, u) \<longleftrightarrow>
     m s = (Inl e, u) \<or> (\<exists>a t. m s = (Inr a, t) \<and> f a t = (Inl e, u))"
  by (auto simp: seq_result_def split: prod.splits sum.splits)

lemma seq_result_run [simp]: "m s = (Inr a, t) \<Longrightarrow> seq_result m f s = f a t"
  by (simp add: seq_result_def)

lemma seq_result_stop [simp]: "m s = (Inl e, t) \<Longrightarrow> seq_result m f s = (Inl e, t)"
  by (simp add: seq_result_def)

lemma seq_result_cases:
  assumes "seq_result m f s = (r, u)"
  obtains (stop) e where "m s = (Inl e, u)" "r = Inl e"
  | (run) a t where "m s = (Inr a, t)" "f a t = (r, u)"
  using assms by (auto simp: seq_result_def split: prod.splits sum.splits)

lemma give_iff [result_simps]: "give r s = (q, t) \<longleftrightarrow> r = q \<and> t = s"
  by (auto simp: give_def)

lemma seq_err_Inr [result_simps]: "seq_err f m s = (Inr a, t) \<longleftrightarrow> m s = (Inr a, t)"
  by (cases "m s") (auto simp: seq_err_def result_simps)

lemma seq_err_Inl [result_simps]:
  "seq_err f m s = (Inl e, t) \<longleftrightarrow> (\<exists>d. m s = (Inl d, t) \<and> e = f d)"
  by (cases "m s") (auto simp: seq_err_def result_simps)

text \<open>Lifting errors commutes with sequencing.\<close>

lemma seq_err_seq_result:
  "seq_err f (seq_result m g) = seq_result (seq_err f m) (\<lambda>a. seq_err f (g a))"
  by (rule ext) (simp add: seq_err_def seq_result_def split: prod.split sum.split)

lemma seq_err_seq_err: "seq_err f (seq_err g m) = seq_err (\<lambda>e. f (g e)) m"
proof
  fix s
  show "seq_err f (seq_err g m) s = seq_err (\<lambda>e. f (g e)) m s"
    by (cases "m s", rename_tac r t, case_tac r) (simp_all add: seq_err_def)
qed

lemma seq_err_give: "seq_err f (give r) = give (map_err f r)"
  by (rule ext) (simp add: seq_err_def give_def)

section \<open>Strings\<close>

text \<open>\<open>str::split_once\<close>, \<open>str::strip_prefix\<close>, \<open>str::strip_suffix\<close>, \<open>str::contains\<close>.\<close>

fun split_once :: "char \<Rightarrow> string \<Rightarrow> (string \<times> string) option" where
  "split_once c [] = None"
| "split_once c (x # xs) =
     (if x = c then Some ([], xs)
      else map_option (\<lambda>(a, b). (x # a, b)) (split_once c xs))"

lemma split_once_None [text_simps]: "split_once c s = None \<longleftrightarrow> c \<notin> set s"
  by (induction s) auto

lemma split_once_Some [text_simps]:
  "split_once c s = Some (a, b) \<longleftrightarrow> s = a @ c # b \<and> c \<notin> set a"
proof (induction s arbitrary: a)
  case (Cons x xs)
  show ?case by (cases a) (auto simp: Cons)
qed simp

lemma split_once_append: "c \<notin> set a \<Longrightarrow> split_once c (a @ c # b) = Some (a, b)"
  by (simp add: split_once_Some)

fun strip_prefix :: "string \<Rightarrow> string \<Rightarrow> string option" where
  "strip_prefix [] s = Some s"
| "strip_prefix (p # ps) [] = None"
| "strip_prefix (p # ps) (x # xs) = (if p = x then strip_prefix ps xs else None)"

lemma strip_prefix_Some [text_simps]: "strip_prefix p s = Some r \<longleftrightarrow> s = p @ r"
  by (induction p s rule: strip_prefix.induct) auto

lemma strip_prefix_append [simp]: "strip_prefix p (p @ r) = Some r"
  by (simp add: strip_prefix_Some)

definition starts_with :: "string \<Rightarrow> string \<Rightarrow> bool" where
  "starts_with p s = (strip_prefix p s \<noteq> None)"

lemma starts_with_iff [text_simps]: "starts_with p s \<longleftrightarrow> (\<exists>r. s = p @ r)"
  by (auto simp: starts_with_def simp flip: strip_prefix_Some)

definition strip_suffix :: "string \<Rightarrow> string \<Rightarrow> string option" where
  "strip_suffix p s = map_option rev (strip_prefix (rev p) (rev s))"

lemma strip_suffix_Some [text_simps]: "strip_suffix p s = Some r \<longleftrightarrow> s = r @ p"
  by (auto simp: strip_suffix_def strip_prefix_Some) (metis rev_append rev_rev_ident)

fun contains_str :: "string \<Rightarrow> string \<Rightarrow> bool" where
  "contains_str p [] = (p = [])"
| "contains_str p (x # xs) = (starts_with p (x # xs) \<or> contains_str p xs)"

lemma contains_str_iff [text_simps]: "contains_str p s \<longleftrightarrow> (\<exists>a b. s = a @ p @ b)"
proof (induction s)
  case (Cons x xs)
  show ?case
  proof
    assume "contains_str p (x # xs)"
    then show "\<exists>a b. x # xs = a @ p @ b"
      by (simp add: Cons starts_with_iff) (metis append_Cons append_Nil)
  next
    assume "\<exists>a b. x # xs = a @ p @ b"
    then obtain a b where ab: "x # xs = a @ p @ b" by blast
    show "contains_str p (x # xs)"
    proof (cases a)
      case Nil
      with ab have "starts_with p (x # xs)" unfolding starts_with_iff by auto
      then show ?thesis by simp
    next
      case (Cons y ys)
      with ab have "xs = ys @ p @ b" by simp
      with \<open>contains_str p xs \<longleftrightarrow> _\<close> have "contains_str p xs" by blast
      then show ?thesis by simp
    qed
  qed
qed auto

text \<open>ASCII case mapping (\<open>to_ascii_lowercase\<close>) and the ASCII character classes.\<close>

definition is_upper :: "char \<Rightarrow> bool" where
  "is_upper c = (CHR ''A'' \<le> c \<and> c \<le> CHR ''Z'')"

definition is_lower :: "char \<Rightarrow> bool" where
  "is_lower c = (CHR ''a'' \<le> c \<and> c \<le> CHR ''z'')"

definition is_digit :: "char \<Rightarrow> bool" where
  "is_digit c = (CHR ''0'' \<le> c \<and> c \<le> CHR ''9'')"

definition to_lower :: "char \<Rightarrow> char" where
  "to_lower c = (if is_upper c then char_of (of_char c + 32 :: nat) else c)"

lemmas char_class_defs = is_upper_def is_lower_def is_digit_def less_eq_char_def less_char_def

lemma of_char_to_lower: "is_upper c \<Longrightarrow> (of_char (to_lower c) :: nat) = of_char c + 32"
  by (simp add: to_lower_def is_upper_def less_eq_char_def)

lemma to_lower_is_lower: "is_upper c \<Longrightarrow> is_lower (to_lower c)"
  using of_char_to_lower [of c] by (simp add: is_upper_def is_lower_def less_eq_char_def)

lemma is_lower_not_upper: "is_lower c \<Longrightarrow> \<not> is_upper c"
  by (simp add: is_upper_def is_lower_def less_eq_char_def)

lemma is_digit_not_upper: "is_digit c \<Longrightarrow> \<not> is_upper c"
  by (simp add: is_upper_def is_digit_def less_eq_char_def)

section \<open>JSON values\<close>

text \<open>\<open>serde_json::Value\<close>; numbers are kept as their text.\<close>

datatype json =
    JNull
  | JBool bool
  | JNumber string
  | JString string
  | JArray "json list"
  | JObject "(string \<times> json) list"

section \<open>Vectors\<close>

text \<open>\<open>slice.last()\<close>.\<close>

definition last_opt :: "'a list \<Rightarrow> 'a option" where
  "last_opt xs = (if xs = [] then None else Some (last xs))"

lemma last_opt_simps [simp]:
  "last_opt [] = None" "last_opt (xs @ [x]) = Some x"
  by (simp_all add: last_opt_def)

lemma last_opt_append:
  "last_opt (xs @ ys) = (if ys = [] then last_opt xs else last_opt ys)"
  by (simp add: last_opt_def)

lemma last_opt_None [simp]: "last_opt xs = None \<longleftrightarrow> xs = []"
  by (simp add: last_opt_def)

lemma last_opt_Some_in: "last_opt xs = Some x \<Longrightarrow> x \<in> set xs"
  by (auto simp: last_opt_def split: if_splits)

lemma last_opt_map: "last_opt (map f xs) = map_option f (last_opt xs)"
  by (simp add: last_opt_def last_map)

text \<open>Strictly increasing lists, the shape of every revision sequence.\<close>

abbreviation strictly_increasing :: "'a::linorder list \<Rightarrow> bool" where
  "strictly_increasing \<equiv> sorted_wrt (<)"

lemma strictly_increasing_append:
  "strictly_increasing (xs @ ys) \<longleftrightarrow>
     strictly_increasing xs \<and> strictly_increasing ys \<and> (\<forall>x\<in>set xs. \<forall>y\<in>set ys. x < y)"
  by (simp add: sorted_wrt_append)

lemma strictly_increasing_last:
  "strictly_increasing xs \<Longrightarrow> x \<in> set xs \<Longrightarrow> x \<le> last xs"
proof (induction xs)
  case (Cons y ys)
  then show ?case
    by (cases "ys = []") (auto intro: less_imp_le less_le_trans)
qed simp

lemma strictly_increasing_distinct: "strictly_increasing xs \<Longrightarrow> distinct xs"
  by (induction xs) auto

lemma strictly_increasing_sorted: "strictly_increasing xs \<Longrightarrow> sorted xs"
  by (simp add: strict_sorted_imp_sorted)

end
