(* ===== verification/Ids.thy ===== *)
theory Ids
  imports Prelude
begin

text \<open>
  \<^verbatim>\<open>crates/wee-events/src/id.rs\<close>: the string newtypes, the revision marker with its
  validating parser, and the composite aggregate id with its \<open>type:key\<close> wire format.
  The \<open>ulid\<close> crate is a parameter: a record of the three functions the sources call, with the
  documented laws they rely on collected in \<open>ulid_laws\<close>, and a generator function with the
  documented monotonicity in \<open>monotonic_generator\<close>.
\<close>

section \<open>The interface to the ulid crate\<close>

text \<open>\<open>ulid::Ulid\<close> is a newtype over \<open>u128\<close>, ordered numerically.\<close>

type_synonym ulid = "128 word"

datatype ulid_decode_error = InvalidLength | InvalidChar

record ulid_codec =
  ulid_to_string :: "ulid \<Rightarrow> string"
  ulid_from_string :: "string \<Rightarrow> ulid_decode_error + ulid"
  ulid_timestamp_ms :: "ulid \<Rightarrow> u64"

definition ZERO_REVISION :: string where
  "ZERO_REVISION = ''00000000000000000000000000''"

definition ulid_laws :: "ulid_codec \<Rightarrow> bool" where
  "ulid_laws U \<longleftrightarrow>
     (\<forall>u. length (ulid_to_string U u) = 26) \<and>
     (\<forall>u. ulid_from_string U (ulid_to_string U u) = Inr u) \<and>
     (\<forall>u v. u < v \<longrightarrow> ulid_to_string U u < ulid_to_string U v) \<and>
     ulid_to_string U 0 = ZERO_REVISION"

text \<open>
  \<open>ulid::Generator\<close>: \<open>generate\<close> returns a value strictly above the previous one, or fails with
  \<open>MonotonicError\<close> and keeps it. \<open>prev\<close> reads the previous value off the generator.
\<close>

type_synonym 'g generator = "'g \<Rightarrow> ulid option \<times> 'g"

definition monotonic_generator :: "'g generator \<Rightarrow> ('g \<Rightarrow> ulid) \<Rightarrow> bool" where
  "monotonic_generator gen prev \<longleftrightarrow>
     (\<forall>g. case gen g of (Some u, g') \<Rightarrow> prev g < u \<and> prev g' = u
                    | (None, g') \<Rightarrow> prev g' = prev g)"

lemma monotonic_generatorD:
  assumes "monotonic_generator gen prev" and "gen g = (Some u, g')"
  shows "prev g < u" and "prev g' = u"
  using assms by (auto simp: monotonic_generator_def dest: spec [of _ g])

lemma monotonic_generator_None:
  assumes "monotonic_generator gen prev" and "gen g = (None, g')"
  shows "prev g' = prev g"
  using assms by (auto simp: monotonic_generator_def dest: spec [of _ g])

lemma ulid_lawsD:
  assumes "ulid_laws U"
  shows "length (ulid_to_string U u) = 26"
    and "ulid_from_string U (ulid_to_string U u) = Inr u"
    and "u < v \<Longrightarrow> ulid_to_string U u < ulid_to_string U v"
    and "ulid_to_string U 0 = ZERO_REVISION"
  using assms by (auto simp: ulid_laws_def)

lemma ulid_to_string_less:
  assumes "ulid_laws U"
  shows "ulid_to_string U u < ulid_to_string U v \<longleftrightarrow> u < v"
proof (cases u v rule: linorder_cases)
  case greater
  then have "ulid_to_string U v < ulid_to_string U u" by (rule ulid_lawsD(3) [OF assms])
  with greater show ?thesis by auto
qed (auto simp: ulid_lawsD [OF assms])

lemma ulid_to_string_eq:
  assumes "ulid_laws U"
  shows "ulid_to_string U u = ulid_to_string U v \<longleftrightarrow> u = v"
  using ulid_lawsD(2) [OF assms] by (metis sum.inject(2))

section \<open>String newtypes\<close>

text \<open>
  The \<open>newtype_id!\<close> macro's structs and \<open>AggregateType\<close>: transparent wrappers whose
  \<open>Display\<close>, \<open>as_str\<close> and \<open>Ord\<close> are those of the string.
\<close>

datatype event_id = EventId (event_id_str: string)
datatype event_type = EventType (event_type_str: string)
datatype command_name = CommandName (command_name_str: string)
datatype correlation_id = CorrelationId (correlation_id_str: string)
datatype aggregate_type = AggregateType (aggregate_type_str: string)

instantiation aggregate_type :: linorder
begin
definition less_eq_aggregate_type :: "aggregate_type \<Rightarrow> aggregate_type \<Rightarrow> bool" where
  "a \<le> b \<longleftrightarrow> aggregate_type_str a \<le> aggregate_type_str b"
definition less_aggregate_type :: "aggregate_type \<Rightarrow> aggregate_type \<Rightarrow> bool" where
  "a < b \<longleftrightarrow> aggregate_type_str a < aggregate_type_str b"
instance
  by standard
    (auto simp: less_eq_aggregate_type_def less_aggregate_type_def aggregate_type.expand)
end

section \<open>Revisions\<close>

datatype revision = Revision (revision_str: string)

instantiation revision :: linorder
begin
definition less_eq_revision :: "revision \<Rightarrow> revision \<Rightarrow> bool" where
  "a \<le> b \<longleftrightarrow> revision_str a \<le> revision_str b"
definition less_revision :: "revision \<Rightarrow> revision \<Rightarrow> bool" where
  "a < b \<longleftrightarrow> revision_str a < revision_str b"
instance
  by standard (auto simp: less_eq_revision_def less_revision_def revision.expand)
end

definition revision_from_ulid :: "ulid_codec \<Rightarrow> ulid \<Rightarrow> revision" where
  "revision_from_ulid U u = Revision (ulid_to_string U u)"

definition revision_zero :: revision where
  "revision_zero = Revision ZERO_REVISION"

definition revision_is_zero :: "revision \<Rightarrow> bool" where
  "revision_is_zero r = (revision_str r = ZERO_REVISION)"

datatype revision_parse_error = WrongLength nat | InvalidUlid ulid_decode_error

definition revision_from_str :: "ulid_codec \<Rightarrow> string \<Rightarrow> revision_parse_error + revision" where
  "revision_from_str U s =
     (if s = ZERO_REVISION then Inr revision_zero
      else if length s \<noteq> 26 then Inl (WrongLength (length s))
      else map_ok (revision_from_ulid U) (map_err InvalidUlid (ulid_from_string U s)))"

text \<open>\<open>Deserialize for Revision\<close>: \<open>d\<close> is what the format's string deserialiser returned.\<close>

definition revision_deserialize ::
  "ulid_codec \<Rightarrow> 'e + string \<Rightarrow> ('e + revision_parse_error) + revision" where
  "revision_deserialize U d = and_then (map_err Inl d) (\<lambda>s. map_err Inr (revision_from_str U s))"

definition valid_revision :: "ulid_codec \<Rightarrow> revision \<Rightarrow> bool" where
  "valid_revision U r \<longleftrightarrow> r = revision_zero \<or> (\<exists>u. r = revision_from_ulid U u)"

lemma revision_is_zero_iff [simp]: "revision_is_zero r \<longleftrightarrow> r = revision_zero"
  by (cases r) (simp add: revision_is_zero_def revision_zero_def)

lemma revision_from_ulid_less:
  "ulid_laws U \<Longrightarrow> revision_from_ulid U u < revision_from_ulid U v \<longleftrightarrow> u < v"
  by (simp add: revision_from_ulid_def less_revision_def ulid_to_string_less)

lemma revision_from_ulid_eq:
  "ulid_laws U \<Longrightarrow> revision_from_ulid U u = revision_from_ulid U v \<longleftrightarrow> u = v"
  by (simp add: revision_from_ulid_def ulid_to_string_eq)

lemma revision_from_ulid_0: "ulid_laws U \<Longrightarrow> revision_from_ulid U 0 = revision_zero"
  by (simp add: revision_from_ulid_def revision_zero_def ulid_lawsD)

lemma revision_zero_less:
  "ulid_laws U \<Longrightarrow> 0 < u \<Longrightarrow> revision_zero < revision_from_ulid U u"
  by (simp add: revision_from_ulid_less flip: revision_from_ulid_0)

lemma revision_from_str_ulid:
  assumes "ulid_laws U"
  shows "revision_from_str U (revision_str (revision_from_ulid U u)) = Inr (revision_from_ulid U u)"
proof (cases "ulid_to_string U u = ZERO_REVISION")
  case True
  then show ?thesis
    by (simp add: revision_from_str_def revision_from_ulid_def revision_zero_def)
next
  case False
  then show ?thesis
    by (simp add: revision_from_str_def revision_from_ulid_def ulid_lawsD [OF assms])
qed

lemma revision_from_str_valid:
  "revision_from_str U s = Inr r \<Longrightarrow> valid_revision U r"
  by (auto simp: revision_from_str_def valid_revision_def result_simps split: if_splits)

lemma revision_from_str_of_valid:
  "ulid_laws U \<Longrightarrow> valid_revision U r \<Longrightarrow> revision_from_str U (revision_str r) = Inr r"
  by (auto simp: valid_revision_def revision_from_str_ulid)
    (simp add: revision_from_str_def revision_zero_def)

lemma length_revision_zero [simp]: "length (revision_str revision_zero) = 26"
  by (simp add: revision_zero_def ZERO_REVISION_def)

lemma valid_revision_length:
  "ulid_laws U \<Longrightarrow> valid_revision U r \<Longrightarrow> length (revision_str r) = 26"
  by (auto simp: valid_revision_def revision_from_ulid_def ulid_lawsD)

lemma valid_revision_zero [simp, intro]: "valid_revision U revision_zero"
  by (simp add: valid_revision_def)

lemma valid_revision_from_ulid [simp, intro]: "valid_revision U (revision_from_ulid U u)"
  by (auto simp: valid_revision_def)

section \<open>Aggregate ids\<close>

datatype aggregate_id = AggregateId (aggregate_type: aggregate_type) (aggregate_key: string)

text \<open>Derived \<open>Ord\<close>: the type first, then the key.\<close>

instantiation aggregate_id :: linorder
begin
definition less_eq_aggregate_id :: "aggregate_id \<Rightarrow> aggregate_id \<Rightarrow> bool" where
  "a \<le> b \<longleftrightarrow> aggregate_type a < aggregate_type b \<or>
     (aggregate_type a = aggregate_type b \<and> aggregate_key a \<le> aggregate_key b)"
definition less_aggregate_id :: "aggregate_id \<Rightarrow> aggregate_id \<Rightarrow> bool" where
  "a < b \<longleftrightarrow> aggregate_type a < aggregate_type b \<or>
     (aggregate_type a = aggregate_type b \<and> aggregate_key a < aggregate_key b)"
instance
  by standard
    (auto simp: less_eq_aggregate_id_def less_aggregate_id_def aggregate_id.expand)
end

definition aggregate_id_new :: "string \<Rightarrow> string \<Rightarrow> aggregate_id" where
  "aggregate_id_new t k = AggregateId (AggregateType t) k"

definition aggregate_id_display :: "aggregate_id \<Rightarrow> string" where
  "aggregate_id_display i = aggregate_type_str (aggregate_type i) @ '':'' @ aggregate_key i"

datatype aggregate_id_parse_error = MissingColon | EmptyType | EmptyKey

definition aggregate_id_from_str :: "string \<Rightarrow> aggregate_id_parse_error + aggregate_id" where
  "aggregate_id_from_str s =
     and_then (ok_or MissingColon (split_once CHR '':'' s)) (\<lambda>(t, k).
       if t = [] then Inl EmptyType
       else if k = [] then Inl EmptyKey
       else Inr (AggregateId (AggregateType t) k))"

definition printable_id :: "aggregate_id \<Rightarrow> bool" where
  "printable_id i \<longleftrightarrow>
     CHR '':'' \<notin> set (aggregate_type_str (aggregate_type i)) \<and>
     aggregate_type_str (aggregate_type i) \<noteq> [] \<and> aggregate_key i \<noteq> []"

lemma aggregate_id_from_str_Inr:
  "aggregate_id_from_str s = Inr i \<longleftrightarrow> printable_id i \<and> s = aggregate_id_display i"
  by (cases i, rename_tac t k, case_tac t)
    (auto simp: aggregate_id_from_str_def aggregate_id_display_def printable_id_def
      result_simps text_simps split: if_splits)

text \<open>
  C40: parsing an aggregate id undoes printing it exactly for ids whose type is non-empty and
  colon-free and whose key is non-empty, and whatever parses prints back to the parsed string.
\<close>

theorem aggregate_id_roundtrip:
  "(aggregate_id_from_str (aggregate_id_display i) = Inr i \<longleftrightarrow>
      CHR '':'' \<notin> set (aggregate_type_str (aggregate_type i)) \<and>
      aggregate_type_str (aggregate_type i) \<noteq> [] \<and> aggregate_key i \<noteq> []) \<and>
   (aggregate_id_from_str s = Inr j \<longrightarrow> aggregate_id_display j = s)"
  by (auto simp: aggregate_id_from_str_Inr printable_id_def)

theorem aggregate_id_roundtrip_witness:
  "aggregate_id_display (aggregate_id_new ''run'' ''a:b'') = ''run:a:b'' \<and>
   aggregate_id_from_str ''run:a:b'' = Inr (aggregate_id_new ''run'' ''a:b'')"
  using aggregate_id_roundtrip
    [of "aggregate_id_new ''run'' ''a:b''" "''run:a:b''" "aggregate_id_new ''run'' ''a:b''"]
  by (simp add: aggregate_id_new_def aggregate_id_display_def)

text \<open>
  An id whose type holds a colon does not come back: its printed form parses to a
  different id, silently.
\<close>

theorem colon_type_misparses:
  "aggregate_id_from_str (aggregate_id_display (aggregate_id_new ''a:b'' ''c'')) =
     Inr (aggregate_id_new ''a'' ''b:c'')"
  by (simp add: aggregate_id_from_str_def aggregate_id_display_def aggregate_id_new_def ok_or_def)

end
