(* ===== verification/Codec.thy ===== *)
theory Codec
  imports Ids
begin

text \<open>
  \<^verbatim>\<open>crates/wee-events/src/codec/\<close> and the payload part of \<^verbatim>\<open>event.rs\<close>: the closed set of
  encodings, the two encoder/decoder pairs and the dispatch on \<open>Encoding\<close>, for the build with the
  \<open>cbor\<close> feature. \<open>serde_json\<close> and \<open>ciborium\<close> are a parameter: the record \<open>serde\<close> of the four
  conversions the sources call at one Rust type; their error types are known by their text only.
\<close>

type_synonym json_error = string
type_synonym cbor_error = string

record 'a serde =
  to_json :: "'a \<Rightarrow> json_error + bytes"
  from_json :: "bytes \<Rightarrow> json_error + 'a"
  to_cbor :: "'a \<Rightarrow> cbor_error + bytes"
  from_cbor :: "bytes \<Rightarrow> cbor_error + 'a"

text \<open>What \<open>DomainEvent\<close> asks of its serialisation: written values read back.\<close>

definition serde_roundtrip :: "'a serde \<Rightarrow> bool" where
  "serde_roundtrip S \<longleftrightarrow>
     (\<forall>v b. to_json S v = Inr b \<longrightarrow> from_json S b = Inr v) \<and>
     (\<forall>v b. to_cbor S v = Inr b \<longrightarrow> from_cbor S b = Inr v)"

datatype encoding = Json | Cbor

definition JSON_ENCODING :: string where "JSON_ENCODING = ''application/json''"
definition CBOR_ENCODING :: string where "CBOR_ENCODING = ''application/cbor''"

fun encoding_as_str :: "encoding \<Rightarrow> string" where
  "encoding_as_str Json = JSON_ENCODING"
| "encoding_as_str Cbor = CBOR_ENCODING"

datatype encode_error = EncodeJson json_error | EncodeCbor cbor_error

datatype decode_error =
    UnknownEncoding string
  | DecodeMismatch encoding encoding  \<comment> \<open>expected, actual\<close>
  | DecodeJson json_error
  | DecodeCbor cbor_error

datatype codec_error = CodecEncode encode_error | CodecDecode decode_error

definition from_encoding_str :: "string \<Rightarrow> decode_error + encoding" where
  "from_encoding_str s =
     (if s = JSON_ENCODING then Inr Json
      else if s = CBOR_ENCODING then Inr Cbor
      else Inl (UnknownEncoding s))"

record event_data =
  ed_encoding :: encoding
  ed_data :: bytes

definition event_data_raw :: "encoding \<Rightarrow> bytes \<Rightarrow> event_data" where
  "event_data_raw e d = \<lparr>ed_encoding = e, ed_data = d\<rparr>"

definition is_json :: "event_data \<Rightarrow> bool" where
  "is_json d = (case ed_encoding d of Json \<Rightarrow> True | Cbor \<Rightarrow> False)"

section \<open>The two codecs\<close>

definition json_serialize :: "'a serde \<Rightarrow> 'a \<Rightarrow> encode_error + event_data" where
  "json_serialize S v = map_ok (event_data_raw Json) (map_err EncodeJson (to_json S v))"

definition json_deserialize :: "'a serde \<Rightarrow> event_data \<Rightarrow> decode_error + 'a" where
  "json_deserialize S d =
     (if ed_encoding d \<noteq> Json then Inl (DecodeMismatch Json (ed_encoding d))
      else map_err DecodeJson (from_json S (ed_data d)))"

definition cbor_serialize :: "'a serde \<Rightarrow> 'a \<Rightarrow> encode_error + event_data" where
  "cbor_serialize S v = map_ok (event_data_raw Cbor) (map_err EncodeCbor (to_cbor S v))"

definition cbor_deserialize :: "'a serde \<Rightarrow> event_data \<Rightarrow> decode_error + 'a" where
  "cbor_deserialize S d =
     (if ed_encoding d \<noteq> Cbor then Inl (DecodeMismatch Cbor (ed_encoding d))
      else map_err DecodeCbor (from_cbor S (ed_data d)))"

fun encode :: "encoding \<Rightarrow> 'a serde \<Rightarrow> 'a \<Rightarrow> encode_error + event_data" where
  "encode Json S v = json_serialize S v"
| "encode Cbor S v = cbor_serialize S v"

fun decode :: "encoding \<Rightarrow> 'a serde \<Rightarrow> event_data \<Rightarrow> decode_error + 'a" where
  "decode Json S d = json_deserialize S d"
| "decode Cbor S d = cbor_deserialize S d"

text \<open>\<open>EventData::json\<close> and \<open>EventData::deserialize_json\<close>.\<close>

definition event_data_json :: "'a serde \<Rightarrow> 'a \<Rightarrow> encode_error + event_data" where
  "event_data_json S v = map_ok (\<lambda>b. \<lparr>ed_encoding = Json, ed_data = b\<rparr>) (map_err EncodeJson (to_json S v))"

definition deserialize_json :: "'a serde \<Rightarrow> event_data \<Rightarrow> decode_error + 'a" where
  "deserialize_json S d = decode Json S d"

section \<open>The contract of an encoder/decoder pair\<close>

text \<open>
  \<open>EventEncoder\<close>/\<open>EventDecoder\<close>: a payload carries its encoder's tag, and the decoder refuses a
  payload with another tag before it looks at the bytes.
\<close>

locale event_codec =
  fixes E :: encoding
    and ser :: "'a \<Rightarrow> encode_error + event_data"
    and des :: "event_data \<Rightarrow> decode_error + 'a"
  assumes ser_tag: "ser v = Inr d \<Longrightarrow> ed_encoding d = E"
    and des_mismatch: "ed_encoding d \<noteq> E \<Longrightarrow> des d = Inl (DecodeMismatch E (ed_encoding d))"
begin

lemma des_only_own_tag: "des d = Inr v \<Longrightarrow> ed_encoding d = E"
  using des_mismatch by fastforce

end

interpretation json_codec: event_codec Json "json_serialize S" "json_deserialize S" for S
  by unfold_locales
    (auto simp: json_serialize_def json_deserialize_def event_data_raw_def result_simps)

interpretation cbor_codec: event_codec Cbor "cbor_serialize S" "cbor_deserialize S" for S
  by unfold_locales
    (auto simp: cbor_serialize_def cbor_deserialize_def event_data_raw_def result_simps)

lemma encode_tag: "encode e S v = Inr d \<Longrightarrow> ed_encoding d = e"
  by (cases e) (simp_all add: json_codec.ser_tag cbor_codec.ser_tag)

lemma decode_mismatch:
  "ed_encoding d \<noteq> e \<Longrightarrow> decode e S d = Inl (DecodeMismatch e (ed_encoding d))"
  by (cases e) (simp_all add: json_codec.des_mismatch cbor_codec.des_mismatch)

lemma decode_encode:
  "serde_roundtrip S \<Longrightarrow> encode e S v = Inr d \<Longrightarrow> decode e S d = Inr v"
  by (cases e)
    (auto simp: serde_roundtrip_def json_serialize_def json_deserialize_def cbor_serialize_def
      cbor_deserialize_def event_data_raw_def result_simps)

lemma from_encoding_str_Inr: "from_encoding_str s = Inr e \<longleftrightarrow> s = encoding_as_str e"
  by (cases e) (auto simp: from_encoding_str_def JSON_ENCODING_def CBOR_ENCODING_def)

lemma from_encoding_str_as_str [simp]: "from_encoding_str (encoding_as_str e) = Inr e"
  by (simp add: from_encoding_str_Inr)

lemma event_data_json_encode: "event_data_json S v = encode Json S v"
  by (simp add: event_data_json_def json_serialize_def event_data_raw_def [abs_def])

text \<open>
  A payload written under an encoding is tagged with it; decoding it under the same encoding
  returns the value, under the other one it is an encoding mismatch naming both; and the tag's
  text resolves back to the encoding.
\<close>

theorem codec_roundtrip:
  assumes "serde_roundtrip S" and "encode e S v = Inr d"
  shows "decode e' S d = (if e' = e then Inr v else Inl (DecodeMismatch e' e)) \<and>
    from_encoding_str (encoding_as_str (ed_encoding d)) = Inr e"
  using assms by (auto simp: decode_encode decode_mismatch encode_tag)

text \<open>A concrete codec on one byte: JSON as the byte itself, CBOR with a leading tag byte.\<close>

definition byte_serde :: "8 word serde" where
  "byte_serde = \<lparr>to_json = (\<lambda>v. Inr [v]),
     from_json = (\<lambda>b. case b of [v] \<Rightarrow> Inr v | _ \<Rightarrow> Inl ''eof''),
     to_cbor = (\<lambda>v. Inr [24, v]),
     from_cbor = (\<lambda>b. case b of [t, v] \<Rightarrow> Inr v | _ \<Rightarrow> Inl ''eof'')\<rparr>"

lemma byte_serde_roundtrip: "serde_roundtrip byte_serde"
  by (auto simp: serde_roundtrip_def byte_serde_def)

theorem codec_roundtrip_witness:
  "encode Cbor byte_serde 7 = Inr \<lparr>ed_encoding = Cbor, ed_data = [24, 7]\<rparr> \<and>
   decode Json byte_serde \<lparr>ed_encoding = Cbor, ed_data = [24, 7]\<rparr> = Inl (DecodeMismatch Json Cbor)"
proof -
  have e: "encode Cbor byte_serde 7 = Inr \<lparr>ed_encoding = Cbor, ed_data = [24, 7]\<rparr>"
    by (simp add: cbor_serialize_def event_data_raw_def byte_serde_def)
  show ?thesis using codec_roundtrip [OF byte_serde_roundtrip e, of Json] e by simp
qed

end
