(* ===== verification/Events.thy ===== *)
theory Events
  imports Codec
begin

text \<open>
  \<^verbatim>\<open>crates/wee-events/src/\<close>: \<^verbatim>\<open>event.rs\<close>, \<^verbatim>\<open>aggregate.rs\<close>, \<^verbatim>\<open>entity.rs\<close>,
  \<^verbatim>\<open>error.rs\<close>, the option and event structs of \<^verbatim>\<open>store.rs\<close>, and
  \<^verbatim>\<open>crates/wee-events-sqlite/src/error.rs\<close>. \<open>Arc\<close> sharing is invisible to every reader
  (events are never mutated), so an \<open>Arc<RecordedEvent>\<close> is the event.
\<close>

section \<open>Decimal text\<close>

text \<open>\<open>Display\<close> of the unsigned integers.\<close>

definition digit_char :: "nat \<Rightarrow> char" where
  "digit_char d = char_of (48 + d)"

fun decimal :: "nat \<Rightarrow> string" where
  "decimal n = (if n < 10 then [digit_char n] else decimal (n div 10) @ [digit_char (n mod 10)])"

declare decimal.simps [simp del]

text \<open>\<open>Display\<close> of \<open>RevisionParseError\<close> and \<open>DecodeError\<close>, given the ulid crate's text.\<close>

fun revision_parse_error_display ::
  "(ulid_decode_error \<Rightarrow> string) \<Rightarrow> revision_parse_error \<Rightarrow> string" where
  "revision_parse_error_display text (WrongLength n) =
     ''revision must be 26 chars (ULID); got '' @ decimal n @ '' chars''"
| "revision_parse_error_display text (InvalidUlid e) =
     ''revision is not a valid ULID: '' @ text e"

fun encoding_debug :: "encoding \<Rightarrow> string" where
  "encoding_debug Json = ''Json''"
| "encoding_debug Cbor = ''Cbor''"

fun decode_error_display :: "decode_error \<Rightarrow> string" where
  "decode_error_display (UnknownEncoding e) = ''unknown encoding: '' @ e"
| "decode_error_display (DecodeMismatch e a) =
     ''encoding mismatch: expected '' @ encoding_debug e @ '', actual '' @ encoding_debug a"
| "decode_error_display (DecodeJson e) = ''json decode: '' @ e"
| "decode_error_display (DecodeCbor e) = ''cbor decode: '' @ e"

fun encode_error_display :: "encode_error \<Rightarrow> string" where
  "encode_error_display (EncodeJson e) = ''json encode: '' @ e"
| "encode_error_display (EncodeCbor e) = ''cbor encode: '' @ e"

fun aggregate_id_parse_error_display :: "aggregate_id_parse_error \<Rightarrow> string" where
  "aggregate_id_parse_error_display MissingColon =
     ''aggregate ID must contain a colon separating type and key''"
| "aggregate_id_parse_error_display EmptyType = ''aggregate type (before colon) must not be empty''"
| "aggregate_id_parse_error_display EmptyKey = ''aggregate key (after colon) must not be empty''"

section \<open>Recorded events\<close>

record event_metadata =
  md_causation_id :: "event_id option"
  md_correlation_id :: "correlation_id option"

record recorded_event =
  re_event_id :: event_id
  re_event_type :: event_type
  re_revision :: revision
  re_metadata :: event_metadata
  re_data :: event_data

record change_set =
  cs_aggregate_id :: aggregate_id
  cs_revision :: revision
  cs_events :: "recorded_event list"

record raw_event =
  raw_event_type :: event_type
  raw_data :: event_data

record publish_options =
  expected_revision :: "revision option"
  opt_correlation_id :: "correlation_id option"
  opt_causation_id :: "event_id option"

definition default_options :: publish_options where
  "default_options = \<lparr>expected_revision = None, opt_correlation_id = None, opt_causation_id = None\<rparr>"

text \<open>\<open>to_raw_event\<close> of \<^verbatim>\<open>lib.rs\<close>: JSON-encodes a domain event.\<close>

definition to_raw_event ::
  "('e \<Rightarrow> event_type) \<Rightarrow> 'e serde \<Rightarrow> 'e \<Rightarrow> encode_error + raw_event" where
  "to_raw_event event_type_of S e =
     map_ok (\<lambda>d. \<lparr>raw_event_type = event_type_of e, raw_data = d\<rparr>) (encode Json S e)"

section \<open>Aggregates\<close>

record aggregate =
  agg_id :: aggregate_id
  agg_events :: "recorded_event list"
  agg_revision :: revision

definition aggregate_empty :: "aggregate_id \<Rightarrow> aggregate" where
  "aggregate_empty i = \<lparr>agg_id = i, agg_events = [], agg_revision = revision_zero\<rparr>"

definition from_shared_events :: "aggregate_id \<Rightarrow> recorded_event list \<Rightarrow> aggregate" where
  "from_shared_events i es =
     (let r = (case last_opt es of Some e \<Rightarrow> re_revision e | None \<Rightarrow> revision_zero)
      in \<lparr>agg_id = i, agg_events = es, agg_revision = r\<rparr>)"

definition from_events :: "aggregate_id \<Rightarrow> recorded_event list \<Rightarrow> aggregate" where
  "from_events i es = from_shared_events i (map (\<lambda>e. e) es)"

definition into_parts :: "aggregate \<Rightarrow> aggregate_id \<times> recorded_event list \<times> revision" where
  "into_parts a = (agg_id a, agg_events a, agg_revision a)"

definition aggregate_is_empty :: "aggregate \<Rightarrow> bool" where
  "aggregate_is_empty a = (agg_events a = [])"

definition aggregate_len :: "aggregate \<Rightarrow> nat" where
  "aggregate_len a = length (agg_events a)"

text \<open>The revision a stream stands at.\<close>

definition stream_revision :: "recorded_event list \<Rightarrow> revision" where
  "stream_revision es = (case last_opt es of Some e \<Rightarrow> re_revision e | None \<Rightarrow> revision_zero)"

lemma stream_revision_simps [simp]:
  "stream_revision [] = revision_zero"
  "stream_revision (es @ [e]) = re_revision e"
  by (simp_all add: stream_revision_def)

lemma stream_revision_append:
  "stream_revision (es @ fs) = (if fs = [] then stream_revision es else stream_revision fs)"
  by (simp add: stream_revision_def last_opt_append)

lemma stream_revision_last: "es \<noteq> [] \<Longrightarrow> stream_revision es = re_revision (last es)"
  by (simp add: stream_revision_def last_opt_def)

lemma from_shared_events_simps [simp]:
  "agg_id (from_shared_events i es) = i"
  "agg_events (from_shared_events i es) = es"
  "agg_revision (from_shared_events i es) = stream_revision es"
  by (simp_all add: from_shared_events_def stream_revision_def Let_def)

lemma from_events_eq [simp]: "from_events i es = from_shared_events i es"
  by (simp add: from_events_def)

lemma from_shared_events_Nil: "from_shared_events i [] = aggregate_empty i"
  by (simp add: from_shared_events_def aggregate_empty_def)

section \<open>Entities\<close>

record 's entity =
  ent_aggregate_id :: aggregate_id
  ent_revision :: revision
  ent_state :: 's

definition initialized :: "'s entity \<Rightarrow> bool" where
  "initialized e = (\<not> revision_is_zero (ent_revision e))"

definition entity_aggregate_type :: "'s entity \<Rightarrow> aggregate_type" where
  "entity_aggregate_type e = aggregate_type (ent_aggregate_id e)"

definition entity_map :: "('s \<Rightarrow> 't) \<Rightarrow> 's entity \<Rightarrow> 't entity" where
  "entity_map f e = \<lparr>ent_aggregate_id = ent_aggregate_id e, ent_revision = ent_revision e,
     ent_state = f (ent_state e)\<rparr>"

section \<open>Errors\<close>

record retry_diagnostics =
  last_attempted_revision :: revision
  observed_max_revision :: revision
  possible_clock_skew :: "u64 option"

definition retry_diagnostics_display :: "retry_diagnostics \<Rightarrow> string" where
  "retry_diagnostics_display d =
     ''last attempted revision '' @ revision_str (last_attempted_revision d) @
     '', observed max revision '' @ revision_str (observed_max_revision d) @
     (case possible_clock_skew d of
        Some ms \<Rightarrow> '', possible clock skew '' @ decimal (unat ms) @ '' ms''
      | None \<Rightarrow> [])"

text \<open>The variants of \<open>libsql::Error\<close> that the sources match on; every other one is its text.\<close>

datatype libsql_error =
    SqliteFailure int string
  | RemoteSqliteFailure int int string
  | ConnectionFailed string
  | Hrana string
  | WriteDelegation string
  | OtherLibsql string

text \<open>
  \<open>wee_events::Error\<close> and the SQLite crate's \<open>Error\<close> contain each other: the former boxes any
  error in \<open>Custom\<close>, the latter wraps the former in \<open>WeeEvents\<close>. \<open>boxed\<close> lists the concrete
  errors that the sources box. \<open>Panicked\<close> is a Rust panic made visible as a value.
\<close>

datatype error =
    RevisionConflict revision revision  \<comment> \<open>expected, actual\<close>
  | EncodingMismatch string string
  | UnhandledEventType string
  | Custom boxed
and boxed =
    MonotonicError
  | RetryExhausted nat retry_diagnostics
  | BoxEncode encode_error
  | BoxDecode decode_error
  | BoxJson json_error
  | BoxReduce string
  | BoxSqlite sqlite_error
  | Panicked string
and sqlite_error =
    Libsql libsql_error
  | Io string
  | Serialization json_error
  | Configuration string
  | Internal string
  | WeeEvents error

definition retry_exhausted :: "nat \<Rightarrow> retry_diagnostics \<Rightarrow> error" where
  "retry_exhausted attempts d = Custom (RetryExhausted attempts d)"

fun downcast_retry_exhausted :: "error \<Rightarrow> (nat \<times> retry_diagnostics) option" where
  "downcast_retry_exhausted (Custom (RetryExhausted n d)) = Some (n, d)"
| "downcast_retry_exhausted e = None"

text \<open>\<open>Display\<close> of both types; the texts of \<open>libsql::Error\<close> and of the ulid crate's error are given.\<close>

record foreign_display =
  fd_libsql :: "libsql_error \<Rightarrow> string"
  fd_monotonic :: string

fun error_display :: "foreign_display \<Rightarrow> error \<Rightarrow> string"
  and boxed_display :: "foreign_display \<Rightarrow> boxed \<Rightarrow> string"
  and sqlite_error_display :: "foreign_display \<Rightarrow> sqlite_error \<Rightarrow> string" where
  "error_display F (RevisionConflict expected actual) =
     ''revision conflict: expected '' @ revision_str expected @ '', found '' @ revision_str actual"
| "error_display F (EncodingMismatch expected actual) =
     ''encoding mismatch: expected '' @ expected @ '', actual '' @ actual"
| "error_display F (UnhandledEventType t) = ''unhandled event type: '' @ t"
| "error_display F (Custom b) = boxed_display F b"
| "boxed_display F MonotonicError = fd_monotonic F"
| "boxed_display F (RetryExhausted attempts d) =
     ''publish failed after '' @ decimal attempts @ '' attempts ('' @ retry_diagnostics_display d @ '')''"
| "boxed_display F (BoxEncode e) = encode_error_display e"
| "boxed_display F (BoxDecode e) = decode_error_display e"
| "boxed_display F (BoxJson e) = e"
| "boxed_display F (BoxReduce e) = e"
| "boxed_display F (BoxSqlite e) = sqlite_error_display F e"
| "boxed_display F (Panicked message) = message"
| "sqlite_error_display F (Libsql e) = ''libsql error: '' @ fd_libsql F e"
| "sqlite_error_display F (Io e) = ''io error: '' @ e"
| "sqlite_error_display F (Serialization e) = ''serialization error: '' @ e"
| "sqlite_error_display F (Configuration message) = ''configuration error: '' @ message"
| "sqlite_error_display F (Internal message) = ''internal error: '' @ message"
| "sqlite_error_display F (WeeEvents e) = error_display F e"

definition error_from_encode :: "encode_error \<Rightarrow> error" where
  "error_from_encode e = Custom (BoxEncode e)"

definition error_from_decode :: "decode_error \<Rightarrow> error" where
  "error_from_decode e = Custom (BoxDecode e)"

definition error_from_json :: "json_error \<Rightarrow> error" where
  "error_from_json e = Custom (BoxJson e)"

text \<open>\<open>From<wee_events_sqlite::Error> for wee_events::Error\<close>.\<close>

fun error_from_sqlite :: "sqlite_error \<Rightarrow> error" where
  "error_from_sqlite (WeeEvents e) = e"
| "error_from_sqlite other = Custom (BoxSqlite other)"

lemma error_from_sqlite_conflict:
  "error_from_sqlite e = RevisionConflict x a \<longleftrightarrow> e = WeeEvents (RevisionConflict x a)"
  by (cases e) auto

lemma error_from_sqlite_inj: "error_from_sqlite e = error_from_sqlite d \<Longrightarrow>
  (\<And>x. e \<noteq> WeeEvents x) \<Longrightarrow> (\<And>x. d \<noteq> WeeEvents x) \<Longrightarrow> e = d"
  by (cases e; cases d) auto

text \<open>The metadata a publish attaches to every event of its batch.\<close>

definition options_metadata :: "publish_options \<Rightarrow> event_metadata" where
  "options_metadata opts =
     \<lparr>md_causation_id = opt_causation_id opts, md_correlation_id = opt_correlation_id opts\<rparr>"

text \<open>A recorded event is the record of this raw event under these options.\<close>

definition records :: "publish_options \<Rightarrow> raw_event \<Rightarrow> recorded_event \<Rightarrow> bool" where
  "records opts raw e \<longleftrightarrow>
     re_event_type e = raw_event_type raw \<and> re_data e = raw_data raw \<and>
     re_metadata e = options_metadata opts"

definition revisions :: "recorded_event list \<Rightarrow> revision list" where
  "revisions es = map re_revision es"

lemma revisions_simps [simp]:
  "revisions [] = []"
  "revisions (e # es) = re_revision e # revisions es"
  "revisions (es @ fs) = revisions es @ revisions fs"
  "length (revisions es) = length es"
  by (simp_all add: revisions_def)

lemma stream_revision_in: "es \<noteq> [] \<Longrightarrow> stream_revision es \<in> set (revisions es)"
  by (simp add: stream_revision_last revisions_def)

lemma strictly_increasing_stream_revision:
  assumes "strictly_increasing (revisions es)" and "r \<in> set (revisions es)"
  shows "r \<le> stream_revision es"
proof (cases "es = []")
  case False
  with strictly_increasing_last [OF assms] show ?thesis
    by (simp add: stream_revision_last revisions_def last_map)
qed (use assms in simp)

end
