(* ===== verification/StoreContract.thy ===== *)
theory StoreContract
  imports Events "HOL-Library.Sublist"
begin

text \<open>
  \<^verbatim>\<open>crates/wee-events/src/store.rs\<close>: the \<open>EventStore\<close> trait with its two operations, as a
  record of state-passing functions (the state is everything behind \<open>&self\<close>), and the contract
  that the conformance suite checks by example, as a locale. The contract abstracts a store state
  to one stream of recorded events per aggregate. The blanket impls for \<open>Arc<T>\<close> forward both
  calls and are the same record.
\<close>

record 'st store_ops =
  st_load :: "'st \<Rightarrow> aggregate_id \<Rightarrow> (error + aggregate) \<times> 'st"
  st_publish :: "'st \<Rightarrow> aggregate_id \<Rightarrow> publish_options \<Rightarrow> raw_event list \<Rightarrow>
    (error + change_set) \<times> 'st"
  st_encoding :: "'st \<Rightarrow> encoding"

locale event_store =
  fixes ops :: "'st store_ops"
    and inv :: "'st \<Rightarrow> bool"
    and stream :: "'st \<Rightarrow> aggregate_id \<Rightarrow> recorded_event list"
  assumes load_keeps: "inv s \<Longrightarrow> st_load ops s i = (l, s') \<Longrightarrow> inv s' \<and> stream s' = stream s"
    and load_reads: "inv s \<Longrightarrow> st_load ops s i = (Inr a, s') \<Longrightarrow>
      a = from_shared_events i (stream s i)"
    and publish_keeps: "inv s \<Longrightarrow> st_publish ops s i opts raws = (r, s') \<Longrightarrow> inv s'"
    and publish_fails: "inv s \<Longrightarrow> st_publish ops s i opts raws = (Inl e, s') \<Longrightarrow>
      stream s' = stream s"
    and publish_appends: "inv s \<Longrightarrow> st_publish ops s i opts raws = (Inr cs, s') \<Longrightarrow>
      stream s' = (stream s)(i := stream s i @ cs_events cs) \<and>
      list_all2 (records opts) raws (cs_events cs) \<and>
      cs_aggregate_id cs = i \<and> cs_revision cs = stream_revision (stream s' i)"
    and publish_expected: "inv s \<Longrightarrow> st_publish ops s i opts raws = (Inr cs, s') \<Longrightarrow> raws \<noteq> [] \<Longrightarrow>
      expected_revision opts = Some x \<Longrightarrow> x = stream_revision (stream s i)"
    and stream_increasing: "inv s \<Longrightarrow> strictly_increasing (revisions (stream s i))"
    and stream_nonzero: "inv s \<Longrightarrow> v \<in> set (revisions (stream s i)) \<Longrightarrow> revision_zero < v"
begin

lemma publish_extends:
  assumes "inv s" and "st_publish ops s i opts raws = (r, s')"
  shows "prefix (stream s j) (stream s' j)"
proof (cases r)
  case (Inl e)
  with assms show ?thesis by (simp add: publish_fails [of s i opts raws e s'])
next
  case (Inr cs)
  with publish_appends [of s i opts raws cs s'] assms show ?thesis by simp
qed

lemma revision_zero_iff_empty:
  assumes "inv s"
  shows "stream_revision (stream s i) = revision_zero \<longleftrightarrow> stream s i = []"
  using stream_nonzero [OF assms, of "stream_revision (stream s i)" i]
    stream_revision_in [of "stream s i"] by (cases "stream s i = []") auto

lemma extension_advances:
  assumes "inv t" and "stream t i = es @ fs" and "fs \<noteq> []"
  shows "stream_revision es < stream_revision (stream t i)"
proof (cases "es = []")
  case True
  have "stream_revision (stream t i) \<in> set (revisions (stream t i))"
    using assms(2,3) by (intro stream_revision_in) auto
  with stream_nonzero [OF assms(1)] True show ?thesis by auto
next
  case False
  have "strictly_increasing (revisions (es @ fs))"
    using stream_increasing [OF assms(1), of i] assms(2) by simp
  then have "stream_revision es < stream_revision fs"
    using stream_revision_in [OF False] stream_revision_in [OF assms(3)]
    by (simp add: strictly_increasing_append)
  with assms(2,3) show ?thesis by (simp add: stream_revision_append)
qed

lemma publish_advances:
  assumes "inv s" and "st_publish ops s i opts raws = (Inr cs, s')" and "raws \<noteq> []"
  shows "stream_revision (stream s i) < cs_revision cs"
proof -
  note A = publish_appends [OF assms(1,2)]
  from A assms(3) have "cs_events cs \<noteq> []" by auto
  moreover have "inv s'" by (rule publish_keeps [OF assms(1,2)])
  ultimately show ?thesis using A extension_advances [of s' i "stream s i" "cs_events cs"] by simp
qed

text \<open>
  Optimistic concurrency: once a publish against revision \<open>x\<close> has been accepted, no later
  publish against \<open>x\<close> to the same aggregate is, whatever happened in between.
\<close>

lemma no_second_publish:
  assumes "inv s" and "st_publish ops s i o1 raws1 = (Inr cs1, s1)" and "raws1 \<noteq> []"
    and "expected_revision o1 = Some x"
    and "inv t" and "prefix (stream s1 i) (stream t i)"
    and "st_publish ops t i o2 raws2 = (r, t')" and "raws2 \<noteq> []"
    and "expected_revision o2 = Some x"
  shows "\<exists>e. r = Inl e"
proof (rule ccontr)
  assume "\<not> (\<exists>e. r = Inl e)"
  then obtain cs2 where r: "r = Inr cs2" by (cases r) auto
  have x1: "x = stream_revision (stream s i)"
    by (rule publish_expected [OF assms(1,2,3,4)])
  have x2: "x = stream_revision (stream t i)"
    using assms(7) r by (intro publish_expected [OF assms(5) _ assms(8,9)]) simp
  note A = publish_appends [OF assms(1,2)]
  from A assms(3) have "cs_events cs1 \<noteq> []" by auto
  moreover from A assms(6) obtain zs where "stream t i = stream s i @ (cs_events cs1 @ zs)"
    by (auto simp: prefix_def)
  ultimately have "stream_revision (stream s i) < stream_revision (stream t i)"
    using extension_advances [OF assms(5), of i "stream s i" "cs_events cs1 @ zs"] by auto
  with x1 x2 show False by simp
qed

lemma load_after_publish:
  assumes "inv s" and "st_publish ops s i opts raws = (Inr cs, s')"
    and "st_load ops s' i = (Inr a, s'')"
  shows "a = from_shared_events i (stream s i @ cs_events cs)"
  using load_reads [OF publish_keeps [OF assms(1,2)] assms(3)] publish_appends [OF assms(1,2)]
  by simp

end

end
