(* ===== verification/UlidInstance.thy ===== *)
theory UlidInstance
  imports Ids
begin

text \<open>
  The documented behaviour of the \<open>ulid\<close> crate is satisfiable: a concrete codec (26 Crockford
  base-32 digits, most significant first) and a concrete monotonic generator (increment, failing
  at the largest value), for which the hypotheses \<open>ulid_laws\<close> and \<open>monotonic_generator\<close> are
  proved. The witnesses of the development run on this instance.
\<close>

definition crockford :: string where
  "crockford = ''0123456789ABCDEFGHJKMNPQRSTVWXYZ''"

fun digits32 :: "nat \<Rightarrow> nat \<Rightarrow> string" where
  "digits32 0 v = []"
| "digits32 (Suc n) v = digits32 n (v div 32) @ [crockford ! (v mod 32)]"

fun digit_value :: "char \<Rightarrow> string \<Rightarrow> nat \<Rightarrow> nat option" where
  "digit_value c [] k = None"
| "digit_value c (x # xs) k = (if x = c then Some k else digit_value c xs (Suc k))"

fun parse32 :: "nat \<Rightarrow> string \<Rightarrow> nat option" where
  "parse32 acc [] = Some acc"
| "parse32 acc (c # cs) =
     (case digit_value c crockford 0 of None \<Rightarrow> None | Some d \<Rightarrow> parse32 (32 * acc + d) cs)"

definition crockford_codec :: ulid_codec where
  "crockford_codec =
     \<lparr>ulid_to_string = (\<lambda>u. digits32 26 (unat u)),
      ulid_from_string = (\<lambda>s. if length s \<noteq> 26 then Inl InvalidLength
        else case parse32 0 s of None \<Rightarrow> Inl InvalidChar | Some n \<Rightarrow> Inr (word_of_nat n)),
      ulid_timestamp_ms = (\<lambda>u. ucast (drop_bit 80 u))\<rparr>"

definition counter_generator :: "ulid generator" where
  "counter_generator u = (if u = - 1 then (None, u) else (Some (u + 1), u + 1))"

lemma length_crockford [simp]: "length crockford = 32"
  by (simp add: crockford_def)

lemma length_digits32 [simp]: "length (digits32 n v) = n"
  by (induction n arbitrary: v) auto

lemma crockford_sorted: "sorted_wrt (<) crockford"
  by (simp add: crockford_def less_char_def)

lemma crockford_less: "a < b \<Longrightarrow> b < 32 \<Longrightarrow> crockford ! a < crockford ! b"
  using crockford_sorted by (simp add: sorted_wrt_iff_nth_less)

lemma digit_value_nth:
  "distinct xs \<Longrightarrow> d < length xs \<Longrightarrow> digit_value (xs ! d) xs k = Some (k + d)"
proof (induction xs arbitrary: d k)
  case (Cons x xs)
  then show ?case by (cases d) auto
qed simp

lemma digit_value_crockford: "d < 32 \<Longrightarrow> digit_value (crockford ! d) crockford 0 = Some d"
  using digit_value_nth [of crockford d 0] strictly_increasing_distinct [OF crockford_sorted]
  by simp

lemma parse32_append:
  "parse32 acc (xs @ ys) =
     (case parse32 acc xs of None \<Rightarrow> None | Some a \<Rightarrow> parse32 a ys)"
  by (induction xs arbitrary: acc) (auto split: option.splits)

lemma parse32_digits32: "parse32 acc (digits32 n v) = Some (acc * 32 ^ n + v mod 32 ^ n)"
proof (induction n arbitrary: acc v)
  case (Suc n)
  have "v mod 32 ^ Suc n = 32 * (v div 32 mod 32 ^ n) + v mod 32"
    using mod_mult2_eq [of v 32 "32 ^ n"] by simp
  then show ?case
    by (simp add: Suc parse32_append digit_value_crockford)
qed simp

lemma list_less_snoc:
  fixes a :: char
  assumes "length xs = length ys"
  shows "xs @ [a] < ys @ [b] \<longleftrightarrow> xs < ys \<or> xs = ys \<and> a < b"
  using assms by (induction xs ys rule: list_induct2) auto

lemma digits32_less:
  "v < w \<Longrightarrow> w < 32 ^ n \<Longrightarrow> digits32 n v < digits32 n w"
proof (induction n arbitrary: v w)
  case (Suc n)
  show ?case
  proof (cases "v div 32 = w div 32")
    case True
    with Suc.prems(1) have "v mod 32 < w mod 32"
      by (metis div_mult_mod_eq nat_add_left_cancel_less)
    with True show ?thesis by (simp add: list_less_snoc crockford_less)
  next
    case False
    with Suc.prems(1) have "v div 32 < w div 32"
      by (meson div_le_mono le_neq_implies_less less_imp_le)
    moreover have "w div 32 < 32 ^ n" using Suc.prems(2) by (simp add: div_less_iff_less_mult mult.commute)
    ultimately show ?thesis using Suc.IH [of "v div 32" "w div 32"] by (simp add: list_less_snoc)
  qed
qed simp

lemma digits32_0: "digits32 26 0 = ZERO_REVISION"
  by code_simp

lemma unat_ulid_bound: "unat (u :: ulid) < 32 ^ 26"
proof -
  have "unat u < 2 ^ 128" by (rule order_less_le_trans [OF unsigned_less]) simp
  then show ?thesis by simp
qed

lemma crockford_laws: "ulid_laws crockford_codec"
proof -
  have "parse32 0 (digits32 26 (unat u)) = Some (unat u)" for u :: ulid
    by (simp only: parse32_digits32 mod_less [OF unat_ulid_bound] mult_0 add_0)
  then have "ulid_from_string crockford_codec (ulid_to_string crockford_codec u) = Inr u" for u
    by (simp add: crockford_codec_def del: digits32.simps)
  moreover have "u < v \<Longrightarrow> ulid_to_string crockford_codec u < ulid_to_string crockford_codec v" for u v
    using digits32_less [OF _ unat_ulid_bound, of "unat u" v]
    by (simp add: crockford_codec_def word_less_nat_alt del: digits32.simps)
  moreover have "length (ulid_to_string crockford_codec u) = 26" for u
    unfolding crockford_codec_def by (simp only: ulid_codec.simps length_digits32)
  moreover have "ulid_to_string crockford_codec 0 = ZERO_REVISION"
    by (simp add: crockford_codec_def digits32_0 del: digits32.simps)
  ultimately show ?thesis by (simp add: ulid_laws_def)
qed

lemma counter_generator_monotonic: "monotonic_generator counter_generator id"
proof -
  have "u < u + 1" if "u \<noteq> - 1" for u :: ulid
  proof -
    from that have "1 + u \<noteq> 0" using max_word_wrap [of u] by (auto simp: add.commute)
    then show ?thesis by (simp add: word_less_nat_alt unatSuc add.commute [of u])
  qed
  then show ?thesis by (simp add: monotonic_generator_def counter_generator_def)
qed

end
