(* ===== verification/MemoryStore.thy ===== *)
theory MemoryStore
  imports StoreContract UlidInstance "HOL-Library.AList"
begin

text \<open>
  \<^verbatim>\<open>crates/wee-events/src/memory_store.rs\<close>: the in-memory store. \<open>DashMap\<close> is an association
  list with distinct keys, in insertion order (the code promises no order); the generator is the
  state of the third-party \<open>ulid::Generator\<close>, driven by the parameter \<open>gen\<close>. This theory runs
  each call alone; \<^verbatim>\<open>MemoryConcurrent\<close> splits \<open>publish\<close> at its lock acquisitions.
\<close>

record 'g memory_store =
  ms_streams :: "(aggregate_id \<times> recorded_event list) list"
  ms_generator :: 'g

definition memory_new :: "'g \<Rightarrow> 'g memory_store" where
  "memory_new g = \<lparr>ms_streams = [], ms_generator = g\<rparr>"

text \<open>Mints \<open>count\<close> pairs under one acquisition of the generator lock.\<close>

fun mint_event_ids ::
  "ulid_codec \<Rightarrow> 'g generator \<Rightarrow> nat \<Rightarrow> 'g \<Rightarrow> (error + (event_id \<times> revision) list) \<times> 'g" where
  "mint_event_ids U gen 0 g = (Inr [], g)"
| "mint_event_ids U gen (Suc n) g =
     (case gen g of
        (None, g1) \<Rightarrow> (Inl (Custom MonotonicError), g1)
      | (Some event_id, g1) \<Rightarrow>
          (case gen g1 of
             (None, g2) \<Rightarrow> (Inl (Custom MonotonicError), g2)
           | (Some rv, g2) \<Rightarrow>
               (case mint_event_ids U gen n g2 of
                  (Inl e, g3) \<Rightarrow> (Inl e, g3)
                | (Inr out, g3) \<Rightarrow>
                    (Inr ((EventId (ulid_to_string U event_id), revision_from_ulid U rv) # out),
                     g3))))"

definition load_sync :: "'g memory_store \<Rightarrow> aggregate_id \<Rightarrow> aggregate" where
  "load_sync s i =
     (case map_of (ms_streams s) i of
        Some events \<Rightarrow> if events = [] then aggregate_empty i else from_shared_events i events
      | None \<Rightarrow> aggregate_empty i)"

definition current_revision_sync :: "'g memory_store \<Rightarrow> aggregate_id \<Rightarrow> revision" where
  "current_revision_sync s i =
     (case Option.bind (map_of (ms_streams s) i) (\<lambda>es. map_option re_revision (last_opt es)) of
        Some r \<Rightarrow> r
      | None \<Rightarrow> revision_zero)"

definition stream_for :: "'g memory_store \<Rightarrow> aggregate_id \<Rightarrow> 'g memory_store" where
  "stream_for s i =
     (case map_of (ms_streams s) i of
        Some _ \<Rightarrow> s
      | None \<Rightarrow> s\<lparr>ms_streams := AList.update i [] (ms_streams s)\<rparr>)"

text \<open>
  \<open>publish_sync\<close> in its three parts: resolving the stream (which may insert an empty one or fail),
  the re-check under the stream's write lock, and the append.
\<close>

definition resolve_stream ::
  "'g memory_store \<Rightarrow> aggregate_id \<Rightarrow> publish_options \<Rightarrow> error + 'g memory_store" where
  "resolve_stream s i opts =
     (case map_of (ms_streams s) i of
        Some _ \<Rightarrow> Inr s
      | None \<Rightarrow>
          (case expected_revision opts of
             Some expected \<Rightarrow>
               if \<not> revision_is_zero expected then Inl (RevisionConflict expected revision_zero)
               else Inr (stream_for s i)
           | None \<Rightarrow> Inr (stream_for s i)))"

definition check_expected :: "recorded_event list \<Rightarrow> publish_options \<Rightarrow> error option" where
  "check_expected events opts =
     (case expected_revision opts of
        None \<Rightarrow> None
      | Some expected \<Rightarrow>
          let actual_ref = map_option re_revision (last_opt events);
              matches = (case actual_ref of
                           Some r \<Rightarrow> r = expected
                         | None \<Rightarrow> revision_is_zero expected)
          in if \<not> matches
             then Some (RevisionConflict expected
                    (case actual_ref of Some r \<Rightarrow> r | None \<Rightarrow> revision_zero))
             else None)"

definition record_event ::
  "event_metadata \<Rightarrow> raw_event \<Rightarrow> event_id \<times> revision \<Rightarrow> recorded_event" where
  "record_event metadata raw minted =
     \<lparr>re_event_id = fst minted, re_event_type = raw_event_type raw, re_revision = snd minted,
      re_metadata = metadata, re_data = raw_data raw\<rparr>"

definition append_locked ::
  "ulid_codec \<Rightarrow> 'g generator \<Rightarrow> 'g memory_store \<Rightarrow> aggregate_id \<Rightarrow> publish_options \<Rightarrow>
    raw_event list \<Rightarrow> (error + change_set) \<times> 'g memory_store" where
  "append_locked U gen s i opts events =
     (let guard = (case map_of (ms_streams s) i of Some es \<Rightarrow> es | None \<Rightarrow> []) in
      case check_expected guard opts of
        Some e \<Rightarrow> (Inl e, s)
      | None \<Rightarrow>
          (case mint_event_ids U gen (length events) (ms_generator s) of
             (Inl e, g) \<Rightarrow> (Inl e, s\<lparr>ms_generator := g\<rparr>)
           | (Inr minted, g) \<Rightarrow>
               let recorded = map (\<lambda>(raw, m). record_event (options_metadata opts) raw m)
                     (zip events minted)
               in case last_opt recorded of
                    None \<Rightarrow> (Inl (Custom (Panicked ''recorded is non-empty'')), s\<lparr>ms_generator := g\<rparr>)
                  | Some e \<Rightarrow>
                      (Inr \<lparr>cs_aggregate_id = i, cs_revision = re_revision e, cs_events = recorded\<rparr>,
                       s\<lparr>ms_streams := AList.update i (guard @ recorded) (ms_streams s),
                         ms_generator := g\<rparr>)))"

definition publish_sync ::
  "ulid_codec \<Rightarrow> 'g generator \<Rightarrow> 'g memory_store \<Rightarrow> aggregate_id \<Rightarrow> publish_options \<Rightarrow>
    raw_event list \<Rightarrow> (error + change_set) \<times> 'g memory_store" where
  "publish_sync U gen s i opts events =
     (case resolve_stream s i opts of
        Inl e \<Rightarrow> (Inl e, s)
      | Inr s1 \<Rightarrow> append_locked U gen s1 i opts events)"

definition memory_load ::
  "'g memory_store \<Rightarrow> aggregate_id \<Rightarrow> (error + aggregate) \<times> 'g memory_store" where
  "memory_load s i = (Inr (load_sync s i), s)"

definition memory_publish ::
  "ulid_codec \<Rightarrow> 'g generator \<Rightarrow> 'g memory_store \<Rightarrow> aggregate_id \<Rightarrow> publish_options \<Rightarrow>
    raw_event list \<Rightarrow> (error + change_set) \<times> 'g memory_store" where
  "memory_publish U gen s i opts events =
     (if events = []
      then (Inr \<lparr>cs_aggregate_id = i, cs_revision = current_revision_sync s i, cs_events = []\<rparr>, s)
      else publish_sync U gen s i opts events)"

definition enumerate_aggregates :: "'g memory_store \<Rightarrow> aggregate_id list" where
  "enumerate_aggregates s = map fst (ms_streams s)"

definition enumerate_aggregates_by_type ::
  "'g memory_store \<Rightarrow> aggregate_type \<Rightarrow> aggregate_id list" where
  "enumerate_aggregates_by_type s t =
     map fst (filter (\<lambda>(i, _). aggregate_type i = t) (ms_streams s))"

definition memory_encoding :: "'g memory_store \<Rightarrow> encoding" where
  "memory_encoding s = Json"

definition memory_ops :: "ulid_codec \<Rightarrow> 'g generator \<Rightarrow> 'g memory_store store_ops" where
  "memory_ops U gen = \<lparr>st_load = memory_load, st_publish = memory_publish U gen,
     st_encoding = memory_encoding\<rparr>"

section \<open>The abstraction and the invariant\<close>

definition ms_stream :: "'g memory_store \<Rightarrow> aggregate_id \<Rightarrow> recorded_event list" where
  "ms_stream s i = (case map_of (ms_streams s) i of Some es \<Rightarrow> es | None \<Rightarrow> [])"

text \<open>A revision minted by the generator at or before its previous value.\<close>

definition minted_upto :: "ulid_codec \<Rightarrow> ulid \<Rightarrow> revision \<Rightarrow> bool" where
  "minted_upto U v r \<longleftrightarrow> (\<exists>u. 0 < u \<and> u \<le> v \<and> r = revision_from_ulid U u)"

definition stream_inv :: "ulid_codec \<Rightarrow> ulid \<Rightarrow> recorded_event list \<Rightarrow> bool" where
  "stream_inv U v es \<longleftrightarrow>
     strictly_increasing (revisions es) \<and> (\<forall>r\<in>set (revisions es). minted_upto U v r)"

definition memory_inv :: "ulid_codec \<Rightarrow> ('g \<Rightarrow> ulid) \<Rightarrow> 'g memory_store \<Rightarrow> bool" where
  "memory_inv U prev s \<longleftrightarrow>
     distinct (map fst (ms_streams s)) \<and> (\<forall>i. stream_inv U (prev (ms_generator s)) (ms_stream s i))"

lemma minted_upto_mono: "minted_upto U v r \<Longrightarrow> v \<le> w \<Longrightarrow> minted_upto U w r"
  by (auto simp: minted_upto_def intro: order_trans)

lemma stream_inv_mono: "stream_inv U v es \<Longrightarrow> v \<le> w \<Longrightarrow> stream_inv U w es"
  by (auto simp: stream_inv_def intro: minted_upto_mono)

lemma stream_inv_Nil [simp]: "stream_inv U v []"
  by (simp add: stream_inv_def)

lemma ms_stream_update [simp]:
  "ms_stream (s\<lparr>ms_streams := AList.update i es (ms_streams s)\<rparr>) = (ms_stream s)(i := es)"
  "ms_stream (s\<lparr>ms_streams := AList.update i es (ms_streams s), ms_generator := g\<rparr>) =
     (ms_stream s)(i := es)"
  "ms_stream (s\<lparr>ms_generator := g\<rparr>) = ms_stream s"
  by (auto simp: ms_stream_def fun_eq_iff update_conv')

lemma stream_for_stream [simp]: "ms_stream (stream_for s i) = ms_stream s"
  by (auto simp: stream_for_def fun_eq_iff ms_stream_def update_conv' split: option.splits)

lemma stream_for_generator [simp]: "ms_generator (stream_for s i) = ms_generator s"
  by (simp add: stream_for_def split: option.splits)

lemma stream_for_distinct:
  "distinct (map fst (ms_streams s)) \<Longrightarrow> distinct (map fst (ms_streams (stream_for s i)))"
  by (simp add: stream_for_def distinct_update split: option.splits)

lemma mint_event_ids_ok:
  assumes "monotonic_generator gen prev"
    and "mint_event_ids U gen n g = (Inr minted, g')"
  shows "length minted = n \<and> prev g \<le> prev g' \<and>
    (\<exists>us. map snd minted = map (revision_from_ulid U) us \<and> strictly_increasing us \<and>
       (\<forall>u\<in>set us. prev g < u \<and> u \<le> prev g'))"
  using assms(2)
proof (induction n arbitrary: g minted)
  case 0
  then show ?case by auto
next
  case (Suc n)
  from Suc.prems obtain e g1 r g2 out where steps: "gen g = (Some e, g1)" "gen g1 = (Some r, g2)"
    "mint_event_ids U gen n g2 = (Inr out, g')"
    and minted: "minted = (EventId (ulid_to_string U e), revision_from_ulid U r) # out"
    by (auto split: prod.splits option.splits sum.splits)
  from monotonic_generatorD [OF assms(1) steps(1)] monotonic_generatorD [OF assms(1) steps(2)]
  have r: "prev g < r" "prev g2 = r" by auto
  from Suc.IH [OF steps(3)] obtain us where us: "length out = n" "prev g2 \<le> prev g'"
    "map snd out = map (revision_from_ulid U) us" "strictly_increasing us"
    "\<forall>u\<in>set us. prev g2 < u \<and> u \<le> prev g'" by auto
  have "strictly_increasing (r # us) \<and> (\<forall>u\<in>set (r # us). prev g < u \<and> u \<le> prev g')"
    using us r by auto
  with us r minted show ?case
    by (intro conjI exI [of _ "r # us"]) auto
qed

lemma mint_event_ids_err:
  assumes "monotonic_generator gen prev"
    and "mint_event_ids U gen n g = (Inl e, g')"
  shows "e = Custom MonotonicError \<and> prev g \<le> prev g'"
  using assms(2)
proof (induction n arbitrary: g)
  case 0
  then show ?case by simp
next
  case (Suc n)
  show ?case
  proof (cases "gen g")
    case (Pair o1 g1)
    show ?thesis
    proof (cases o1)
      case None
      with Pair Suc.prems monotonic_generator_None [OF assms(1), of g g1] show ?thesis by simp
    next
      case (Some u1)
      note m1 = monotonic_generatorD [OF assms(1) Pair [unfolded Some]]
      obtain o2 g2 where p2: "gen g1 = (o2, g2)" by fastforce
      show ?thesis
      proof (cases o2)
        case None
        with Pair Some p2 m1 Suc.prems monotonic_generator_None [OF assms(1), of g1 g2]
        show ?thesis by simp
      next
        case (Some u2)
        note m2 = monotonic_generatorD [OF assms(1) p2 [unfolded Some]]
        from Suc.prems Pair \<open>o1 = Some u1\<close> p2 Some
        have "mint_event_ids U gen n g2 = (Inl e, g')"
          by (auto split: prod.splits sum.splits)
        from Suc.IH [OF this] m1 m2 show ?thesis by auto
      qed
    qed
  qed
qed

section \<open>One publish\<close>

lemma check_expected_eq:
  "check_expected es opts =
     (case expected_revision opts of
        None \<Rightarrow> None
      | Some x \<Rightarrow> if x = stream_revision es then None
                 else Some (RevisionConflict x (stream_revision es)))"
  by (auto simp: check_expected_def stream_revision_def Let_def split: option.splits)

lemma recorded_facts:
  assumes "length minted = length raws"
    and "recorded = map (\<lambda>(raw, m). record_event (options_metadata opts) raw m) (zip raws minted)"
  shows "length recorded = length raws" and "revisions recorded = map snd minted"
    and "list_all2 (records opts) raws recorded"
proof -
  have "length recorded = length raws \<and> revisions recorded = map snd minted \<and>
      list_all2 (records opts) raws recorded"
    using assms(1) unfolding assms(2)
    by (induction minted raws rule: list_induct2)
      (simp_all add: record_event_def records_def split: prod.splits)
  then show "length recorded = length raws" and "revisions recorded = map snd minted"
    and "list_all2 (records opts) raws recorded" by simp_all
qed

text \<open>Every outcome of the locked part, with the store it leaves.\<close>

lemma append_locked_cases:
  assumes "append_locked U gen s i opts raws = (r, s')" and "monotonic_generator gen prev"
    and "raws \<noteq> []"
  obtains
    (conflict) x where "expected_revision opts = Some x" "x \<noteq> stream_revision (ms_stream s i)"
      "r = Inl (RevisionConflict x (stream_revision (ms_stream s i)))" "s' = s"
  | (overflow) g where
      "expected_revision opts = None \<or> expected_revision opts = Some (stream_revision (ms_stream s i))"
      "r = Inl (Custom MonotonicError)" "s' = s\<lparr>ms_generator := g\<rparr>"
      "prev (ms_generator s) \<le> prev g"
  | (appended) recorded us g where
      "expected_revision opts = None \<or> expected_revision opts = Some (stream_revision (ms_stream s i))"
      "r = Inr \<lparr>cs_aggregate_id = i, cs_revision = stream_revision recorded, cs_events = recorded\<rparr>"
      "s' = s\<lparr>ms_streams := AList.update i (ms_stream s i @ recorded) (ms_streams s), ms_generator := g\<rparr>"
      "list_all2 (records opts) raws recorded" "recorded \<noteq> []"
      "revisions recorded = map (revision_from_ulid U) us" "strictly_increasing us"
      "\<forall>u\<in>set us. prev (ms_generator s) < u \<and> u \<le> prev g" "prev (ms_generator s) \<le> prev g"
proof -
  note D = assms(1) [unfolded append_locked_def Let_def, folded ms_stream_def]
  show ?thesis
  proof (cases "check_expected (ms_stream s i) opts")
    case (Some e)
    with D have res: "r = Inl e" "s' = s" by simp_all
    from Some obtain x where "expected_revision opts = Some x"
      "x \<noteq> stream_revision (ms_stream s i)"
      "e = RevisionConflict x (stream_revision (ms_stream s i))"
      by (auto simp: check_expected_eq split: option.splits if_splits)
    with res show ?thesis by (intro conflict) auto
  next
    case None
    then have exp: "expected_revision opts = None \<or>
        expected_revision opts = Some (stream_revision (ms_stream s i))"
      by (auto simp: check_expected_eq split: option.splits if_splits)
    obtain m g where mint: "mint_event_ids U gen (length raws) (ms_generator s) = (m, g)"
      by fastforce
    show ?thesis
    proof (cases m)
      case (Inl e)
      with mint_event_ids_err [OF assms(2) mint [unfolded Inl]] mint None D
      show ?thesis using exp by (intro overflow [of g]) auto
    next
      case (Inr minted)
      from mint_event_ids_ok [OF assms(2) mint [unfolded Inr]] obtain us where
        us: "length minted = length raws" "prev (ms_generator s) \<le> prev g"
          "map snd minted = map (revision_from_ulid U) us" "strictly_increasing us"
          "\<forall>u\<in>set us. prev (ms_generator s) < u \<and> u \<le> prev g" by blast
      let ?recorded = "map (\<lambda>(raw, m). record_event (options_metadata opts) raw m) (zip raws minted)"
      note R = recorded_facts [OF us(1) refl, of opts]
      from R(1) assms(3) have ne: "?recorded \<noteq> []" by (metis length_0_conv)
      then have last: "last_opt ?recorded = Some (last ?recorded)" by (simp only: last_opt_def if_False)
      have "r = Inr \<lparr>cs_aggregate_id = i, cs_revision = stream_revision ?recorded, cs_events = ?recorded\<rparr>"
        and "s' = s\<lparr>ms_streams := AList.update i (ms_stream s i @ ?recorded) (ms_streams s), ms_generator := g\<rparr>"
        using D None mint Inr last by (simp_all add: stream_revision_def del: last_opt_None)
      then show ?thesis using exp R ne us by (intro appended) auto
    qed
  qed
qed

lemma append_locked_not_panics:
  assumes "append_locked U gen s i opts raws = (r, s')" and "monotonic_generator gen prev"
    and "raws \<noteq> []"
  shows "r \<noteq> Inl (Custom (Panicked m))"
  using assms by (rule append_locked_cases) auto

lemma memory_inv_update:
  assumes "memory_inv U prev s" and "ulid_laws U"
    and "revisions recorded = map (revision_from_ulid U) us" and "strictly_increasing us"
    and "\<forall>u\<in>set us. prev (ms_generator s) < u \<and> u \<le> prev g"
    and "prev (ms_generator s) \<le> prev g"
  shows "memory_inv U prev
    (s\<lparr>ms_streams := AList.update i (ms_stream s i @ recorded) (ms_streams s), ms_generator := g\<rparr>)"
proof -
  let ?v = "prev (ms_generator s)"
  have old: "stream_inv U ?v (ms_stream s j)" for j
    using assms(1) by (simp add: memory_inv_def)
  have incr: "strictly_increasing (revisions recorded)"
    using assms(3,4) by (simp add: sorted_wrt_map revision_from_ulid_less [OF assms(2)])
  have above: "x < y" if "x \<in> set (revisions (ms_stream s i))" "y \<in> set (revisions recorded)" for x y
  proof -
    from that(1) old [of i] obtain u where u: "u \<le> ?v" "x = revision_from_ulid U u"
      by (auto simp: stream_inv_def minted_upto_def)
    from that(2) assms(3,5) obtain w where w: "?v < w" "y = revision_from_ulid U w" by auto
    from u w show ?thesis by (simp add: revision_from_ulid_less [OF assms(2)])
  qed
  have new: "minted_upto U (prev g) y" if y: "y \<in> set (revisions recorded)" for y
  proof -
    from y assms(3) obtain w where w: "w \<in> set us" "y = revision_from_ulid U w" by auto
    with assms(5) have "?v < w" and "w \<le> prev g" by auto
    then have "0 < w" by (meson le_less_trans word_zero_le)
    with w \<open>w \<le> prev g\<close> show ?thesis by (auto simp: minted_upto_def)
  qed
  have "stream_inv U (prev g) (ms_stream s i @ recorded)"
    using stream_inv_mono [OF old assms(6)] incr above new
    by (auto simp: stream_inv_def strictly_increasing_append)
  moreover have "stream_inv U (prev g) (ms_stream s j)" for j
    by (rule stream_inv_mono [OF old assms(6)])
  ultimately show ?thesis
    using assms(1) by (simp add: memory_inv_def distinct_update)
qed

lemma memory_inv_generator:
  "memory_inv U prev s \<Longrightarrow> prev (ms_generator s) \<le> prev g \<Longrightarrow>
    memory_inv U prev (s\<lparr>ms_generator := g\<rparr>)"
  by (auto simp: memory_inv_def intro: stream_inv_mono)

lemma memory_inv_stream_for: "memory_inv U prev s \<Longrightarrow> memory_inv U prev (stream_for s i)"
  by (simp add: memory_inv_def stream_for_distinct)

lemma memory_inv_new: "memory_inv U prev (memory_new g)"
  by (simp add: memory_inv_def memory_new_def ms_stream_def)

lemma append_locked_inv:
  assumes "memory_inv U prev s" and "ulid_laws U" and "monotonic_generator gen prev"
    and "append_locked U gen s i opts raws = (r, s')" and "raws \<noteq> []"
  shows "memory_inv U prev s'"
  using assms(4,3,5)
proof (cases rule: append_locked_cases)
  case (conflict x)
  with assms(1) show ?thesis by simp
next
  case (overflow g)
  with assms(1) show ?thesis by (simp add: memory_inv_generator)
next
  case (appended recorded us g)
  with assms(1,2) show ?thesis by (simp add: memory_inv_update)
qed

lemma resolve_stream_cases:
  "resolve_stream s i opts = Inr s1 \<Longrightarrow> s1 = s \<or> s1 = stream_for s i"
  by (auto simp: resolve_stream_def split: option.splits if_splits)

lemma resolve_stream_err:
  "resolve_stream s i opts = Inl e \<Longrightarrow>
     \<exists>x. expected_revision opts = Some x \<and> x \<noteq> revision_zero \<and> ms_stream s i = [] \<and>
       e = RevisionConflict x revision_zero"
  by (auto simp: resolve_stream_def ms_stream_def split: option.splits if_splits)

definition memory_ok ::
  "ulid_codec \<Rightarrow> 'g generator \<Rightarrow> ('g \<Rightarrow> ulid) \<Rightarrow> 'g memory_store \<Rightarrow> bool" where
  "memory_ok U gen prev s \<longleftrightarrow> ulid_laws U \<and> monotonic_generator gen prev \<and> memory_inv U prev s"

lemma current_revision_sync_eq [simp]: "current_revision_sync s i = stream_revision (ms_stream s i)"
  by (auto simp: current_revision_sync_def ms_stream_def stream_revision_def split: option.splits)

text \<open>Every outcome of the whole call, in terms of the streams.\<close>

lemma memory_publish_cases:
  assumes "memory_ok U gen prev s" and "memory_publish U gen s i opts raws = (r, s')"
  obtains
    (empty) "raws = []" "s' = s"
      "r = Inr \<lparr>cs_aggregate_id = i, cs_revision = stream_revision (ms_stream s i), cs_events = []\<rparr>"
  | (conflict) x where "raws \<noteq> []" "expected_revision opts = Some x"
      "x \<noteq> stream_revision (ms_stream s i)"
      "r = Inl (RevisionConflict x (stream_revision (ms_stream s i)))"
      "ms_stream s' = ms_stream s" "memory_inv U prev s'"
  | (overflow) "raws \<noteq> []" "r = Inl (Custom MonotonicError)"
      "expected_revision opts = None \<or> expected_revision opts = Some (stream_revision (ms_stream s i))"
      "ms_stream s' = ms_stream s" "memory_inv U prev s'"
  | (appended) recorded where "raws \<noteq> []"
      "expected_revision opts = None \<or> expected_revision opts = Some (stream_revision (ms_stream s i))"
      "r = Inr \<lparr>cs_aggregate_id = i, cs_revision = stream_revision recorded, cs_events = recorded\<rparr>"
      "ms_stream s' = (ms_stream s)(i := ms_stream s i @ recorded)"
      "list_all2 (records opts) raws recorded" "recorded \<noteq> []" "memory_inv U prev s'"
proof (cases "raws = []")
  case True
  then show ?thesis
    using assms(2) empty
    by (auto simp: memory_publish_def)
next
  case ne: False
  from assms(1) have H: "ulid_laws U" "monotonic_generator gen prev" "memory_inv U prev s"
    by (auto simp: memory_ok_def)
  show ?thesis
  proof (cases "resolve_stream s i opts")
    case (Inl e)
    then have res: "r = Inl e" "s' = s"
      using ne assms(2) by (simp_all add: memory_publish_def publish_sync_def)
    from resolve_stream_err [OF Inl] obtain x where "expected_revision opts = Some x"
      "x \<noteq> revision_zero" "ms_stream s i = []" "e = RevisionConflict x revision_zero" by blast
    with res ne H(3) show ?thesis by (intro conflict [of x]) auto
  next
    case (Inr s1)
    from resolve_stream_cases [OF Inr] have st: "ms_stream s1 = ms_stream s" by auto
    from resolve_stream_cases [OF Inr] H(3) have inv1: "memory_inv U prev s1"
      by (auto intro: memory_inv_stream_for)
    from Inr ne assms(2) have run: "append_locked U gen s1 i opts raws = (r, s')"
      by (simp add: memory_publish_def publish_sync_def)
    note inv' = append_locked_inv [OF inv1 H(1,2) run ne]
    from run H(2) ne show ?thesis
    proof (cases rule: append_locked_cases)
      case (conflict x)
      with ne st inv' show ?thesis by (intro that(2)) auto
    next
      case (overflow g)
      with ne st inv' show ?thesis by (intro that(3)) auto
    next
      case (appended recorded us g)
      with ne st inv' show ?thesis by (intro that(4)) auto
    qed
  qed
qed

text \<open>The memory store keeps the contract of \<open>EventStore\<close>.\<close>

lemma memory_load_eq [simp]: "load_sync s i = from_shared_events i (ms_stream s i)"
  by (auto simp: load_sync_def ms_stream_def from_shared_events_Nil split: option.splits)

interpretation memory: event_store "memory_ops U gen" "memory_ok U gen prev" ms_stream
  for U gen prev
proof unfold_locales
  fix s :: "'a memory_store" and i l s'
  assume "memory_ok U gen prev s" and "st_load (memory_ops U gen) s i = (l, s')"
  then show "memory_ok U gen prev s' \<and> ms_stream s' = ms_stream s"
    by (auto simp: memory_ops_def memory_load_def)
next
  fix s :: "'a memory_store" and i a s'
  assume "st_load (memory_ops U gen) s i = (Inr a, s')"
  then show "a = from_shared_events i (ms_stream s i)"
    by (auto simp: memory_ops_def memory_load_def)
next
  fix s :: "'a memory_store" and i opts raws r s'
  assume ok: "memory_ok U gen prev s"
    and run: "st_publish (memory_ops U gen) s i opts raws = (r, s')"
  from run have "memory_publish U gen s i opts raws = (r, s')" by (simp add: memory_ops_def)
  with ok show "memory_ok U gen prev s'"
    by (rule memory_publish_cases) (use ok in \<open>auto simp: memory_ok_def\<close>)
next
  fix s :: "'a memory_store" and i opts raws e s'
  assume ok: "memory_ok U gen prev s"
    and run: "st_publish (memory_ops U gen) s i opts raws = (Inl e, s')"
  from run have "memory_publish U gen s i opts raws = (Inl e, s')" by (simp add: memory_ops_def)
  with ok show "ms_stream s' = ms_stream s" by (rule memory_publish_cases) auto
next
  fix s :: "'a memory_store" and i opts raws cs s'
  assume ok: "memory_ok U gen prev s"
    and run: "st_publish (memory_ops U gen) s i opts raws = (Inr cs, s')"
  from run have "memory_publish U gen s i opts raws = (Inr cs, s')" by (simp add: memory_ops_def)
  with ok show "ms_stream s' = (ms_stream s)(i := ms_stream s i @ cs_events cs) \<and>
      list_all2 (records opts) raws (cs_events cs) \<and>
      cs_aggregate_id cs = i \<and> cs_revision cs = stream_revision (ms_stream s' i)"
    by (rule memory_publish_cases) (auto simp: stream_revision_append)
next
  fix s :: "'a memory_store" and i opts raws cs s' x
  assume ok: "memory_ok U gen prev s"
    and run: "st_publish (memory_ops U gen) s i opts raws = (Inr cs, s')"
    and hyps: "raws \<noteq> []" "expected_revision opts = Some x"
  from run have "memory_publish U gen s i opts raws = (Inr cs, s')" by (simp add: memory_ops_def)
  with ok show "x = stream_revision (ms_stream s i)"
    by (rule memory_publish_cases) (use hyps in auto)
next
  fix s :: "'a memory_store" and i
  assume "memory_ok U gen prev s"
  then show "strictly_increasing (revisions (ms_stream s i))"
    by (simp add: memory_ok_def memory_inv_def stream_inv_def)
next
  fix s :: "'a memory_store" and i v
  assume "memory_ok U gen prev s" and "v \<in> set (revisions (ms_stream s i))"
  then have "ulid_laws U" and "minted_upto U (prev (ms_generator s)) v"
    by (auto simp: memory_ok_def memory_inv_def stream_inv_def)
  then show "revision_zero < v" by (auto simp: minted_upto_def revision_zero_less)
qed

section \<open>The guarantees\<close>

text \<open>
  C13: a publish of a non-empty batch to the in-memory store has exactly three outcomes. Against
  a wrong expected revision it is a conflict that names the current one; against none or the
  right one it appends the whole batch to that stream, advancing its revision, unless the ULID
  generator overflows. Streams are unchanged in the failing cases, and the store's invariant
  (revisions strictly increasing and minted by the generator) is kept.
\<close>

theorem memory_publish_outcomes:
  assumes "memory_ok U gen prev s" and "raws \<noteq> []" and "memory_publish U gen s i opts raws = (r, s')"
  shows "memory_ok U gen prev s' \<and>
    (if expected_revision opts \<in> {None, Some (stream_revision (ms_stream s i))} then
       (r = Inl (Custom MonotonicError) \<and> ms_stream s' = ms_stream s) \<or>
       (\<exists>cs. r = Inr cs \<and> list_all2 (records opts) raws (cs_events cs) \<and>
          ms_stream s' = (ms_stream s)(i := ms_stream s i @ cs_events cs) \<and>
          cs_revision cs = stream_revision (ms_stream s' i) \<and>
          stream_revision (ms_stream s i) < cs_revision cs)
     else
       (\<exists>x. expected_revision opts = Some x \<and>
          r = Inl (RevisionConflict x (stream_revision (ms_stream s i)))) \<and>
       ms_stream s' = ms_stream s)"
proof -
  have adv: "stream_revision (ms_stream s i) < cs_revision cs" if "r = Inr cs" for cs
    using memory.publish_advances [of U gen prev s i opts raws cs s'] assms that
    by (simp add: memory_ops_def)
  from assms(1,3) show ?thesis
  proof (cases rule: memory_publish_cases)
    case empty
    with assms(2) show ?thesis by simp
  next
    case (conflict x)
    with assms(1) show ?thesis by (auto simp: memory_ok_def)
  next
    case overflow
    with assms(1) show ?thesis by (auto simp: memory_ok_def)
  next
    case (appended recorded)
    with assms(1) adv show ?thesis by (auto simp: memory_ok_def stream_revision_append)
  qed
qed

text \<open>
  Optimistic concurrency in memory: after a publish against revision \<open>x\<close> was accepted, a
  publish against \<open>x\<close> to the same aggregate fails in every later store whose stream extends the
  one it left.
\<close>

theorem memory_no_second_publish:
  assumes "memory_ok U gen prev s" and "memory_publish U gen s i o1 raws1 = (Inr cs1, s1)"
    and "raws1 \<noteq> []" and "expected_revision o1 = Some x"
    and "memory_ok U gen prev t" and "prefix (ms_stream s1 i) (ms_stream t i)"
    and "memory_publish U gen t i o2 raws2 = (r, t')" and "raws2 \<noteq> []"
    and "expected_revision o2 = Some x"
  shows "\<exists>e. r = Inl e"
  by (rule memory.no_second_publish [of U gen prev s i o1 raws1 cs1 s1 x t o2 raws2 r t'])
    (use assms in \<open>simp_all add: memory_ops_def\<close>)

text \<open>
  A publish that fails because the generator overflows leaves the aggregate, which has no
  event, visible to \<open>enumerate_aggregates\<close>, although \<open>publish_sync\<close> takes care that a refused
  first publish does not.
\<close>

theorem memory_failed_publish_phantom:
  "(case memory_publish U (\<lambda>g. (None, g)) (memory_new g) i default_options (raw # raws) of
      (r, s) \<Rightarrow> r = Inl (Custom MonotonicError) \<and> enumerate_aggregates s = [i] \<and> ms_stream s i = [])"
  by (simp add: memory_publish_def publish_sync_def resolve_stream_def memory_new_def
      default_options_def stream_for_def append_locked_def check_expected_def
      enumerate_aggregates_def ms_stream_def)

section \<open>Witnesses\<close>

definition memory_demo_id :: aggregate_id where
  "memory_demo_id = aggregate_id_new ''run'' ''1''"

definition memory_demo_raw :: raw_event where
  "memory_demo_raw = \<lparr>raw_event_type = EventType ''started'',
     raw_data = \<lparr>ed_encoding = Json, ed_data = []\<rparr>\<rparr>"

definition memory_demo_options :: publish_options where
  "memory_demo_options = default_options\<lparr>expected_revision := Some revision_zero\<rparr>"

definition memory_demo_event :: recorded_event where
  "memory_demo_event = \<lparr>re_event_id = EventId (ulid_to_string crockford_codec 1),
     re_event_type = EventType ''started'', re_revision = revision_from_ulid crockford_codec 2,
     re_metadata = options_metadata memory_demo_options, re_data = raw_data memory_demo_raw\<rparr>"

definition memory_demo_store :: "ulid memory_store" where
  "memory_demo_store = \<lparr>ms_streams = [(memory_demo_id, [memory_demo_event])], ms_generator = 2\<rparr>"

definition memory_demo_changes :: change_set where
  "memory_demo_changes = \<lparr>cs_aggregate_id = memory_demo_id,
     cs_revision = revision_from_ulid crockford_codec 2, cs_events = [memory_demo_event]\<rparr>"

lemma memory_demo_ok: "memory_ok crockford_codec counter_generator id (memory_new 0)"
  by (simp add: memory_ok_def memory_inv_new crockford_laws counter_generator_monotonic)

lemma memory_demo_publish:
  "memory_publish crockford_codec counter_generator (memory_new 0) memory_demo_id
     memory_demo_options [memory_demo_raw] = (Inr memory_demo_changes, memory_demo_store)"
  by (simp add: memory_publish_def publish_sync_def resolve_stream_def memory_new_def
      memory_demo_options_def default_options_def stream_for_def append_locked_def
      check_expected_def counter_generator_def last_opt_def memory_demo_changes_def
      memory_demo_store_def memory_demo_event_def record_event_def memory_demo_raw_def Let_def)

theorem memory_publish_outcomes_witness:
  "memory_publish crockford_codec counter_generator (memory_new 0) memory_demo_id
     memory_demo_options [memory_demo_raw] = (Inr memory_demo_changes, memory_demo_store) \<and>
   ms_stream memory_demo_store memory_demo_id = [memory_demo_event]"
  using memory_publish_outcomes [OF memory_demo_ok _ memory_demo_publish] memory_demo_publish
  by (simp add: memory_demo_options_def memory_new_def ms_stream_def memory_demo_changes_def)

theorem memory_no_second_publish_witness:
  "\<exists>e. fst (memory_publish crockford_codec counter_generator memory_demo_store memory_demo_id
     memory_demo_options [memory_demo_raw]) = Inl e"
proof -
  have "memory_ok crockford_codec counter_generator id memory_demo_store"
    using memory.publish_keeps [of crockford_codec counter_generator id] memory_demo_ok
      memory_demo_publish by (fastforce simp: memory_ops_def)
  from memory_no_second_publish [OF memory_demo_ok memory_demo_publish _ _ this _ surjective_pairing]
  show ?thesis by (simp add: memory_demo_options_def)
qed

end
