(* ===== verification/MemoryConcurrent.thy ===== *)
theory MemoryConcurrent
  imports MemoryStore UlidInstance
begin

text \<open>
  Concurrent use of the in-memory store of \<^verbatim>\<open>crates/wee-events/src/memory_store.rs\<close>. A
  publishing thread takes the map's shard lock to look its stream up, possibly takes it again to
  insert an empty one (\<open>stream_for\<close>), and then holds the stream's write lock for the re-check,
  the minting (under the generator lock) and the append. Each of the three is one step here, and
  any other thread may run in between. A run is the list of completed calls with their results,
  in the order of the step that decided each.
\<close>

datatype thread =
    Idle
  | Missing aggregate_id publish_options "raw_event list"
  | Holding aggregate_id publish_options "raw_event list"

datatype mem_event =
    Published aggregate_id publish_options "raw_event list" "error + change_set"
  | Loaded aggregate_id aggregate

inductive mem_step ::
  "ulid_codec \<Rightarrow> 'g generator \<Rightarrow> 'g memory_store \<times> (nat \<Rightarrow> thread) \<Rightarrow> mem_event option \<Rightarrow>
    'g memory_store \<times> (nat \<Rightarrow> thread) \<Rightarrow> bool" for U gen where
  found: "th t = Idle \<Longrightarrow> raws \<noteq> [] \<Longrightarrow> map_of (ms_streams s) i \<noteq> None \<Longrightarrow>
    mem_step U gen (s, th) None (s, th(t := Holding i opts raws))"
| missing: "th t = Idle \<Longrightarrow> raws \<noteq> [] \<Longrightarrow> map_of (ms_streams s) i = None \<Longrightarrow>
    expected_revision opts \<in> {None, Some revision_zero} \<Longrightarrow>
    mem_step U gen (s, th) None (s, th(t := Missing i opts raws))"
| refused: "th t = Idle \<Longrightarrow> raws \<noteq> [] \<Longrightarrow> map_of (ms_streams s) i = None \<Longrightarrow>
    expected_revision opts = Some x \<Longrightarrow> x \<noteq> revision_zero \<Longrightarrow>
    mem_step U gen (s, th) (Some (Published i opts raws (Inl (RevisionConflict x revision_zero)))) (s, th)"
| insert_empty: "th t = Missing i opts raws \<Longrightarrow>
    mem_step U gen (s, th) None (stream_for s i, th(t := Holding i opts raws))"
| locked: "th t = Holding i opts raws \<Longrightarrow> append_locked U gen s i opts raws = (r, s') \<Longrightarrow>
    mem_step U gen (s, th) (Some (Published i opts raws r)) (s', th(t := Idle))"
| nothing: "mem_step U gen (s, th)
    (Some (Published i opts [] (Inr \<lparr>cs_aggregate_id = i, cs_revision = current_revision_sync s i,
       cs_events = []\<rparr>))) (s, th)"
| load: "mem_step U gen (s, th) (Some (Loaded i (load_sync s i))) (s, th)"

inductive mem_run ::
  "ulid_codec \<Rightarrow> 'g generator \<Rightarrow> 'g memory_store \<times> (nat \<Rightarrow> thread) \<Rightarrow> mem_event list \<Rightarrow>
    'g memory_store \<times> (nat \<Rightarrow> thread) \<Rightarrow> bool" for U gen where
  start: "mem_run U gen c [] c"
| silent: "mem_run U gen c es c' \<Longrightarrow> mem_step U gen c' None c'' \<Longrightarrow> mem_run U gen c es c''"
| visible: "mem_run U gen c es c' \<Longrightarrow> mem_step U gen c' (Some e) c'' \<Longrightarrow> mem_run U gen c (es @ [e]) c''"

inductive_cases mem_step_silentE: "mem_step U gen (s, th) None (s', th')"
inductive_cases mem_stepE: "mem_step U gen (s, th) e (s', th')"

text \<open>The same calls, one after the other.\<close>

fun replay_event ::
  "ulid_codec \<Rightarrow> 'g generator \<Rightarrow> mem_event \<Rightarrow> 'g memory_store \<Rightarrow> 'g memory_store option" where
  "replay_event U gen (Published i opts raws r) s =
     (case memory_publish U gen s i opts raws of (q, s') \<Rightarrow> if q = r then Some s' else None)"
| "replay_event U gen (Loaded i a) s =
     (case memory_load s i of (q, s') \<Rightarrow> if q = Inr a then Some s' else None)"

fun replay ::
  "ulid_codec \<Rightarrow> 'g generator \<Rightarrow> mem_event list \<Rightarrow> 'g memory_store \<Rightarrow> 'g memory_store option" where
  "replay U gen [] s = Some s"
| "replay U gen (e # es) s = Option.bind (replay_event U gen e s) (replay U gen es)"

lemma replay_append:
  "replay U gen (es @ fs) s = Option.bind (replay U gen es s) (replay U gen fs)"
  by (induction es arbitrary: s) (auto split: Option.bind_splits)

text \<open>Stores that differ in empty streams only.\<close>

definition ms_eq :: "'g memory_store \<Rightarrow> 'g memory_store \<Rightarrow> bool" where
  "ms_eq s t \<longleftrightarrow> ms_stream s = ms_stream t \<and> ms_generator s = ms_generator t"

lemma ms_eq_refl [simp]: "ms_eq s s"
  by (simp add: ms_eq_def)

lemma ms_eq_stream_for [simp]: "ms_eq s (stream_for t i) \<longleftrightarrow> ms_eq s t"
  "ms_eq (stream_for s i) t \<longleftrightarrow> ms_eq s t"
  by (simp_all add: ms_eq_def)

lemma append_locked_eq:
  assumes "ms_eq s t" and "append_locked U gen s i opts raws = (r, s')"
  obtains t' where "append_locked U gen t i opts raws = (r, t')" "ms_eq s' t'"
proof -
  from assms(1) have st: "ms_stream s i = ms_stream t i" "ms_generator s = ms_generator t"
    and all: "ms_stream s = ms_stream t" by (simp_all add: ms_eq_def)
  note D = append_locked_def [folded ms_stream_def, unfolded Let_def]
  show ?thesis
  proof (cases "check_expected (ms_stream s i) opts")
    case (Some e)
    with assms(2) st that [of t] assms(1) show ?thesis by (simp add: D)
  next
    case None
    obtain m g where mint: "mint_event_ids U gen (length raws) (ms_generator s) = (m, g)" by fastforce
    show ?thesis
    proof (cases m)
      case (Inl e)
      with assms(2) None mint st all that [of "t\<lparr>ms_generator := g\<rparr>"] show ?thesis
        by (auto simp: D ms_eq_def)
    next
      case (Inr minted)
      let ?rec = "map (\<lambda>(raw, m). record_event (options_metadata opts) raw m) (zip raws minted)"
      show ?thesis
      proof (cases "last_opt ?rec")
        case lo: None
        with assms(2) None mint Inr st all that [of "t\<lparr>ms_generator := g\<rparr>"] show ?thesis
          by (auto simp: D ms_eq_def)
      next
        case (Some e)
        with assms(2) None mint Inr st all that [of "t\<lparr>ms_streams :=
            AList.update i (ms_stream t i @ ?rec) (ms_streams t), ms_generator := g\<rparr>"]
        show ?thesis by (auto simp: D ms_eq_def simp del: last_opt_None)
      qed
    qed
  qed
qed

text \<open>The locked step is the whole call, run at that moment.\<close>

lemma memory_publish_locked:
  assumes "raws \<noteq> []" and "append_locked U gen t i opts raws = (r, t')"
  obtains u where "memory_publish U gen t i opts raws = (r, u)" "ms_eq t' u"
proof (cases "resolve_stream t i opts")
  case (Inl e)
  then obtain x where x: "expected_revision opts = Some x" "x \<noteq> revision_zero" "ms_stream t i = []"
    "e = RevisionConflict x revision_zero" using resolve_stream_err by blast
  then have "check_expected (ms_stream t i) opts = Some e" by (simp add: check_expected_eq)
  then have "append_locked U gen t i opts raws = (Inl e, t)"
    by (simp add: append_locked_def flip: ms_stream_def)
  with assms that [of t] Inl show ?thesis by (simp add: memory_publish_def publish_sync_def)
next
  case (Inr t1)
  then have "ms_eq t t1" using resolve_stream_cases [OF Inr] by auto
  from append_locked_eq [OF this assms(2)] obtain u where
    "append_locked U gen t1 i opts raws = (r, u)" "ms_eq t' u" by blast
  with that assms(1) Inr show ?thesis by (simp add: memory_publish_def publish_sync_def)
qed

lemma replay_step:
  assumes "mem_step U gen (s, th) (Some e) (s', th')" and "ms_eq s t"
    and "\<forall>k i opts. th k \<noteq> Holding i opts []"
  shows "\<exists>t'. replay_event U gen e t = Some t' \<and> ms_eq s' t'"
  using assms(1)
proof (cases rule: mem_step.cases)
  case (refused k raws i opts x)
  have "ms_stream s i = []" using refused by (simp add: ms_stream_def)
  then have t0: "ms_stream t i = []" using assms(2) by (simp add: ms_eq_def)
  have "append_locked U gen t i opts raws = (Inl (RevisionConflict x revision_zero), t)"
    using refused t0 by (simp add: append_locked_def check_expected_eq flip: ms_stream_def)
  from memory_publish_locked [OF \<open>raws \<noteq> []\<close> this] obtain u where
    "memory_publish U gen t i opts raws = (Inl (RevisionConflict x revision_zero), u)" "ms_eq t u"
    by blast
  with refused assms(2) show ?thesis by (auto simp: ms_eq_def)
next
  case (locked k i opts raws r)
  from append_locked_eq [OF assms(2) locked(4)] obtain t1 where
    t1: "append_locked U gen t i opts raws = (r, t1)" "ms_eq s' t1" by blast
  have "raws \<noteq> []" using assms(3) locked by metis
  from memory_publish_locked [OF this t1(1)] obtain u where
    "memory_publish U gen t i opts raws = (r, u)" "ms_eq t1 u" by blast
  with t1(2) locked show ?thesis by (auto simp: ms_eq_def)
next
  case (nothing i opts)
  with assms(2) show ?thesis by (auto simp: memory_publish_def ms_eq_def)
next
  case (load i)
  with assms(2) show ?thesis by (auto simp: memory_load_def ms_eq_def)
qed

lemma mem_step_silent:
  assumes "mem_step U gen (s, th) None (s', th')"
  shows "ms_eq s s'"
  using assms by (elim mem_step_silentE) auto

definition busy_threads :: "(nat \<Rightarrow> thread) \<Rightarrow> bool" where
  "busy_threads th \<longleftrightarrow> (\<forall>k i opts. th k \<noteq> Holding i opts [] \<and> th k \<noteq> Missing i opts [])"

lemma mem_step_busy: "mem_step U gen (s, th) e (s', th') \<Longrightarrow> busy_threads th \<Longrightarrow> busy_threads th'"
  by (elim mem_stepE) (auto simp: busy_threads_def)

text \<open>
  C5: the in-memory store is linearizable. However the locked steps of concurrent publishes and
  loads interleave, replaying the completed calls one after the other from the same store gives
  every call the result it had, and ends with the same streams and generator.
\<close>

theorem memory_linearizable:
  assumes "mem_run U gen (s, \<lambda>_. Idle) es (s', th)"
  shows "\<exists>t. replay U gen es s = Some t \<and> ms_stream t = ms_stream s' \<and>
    ms_generator t = ms_generator s'"
proof -
  have "busy_threads th \<and> (\<exists>t. replay U gen es s = Some t \<and> ms_eq s' t)"
    using assms
  proof (induction "(s, \<lambda>_ :: nat. Idle)" es "(s', th)" arbitrary: s' th rule: mem_run.induct)
    case start
    then show ?case by (auto simp: busy_threads_def)
  next
    case (silent es c')
    obtain s1 th1 where c': "c' = (s1, th1)" by fastforce
    with silent have "busy_threads th1" and "\<exists>t. replay U gen es s = Some t \<and> ms_eq s1 t" by auto
    with mem_step_busy mem_step_silent silent(3) c' show ?case by (fastforce simp: ms_eq_def)
  next
    case (visible es c' e)
    obtain s1 th1 where c': "c' = (s1, th1)" by fastforce
    with visible obtain t where b: "busy_threads th1" and t: "replay U gen es s = Some t" "ms_eq s1 t"
      by auto
    from visible(3) c' have step: "mem_step U gen (s1, th1) (Some e) (s', th)" by simp
    from replay_step [OF step t(2)] b obtain t' where
      "replay_event U gen e t = Some t'" "ms_eq s' t'" by (auto simp: busy_threads_def)
    with t mem_step_busy [OF step b] show ?case by (simp add: replay_append)
  qed
  then show ?thesis by (auto simp: ms_eq_def)
qed

text \<open>Two threads create the same aggregate: both find it missing, both insert, one is refused.\<close>

definition race_id :: aggregate_id where
  "race_id = aggregate_id_new ''run'' ''1''"

definition race_options :: publish_options where
  "race_options = default_options\<lparr>expected_revision := Some revision_zero\<rparr>"

definition race_raws :: "raw_event list" where
  "race_raws = [\<lparr>raw_event_type = EventType ''started'',
     raw_data = \<lparr>ed_encoding = Json, ed_data = []\<rparr>\<rparr>]"

lemma race_run:
  fixes s0 :: "ulid memory_store"
  assumes "map_of (ms_streams s0) race_id = None"
    and "append_locked U gen (stream_for s0 race_id) race_id race_options race_raws = (r1, s1)"
    and "append_locked U gen s1 race_id race_options race_raws = (r2, s2)"
  shows "mem_run U gen (s0, \<lambda>_. Idle)
    [Published race_id race_options race_raws r1, Published race_id race_options race_raws r2]
    (s2, (\<lambda>_. Idle)(0 := Idle, 1 := Idle))"
proof -
  let ?M = "Missing race_id race_options race_raws" and ?H = "Holding race_id race_options race_raws"
  let ?I = "\<lambda>_ :: nat. Idle"
  have ne: "race_raws \<noteq> []" and opts: "expected_revision race_options \<in> {None, Some revision_zero}"
    by (simp_all add: race_raws_def race_options_def)
  let ?s = "stream_for s0 race_id"
  have idem: "stream_for ?s race_id = ?s"
    by (auto simp: stream_for_def update_conv' split: option.splits)
  have "mem_run U gen (s0, ?I) [] (s0, ?I(0 := ?M))"
    using mem_step.missing [OF _ ne assms(1) opts, of ?I 0]
    by (intro mem_run.silent [OF mem_run.start]) simp
  then have "mem_run U gen (s0, ?I) [] (s0, ?I(0 := ?M, 1 := ?M))"
    by (rule mem_run.silent) (rule mem_step.missing [OF _ ne assms(1) opts], simp)
  then have "mem_run U gen (s0, ?I) [] (?s, ?I(0 := ?M, 1 := ?M, 0 := ?H))"
    by (rule mem_run.silent) (rule mem_step.insert_empty, simp)
  then have "mem_run U gen (s0, ?I) [] (?s, ?I(0 := ?M, 1 := ?M, 0 := ?H, 1 := ?H))"
    by (rule mem_run.silent) (use mem_step.insert_empty [of "?I(0 := ?M, 1 := ?M, 0 := ?H)" 1 race_id race_options
        race_raws U gen ?s] idem in simp)
  then have "mem_run U gen (s0, ?I) ([] @ [Published race_id race_options race_raws r1])
      (s1, ?I(0 := ?M, 1 := ?M, 0 := ?H, 1 := ?H, 0 := Idle))"
    by (rule mem_run.visible) (rule mem_step.locked [OF _ assms(2)], simp)
  then have "mem_run U gen (s0, ?I)
      (([] @ [Published race_id race_options race_raws r1]) @ [Published race_id race_options race_raws r2])
      (s2, ?I(0 := ?M, 1 := ?M, 0 := ?H, 1 := ?H, 0 := Idle, 1 := Idle))"
    by (rule mem_run.visible) (rule mem_step.locked [OF _ assms(3)], simp)
  then show ?thesis by (simp add: fun_upd_twist)
qed

theorem memory_linearizable_witness:
  "\<exists>r1 r2 t. replay crockford_codec counter_generator
     [Published race_id race_options race_raws r1, Published race_id race_options race_raws r2]
     (memory_new 0) = Some t"
proof -
  obtain r1 s1 where 1: "append_locked crockford_codec counter_generator
      (stream_for (memory_new 0) race_id) race_id race_options race_raws = (r1, s1)" by fastforce
  obtain r2 s2 where 2: "append_locked crockford_codec counter_generator
      s1 race_id race_options race_raws = (r2, s2)" by fastforce
  have "map_of (ms_streams (memory_new 0)) race_id = None" by (simp add: memory_new_def)
  from memory_linearizable [OF race_run [OF this 1 2]] show ?thesis by blast
qed

end
