(* ===== verification/Database.thy ===== *)
theory Database
  imports Events UlidInstance
begin

text \<open>
  \<^verbatim>\<open>crates/wee-events-sqlite/src/database.rs\<close>: the tables, the connection and its statements,
  the schema migrations and the partition metadata. A database is the list of rows of each table
  (\<open>None\<close> while the table does not exist) in insertion order; the SQL text of the sources is
  translated statement by statement. \<open>libsql\<close> is a parameter where it is not SQL: any call to it
  may fail with any error, as a fault schedule \<open>h_faults\<close> indexed by the number of calls made. A
  call that fails is taken to have had no effect, as SQLite undoes a statement that fails. That is
  an assumption about remote databases: one whose connection breaks during a \<open>COMMIT\<close> may have
  committed all the same, and such an answer is not modelled.
\<close>

section \<open>Tables and connections\<close>

record event_row =
  row_event_id :: string
  row_aggregate_type :: string
  row_aggregate_key :: string
  row_event_type :: string
  row_revision :: string
  row_causation_id :: "string option"
  row_correlation_id :: "string option"
  row_encoding :: string
  row_data :: bytes

record document_row =
  doc_collection :: string
  doc_key :: string
  doc_revision :: string
  doc_data :: string

record db =
  tbl_events :: "event_row list option"
  tbl_documents :: "document_row list option"
  tbl_partition_metadata :: "(string \<times> string) list option"
  tbl_schema_versions :: "(string \<times> u32) list option"
  db_journal_mode :: string

definition empty_db :: "string \<Rightarrow> db" where
  "empty_db mode = \<lparr>tbl_events = None, tbl_documents = None, tbl_partition_metadata = None,
     tbl_schema_versions = None, db_journal_mode = mode\<rparr>"

text \<open>
  A connection: the database as it sees it, the snapshot to roll back to while a transaction is
  open, its settings, and the number of libsql calls made so far.
\<close>

record conn =
  c_db :: db
  c_saved :: "db option"
  c_busy_timeout_ms :: nat
  c_foreign_keys :: bool
  c_calls :: nat

text \<open>What the host and the third-party crates provide.\<close>

record 'g host =
  h_faults :: "nat \<Rightarrow> libsql_error option"  \<comment> \<open>outcome of the n-th libsql call\<close>
  h_ulid :: ulid_codec
  h_gen :: "'g generator"
  h_overflow_text :: string  \<comment> \<open>\<open>MonotonicError\<close>'s text\<close>
  h_nanos :: "nat \<Rightarrow> nat"  \<comment> \<open>the clock, read after n libsql calls\<close>
  h_set_wal :: "string \<Rightarrow> string"  \<comment> \<open>journal mode after \<open>journal_mode=WAL\<close>\<close>
  h_create_parent :: "string \<Rightarrow> string option"  \<comment> \<open>io error of creating a path's parent directory\<close>
  h_ulid_error_text :: "ulid_decode_error \<Rightarrow> string"

type_synonym ('x, 'a) sql = "('x conn_scheme, sqlite_error, 'a) action"

definition statement ::
  "'g host \<Rightarrow> (db \<Rightarrow> (libsql_error + 'a) \<times> db) \<Rightarrow> ('x, 'a) sql" where
  "statement H f c =
     (let c1 = c\<lparr>c_calls := Suc (c_calls c)\<rparr> in
      case h_faults H (c_calls c) of
        Some e \<Rightarrow> (Inl (Libsql e), c1)
      | None \<Rightarrow>
          (case f (c_db c) of
             (Inl e, d) \<Rightarrow> (Inl (Libsql e), c1)
           | (Inr a, d) \<Rightarrow> (Inr a, c1\<lparr>c_db := d\<rparr>)))"

text \<open>A query reads; running one on a missing table is an error of SQLite.\<close>

definition no_such_table :: "string \<Rightarrow> libsql_error" where
  "no_such_table t = SqliteFailure 1 (''no such table: '' @ t)"

definition query :: "'g host \<Rightarrow> (db \<Rightarrow> 't option) \<Rightarrow> string \<Rightarrow> ('t \<Rightarrow> 'a) \<Rightarrow> ('x, 'a) sql" where
  "query H table name f =
     statement H (\<lambda>d. (map_ok f (ok_or (no_such_table name) (table d)), d))"

text \<open>
  \<open>BEGIN\<close>, \<open>COMMIT\<close>, and the rollback that dropping an open transaction, or the connection that
  holds it, performs.
\<close>

definition begin_transaction :: "'g host \<Rightarrow> ('x, unit) sql" where
  "begin_transaction H c =
     (case statement H (\<lambda>d. (Inr (), d)) c of
        (Inl e, c1) \<Rightarrow> (Inl e, c1)
      | (Inr u, c1) \<Rightarrow> (Inr (), c1\<lparr>c_saved := Some (c_db c)\<rparr>))"

definition commit :: "'g host \<Rightarrow> ('x, unit) sql" where
  "commit H c =
     (case statement H (\<lambda>d. (Inr (), d)) c of
        (Inl e, c1) \<Rightarrow> (Inl e, c1)
      | (Inr u, c1) \<Rightarrow> (Inr (), c1\<lparr>c_saved := None\<rparr>))"

definition rollback :: "'x conn_scheme \<Rightarrow> 'x conn_scheme" where
  "rollback c =
     (case c_saved c of None \<Rightarrow> c | Some d \<Rightarrow> c\<lparr>c_db := d, c_saved := None\<rparr>)"

section \<open>Schema migrations\<close>

datatype ddl = EVENTS_DDL | DOCUMENTS_DDL | PARTITION_METADATA_DDL

text \<open>\<open>CREATE TABLE IF NOT EXISTS\<close>, index included.\<close>

definition create_if_missing :: "'r list option \<Rightarrow> 'r list option" where
  "create_if_missing t = (case t of None \<Rightarrow> Some [] | Some rows \<Rightarrow> Some rows)"

fun apply_ddl :: "ddl \<Rightarrow> db \<Rightarrow> db" where
  "apply_ddl EVENTS_DDL d = d\<lparr>tbl_events := create_if_missing (tbl_events d)\<rparr>"
| "apply_ddl DOCUMENTS_DDL d = d\<lparr>tbl_documents := create_if_missing (tbl_documents d)\<rparr>"
| "apply_ddl PARTITION_METADATA_DDL d =
     d\<lparr>tbl_partition_metadata := create_if_missing (tbl_partition_metadata d)\<rparr>"

definition EVENT_STORE_SCHEMA_VERSION :: u32 where "EVENT_STORE_SCHEMA_VERSION = 2"
definition DOCUMENT_STORE_SCHEMA_VERSION :: u32 where "DOCUMENT_STORE_SCHEMA_VERSION = 1"

text \<open>\<open>INSERT ... ON CONFLICT DO UPDATE\<close> on a table with a primary key.\<close>

fun upsert :: "'k \<Rightarrow> 'v \<Rightarrow> ('k \<times> 'v) list \<Rightarrow> ('k \<times> 'v) list" where
  "upsert k v [] = [(k, v)]"
| "upsert k v ((j, w) # rows) = (if j = k then (k, v) # rows else (j, w) # upsert k v rows)"

definition current_schema_version :: "'g host \<Rightarrow> string \<Rightarrow> ('x, u32) sql" where
  "current_schema_version H key =
     seq_result
       (statement H (\<lambda>d. (Inr (),
          d\<lparr>tbl_schema_versions := create_if_missing (tbl_schema_versions d)\<rparr>)))
       (\<lambda>_. query H tbl_schema_versions ''_wee_events_schema_versions''
          (\<lambda>rows. case map_of rows key of None \<Rightarrow> 0 | Some v \<Rightarrow> v))"

definition pending_ddl :: "u32 \<Rightarrow> (u32 \<times> ddl) list \<Rightarrow> ddl list" where
  "pending_ddl current migrations = map snd (filter (\<lambda>(version, _). current < version) migrations)"

definition upsert_version :: "'g host \<Rightarrow> string \<Rightarrow> u32 \<Rightarrow> ('x, unit) sql" where
  "upsert_version H key target =
     statement H (\<lambda>d. case tbl_schema_versions d of
         None \<Rightarrow> (Inl (no_such_table ''_wee_events_schema_versions''), d)
       | Some rows \<Rightarrow> (Inr (), d\<lparr>tbl_schema_versions := Some (upsert key target rows)\<rparr>))"

definition migrate_schema :: "'g host \<Rightarrow> string \<Rightarrow> u32 \<Rightarrow> (u32 \<times> ddl) list \<Rightarrow> ('x, unit) sql" where
  "migrate_schema H key target migrations =
     seq_result (current_schema_version H key) (\<lambda>current.
       if target \<le> current then give (Inr ())
       else
         seq_result (begin_transaction H) (\<lambda>_ c.
         seq_result (upsert_version H key target) (\<lambda>_. commit H)
           (c\<lparr>c_db := fold apply_ddl (pending_ddl current migrations) (c_db c)\<rparr>)))"

definition event_migrations :: "(u32 \<times> ddl) list" where
  "event_migrations = [(1, EVENTS_DDL), (2, PARTITION_METADATA_DDL)]"

definition event_schema_key :: string where
  "event_schema_key = ''_wee_events_event_store_user_version''"

definition migrate_event_store :: "'g host \<Rightarrow> ('x, unit) sql" where
  "migrate_event_store H = migrate_schema H event_schema_key EVENT_STORE_SCHEMA_VERSION event_migrations"

definition migrate_document_store :: "'g host \<Rightarrow> ('x, unit) sql" where
  "migrate_document_store H =
     migrate_schema H ''_wee_events_document_store_user_version'' DOCUMENT_STORE_SCHEMA_VERSION
       [(1, DOCUMENTS_DDL)]"

section \<open>Opening a connection\<close>

datatype database_target =
    InMemory
  | Local string
  | SqldDefault string string  \<comment> \<open>url, token\<close>
  | SqldNamespace string string string  \<comment> \<open>url, token, namespace\<close>
  | Turso string string

definition query_required_string ::
  "'g host \<Rightarrow> (db \<Rightarrow> string option \<times> db) \<Rightarrow> string \<Rightarrow> ('x, string) sql" where
  "query_required_string H pragma sql =
     seq_result (statement H (\<lambda>d. case pragma d of (row, d') \<Rightarrow> (Inr row, d'))) (\<lambda>row.
       give (ok_or (Configuration (''expected row when querying pragma: '' @ sql)) row))"

definition prepare_local_connection :: "'g host \<Rightarrow> ('x, unit) sql" where
  "prepare_local_connection H =
     seq_result
       (query_required_string H (\<lambda>d. (Some (db_journal_mode d), d)) ''PRAGMA journal_mode'')
       (\<lambda>journal_mode.
         seq_result
           (if journal_mode \<noteq> ''memory'' \<and> journal_mode \<noteq> ''wal'' then
              seq_result
                (query_required_string H
                   (\<lambda>d. let m = h_set_wal H (db_journal_mode d)
                        in (Some m, d\<lparr>db_journal_mode := m\<rparr>))
                   ''PRAGMA journal_mode=WAL'')
                (\<lambda>confirmed.
                  if confirmed \<noteq> ''wal''
                  then give (Inl (Configuration (''expected WAL journal mode, got: '' @ confirmed)))
                  else give (Inr ()))
            else give (Inr ()))
           (\<lambda>_. seq_result (statement H (\<lambda>d. (Inr (), d))) (\<lambda>_ c.
              seq_result (statement H (\<lambda>d. (Inr (), d))) (\<lambda>_ c'.
                give (Inr ()) (c'\<lparr>c_foreign_keys := True\<rparr>)) (c\<lparr>c_busy_timeout_ms := 30000\<rparr>))))"

text \<open>
  The caller of the opening functions hands in the connection that \<open>libsql\<close> would return for the
  stored database; building and connecting is one call.
\<close>

definition connect :: "'g host \<Rightarrow> ('x, unit) sql" where
  "connect H = statement H (\<lambda>d. (Inr (), d))"

definition open_event_store_connection :: "'g host \<Rightarrow> database_target \<Rightarrow> ('x, unit) sql" where
  "open_event_store_connection H target =
     seq_result
       (case target of
          InMemory \<Rightarrow> seq_result (connect H) (\<lambda>_. prepare_local_connection H)
        | Local path \<Rightarrow>
            (case h_create_parent H path of
               Some e \<Rightarrow> give (Inl (Io e))
             | None \<Rightarrow> seq_result (connect H) (\<lambda>_. prepare_local_connection H))
        | SqldDefault url token \<Rightarrow> connect H
        | Turso url token \<Rightarrow> connect H
        | SqldNamespace url token namespace \<Rightarrow> connect H)
       (\<lambda>_. migrate_event_store H)"

definition open_document_store_connection :: "'g host \<Rightarrow> ('x, unit) sql" where
  "open_document_store_connection H =
     seq_result (connect H) (\<lambda>_. seq_result (prepare_local_connection H) (\<lambda>_.
       migrate_document_store H))"

section \<open>Partition metadata\<close>

definition load_partition_name :: "'g host \<Rightarrow> ('x, string option) sql" where
  "load_partition_name H =
     query H tbl_partition_metadata ''_wee_events_partition_metadata''
       (\<lambda>rows. map_of rows ''logical_name'')"

definition insert_partition_name :: "'g host \<Rightarrow> string \<Rightarrow> ('x, unit) sql" where
  "insert_partition_name H name =
     statement H (\<lambda>d. case tbl_partition_metadata d of
         None \<Rightarrow> (Inl (no_such_table ''_wee_events_partition_metadata''), d)
       | Some rows \<Rightarrow>
           (Inr (), if map_of rows ''logical_name'' = None
                    then d\<lparr>tbl_partition_metadata := Some (rows @ [(''logical_name'', name)])\<rparr>
                    else d))"

definition ensure_partition_name :: "'g host \<Rightarrow> string \<Rightarrow> ('x, unit) sql" where
  "ensure_partition_name H logical_name =
     seq_result (insert_partition_name H logical_name) (\<lambda>_.
     seq_result (load_partition_name H) (\<lambda>recorded.
       case recorded of
         None \<Rightarrow> give (Inl (Internal
           ''partition metadata insert succeeded without recording logical_name''))
       | Some recorded_name \<Rightarrow>
           if recorded_name \<noteq> logical_name
           then give (Inl (Configuration
             (''logical partition name mismatch: target is recorded as '' @ [CHR 0x27] @ recorded_name @
              [CHR 0x27] @ '' but was opened for '' @ [CHR 0x27] @ logical_name @ [CHR 0x27])))
           else give (Inr ())))"

section \<open>Facts about statements\<close>

lemma statement_Inr [result_simps]:
  "statement H f c = (Inr a, c') \<longleftrightarrow>
     h_faults H (c_calls c) = None \<and>
     (\<exists>d. f (c_db c) = (Inr a, d) \<and> c' = c\<lparr>c_calls := Suc (c_calls c), c_db := d\<rparr>)"
  by (auto simp: statement_def Let_def split: option.splits prod.splits sum.splits)

lemma statement_Inl [result_simps]:
  "statement H f c = (Inl e, c') \<longleftrightarrow>
     c' = c\<lparr>c_calls := Suc (c_calls c)\<rparr> \<and>
     (\<exists>l. e = Libsql l \<and>
       (h_faults H (c_calls c) = Some l \<or>
        h_faults H (c_calls c) = None \<and> fst (f (c_db c)) = Inl l))"
  by (auto simp: statement_def Let_def split: option.splits prod.splits sum.splits)

lemma query_Inr [result_simps]:
  "query H table name f c = (Inr a, c') \<longleftrightarrow>
     h_faults H (c_calls c) = None \<and> c' = c\<lparr>c_calls := Suc (c_calls c)\<rparr> \<and>
     (\<exists>t. table (c_db c) = Some t \<and> a = f t)"
  by (auto simp: query_def result_simps)

lemma query_Inl [result_simps]:
  "query H table name f c = (Inl e, c') \<longleftrightarrow>
     c' = c\<lparr>c_calls := Suc (c_calls c)\<rparr> \<and>
     (\<exists>l. e = Libsql l \<and>
       (h_faults H (c_calls c) = Some l \<or>
        h_faults H (c_calls c) = None \<and> table (c_db c) = None \<and> l = no_such_table name))"
  by (auto simp: query_def result_simps)

lemma begin_transaction_Inr [result_simps]:
  "begin_transaction H c = (Inr u, c') \<longleftrightarrow>
     h_faults H (c_calls c) = None \<and>
     c' = c\<lparr>c_calls := Suc (c_calls c), c_saved := Some (c_db c)\<rparr>"
  by (auto simp: begin_transaction_def statement_def Let_def split: option.splits)

lemma begin_transaction_Inl [result_simps]:
  "begin_transaction H c = (Inl e, c') \<longleftrightarrow>
     c' = c\<lparr>c_calls := Suc (c_calls c)\<rparr> \<and>
     (\<exists>l. h_faults H (c_calls c) = Some l \<and> e = Libsql l)"
  by (auto simp: begin_transaction_def statement_def Let_def split: option.splits)

lemma commit_Inr [result_simps]:
  "commit H c = (Inr u, c') \<longleftrightarrow>
     h_faults H (c_calls c) = None \<and> c' = c\<lparr>c_calls := Suc (c_calls c), c_saved := None\<rparr>"
  by (auto simp: commit_def statement_def Let_def split: option.splits)

lemma commit_Inl [result_simps]:
  "commit H c = (Inl e, c') \<longleftrightarrow>
     c' = c\<lparr>c_calls := Suc (c_calls c)\<rparr> \<and>
     (\<exists>l. h_faults H (c_calls c) = Some l \<and> e = Libsql l)"
  by (auto simp: commit_def statement_def Let_def split: option.splits)

lemma rollback_simps [simp]:
  "c_saved c = None \<Longrightarrow> rollback c = c"
  "c_saved c = Some d \<Longrightarrow> rollback c = c\<lparr>c_db := d, c_saved := None\<rparr>"
  by (simp_all add: rollback_def)

lemma c_saved_rollback [simp]: "c_saved (rollback c) = None"
  by (simp add: rollback_def split: option.splits)

section \<open>Migrations are all or nothing\<close>

definition schema_version :: "string \<Rightarrow> db \<Rightarrow> u32" where
  "schema_version key d =
     (case tbl_schema_versions d of
        None \<Rightarrow> 0
      | Some rows \<Rightarrow> (case map_of rows key of None \<Rightarrow> 0 | Some v \<Rightarrow> v))"

text \<open>A recorded version promises the tables of every migration up to it.\<close>

definition schema_ok :: "db \<Rightarrow> bool" where
  "schema_ok d \<longleftrightarrow>
     (1 \<le> schema_version event_schema_key d \<longrightarrow> tbl_events d \<noteq> None) \<and>
     (2 \<le> schema_version event_schema_key d \<longrightarrow> tbl_partition_metadata d \<noteq> None)"

lemma u32_ge_1 [simp]: "(1 :: u32) \<le> v \<longleftrightarrow> v \<noteq> 0"
  by (simp add: word_le_nat_alt Suc_le_eq unat_gt_0)

lemma map_of_upsert: "map_of (upsert k v rows) = (map_of rows)(k \<mapsto> v)"
  by (induction k v rows rule: upsert.induct) (auto simp: fun_eq_iff)

lemma create_if_missing_simps [simp]:
  "create_if_missing None = Some []" "create_if_missing (Some rows) = Some rows"
  "create_if_missing t \<noteq> None" "create_if_missing t = Some rows \<longleftrightarrow> t = Some rows \<or> t = None \<and> rows = []"
  by (cases t; auto simp: create_if_missing_def)+

lemma schema_ok_empty [simp]: "schema_ok (empty_db mode)"
  by (simp add: schema_ok_def schema_version_def empty_db_def)

text \<open>The tables other than the schema versions.\<close>

definition same_tables :: "db \<Rightarrow> db \<Rightarrow> bool" where
  "same_tables d d' \<longleftrightarrow> tbl_events d' = tbl_events d \<and>
     tbl_partition_metadata d' = tbl_partition_metadata d \<and> tbl_documents d' = tbl_documents d"

lemma current_schema_version_cases:
  assumes "current_schema_version H key c = (r, c')"
  shows "c_saved c' = c_saved c \<and> same_tables (c_db c) (c_db c') \<and>
    schema_version k (c_db c') = schema_version k (c_db c) \<and>
    (\<forall>v. r = Inr v \<longrightarrow> v = schema_version key (c_db c) \<and> tbl_schema_versions (c_db c') \<noteq> None)"
  using assms unfolding current_schema_version_def
  by (cases rule: seq_result_cases; cases r)
    (auto simp: result_simps same_tables_def schema_version_def split: option.splits)

lemma pending_event_ddl:
  assumes "schema_ok d" and "schema_version event_schema_key d < 2"
  shows "fold apply_ddl (pending_ddl (schema_version event_schema_key d) event_migrations) d =
    d\<lparr>tbl_events := create_if_missing (tbl_events d),
      tbl_partition_metadata := create_if_missing (tbl_partition_metadata d)\<rparr>"
  using assms
  by (auto simp: pending_ddl_def event_migrations_def schema_ok_def not_less
      create_if_missing_def split: option.splits)

lemma migration_transaction:
  assumes "seq_result (begin_transaction H) (\<lambda>_ c.
      seq_result (upsert_version H key target) (\<lambda>_. commit H) (c\<lparr>c_db := D (c_db c)\<rparr>)) c = (r, c')"
    and "tbl_schema_versions (D (c_db c)) = Some rows" and "c_saved c = None"
  shows "(\<exists>e. r = Inl e \<and> c_db (rollback c') = c_db c) \<or>
    (r = Inr () \<and> c_saved c' = None \<and>
      c_db c' = (D (c_db c))\<lparr>tbl_schema_versions := Some (upsert key target rows)\<rparr>)"
  using assms(1)
proof (cases rule: seq_result_cases)
  case (stop e)
  with assms(3) show ?thesis by (auto simp: result_simps)
next
  case (run u c1)
  from run(1) have c1: "c_db c1 = c_db c" "c_saved c1 = Some (c_db c)" by (auto simp: result_simps)
  from run(2) show ?thesis
  proof (cases rule: seq_result_cases)
    case (stop e)
    with c1 have "c_saved c' = Some (c_db c)" by (auto simp: result_simps upsert_version_def)
    with stop(2) show ?thesis by simp
  next
    case (run w c2)
    with c1 assms(2) have c2: "c_saved c2 = Some (c_db c)"
      "c_db c2 = (D (c_db c))\<lparr>tbl_schema_versions := Some (upsert key target rows)\<rparr>"
      by (auto simp: result_simps upsert_version_def)
    with run(2) show ?thesis by (cases r) (auto simp: result_simps)
  qed
qed

lemma migrate_event_store_result:
  assumes "c_saved c = None" and "schema_ok (c_db c)" and "migrate_event_store H c = (r, c')"
  shows "schema_ok (c_db (rollback c')) \<and>
    tbl_documents (c_db (rollback c')) = tbl_documents (c_db c) \<and>
    (case r of
       Inl e \<Rightarrow> same_tables (c_db c) (c_db (rollback c')) \<and>
         schema_version event_schema_key (c_db (rollback c')) = schema_version event_schema_key (c_db c)
     | Inr _ \<Rightarrow> tbl_events (c_db c') = create_if_missing (tbl_events (c_db c)) \<and>
         tbl_partition_metadata (c_db c') = create_if_missing (tbl_partition_metadata (c_db c)) \<and>
         2 \<le> schema_version event_schema_key (c_db c') \<and> c_saved c' = None)"
  using assms(3) unfolding migrate_event_store_def migrate_schema_def
proof (cases rule: seq_result_cases)
  case (stop e)
  with current_schema_version_cases [OF stop(1)] assms(1,2) show ?thesis
    by (auto simp: same_tables_def schema_ok_def)
next
  case (run v c1)
  note cur = current_schema_version_cases [OF run(1)]
  show ?thesis
  proof (cases "2 \<le> v")
    case True
    with run cur assms(1,2) show ?thesis
      by (auto simp: same_tables_def schema_ok_def EVENT_STORE_SCHEMA_VERSION_def result_simps
          create_if_missing_def order_trans split: option.splits)
  next
    case False
    let ?v = "schema_version event_schema_key (c_db c1)"
    have ok1: "schema_ok (c_db c1)" and v: "v = ?v" and "c_saved c1 = None"
      using cur assms(1,2) by (auto simp: schema_ok_def same_tables_def)
    from ok1 False v
    have ddl: "fold apply_ddl (pending_ddl v event_migrations) (c_db c1) =
      (c_db c1)\<lparr>tbl_events := create_if_missing (tbl_events (c_db c1)),
        tbl_partition_metadata := create_if_missing (tbl_partition_metadata (c_db c1))\<rparr>"
      by (simp add: pending_event_ddl not_le)
    obtain rows where rows: "tbl_schema_versions (c_db c1) = Some rows"
      using cur by blast
    let ?D = "fold apply_ddl (pending_ddl v event_migrations)"
    from run(2) False have tail: "seq_result (begin_transaction H) (\<lambda>_ c.
        seq_result (upsert_version H event_schema_key EVENT_STORE_SCHEMA_VERSION) (\<lambda>_. commit H)
          (c\<lparr>c_db := ?D (c_db c)\<rparr>)) c1 = (r, c')"
      by (simp add: EVENT_STORE_SCHEMA_VERSION_def)
    have "tbl_schema_versions (?D (c_db c1)) = Some rows" using rows ddl by simp
    from migration_transaction [OF tail this \<open>c_saved c1 = None\<close>] show ?thesis
    proof
      assume "\<exists>e. r = Inl e \<and> c_db (rollback c') = c_db c1"
      with ok1 cur show ?thesis by (auto simp: same_tables_def)
    next
      assume "r = Inr () \<and> c_saved c' = None \<and> c_db c' = (?D (c_db c1))
        \<lparr>tbl_schema_versions := Some (upsert event_schema_key EVENT_STORE_SCHEMA_VERSION rows)\<rparr>"
      with ddl cur show ?thesis
        by (simp add: same_tables_def schema_ok_def schema_version_def map_of_upsert
            EVENT_STORE_SCHEMA_VERSION_def)
    qed
  qed
qed

text \<open>
  C28: migrating an event store either fails and leaves, once the connection is dropped, every
  table as it was, or succeeds with both event-store tables present, every existing row kept,
  and the version recorded; either way the recorded version keeps promising its tables.
\<close>

theorem migrate_event_store_all_or_nothing:
  assumes "c_saved c = None" and "schema_ok (c_db c)" and "migrate_event_store H c = (r, c')"
  shows "schema_ok (c_db (rollback c')) \<and>
    tbl_documents (c_db (rollback c')) = tbl_documents (c_db c) \<and>
    (case r of
       Inl e \<Rightarrow> same_tables (c_db c) (c_db (rollback c')) \<and>
         schema_version event_schema_key (c_db (rollback c')) = schema_version event_schema_key (c_db c)
     | Inr _ \<Rightarrow> tbl_events (c_db c') = create_if_missing (tbl_events (c_db c)) \<and>
         tbl_partition_metadata (c_db c') = create_if_missing (tbl_partition_metadata (c_db c)) \<and>
         2 \<le> schema_version event_schema_key (c_db c') \<and> c_saved c' = None)"
  using assms by (rule migrate_event_store_result)

section \<open>The partition name\<close>

definition partition_name_of :: "db \<Rightarrow> string option" where
  "partition_name_of d = Option.bind (tbl_partition_metadata d) (\<lambda>rows. map_of rows ''logical_name'')"

lemma ensure_partition_name_result:
  assumes "ensure_partition_name H name c = (r, c')" and "c_saved c = None"
  shows "(r = Inr u \<longrightarrow> partition_name_of (c_db c') = Some name) \<and>
    (\<forall>old. partition_name_of (c_db c) = Some old \<longrightarrow>
       partition_name_of (c_db c') = Some old \<and> (r = Inr u \<longrightarrow> name = old) \<and>
       (old \<noteq> name \<longrightarrow> (\<exists>e. r = Inl (Configuration e)) \<or> (\<exists>l. r = Inl (Libsql l)))) \<and>
    tbl_events (c_db c') = tbl_events (c_db c)"
  using assms(1) unfolding ensure_partition_name_def
proof (cases rule: seq_result_cases)
  case (stop e)
  then show ?thesis by (auto simp: insert_partition_name_def result_simps partition_name_of_def)
next
  case (run a c1)
  have snoc: "map_of (rows @ [(k, x)]) k = Some x" if "map_of rows k = None" for rows k and x :: string
    using that by (simp add: map_add_def)
  from run(1) have c1: "tbl_events (c_db c1) = tbl_events (c_db c)"
      "partition_name_of (c_db c1) =
        Some (case partition_name_of (c_db c) of None \<Rightarrow> name | Some old \<Rightarrow> old)"
    by (auto simp: insert_partition_name_def result_simps partition_name_of_def snoc
        simp del: map_of_append split: option.splits if_splits)
  from run(2) show ?thesis
    by (cases rule: seq_result_cases)
      (use c1 in \<open>auto simp: load_partition_name_def result_simps partition_name_of_def
        split: option.splits if_splits\<close>)
qed

text \<open>
  The first logical name given to a database stays: opening it for a name succeeds only if
  that name is the one recorded afterwards, a database recorded under another name is refused as
  a configuration error, and no call changes a recorded name.
\<close>

theorem partition_name_first_writer_wins:
  assumes "ensure_partition_name H name c = (r, c')" and "c_saved c = None"
  shows "(r = Inr u \<longrightarrow> partition_name_of (c_db c') = Some name) \<and>
    (\<forall>old. partition_name_of (c_db c) = Some old \<longrightarrow>
       partition_name_of (c_db c') = Some old \<and> (r = Inr u \<longrightarrow> name = old) \<and>
       (old \<noteq> name \<longrightarrow> (\<exists>e. r = Inl (Configuration e)) \<or> (\<exists>l. r = Inl (Libsql l)))) \<and>
    tbl_events (c_db c') = tbl_events (c_db c)"
  using assms by (rule ensure_partition_name_result)

section \<open>A host for the witnesses\<close>

text \<open>No call fails, the clock stands at 1000 ns, and the crates are those of \<^verbatim>\<open>UlidInstance\<close>.\<close>

definition calm_host :: "ulid host" where
  "calm_host = \<lparr>h_faults = (\<lambda>_. None), h_ulid = crockford_codec, h_gen = counter_generator,
     h_overflow_text = ''overflow'', h_nanos = (\<lambda>_. 1000), h_set_wal = (\<lambda>_. ''wal''),
     h_create_parent = (\<lambda>_. None), h_ulid_error_text = (\<lambda>_. ''invalid'')\<rparr>"

definition fresh_conn :: "conn" where
  "fresh_conn = \<lparr>c_db = empty_db ''memory'', c_saved = None, c_busy_timeout_ms = 0,
     c_foreign_keys = False, c_calls = 0\<rparr>"

definition migrated_conn :: "conn" where
  "migrated_conn = snd (migrate_event_store calm_host fresh_conn)"

lemmas sql_run = seq_result_def statement_def query_def begin_transaction_def commit_def give_def
  ok_or_def Let_def

lemma migrated_conn_eq:
  "migrate_event_store calm_host fresh_conn = (Inr (), migrated_conn)"
  "tbl_events (c_db migrated_conn) = Some []"
  "tbl_partition_metadata (c_db migrated_conn) = Some []"
  "c_saved migrated_conn = None"
  by (simp_all add: migrated_conn_def migrate_event_store_def migrate_schema_def sql_run
      current_schema_version_def fresh_conn_def calm_host_def empty_db_def upsert_version_def
      EVENT_STORE_SCHEMA_VERSION_def event_migrations_def pending_ddl_def)

theorem migrate_event_store_all_or_nothing_witness:
  "migrate_event_store calm_host fresh_conn = (Inr (), migrated_conn) \<and>
   2 \<le> schema_version event_schema_key (c_db migrated_conn)"
  using migrate_event_store_all_or_nothing [OF _ _ migrated_conn_eq(1)] migrated_conn_eq(1)
  by (simp add: fresh_conn_def)

definition named_conn :: "conn" where
  "named_conn = snd (ensure_partition_name calm_host ''orders'' migrated_conn)"

lemma named_conn_eq: "ensure_partition_name calm_host ''orders'' migrated_conn = (Inr (), named_conn)"
  by (simp add: named_conn_def ensure_partition_name_def insert_partition_name_def sql_run
      load_partition_name_def migrated_conn_eq calm_host_def)

theorem partition_name_first_writer_wins_witness:
  "ensure_partition_name calm_host ''orders'' migrated_conn = (Inr (), named_conn) \<and>
   partition_name_of (c_db named_conn) = Some ''orders''"
  using partition_name_first_writer_wins [OF named_conn_eq migrated_conn_eq(4), of "()"] named_conn_eq
  by simp

end
