(* ===== verification/SqlEvents.thy ===== *)
theory SqlEvents
  imports Database
begin

text \<open>
  The \<open>events\<close> table of \<^verbatim>\<open>crates/wee-events-sqlite/src/event_store/store.rs\<close>: the three
  conditional inserts, the two aggregate queries and the enumeration queries, and the stream of
  recorded events that a table holds for an aggregate. Text compares by bytes (\<open>BINARY\<close>
  collation).
\<close>

section \<open>Queries\<close>

definition agg_rows :: "event_row list \<Rightarrow> aggregate_id \<Rightarrow> event_row list" where
  "agg_rows rows i = filter (\<lambda>r. row_aggregate_type r = aggregate_type_str (aggregate_type i) \<and>
     row_aggregate_key r = aggregate_key i) rows"

text \<open>\<open>SELECT MAX(revision) ... WHERE aggregate_type = ?1 AND aggregate_key = ?2\<close>.\<close>

definition max_revision :: "event_row list \<Rightarrow> aggregate_id \<Rightarrow> string option" where
  "max_revision rows i =
     (case map row_revision (agg_rows rows i) of [] \<Rightarrow> None | r # rs \<Rightarrow> Some (fold max rs r))"

definition current_revision :: "'g host \<Rightarrow> aggregate_id \<Rightarrow> ('x, string option) sql" where
  "current_revision H i = query H tbl_events ''events'' (\<lambda>rows. max_revision rows i)"

text \<open>One row of \<open>load_from_connection\<close>'s loop.\<close>

definition decode_row :: "'g host \<Rightarrow> event_row \<Rightarrow> sqlite_error + recorded_event" where
  "decode_row H row =
     and_then
       (map_err (\<lambda>e. Internal (''event row has unknown encoding: '' @ decode_error_display e))
          (from_encoding_str (row_encoding row)))
       (\<lambda>encoding.
     and_then
       (map_err (\<lambda>e. Internal (''event row has invalid revision: '' @
            revision_parse_error_display (h_ulid_error_text H) e))
          (revision_from_str (h_ulid H) (row_revision row)))
       (\<lambda>revision. Inr
          \<lparr>re_event_id = EventId (row_event_id row),
           re_event_type = EventType (row_event_type row),
           re_revision = revision,
           re_metadata = \<lparr>md_causation_id = map_option EventId (row_causation_id row),
             md_correlation_id = map_option CorrelationId (row_correlation_id row)\<rparr>,
           re_data = event_data_raw encoding (row_data row)\<rparr>))"

definition load_from_connection :: "'g host \<Rightarrow> aggregate_id \<Rightarrow> ('x, aggregate) sql" where
  "load_from_connection H i =
     seq_result
       (query H tbl_events ''events'' (\<lambda>rows. sort_key row_revision (agg_rows rows i)))
       (\<lambda>rows. give (map_ok (from_events i) (collect_results (map (decode_row H) rows))))"

text \<open>\<open>SELECT DISTINCT\<close>: one row per value, in no promised order (here of first occurrence).\<close>

definition distinct_values :: "'a list \<Rightarrow> 'a list" where
  "distinct_values xs = rev (remdups (rev xs))"

definition enumerate_all_from_connection :: "'g host \<Rightarrow> ('x, aggregate_id list) sql" where
  "enumerate_all_from_connection H =
     seq_result
       (query H tbl_events ''events''
          (\<lambda>rows. distinct_values (map (\<lambda>r. (row_aggregate_type r, row_aggregate_key r)) rows)))
       (\<lambda>rows. give (Inr (map (\<lambda>(t, k). aggregate_id_new t k) rows)))"

definition enumerate_by_type_from_connection ::
  "'g host \<Rightarrow> aggregate_type \<Rightarrow> ('x, aggregate_id list) sql" where
  "enumerate_by_type_from_connection H t =
     seq_result
       (query H tbl_events ''events''
          (\<lambda>rows. distinct_values (map row_aggregate_key
             (filter (\<lambda>r. row_aggregate_type r = aggregate_type_str t) rows))))
       (\<lambda>keys. give (Inr (map (aggregate_id_new (aggregate_type_str t)) keys)))"

section \<open>Inserts\<close>

definition SQLITE_CONSTRAINT_CHECK :: int where "SQLITE_CONSTRAINT_CHECK = 275"
definition SQLITE_CONSTRAINT_PRIMARYKEY :: int where "SQLITE_CONSTRAINT_PRIMARYKEY = 1555"
definition SQLITE_CONSTRAINT_UNIQUE :: int where "SQLITE_CONSTRAINT_UNIQUE = 2067"

text \<open>The constraints of \<open>EVENTS_DDL\<close>.\<close>

definition constraint_violation :: "event_row list \<Rightarrow> event_row \<Rightarrow> libsql_error option" where
  "constraint_violation rows r =
     (if length (row_event_id r) \<noteq> 26 \<or> length (row_revision r) \<noteq> 26
      then Some (SqliteFailure SQLITE_CONSTRAINT_CHECK ''CHECK constraint failed'')
      else if row_event_id r \<in> set (map row_event_id rows)
      then Some (SqliteFailure SQLITE_CONSTRAINT_PRIMARYKEY ''UNIQUE constraint failed: events.event_id'')
      else if (row_aggregate_type r, row_aggregate_key r, row_revision r) \<in>
        set (map (\<lambda>q. (row_aggregate_type q, row_aggregate_key q, row_revision q)) rows)
      then Some (SqliteFailure SQLITE_CONSTRAINT_UNIQUE ''UNIQUE constraint failed: idx_events_aggregate'')
      else None)"

text \<open>\<open>INSERT INTO events ... SELECT ... WHERE <condition>\<close>: the number of rows inserted.\<close>

definition insert_where ::
  "'g host \<Rightarrow> (event_row list \<Rightarrow> event_row \<Rightarrow> bool) \<Rightarrow> event_row \<Rightarrow> ('x, nat) sql" where
  "insert_where H condition r =
     statement H (\<lambda>d. case tbl_events d of
         None \<Rightarrow> (Inl (no_such_table ''events''), d)
       | Some rows \<Rightarrow>
           if \<not> condition rows r then (Inr 0, d)
           else case constraint_violation rows r of
                  Some e \<Rightarrow> (Inl e, d)
                | None \<Rightarrow> (Inr 1, d\<lparr>tbl_events := Some (rows @ [r])\<rparr>))"

definition row_aggregate :: "event_row \<Rightarrow> aggregate_id" where
  "row_aggregate r = aggregate_id_new (row_aggregate_type r) (row_aggregate_key r)"

definition SQL_INITIAL :: "event_row list \<Rightarrow> event_row \<Rightarrow> bool" where
  "SQL_INITIAL rows r = (agg_rows rows (row_aggregate r) = [])"

definition coalesce :: "'a option \<Rightarrow> 'a \<Rightarrow> 'a" where
  "coalesce x d = (case x of None \<Rightarrow> d | Some a \<Rightarrow> a)"

definition SQL_EXACT :: "string \<Rightarrow> event_row list \<Rightarrow> event_row \<Rightarrow> bool" where
  "SQL_EXACT expected rows r =
     (coalesce (max_revision rows (row_aggregate r)) ZERO_REVISION < row_revision r \<and>
      max_revision rows (row_aggregate r) = Some expected)"

definition SQL_ADVANCE :: "event_row list \<Rightarrow> event_row \<Rightarrow> bool" where
  "SQL_ADVANCE rows r =
     (coalesce (max_revision rows (row_aggregate r)) ZERO_REVISION < row_revision r)"

record publish_row =
  pr_index :: nat
  pr_aggregate_id :: aggregate_id
  pr_options :: publish_options
  pr_raw :: raw_event
  pr_metadata :: event_metadata
  pr_event_id :: event_id
  pr_revision :: string

definition row_of :: "publish_row \<Rightarrow> event_row" where
  "row_of p =
     \<lparr>row_event_id = event_id_str (pr_event_id p),
      row_aggregate_type = aggregate_type_str (aggregate_type (pr_aggregate_id p)),
      row_aggregate_key = aggregate_key (pr_aggregate_id p),
      row_event_type = event_type_str (raw_event_type (pr_raw p)),
      row_revision = pr_revision p,
      row_causation_id = map_option event_id_str (md_causation_id (pr_metadata p)),
      row_correlation_id = map_option correlation_id_str (md_correlation_id (pr_metadata p)),
      row_encoding = encoding_as_str (ed_encoding (raw_data (pr_raw p))),
      row_data = ed_data (raw_data (pr_raw p))\<rparr>"

definition execute_publish_statement :: "'g host \<Rightarrow> publish_row \<Rightarrow> ('x, nat) sql" where
  "execute_publish_statement H p =
     (case (pr_index p, expected_revision (pr_options p)) of
        (0, Some expected) \<Rightarrow>
          if revision_is_zero expected then insert_where H SQL_INITIAL (row_of p)
          else insert_where H (SQL_EXACT (revision_str expected)) (row_of p)
      | _ \<Rightarrow> insert_where H SQL_ADVANCE (row_of p))"

section \<open>The stream a table holds\<close>

definition event_of_row :: "event_row \<Rightarrow> recorded_event" where
  "event_of_row r =
     \<lparr>re_event_id = EventId (row_event_id r), re_event_type = EventType (row_event_type r),
      re_revision = Revision (row_revision r),
      re_metadata = \<lparr>md_causation_id = map_option EventId (row_causation_id r),
        md_correlation_id = map_option CorrelationId (row_correlation_id r)\<rparr>,
      re_data = event_data_raw (if row_encoding r = CBOR_ENCODING then Cbor else Json) (row_data r)\<rparr>"

definition rows_stream :: "event_row list \<Rightarrow> aggregate_id \<Rightarrow> recorded_event list" where
  "rows_stream rows i = map event_of_row (sort_key row_revision (agg_rows rows i))"

definition row_ok :: "ulid_codec \<Rightarrow> event_row \<Rightarrow> bool" where
  "row_ok U r \<longleftrightarrow>
     length (row_event_id r) = 26 \<and> row_encoding r \<in> {JSON_ENCODING, CBOR_ENCODING} \<and>
     (\<exists>u. 0 < u \<and> row_revision r = ulid_to_string U u)"

text \<open>The table invariant: every row reads back, and the two unique indexes hold.\<close>

definition rows_inv :: "ulid_codec \<Rightarrow> event_row list \<Rightarrow> bool" where
  "rows_inv U rows \<longleftrightarrow>
     (\<forall>r\<in>set rows. row_ok U r) \<and> distinct (map row_event_id rows) \<and>
     (\<forall>i. distinct (map row_revision (agg_rows rows i)))"

lemma rows_inv_Nil [simp]: "rows_inv U []"
  by (simp add: rows_inv_def agg_rows_def)

lemma rows_stream_Nil [simp]: "rows_stream [] i = []"
  by (simp add: rows_stream_def agg_rows_def)

lemma agg_rows_snoc:
  "agg_rows (rows @ [r]) i = (if row_aggregate r = i then agg_rows rows i @ [r] else agg_rows rows i)"
  by (cases i, rename_tac t k, case_tac t)
    (auto simp: agg_rows_def row_aggregate_def aggregate_id_new_def)

lemma agg_rows_subset: "set (agg_rows rows i) \<subseteq> set rows"
  by (auto simp: agg_rows_def)

lemma row_aggregate_row_of [simp]: "row_aggregate (row_of p) = pr_aggregate_id p"
  by (simp add: row_aggregate_def row_of_def aggregate_id_new_def)

lemma CBOR_not_JSON [simp]: "CBOR_ENCODING \<noteq> JSON_ENCODING" "JSON_ENCODING \<noteq> CBOR_ENCODING"
  by (simp_all add: CBOR_ENCODING_def JSON_ENCODING_def)

lemma decode_row_ok:
  assumes "ulid_laws (h_ulid H)" and "row_ok (h_ulid H) r"
  shows "decode_row H r = Inr (event_of_row r)"
proof -
  from assms(2) obtain u where "row_revision r = ulid_to_string (h_ulid H) u"
    by (auto simp: row_ok_def)
  then have "revision_from_str (h_ulid H) (row_revision r) = Inr (Revision (row_revision r))"
    using revision_from_str_ulid [OF assms(1), of u] by (simp add: revision_from_ulid_def)
  with assms(2) show ?thesis
    by (auto simp: decode_row_def event_of_row_def row_ok_def from_encoding_str_def)
qed

lemma fold_max: "fold max rs (r :: 'a :: linorder) = Max (set (r # rs))"
  by (simp only: Max.set_eq_fold)

lemma sorted_last_Max:
  assumes "xs \<noteq> []"
  shows "f (last (sort_key f xs)) = Max (f ` set xs)"
proof (rule Max_eqI [symmetric])
  have ne: "sort_key f xs \<noteq> []" using assms by (metis set_empty set_sort)
  fix y assume "y \<in> f ` set xs"
  then obtain x where x: "x \<in> set (sort_key f xs)" "y = f x" by auto
  from ne have "sorted (map f (butlast (sort_key f xs) @ [last (sort_key f xs)]))" by simp
  moreover have "set (sort_key f xs) = set (butlast (sort_key f xs)) \<union> {last (sort_key f xs)}"
    using ne by (metis append_butlast_last_id empty_set list.simps(15) set_append)
  ultimately show "y \<le> f (last (sort_key f xs))" using x by (auto simp: sorted_append)
next
  show "f (last (sort_key f xs)) \<in> f ` set xs"
    using assms by (metis imageI last_in_set set_empty set_sort)
qed simp

lemma max_revision_last:
  "map_option Revision (max_revision rows i) = map_option re_revision (last_opt (rows_stream rows i))"
proof (cases "agg_rows rows i")
  case Nil
  then show ?thesis by (simp add: max_revision_def rows_stream_def)
next
  case (Cons r rs)
  then have "max_revision rows i = Some (Max (row_revision ` set (agg_rows rows i)))"
    by (simp add: max_revision_def fold_max del: Max_insert)
  moreover have "agg_rows rows i \<noteq> []" using Cons by simp
  moreover from this have "sort_key row_revision (agg_rows rows i) \<noteq> []"
    by (metis set_empty set_sort)
  ultimately show ?thesis
    by (simp add: rows_stream_def last_opt_map last_opt_def sorted_last_Max last_map event_of_row_def)
qed

lemma max_revision_stream:
  "max_revision rows i =
     (if rows_stream rows i = [] then None else Some (revision_str (stream_revision (rows_stream rows i))))"
  using max_revision_last [of rows i]
  by (cases "max_revision rows i")
    (auto simp: stream_revision_def last_opt_def split: if_splits dest: arg_cong [of _ _ revision_str])

lemma coalesce_max_revision:
  "coalesce (max_revision rows i) ZERO_REVISION = revision_str (stream_revision (rows_stream rows i))"
  by (auto simp: coalesce_def max_revision_stream revision_zero_def)

lemma sort_key_snoc:
  assumes "\<forall>y\<in>set xs. f y \<le> f x"
  shows "sort_key f (xs @ [x]) = sort_key f xs @ [x]"
proof -
  have ins: "insort_key f a (ys @ [x]) = insort_key f a ys @ [x]" if "f a \<le> f x" for a ys
    using that by (induction ys) auto
  from assms show ?thesis by (induction xs) (auto simp: ins)
qed

lemma sorted_revisions:
  assumes "rows_inv U rows"
  shows "strictly_increasing (revisions (rows_stream rows i))"
proof -
  let ?rs = "map row_revision (sort_key row_revision (agg_rows rows i))"
  have "distinct ?rs" using assms by (simp add: rows_inv_def distinct_map)
  then have "strictly_increasing ?rs" by (simp add: strict_sorted_iff)
  then show ?thesis
    by (simp add: revisions_def rows_stream_def event_of_row_def sorted_wrt_map less_revision_def)
qed

lemma stream_rev_row:
  "v \<in> set (revisions (rows_stream rows i)) \<longleftrightarrow> (\<exists>r\<in>set (agg_rows rows i). v = Revision (row_revision r))"
  by (auto simp: revisions_def rows_stream_def event_of_row_def)

lemma stream_rev_ulid:
  assumes "rows_inv U rows" and "v \<in> set (revisions (rows_stream rows i))"
  shows "\<exists>u. 0 < u \<and> v = revision_from_ulid U u"
proof -
  from assms(2) obtain r where r: "r \<in> set (agg_rows rows i)" "v = Revision (row_revision r)"
    by (auto simp: stream_rev_row)
  then have "row_ok U r" using assms(1) agg_rows_subset [of rows i] by (auto simp: rows_inv_def)
  with r show ?thesis by (auto simp: row_ok_def revision_from_ulid_def)
qed

text \<open>An insert above the current revision appends to its stream and to no other.\<close>

lemma rows_stream_snoc:
  assumes "row_aggregate r = i"
    and "stream_revision (rows_stream rows i) < Revision (row_revision r)"
    and "strictly_increasing (revisions (rows_stream rows i))"
  shows "rows_stream (rows @ [r]) = (rows_stream rows)(i := rows_stream rows i @ [event_of_row r])"
proof
  fix j
  have "row_revision q \<le> row_revision r" if "q \<in> set (agg_rows rows i)" for q
  proof -
    have "Revision (row_revision q) \<in> set (revisions (rows_stream rows i))"
      using that by (auto simp: stream_rev_row)
    from strictly_increasing_stream_revision [OF assms(3) this] assms(2)
    show ?thesis by (auto simp: less_revision_def less_eq_revision_def)
  qed
  then show "rows_stream (rows @ [r]) j =
      ((rows_stream rows)(i := rows_stream rows i @ [event_of_row r])) j"
    using assms(1) by (simp add: rows_stream_def agg_rows_snoc sort_key_snoc)
qed

lemma rows_inv_snoc:
  assumes "rows_inv U rows" and "row_ok U r"
    and "stream_revision (rows_stream rows (row_aggregate r)) < Revision (row_revision r)"
    and "row_event_id r \<notin> set (map row_event_id rows)"
  shows "rows_inv U (rows @ [r])"
proof -
  have "row_revision r \<notin> row_revision ` set (agg_rows rows (row_aggregate r))"
  proof
    assume "row_revision r \<in> row_revision ` set (agg_rows rows (row_aggregate r))"
    then have "Revision (row_revision r) \<in> set (revisions (rows_stream rows (row_aggregate r)))"
      by (auto simp: stream_rev_row)
    from strictly_increasing_stream_revision [OF sorted_revisions [OF assms(1)] this] assms(3)
    show False by simp
  qed
  with assms show ?thesis by (auto simp: rows_inv_def agg_rows_snoc)
qed

end
