(* ===== verification/SqlPublish.thy ===== *)
theory SqlPublish
  imports SqlEvents StoreContract
begin

text \<open>
  The publish path of \<^verbatim>\<open>crates/wee-events-sqlite/src/event_store/store.rs\<close> on one connection:
  a single attempt in an immediate transaction, the retry loops around it with their delays, and
  the classification of errors. The state is the connection with the store's ULID generator, the
  process-wide jitter state and the delays slept so far (in ms).
\<close>

record 'g session = conn +
  se_generator :: 'g
  se_jitter :: u64
  se_sleeps :: "nat list"

definition MAX_AUTO_RETRIES :: nat where "MAX_AUTO_RETRIES = 5"
definition BASE_RETRY_DELAY_MS :: u64 where "BASE_RETRY_DELAY_MS = 2"
definition MAX_RETRY_DELAY_MS :: u64 where "MAX_RETRY_DELAY_MS = 64"
definition MAX_BUSY_RETRIES :: nat where "MAX_BUSY_RETRIES = 8"
definition BUSY_BASE_DELAY_MS :: u64 where "BUSY_BASE_DELAY_MS = 5"
definition BUSY_MAX_DELAY_MS :: u64 where "BUSY_MAX_DELAY_MS = 250"
definition SQLITE_BUSY :: int where "SQLITE_BUSY = 5"
definition SQLITE_LOCKED :: int where "SQLITE_LOCKED = 6"

section \<open>Error classification\<close>

fun is_sqlite_busy :: "sqlite_error \<Rightarrow> bool" where
  "is_sqlite_busy (Libsql (SqliteFailure code m)) = (code = SQLITE_BUSY \<or> code = SQLITE_LOCKED)"
| "is_sqlite_busy (Libsql (RemoteSqliteFailure n code m)) = (code = SQLITE_BUSY \<or> code = SQLITE_LOCKED)"
| "is_sqlite_busy e = False"

definition is_lazy_create_partition_not_ready_message :: "string \<Rightarrow> bool" where
  "is_lazy_create_partition_not_ready_message m =
     (let message = map to_lower m in
      if \<not> contains_str ''namespace'' message then False
      else contains_str (''doesn'' @ [CHR 0x27] @ ''t exist'') message \<or>
        contains_str ''does not exist'' message \<or>
        contains_str ''not found'' message \<or> contains_str ''404'' message)"

fun is_lazy_create_partition_not_ready :: "sqlite_error \<Rightarrow> bool" where
  "is_lazy_create_partition_not_ready (Libsql (ConnectionFailed s)) =
     is_lazy_create_partition_not_ready_message s"
| "is_lazy_create_partition_not_ready (Libsql (Hrana s)) =
     is_lazy_create_partition_not_ready_message s"
| "is_lazy_create_partition_not_ready (Libsql (WriteDelegation s)) =
     is_lazy_create_partition_not_ready_message s"
| "is_lazy_create_partition_not_ready e = False"

section \<open>Delays\<close>

definition xorshift :: "u64 \<Rightarrow> u64" where
  "xorshift x0 =
     (let x1 = xor x0 (push_bit 13 x0);
          x2 = xor x1 (drop_bit 7 x1)
      in xor x2 (push_bit 17 x2))"

text \<open>\<open>next_jitter\<close>: the value and the new state; \<open>nanos\<close> is the clock.\<close>

definition next_jitter :: "nat \<Rightarrow> u64 \<Rightarrow> u64 \<times> u64" where
  "next_jitter nanos state =
     (let x0 = (if state = 0 then or (word_of_nat nanos) 1 else state);
          x = xorshift x0
      in (x * 0x2545F4914F6CDD1D, x))"

definition backoff_ms :: "u64 \<Rightarrow> nat \<Rightarrow> u64 \<Rightarrow> nat \<Rightarrow> u64" where
  "backoff_ms base cap limit attempt = min (push_bit (min attempt cap) base) limit"

definition jitter :: "'g host \<Rightarrow> u64 \<Rightarrow> 'g session \<Rightarrow> u64 \<times> 'g session" where
  "jitter H backoff s =
     (let (j, x) = next_jitter (h_nanos H (c_calls s)) (se_jitter s)
      in (j mod (backoff + 1), s\<lparr>se_jitter := x\<rparr>))"

definition retry_delay :: "'g host \<Rightarrow> nat \<Rightarrow> 'g session \<Rightarrow> u64 \<times> 'g session" where
  "retry_delay H attempt s =
     (let backoff = backoff_ms BASE_RETRY_DELAY_MS 5 MAX_RETRY_DELAY_MS attempt;
          (j, s1) = (if backoff = 0 then (0, s) else jitter H backoff s)
      in (backoff + j, s1))"

definition busy_retry_delay :: "'g host \<Rightarrow> nat \<Rightarrow> 'g session \<Rightarrow> u64 \<times> 'g session" where
  "busy_retry_delay H attempt s =
     (let backoff = backoff_ms BUSY_BASE_DELAY_MS 6 BUSY_MAX_DELAY_MS attempt;
          (j, s1) = jitter H backoff s
      in (backoff + j, s1))"

definition sleep :: "u64 \<times> 'g session \<Rightarrow> 'g session" where
  "sleep d = (snd d)\<lparr>se_sleeps := se_sleeps (snd d) @ [unat (fst d)]\<rparr>"

definition possible_clock_skew_ms :: "ulid_codec \<Rightarrow> revision \<Rightarrow> revision \<Rightarrow> u64 option" where
  "possible_clock_skew_ms U attempted actual =
     (case ulid_from_string U (revision_str attempted) of
        Inl _ \<Rightarrow> None
      | Inr a \<Rightarrow>
          (case ulid_from_string U (revision_str actual) of
             Inl _ \<Rightarrow> None
           | Inr b \<Rightarrow>
               if ulid_timestamp_ms U b < ulid_timestamp_ms U a then None
               else let delta = ulid_timestamp_ms U b - ulid_timestamp_ms U a
                    in if 0 < delta then Some delta else None))"

section \<open>One attempt\<close>

record publish_conflict =
  pc_expected :: revision
  pc_actual :: revision
  pc_attempted :: revision

datatype publish_attempt_error = Conflict publish_conflict | Store sqlite_error

definition generate_ulid :: "'g host \<Rightarrow> ('g session, sqlite_error, ulid) action" where
  "generate_ulid H s =
     (case h_gen H (se_generator s) of
        (None, g) \<Rightarrow> (Inl (Internal (h_overflow_text H)), s\<lparr>se_generator := g\<rparr>)
      | (Some u, g) \<Rightarrow> (Inr u, s\<lparr>se_generator := g\<rparr>))"

definition report_conflict ::
  "'g host \<Rightarrow> aggregate_id \<Rightarrow> publish_options \<Rightarrow> ulid \<Rightarrow>
    ('g session, publish_attempt_error, 'a) action" where
  "report_conflict H i opts revision_ulid =
     seq_result (seq_err Store (current_revision H i)) (\<lambda>stored.
     seq_result
       (give (case stored of
          None \<Rightarrow> Inr revision_zero
        | Some value \<Rightarrow> map_err (\<lambda>e. Store (Internal (''stored revision is invalid: '' @
              revision_parse_error_display (h_ulid_error_text H) e)))
            (revision_from_str (h_ulid H) value)))
       (\<lambda>actual.
         let attempted = revision_from_ulid (h_ulid H) revision_ulid
         in give (Inl (Conflict
              \<lparr>pc_expected = (case expected_revision opts of None \<Rightarrow> attempted | Some x \<Rightarrow> x),
               pc_actual = actual, pc_attempted = attempted\<rparr>))))"

fun insert_events ::
  "'g host \<Rightarrow> aggregate_id \<Rightarrow> publish_options \<Rightarrow> event_metadata \<Rightarrow> nat \<Rightarrow> raw_event list \<Rightarrow>
    recorded_event list \<Rightarrow> ('g session, publish_attempt_error, recorded_event list) action" where
  "insert_events H i opts metadata index [] recorded = give (Inr recorded)"
| "insert_events H i opts metadata index (raw # rest) recorded =
     seq_result (seq_err Store (generate_ulid H)) (\<lambda>event_id_ulid.
     seq_result (seq_err Store (generate_ulid H)) (\<lambda>revision_ulid.
     seq_result
       (seq_err Store (execute_publish_statement H
          \<lparr>pr_index = index, pr_aggregate_id = i, pr_options = opts, pr_raw = raw,
           pr_metadata = metadata, pr_event_id = EventId (ulid_to_string (h_ulid H) event_id_ulid),
           pr_revision = ulid_to_string (h_ulid H) revision_ulid\<rparr>))
       (\<lambda>changes.
         if changes = 0 then report_conflict H i opts revision_ulid
         else insert_events H i opts metadata (Suc index) rest
           (recorded @
             [\<lparr>re_event_id = EventId (ulid_to_string (h_ulid H) event_id_ulid),
               re_event_type = raw_event_type raw,
               re_revision = revision_from_ulid (h_ulid H) revision_ulid,
               re_metadata = metadata, re_data = raw_data raw\<rparr>]))))"

text \<open>\<open>try_publish_once\<close>: every early return drops the transaction, which rolls it back.\<close>

definition try_publish_once ::
  "'g host \<Rightarrow> aggregate_id \<Rightarrow> publish_options \<Rightarrow> raw_event list \<Rightarrow>
    ('g session, publish_attempt_error, change_set) action" where
  "try_publish_once H i opts events s =
     (case begin_transaction H s of
        (Inl e, s1) \<Rightarrow> (Inl (Store e), s1)
      | (Inr _, s1) \<Rightarrow>
          (case insert_events H i opts (options_metadata opts) 0 events [] s1 of
             (Inl e, s2) \<Rightarrow> (Inl e, rollback s2)
           | (Inr recorded, s2) \<Rightarrow>
               (case commit H s2 of
                  (Inl e, s3) \<Rightarrow> (Inl (Store e), rollback s3)
                | (Inr _, s3) \<Rightarrow>
                    (case last_opt recorded of
                       None \<Rightarrow> (Inl (Store (WeeEvents (Custom (Panicked
                         ''recorded is non-empty because events was non-empty'')))), s3)
                     | Some e \<Rightarrow>
                         (Inr \<lparr>cs_aggregate_id = i, cs_revision = re_revision e,
                            cs_events = recorded\<rparr>, s3)))))"

section \<open>The retry loops\<close>

text \<open>The inner loop: \<open>remaining\<close> further tries while the database is busy.\<close>

fun busy_loop ::
  "'g host \<Rightarrow> aggregate_id \<Rightarrow> publish_options \<Rightarrow> raw_event list \<Rightarrow> nat \<Rightarrow> nat \<Rightarrow>
    (publish_attempt_error + change_set) \<times> 'g session \<Rightarrow>
    (publish_attempt_error + change_set) \<times> 'g session" where
  "busy_loop H i opts events 0 busy_attempt (r, s) = (r, s)"
| "busy_loop H i opts events (Suc remaining) busy_attempt (r, s) =
     (case r of
        Inl (Store e) \<Rightarrow>
          if is_sqlite_busy e
          then busy_loop H i opts events remaining (Suc busy_attempt)
            (try_publish_once H i opts events (sleep (busy_retry_delay H busy_attempt s)))
          else (r, s)
      | _ \<Rightarrow> (r, s))"

text \<open>The outer loop: \<open>remaining\<close> attempts of \<open>max_attempts\<close> are left.\<close>

fun attempt_loop ::
  "'g host \<Rightarrow> aggregate_id \<Rightarrow> publish_options \<Rightarrow> raw_event list \<Rightarrow> nat \<Rightarrow> nat \<Rightarrow>
    retry_diagnostics option \<Rightarrow> ('g session, sqlite_error, change_set) action" where
  "attempt_loop H i opts events max_attempts 0 last_conflict s =
     (case last_conflict of
        Some d \<Rightarrow> (Inl (WeeEvents (retry_exhausted max_attempts d)), s)
      | None \<Rightarrow> (Inl (WeeEvents (Custom (Panicked
          ''retry loop always records the last conflict''))), s))"
| "attempt_loop H i opts events max_attempts (Suc remaining) last_conflict s =
     (let attempt = max_attempts - Suc remaining in
      case busy_loop H i opts events MAX_BUSY_RETRIES 0 (try_publish_once H i opts events s) of
        (Inr changeset, s1) \<Rightarrow> (Inr changeset, s1)
      | (Inl (Conflict conflict), s1) \<Rightarrow>
          if expected_revision opts = None then
            attempt_loop H i opts events max_attempts remaining
              (Some \<lparr>last_attempted_revision = pc_attempted conflict,
                 observed_max_revision = pc_actual conflict,
                 possible_clock_skew = possible_clock_skew_ms (h_ulid H)
                   (pc_attempted conflict) (pc_actual conflict)\<rparr>)
              (if attempt + 1 < max_attempts then sleep (retry_delay H attempt s1) else s1)
          else (Inl (WeeEvents (RevisionConflict (pc_expected conflict) (pc_actual conflict))), s1)
      | (Inl (Store e), s1) \<Rightarrow> (Inl e, s1))"

definition publish_with_connection ::
  "'g host \<Rightarrow> aggregate_id \<Rightarrow> publish_options \<Rightarrow> raw_event list \<Rightarrow>
    ('g session, sqlite_error, change_set) action" where
  "publish_with_connection H i opts events =
     (if events = [] then
        seq_result (load_from_connection H i) (\<lambda>aggregate.
          give (Inr \<lparr>cs_aggregate_id = i, cs_revision = agg_revision aggregate, cs_events = []\<rparr>))
      else
        let max_attempts = (if expected_revision opts = None then MAX_AUTO_RETRIES else 1)
        in attempt_loop H i opts events max_attempts max_attempts None)"

text \<open>The store's trait methods, on the one connection.\<close>

definition connection_ops :: "'g host \<Rightarrow> encoding \<Rightarrow> 'g session store_ops" where
  "connection_ops H e =
     \<lparr>st_load = (\<lambda>s i. seq_err error_from_sqlite (load_from_connection H i) s),
      st_publish = (\<lambda>s i opts events.
        seq_err error_from_sqlite (publish_with_connection H i opts events) s),
      st_encoding = (\<lambda>s. e)\<rparr>"

section \<open>What one attempt does\<close>

lemma insert_where_Inr:
  "insert_where H condition r c = (Inr n, c') \<longleftrightarrow>
     h_faults H (c_calls c) = None \<and>
     (\<exists>rows. tbl_events (c_db c) = Some rows \<and>
       (n = 0 \<and> \<not> condition rows r \<and> c' = c\<lparr>c_calls := Suc (c_calls c)\<rparr> \<or>
        n = 1 \<and> condition rows r \<and> constraint_violation rows r = None \<and>
        c' = c\<lparr>c_calls := Suc (c_calls c),
               c_db := (c_db c)\<lparr>tbl_events := Some (rows @ [r])\<rparr>\<rparr>))"
  by (auto simp: insert_where_def result_simps split: option.splits)

text \<open>The errors of libsql: those the host answers with, and those of SQLite itself.\<close>

definition answers_with :: "'g host \<Rightarrow> libsql_error \<Rightarrow> bool" where
  "answers_with H l \<longleftrightarrow> (\<exists>n. h_faults H n = Some l) \<or> (\<exists>code m. l = SqliteFailure code m)"

lemma answers_with_intros [simp]:
  "h_faults H n = Some l \<Longrightarrow> answers_with H l" "answers_with H (SqliteFailure code m)"
  "answers_with H (no_such_table t)"
  by (auto simp: answers_with_def no_such_table_def)

lemma insert_where_Inl:
  "insert_where H condition r c = (Inl e, c') \<Longrightarrow>
     c' = c\<lparr>c_calls := Suc (c_calls c)\<rparr> \<and> (\<exists>l. e = Libsql l \<and> answers_with H l)"
  by (auto simp: insert_where_def result_simps constraint_violation_def Let_def
      split: option.splits if_splits)

text \<open>The three inserts as one condition on the stream.\<close>

definition publish_allowed :: "revision \<Rightarrow> publish_options \<Rightarrow> nat \<Rightarrow> revision \<Rightarrow> bool" where
  "publish_allowed current opts index new \<longleftrightarrow>
     current < new \<and> (index = 0 \<longrightarrow> expected_revision opts \<in> {None, Some current})"

lemma stream_empty_iff:
  assumes "ulid_laws U" and "rows_inv U rows"
  shows "stream_revision (rows_stream rows i) = revision_zero \<longleftrightarrow> rows_stream rows i = []"
proof
  assume z: "stream_revision (rows_stream rows i) = revision_zero"
  show "rows_stream rows i = []"
  proof (rule ccontr)
    assume "rows_stream rows i \<noteq> []"
    from stream_rev_ulid [OF assms(2) stream_revision_in [OF this]] z
    obtain u where "0 < u" "revision_zero = revision_from_ulid U u" by auto
    with revision_zero_less [OF assms(1)] show False by (metis less_irrefl)
  qed
qed simp

lemma rows_stream_empty: "rows_stream rows i = [] \<longleftrightarrow> agg_rows rows i = []"
  by (simp add: rows_stream_def) (metis set_empty set_sort)

lemma execute_publish_statement_Inr:
  assumes "execute_publish_statement H p c = (Inr n, c')"
    and "ulid_laws U" and "rows_inv U rows" and "tbl_events (c_db c) = Some rows"
    and "pr_revision p = ulid_to_string U u" and "0 < u"
  defines "ok \<equiv> publish_allowed (stream_revision (rows_stream rows (pr_aggregate_id p))) (pr_options p)
      (pr_index p) (revision_from_ulid U u)"
  shows "n = 0 \<and> \<not> ok \<and> c' = c\<lparr>c_calls := Suc (c_calls c)\<rparr> \<or>
    n = 1 \<and> ok \<and> constraint_violation rows (row_of p) = None \<and>
    c' = c\<lparr>c_calls := Suc (c_calls c), c_db := (c_db c)\<lparr>tbl_events := Some (rows @ [row_of p])\<rparr>\<rparr>"
proof -
  let ?i = "pr_aggregate_id p"
  let ?cur = "stream_revision (rows_stream rows ?i)"
  have rev: "row_revision (row_of p) = ulid_to_string U u" by (simp add: row_of_def assms(5))
  have adv: "SQL_ADVANCE rows (row_of p) \<longleftrightarrow> ?cur < revision_from_ulid U u"
    by (simp add: SQL_ADVANCE_def coalesce_max_revision rev less_revision_def revision_from_ulid_def)
  have exact: "SQL_EXACT (revision_str x) rows (row_of p) \<longleftrightarrow> ?cur < revision_from_ulid U u \<and> x = ?cur"
    if "x \<noteq> revision_zero" for x
  proof -
    have "SQL_EXACT (revision_str x) rows (row_of p) \<longleftrightarrow>
        SQL_ADVANCE rows (row_of p) \<and> max_revision rows ?i = Some (revision_str x)"
      by (simp add: SQL_EXACT_def SQL_ADVANCE_def)
    with that show ?thesis unfolding adv
      by (auto simp: max_revision_stream intro: revision.expand)
  qed
  have initial: "SQL_INITIAL rows (row_of p) \<longleftrightarrow> ?cur = revision_zero"
    by (simp add: SQL_INITIAL_def stream_empty_iff [OF assms(2,3)] rows_stream_empty)
  have pos: "revision_zero < revision_from_ulid U u" by (rule revision_zero_less [OF assms(2,6)])
  show ?thesis
  proof (cases "pr_index p = 0 \<and> expected_revision (pr_options p) \<noteq> None")
    case True
    then obtain x where x: "expected_revision (pr_options p) = Some x" by auto
    show ?thesis
    proof (cases "x = revision_zero")
      case xz: True
      with assms(1) True x have "insert_where H SQL_INITIAL (row_of p) c = (Inr n, c')"
        by (simp add: execute_publish_statement_def)
      moreover have "ok \<longleftrightarrow> ?cur = revision_zero"
        using True x xz pos by (auto simp: ok_def publish_allowed_def)
      ultimately show ?thesis using initial assms(4) by (auto simp: insert_where_Inr)
    next
      case False
      with assms(1) True x have "insert_where H (SQL_EXACT (revision_str x)) (row_of p) c = (Inr n, c')"
        by (simp add: execute_publish_statement_def)
      moreover have "ok \<longleftrightarrow> ?cur < revision_from_ulid U u \<and> x = ?cur"
        using True x by (auto simp: ok_def publish_allowed_def)
      ultimately show ?thesis using exact [OF False] assms(4) by (auto simp: insert_where_Inr)
    qed
  next
    case False
    with assms(1) have "insert_where H SQL_ADVANCE (row_of p) c = (Inr n, c')"
      by (auto simp: execute_publish_statement_def split: nat.splits option.splits)
    moreover have "ok \<longleftrightarrow> ?cur < revision_from_ulid U u"
      using False by (auto simp: ok_def publish_allowed_def)
    ultimately show ?thesis using adv assms(4) by (auto simp: insert_where_Inr)
  qed
qed

lemma execute_publish_statement_Inl:
  "execute_publish_statement H p c = (Inl e, c') \<Longrightarrow>
     c' = c\<lparr>c_calls := Suc (c_calls c)\<rparr> \<and> (\<exists>l. e = Libsql l \<and> answers_with H l)"
  by (auto simp: execute_publish_statement_def dest: insert_where_Inl
      split: nat.splits option.splits if_splits)

lemma generate_ulid_Inr:
  assumes "generate_ulid H s = (Inr u, s')" and "monotonic_generator (h_gen H) prev"
  shows "prev (se_generator s) < u \<and> prev (se_generator s') = u \<and>
    s' = s\<lparr>se_generator := se_generator s'\<rparr>"
  using assms(1) monotonic_generatorD [OF assms(2)]
  by (auto simp: generate_ulid_def split: prod.splits option.splits)

lemma generate_ulid_Inl:
  assumes "generate_ulid H s = (Inl e, s')" and "monotonic_generator (h_gen H) prev"
  shows "prev (se_generator s') = prev (se_generator s) \<and> e = Internal (h_overflow_text H) \<and>
    s' = s\<lparr>se_generator := se_generator s'\<rparr>"
  using assms(1) monotonic_generator_None [OF assms(2)]
  by (auto simp: generate_ulid_def split: prod.splits option.splits)

text \<open>The database part of a session is untouched, apart from its rows of events.\<close>

definition only_events_changed :: "'g session \<Rightarrow> 'g session \<Rightarrow> bool" where
  "only_events_changed s s' \<longleftrightarrow>
     (c_db s')\<lparr>tbl_events := tbl_events (c_db s)\<rparr> = c_db s \<and> c_saved s' = c_saved s \<and>
     se_jitter s' = se_jitter s \<and> se_sleeps s' = se_sleeps s \<and>
     c_busy_timeout_ms s' = c_busy_timeout_ms s \<and> c_foreign_keys s' = c_foreign_keys s"

lemma only_events_changed_refl [simp]: "only_events_changed s s"
  by (simp add: only_events_changed_def)

lemma only_events_changed_trans:
  "only_events_changed s t \<Longrightarrow> only_events_changed t u \<Longrightarrow> only_events_changed s u"
  by (cases "c_db s"; cases "c_db t"; cases "c_db u") (auto simp: only_events_changed_def)

lemma only_events_changed_steps [simp]:
  "only_events_changed s (s\<lparr>se_generator := g\<rparr>)"
  "only_events_changed s (s\<lparr>c_calls := n\<rparr>)"
  "only_events_changed s (s\<lparr>c_calls := n, c_db := (c_db s)\<lparr>tbl_events := rows\<rparr>\<rparr>)"
  by (simp_all add: only_events_changed_def)

lemma only_events_changed_calls [simp]:
  "only_events_changed s (t\<lparr>c_calls := n\<rparr>) \<longleftrightarrow> only_events_changed s t"
  by (simp add: only_events_changed_def)

text \<open>The conflict an attempt reports against a stream at revision \<open>current\<close>.\<close>

definition conflict_against :: "publish_options \<Rightarrow> revision \<Rightarrow> publish_conflict \<Rightarrow> bool" where
  "conflict_against opts current c \<longleftrightarrow>
     pc_actual c = current \<and> \<not> publish_allowed current opts 0 (pc_attempted c) \<and>
     pc_expected c = (case expected_revision opts of None \<Rightarrow> pc_attempted c | Some x \<Rightarrow> x)"

lemma report_conflict_cases:
  assumes "report_conflict H i opts u s = (r, s')"
    and "ulid_laws (h_ulid H)" and "rows_inv (h_ulid H) rows" and "tbl_events (c_db s) = Some rows"
  shows "s' = s\<lparr>c_calls := Suc (c_calls s)\<rparr> \<and>
    ((\<exists>l. r = Inl (Store (Libsql l)) \<and> answers_with H l) \<or>
     (\<exists>c. r = Inl (Conflict c) \<and> pc_actual c = stream_revision (rows_stream rows i) \<and>
       pc_attempted c = revision_from_ulid (h_ulid H) u \<and>
       pc_expected c = (case expected_revision opts of None \<Rightarrow> pc_attempted c | Some x \<Rightarrow> x)))"
proof -
  let ?cur = "stream_revision (rows_stream rows i)"
  have valid: "valid_revision (h_ulid H) ?cur"
  proof (cases "rows_stream rows i = []")
    case False
    from stream_rev_ulid [OF assms(3) stream_revision_in [OF this]] show ?thesis
      by (auto simp: valid_revision_def)
  qed simp
  from assms(1) show ?thesis unfolding report_conflict_def
  proof (cases rule: seq_result_cases)
    case (stop e)
    then show ?thesis by (auto simp: result_simps current_revision_def)
  next
    case (run stored s1)
    from run(1) assms(4) have stored: "stored = max_revision rows i" "s1 = s\<lparr>c_calls := Suc (c_calls s)\<rparr>"
      by (auto simp: result_simps current_revision_def)
    have "(case stored of None \<Rightarrow> Inr revision_zero
        | Some value \<Rightarrow> map_err (\<lambda>e. Store (Internal (''stored revision is invalid: '' @
            revision_parse_error_display (h_ulid_error_text H) e))) (revision_from_str (h_ulid H) value))
      = Inr ?cur"
      using revision_from_str_of_valid [OF assms(2) valid]
      by (simp add: stored(1) max_revision_stream)
    with run(2) stored(2) show ?thesis
      by (auto simp: seq_result_def give_def Let_def split: option.splits)
  qed
qed

lemma event_of_row_row_of:
  "event_of_row (row_of p) =
     \<lparr>re_event_id = pr_event_id p, re_event_type = raw_event_type (pr_raw p),
      re_revision = Revision (pr_revision p), re_metadata = pr_metadata p,
      re_data = raw_data (pr_raw p)\<rparr>"
proof -
  have "event_data_raw (if encoding_as_str e = CBOR_ENCODING then Cbor else Json) d =
      \<lparr>ed_encoding = e, ed_data = d\<rparr>" for e d
    by (cases e) (auto simp: event_data_raw_def)
  then show ?thesis
    by (simp add: event_of_row_def row_of_def option.map_comp comp_def option.map_ident)
qed

lemma constraint_violation_None:
  "constraint_violation rows r = None \<longleftrightarrow>
     length (row_event_id r) = 26 \<and> length (row_revision r) = 26 \<and>
     row_event_id r \<notin> set (map row_event_id rows) \<and>
     (row_aggregate_type r, row_aggregate_key r, row_revision r) \<notin>
       set (map (\<lambda>q. (row_aggregate_type q, row_aggregate_key q, row_revision q)) rows)"
  by (auto simp: constraint_violation_def)

definition records_with :: "event_metadata \<Rightarrow> raw_event \<Rightarrow> recorded_event \<Rightarrow> bool" where
  "records_with metadata raw e \<longleftrightarrow>
     re_event_type e = raw_event_type raw \<and> re_data e = raw_data raw \<and> re_metadata e = metadata"

text \<open>What a successful run of the insert loop leaves behind.\<close>

definition appended_rows ::
  "ulid_codec \<Rightarrow> aggregate_id \<Rightarrow> event_metadata \<Rightarrow> raw_event list \<Rightarrow> event_row list \<Rightarrow>
    event_row list \<Rightarrow> recorded_event list \<Rightarrow> bool" where
  "appended_rows U i metadata raws rows rows' new \<longleftrightarrow>
     rows_inv U rows' \<and> prefix rows rows' \<and> list_all2 (records_with metadata) raws new \<and>
     rows_stream rows' = (rows_stream rows)(i := rows_stream rows i @ new)"

lemma insert_step:
  assumes laws: "ulid_laws (h_ulid H)" and inv: "rows_inv (h_ulid H) rows"
    and tbl: "tbl_events (c_db s) = Some rows" and u: "0 < u"
    and run: "execute_publish_statement H p s = (Inr n, s')" and n: "n \<noteq> 0"
    and p: "pr_revision p = ulid_to_string (h_ulid H) u" "pr_aggregate_id p = i" "pr_options p = opts"
  shows "publish_allowed (stream_revision (rows_stream rows i)) opts (pr_index p)
      (revision_from_ulid (h_ulid H) u) \<and>
    s' = s\<lparr>c_calls := Suc (c_calls s), c_db := (c_db s)\<lparr>tbl_events := Some (rows @ [row_of p])\<rparr>\<rparr> \<and>
    appended_rows (h_ulid H) i (pr_metadata p) [pr_raw p] rows (rows @ [row_of p])
      [event_of_row (row_of p)]"
proof -
  from execute_publish_statement_Inr [OF run laws inv tbl p(1) u] n p
  have ok: "publish_allowed (stream_revision (rows_stream rows i)) opts (pr_index p)
      (revision_from_ulid (h_ulid H) u)"
    and free: "constraint_violation rows (row_of p) = None"
    and s': "s' = s\<lparr>c_calls := Suc (c_calls s), c_db := (c_db s)\<lparr>tbl_events := Some (rows @ [row_of p])\<rparr>\<rparr>"
    by auto
  have rev: "Revision (row_revision (row_of p)) = revision_from_ulid (h_ulid H) u"
    by (simp add: row_of_def p revision_from_ulid_def)
  have above: "stream_revision (rows_stream rows i) < Revision (row_revision (row_of p))"
    using ok by (simp add: rev publish_allowed_def)
  have "row_ok (h_ulid H) (row_of p)"
    using free u encoding_as_str.simps
    by (cases "ed_encoding (raw_data (pr_raw p))")
      (auto simp: row_ok_def row_of_def constraint_violation_None p)
  moreover have "row_event_id (row_of p) \<notin> set (map row_event_id rows)"
    using free by (simp add: constraint_violation_None)
  ultimately have "rows_inv (h_ulid H) (rows @ [row_of p])"
    using rows_inv_snoc [OF inv] above p by simp
  moreover have "rows_stream (rows @ [row_of p]) =
      (rows_stream rows)(i := rows_stream rows i @ [event_of_row (row_of p)])"
    using rows_stream_snoc [OF _ above sorted_revisions [OF inv]] p by simp
  ultimately show ?thesis
    using ok s' by (simp add: appended_rows_def records_with_def event_of_row_row_of)
qed

lemma appended_rows_trans:
  assumes "appended_rows U i md xs r1 r2 n1" and "appended_rows U i md ys r2 r3 n2"
  shows "appended_rows U i md (xs @ ys) r1 r3 (n1 @ n2)"
  using assms by (auto simp: appended_rows_def intro: prefix_order.trans list_all2_appendI)

lemma generate_ulid_only:
  assumes "generate_ulid H s = (r, s')"
  shows "only_events_changed s s' \<and> c_db s' = c_db s"
  using assms by (auto simp: generate_ulid_def split: prod.splits option.splits)

text \<open>The failures of an attempt: an error of libsql, or an exhausted generator.\<close>

definition attempt_failure :: "'g host \<Rightarrow> sqlite_error \<Rightarrow> bool" where
  "attempt_failure H e \<longleftrightarrow> (\<exists>l. e = Libsql l \<and> answers_with H l) \<or> e = Internal (h_overflow_text H)"

lemma generate_ulid_failure: "generate_ulid H s = (Inl e, s') \<Longrightarrow> attempt_failure H e"
  by (auto simp: generate_ulid_def attempt_failure_def split: prod.splits option.splits)

text \<open>The outcomes of one iteration of the insert loop.\<close>

lemma insert_events_Cons_cases:
  assumes "insert_events H i opts md k (raw # rest) recorded s = (r, s')"
    and mono: "monotonic_generator (h_gen H) prev"
  obtains
    (stopped) e where "r = Inl (Store e)" "only_events_changed s s'" "attempt_failure H e"
  | (executed) p n u s2 s3 where "prev (se_generator s) < u" "0 < u" "prev (se_generator s2) = u"
      "only_events_changed s s2" "c_db s2 = c_db s" "execute_publish_statement H p s2 = (Inr n, s3)"
      "pr_revision p = ulid_to_string (h_ulid H) u" "pr_aggregate_id p = i" "pr_options p = opts"
      "pr_index p = k" "pr_raw p = raw" "pr_metadata p = md"
      "(if n = 0 then report_conflict H i opts u s3
        else insert_events H i opts md (Suc k) rest (recorded @ [event_of_row (row_of p)]) s3) = (r, s')"
  using assms(1)[unfolded insert_events.simps(2)]
proof (cases rule: seq_result_cases)
  case (stop e)
  then show ?thesis
    using generate_ulid_only [of H s] generate_ulid_failure [of H s] stopped
    by (auto simp: result_simps)
next
  case (run e s1)
  then have g1: "generate_ulid H s = (Inr e, s1)" by (simp add: result_simps)
  from run(2) show ?thesis
  proof (cases rule: seq_result_cases)
    case (stop d)
    then obtain f where f: "generate_ulid H s1 = (Inl f, s')" "r = Inl (Store f)"
      by (auto simp: result_simps)
    show ?thesis
      using generate_ulid_only [OF g1] generate_ulid_only [OF f(1)]
      by (intro stopped [OF f(2) _ generate_ulid_failure [OF f(1)]])
        (auto intro: only_events_changed_trans)
  next
    case (run u s2)
    then have g2: "generate_ulid H s1 = (Inr u, s2)" by (simp add: result_simps)
    have u: "prev (se_generator s) < u" "prev (se_generator s2) = u" "0 < u"
      using generate_ulid_Inr [OF g1 mono] generate_ulid_Inr [OF g2 mono]
      by (auto intro: le_less_trans)
    have s2: "only_events_changed s s2" "c_db s2 = c_db s"
      using generate_ulid_only [OF g1] generate_ulid_only [OF g2]
      by (auto intro: only_events_changed_trans)
    from run(2) show ?thesis
    proof (cases rule: seq_result_cases)
      case (stop d)
      then show ?thesis
        using s2 stopped
        by (auto simp: result_simps attempt_failure_def dest!: execute_publish_statement_Inl
            intro: only_events_changed_trans)
    next
      case (run n s3)
      then show ?thesis
        using executed [OF u(1,3,2) s2, of _ n s3]
        by (auto simp: result_simps event_of_row_row_of revision_from_ulid_def split: if_splits)
    qed
  qed
qed

lemma execute_only:
  "execute_publish_statement H p s = (Inr n, s') \<Longrightarrow> only_events_changed s s'"
  by (auto simp: execute_publish_statement_def insert_where_Inr split: nat.splits option.splits if_splits)

lemma insert_events_spec:
  assumes laws: "ulid_laws (h_ulid H)" and mono: "monotonic_generator (h_gen H) prev"
  shows "insert_events H i opts md k raws recorded s = (r, s') \<Longrightarrow>
    tbl_events (c_db s) = Some rows \<Longrightarrow> rows_inv (h_ulid H) rows \<Longrightarrow>
    only_events_changed s s' \<and> (\<forall>e. r = Inl (Store e) \<longrightarrow> attempt_failure H e) \<and>
    (\<forall>out. r = Inr out \<longrightarrow> (\<exists>rows' new. out = recorded @ new \<and> tbl_events (c_db s') = Some rows' \<and>
       appended_rows (h_ulid H) i md raws rows rows' new \<and>
       (k = 0 \<and> raws \<noteq> [] \<longrightarrow>
          expected_revision opts \<in> {None, Some (stream_revision (rows_stream rows i))}))) \<and>
    (\<forall>c. r = Inl (Conflict c) \<longrightarrow>
       (k = 0 \<longrightarrow> conflict_against opts (stream_revision (rows_stream rows i)) c) \<and>
       \<not> (0 < k \<and> stream_revision (rows_stream rows i) \<le>
            revision_from_ulid (h_ulid H) (prev (se_generator s))))"
proof (induction raws arbitrary: k recorded s rows)
  case Nil
  then show ?case
    by (auto simp: result_simps appended_rows_def)
next
  case (Cons raw rest)
  let ?U = "h_ulid H"
  let ?cur = "stream_revision (rows_stream rows i)"
  from Cons.prems(1) mono show ?case
  proof (cases rule: insert_events_Cons_cases)
    case (stopped e)
    then show ?thesis by simp
  next
    case (executed p n u s2 s3)
    have tbl2: "tbl_events (c_db s2) = Some rows" using executed Cons.prems by simp
    note E = execute_publish_statement_Inr [OF executed(6) laws Cons.prems(3) tbl2 executed(7,2)]
    have chg: "only_events_changed s s3"
      using executed execute_only only_events_changed_trans by blast
    show ?thesis
    proof (cases "n = 0")
      case True
      with E executed have bad: "\<not> publish_allowed ?cur opts k (revision_from_ulid ?U u)"
        and s3: "c_db s3 = c_db s" by auto
      from True executed have rep: "report_conflict H i opts u s3 = (r, s')" by simp
      from s3 Cons.prems(2) have tbl3: "tbl_events (c_db s3) = Some rows" by simp
      note R = report_conflict_cases [OF rep laws Cons.prems(3) tbl3]
      have chg': "only_events_changed s s'"
        using chg R by (auto intro: only_events_changed_trans)
      have no_conflict: "\<not> (0 < k \<and> ?cur \<le> revision_from_ulid ?U (prev (se_generator s)))"
        using bad executed(1) revision_from_ulid_less [OF laws, of "prev (se_generator s)" u]
        by (auto simp: publish_allowed_def)
      show ?thesis using R chg' bad no_conflict by (auto simp: conflict_against_def attempt_failure_def)
    next
      case False
      note S = insert_step [OF laws Cons.prems(3) tbl2 executed(2,6) False executed(7-9)]
      let ?rows = "rows @ [row_of p]"
      have tbl3: "tbl_events (c_db s3) = Some ?rows" and inv3: "rows_inv ?U ?rows"
        and app: "appended_rows ?U i md [raw] rows ?rows [event_of_row (row_of p)]"
        using S executed by (auto simp: appended_rows_def)
      have cur3: "stream_revision (rows_stream ?rows i) = revision_from_ulid ?U u"
        using app executed by (simp add: appended_rows_def event_of_row_row_of revision_from_ulid_def)
      have prev3: "prev (se_generator s3) = u" using S executed by auto
      from executed False have "insert_events H i opts md (Suc k) rest
          (recorded @ [event_of_row (row_of p)]) s3 = (r, s')" by simp
      note IH = Cons.IH [OF this tbl3 inv3]
      have chg': "only_events_changed s s'" using IH chg only_events_changed_trans by blast
      have exp: "k = 0 \<Longrightarrow> expected_revision opts \<in> {None, Some ?cur}"
        using S executed by (auto simp: publish_allowed_def)
      have out: "\<exists>rows' new. out = recorded @ new \<and> tbl_events (c_db s') = Some rows' \<and>
          appended_rows ?U i md (raw # rest) rows rows' new" if "r = Inr out" for out
      proof -
        from IH that obtain rows' new where "out = recorded @ event_of_row (row_of p) # new"
          "tbl_events (c_db s') = Some rows'" "appended_rows ?U i md rest ?rows rows' new" by auto
        with appended_rows_trans [OF app] show ?thesis by fastforce
      qed
      show ?thesis using IH chg' exp out cur3 prev3 by auto
    qed
  qed
qed

section \<open>Outcomes of publishing on a connection\<close>

definition session_stream :: "'x conn_scheme \<Rightarrow> aggregate_id \<Rightarrow> recorded_event list" where
  "session_stream s = rows_stream (case tbl_events (c_db s) of None \<Rightarrow> [] | Some rows \<Rightarrow> rows)"

definition session_ok :: "'g host \<Rightarrow> ('g \<Rightarrow> ulid) \<Rightarrow> 'x conn_scheme \<Rightarrow> bool" where
  "session_ok H prev s \<longleftrightarrow>
     ulid_laws (h_ulid H) \<and> monotonic_generator (h_gen H) prev \<and> c_saved s = None \<and>
     (\<exists>rows. tbl_events (c_db s) = Some rows \<and> rows_inv (h_ulid H) rows)"

text \<open>
  An attempt on session \<open>s\<close>, whatever it returned: it either left the database as it was, or
  appended exactly the batch.
\<close>

definition attempt_outcome ::
  "'g host \<Rightarrow> ('g \<Rightarrow> ulid) \<Rightarrow> aggregate_id \<Rightarrow> publish_options \<Rightarrow> raw_event list \<Rightarrow>
    'g session \<Rightarrow> publish_attempt_error + change_set \<Rightarrow> 'g session \<Rightarrow> bool" where
  "attempt_outcome H prev i opts raws s r s' \<longleftrightarrow>
     session_ok H prev s' \<and>
     (case r of
        Inl (Store e) \<Rightarrow> c_db s' = c_db s \<and> attempt_failure H e
      | Inl (Conflict c) \<Rightarrow>
          c_db s' = c_db s \<and> conflict_against opts (stream_revision (session_stream s i)) c
      | Inr cs \<Rightarrow>
          session_stream s' = (session_stream s)(i := session_stream s i @ cs_events cs) \<and>
          list_all2 (records opts) raws (cs_events cs) \<and>
          cs_aggregate_id cs = i \<and> cs_revision cs = stream_revision (session_stream s' i) \<and>
          expected_revision opts \<in> {None, Some (stream_revision (session_stream s i))} \<and>
          (c_db s')\<lparr>tbl_events := tbl_events (c_db s)\<rparr> = c_db s)"

lemma session_ok_only_db:
  "session_ok H prev s \<Longrightarrow> c_db s' = c_db s \<Longrightarrow> c_saved s' = None \<Longrightarrow> session_ok H prev s'"
  by (simp add: session_ok_def)

lemma session_stream_cong: "c_db s' = c_db s \<Longrightarrow> session_stream s' = session_stream s"
  by (simp add: session_stream_def)

lemma records_with_records: "records_with (options_metadata opts) = records opts"
  by (simp add: fun_eq_iff records_with_def records_def)

lemma only_events_changed_db:
  assumes "only_events_changed s s'" and "c_saved s = Some d"
  shows "c_saved s' = Some d" and "se_sleeps s' = se_sleeps s" and "se_jitter s' = se_jitter s"
  using assms by (auto simp: only_events_changed_def)

lemma try_publish_once_outcome:
  assumes ok: "session_ok H prev s" and ne: "raws \<noteq> []"
    and run: "try_publish_once H i opts raws s = (r, s')"
  shows "attempt_outcome H prev i opts raws s r s' \<and> se_sleeps s' = se_sleeps s \<and>
    se_jitter s' = se_jitter s"
proof -
  from ok obtain rows where laws: "ulid_laws (h_ulid H)" and mono: "monotonic_generator (h_gen H) prev"
    and saved: "c_saved s = None" and tbl: "tbl_events (c_db s) = Some rows"
    and inv: "rows_inv (h_ulid H) rows" by (auto simp: session_ok_def)
  have stream: "session_stream s = rows_stream rows" by (simp add: session_stream_def tbl)
  obtain b s1 where b: "begin_transaction H s = (b, s1)" by fastforce
  show ?thesis
  proof (cases b)
    case (Inl e)
    with b have s1: "s1 = s\<lparr>c_calls := Suc (c_calls s)\<rparr>" "attempt_failure H e"
      by (auto simp: result_simps attempt_failure_def)
    from b run Inl have "r = Inl (Store e)" "s' = s1" by (simp_all add: try_publish_once_def)
    with s1 ok show ?thesis by (simp add: attempt_outcome_def session_ok_def)
  next
    case (Inr u)
    with b have s1: "s1 = s\<lparr>c_calls := Suc (c_calls s), c_saved := Some (c_db s)\<rparr>"
      by (simp add: result_simps)
    obtain l s2 where l: "insert_events H i opts (options_metadata opts) 0 raws [] s1 = (l, s2)"
      by fastforce
    have tbl1: "tbl_events (c_db s1) = Some rows" by (simp add: s1 tbl)
    note L = insert_events_spec [OF laws mono l tbl1 inv]
    then have chg: "only_events_changed s1 s2" by blast
    have saved1: "c_saved s1 = Some (c_db s)" by (simp add: s1)
    note saved2 = only_events_changed_db [OF chg saved1]
    show ?thesis
    proof (cases l)
      case (Inl e)
      with run b Inr l have r: "r = Inl e" "s' = rollback s2" by (simp_all add: try_publish_once_def)
      with saved2 have "c_db s' = c_db s" "c_saved s' = None" by simp_all
      with L Inl r ok saved2 s1 show ?thesis
        by (auto simp: attempt_outcome_def stream intro: session_ok_only_db
            split: publish_attempt_error.splits)
    next
      case out: (Inr recorded)
      obtain k s3 where k: "commit H s2 = (k, s3)" by fastforce
      show ?thesis
      proof (cases k)
        case (Inl e)
        with run b Inr l out k have r: "r = Inl (Store e)" "s' = rollback s3"
          by (simp_all add: try_publish_once_def)
        from k Inl have s3: "s3 = s2\<lparr>c_calls := Suc (c_calls s2)\<rparr>" "attempt_failure H e"
          by (auto simp: result_simps attempt_failure_def)
        with r saved2 have "c_db s' = c_db s" "c_saved s' = None" by simp_all
        with r s3 ok saved2 s1 show ?thesis
          by (auto simp: attempt_outcome_def intro: session_ok_only_db)
      next
        case committed: (Inr w)
        then have s3: "s3 = s2\<lparr>c_calls := Suc (c_calls s2), c_saved := None\<rparr>"
          using k by (simp add: result_simps)
        from L out ne obtain rows' where rows': "tbl_events (c_db s2) = Some rows'"
          and app: "appended_rows (h_ulid H) i (options_metadata opts) raws rows rows' recorded"
          and exp: "expected_revision opts \<in> {None, Some (stream_revision (rows_stream rows i))}"
          by auto
        from app ne have rec: "recorded \<noteq> []" by (auto simp: appended_rows_def)
        then have "last_opt recorded = Some (last recorded)" by (simp only: last_opt_def if_False)
        with run b Inr l out k committed
        have r: "r = Inr \<lparr>cs_aggregate_id = i, cs_revision = re_revision (last recorded),
            cs_events = recorded\<rparr>" "s' = s3"
          by (simp_all add: try_publish_once_def)
        have stream': "session_stream s' = rows_stream rows'"
          by (simp add: session_stream_def r s3 rows')
        have "session_ok H prev s'"
          using laws mono rows' app by (simp add: session_ok_def r s3 appended_rows_def)
        moreover have "(c_db s')\<lparr>tbl_events := tbl_events (c_db s)\<rparr> = c_db s"
          using chg by (simp add: r s3 s1 only_events_changed_def)
        moreover have st: "session_stream s' = (session_stream s)(i := session_stream s i @ recorded)"
          using app by (simp add: stream stream' appended_rows_def)
        moreover have "re_revision (last recorded) = stream_revision (session_stream s' i)"
          using rec by (simp add: st stream_revision_append stream_revision_last)
        moreover have "list_all2 (records opts) raws recorded"
          using app by (simp add: appended_rows_def records_with_records)
        moreover have "se_sleeps s' = se_sleeps s \<and> se_jitter s' = se_jitter s"
          by (simp add: r s3 saved2 s1)
        ultimately show ?thesis using exp by (simp add: attempt_outcome_def r(1) stream)
      qed
    qed
  qed
qed

section \<open>The delays\<close>

lemma xor_push_bit_nonzero:
  fixes x :: u64
  assumes "0 < k" and "x \<noteq> 0"
  shows "xor x (push_bit k x) \<noteq> 0"
proof
  assume "xor x (push_bit k x) = 0"
  then have eq: "bit x n = bit (push_bit k x) n" for n
    by (metis bit_xor_iff bit_0_eq bot_apply bot_bool_def)
  have "\<not> bit x n" for n
  proof (induction n rule: less_induct)
    case (less n)
    show ?case using eq [of n] less [of "n - k"] assms(1) by (auto simp: bit_push_bit_iff)
  qed
  with assms(2) show False by (simp add: bit_eq_iff)
qed

lemma xor_drop_bit_nonzero:
  fixes x :: u64
  assumes "0 < k" and "x \<noteq> 0"
  shows "xor x (drop_bit k x) \<noteq> 0"
proof
  assume "xor x (drop_bit k x) = 0"
  then have eq: "bit x n = bit (drop_bit k x) n" for n
    by (metis bit_xor_iff bit_0_eq bot_apply bot_bool_def)
  have "\<not> bit x n" for n
  proof (induction "64 - n" arbitrary: n rule: less_induct)
    case less
    show ?case
    proof (cases "n < 64")
      case True
      then have "64 - (k + n) < 64 - n" using assms(1) by simp
      from less [OF this] eq [of n] show ?thesis by (simp add: bit_drop_bit_eq)
    next
      case False
      then show ?thesis using bit_imp_le_length [of x n] by auto
    qed
  qed
  with assms(2) show False by (simp add: bit_eq_iff)
qed

lemma xorshift_nonzero: "x \<noteq> 0 \<Longrightarrow> xorshift x \<noteq> 0"
  unfolding xorshift_def Let_def
  by (intro xor_push_bit_nonzero xor_drop_bit_nonzero) simp_all

lemma or_1_nonzero: "or (x :: u64) 1 \<noteq> 0"
  by (metis bit_1_0 bit_or_iff bit_0_eq bot_apply bot_bool_def)

text \<open>
  The jitter state is zero only before its first use: every call leaves a non-zero state, so
  the clock seeds the generator exactly once.
\<close>

theorem jitter_state_nonzero: "snd (next_jitter nanos x) \<noteq> 0"
  by (simp add: next_jitter_def Let_def xorshift_nonzero or_1_nonzero)

lemma unat_add_le: "unat (a + b :: u64) \<le> unat a + unat b"
  by (simp add: unat_word_ariths)

lemma unat_mod_Suc_le: "(b :: u64) < - 1 \<Longrightarrow> unat (x mod (b + 1)) \<le> unat b"
proof -
  assume "b < - 1"
  then have "1 + b \<noteq> 0" using max_word_wrap [of b] by (auto simp: add.commute)
  then have "unat (b + 1) = Suc (unat b)" by (simp add: unatSuc add.commute [of b])
  then show ?thesis by (simp add: unat_mod less_Suc_eq_le [symmetric])
qed

lemma backoff_limit: "backoff_ms base cap limit a \<le> limit"
  by (simp add: backoff_ms_def)

lemma jitter_bound:
  assumes "jitter H b s = (d, s')" and "b < - 1"
  shows "unat d \<le> unat b \<and> (\<exists>x. s' = s\<lparr>se_jitter := x\<rparr>)"
  using assms by (auto simp: jitter_def unat_mod_Suc_le split: prod.splits)

lemma retry_delay_bound:
  assumes "retry_delay H a s = (d, s')"
  shows "unat d \<le> 128 \<and> (\<exists>x. s' = s\<lparr>se_jitter := x\<rparr>)"
proof -
  let ?b = "backoff_ms BASE_RETRY_DELAY_MS 5 MAX_RETRY_DELAY_MS a"
  have b: "?b \<le> 64" using backoff_limit [of _ _ MAX_RETRY_DELAY_MS] by (simp add: MAX_RETRY_DELAY_MS_def)
  then have "unat ?b \<le> 64" by (simp add: word_le_nat_alt)
  moreover have "?b < - 1" using b by (rule le_less_trans) simp
  moreover obtain j s1 where j: "jitter H ?b s = (j, s1)" by fastforce
  moreover have "?b = 0 \<and> d = 0 \<and> s' = s \<or> d = ?b + j \<and> s' = s1"
    using assms j by (auto simp: retry_delay_def Let_def split: if_splits)
  ultimately show ?thesis
    using jitter_bound [OF j] unat_add_le [of ?b j] by (auto intro: exI [of _ "se_jitter s"])
qed

lemma busy_retry_delay_bound:
  assumes "busy_retry_delay H a s = (d, s')"
  shows "unat d \<le> 500 \<and> (\<exists>x. s' = s\<lparr>se_jitter := x\<rparr>)"
proof -
  let ?b = "backoff_ms BUSY_BASE_DELAY_MS 6 BUSY_MAX_DELAY_MS a"
  have b: "?b \<le> 250" using backoff_limit [of _ _ BUSY_MAX_DELAY_MS] by (simp add: BUSY_MAX_DELAY_MS_def)
  then have "unat ?b \<le> 250" by (simp add: word_le_nat_alt)
  moreover have "?b < - 1" using b by (rule le_less_trans) simp
  moreover obtain j s1 where j: "jitter H ?b s = (j, s1)" by fastforce
  moreover have "d = ?b + j" "s' = s1"
    using assms j by (simp_all add: busy_retry_delay_def Let_def)
  ultimately show ?thesis using jitter_bound [OF j] unat_add_le [of ?b j] by auto
qed

section \<open>The loops\<close>

lemma sleep_simps [simp]:
  "c_db (sleep d) = c_db (snd d)" "c_saved (sleep d) = c_saved (snd d)"
  "se_sleeps (sleep d) = se_sleeps (snd d) @ [unat (fst d)]"
  by (simp_all add: sleep_def)

lemma busy_delay_keeps [simp]:
  "c_db (snd (busy_retry_delay H a s)) = c_db s" "c_saved (snd (busy_retry_delay H a s)) = c_saved s"
  using busy_retry_delay_bound [OF surjective_pairing, of H a s] by auto

lemma busy_sleep:
  "\<exists>d\<le>500. se_sleeps (sleep (busy_retry_delay H a s)) = se_sleeps s @ [d]"
  using busy_retry_delay_bound [OF surjective_pairing, of H a s] by auto

lemma retry_delay_keeps [simp]:
  "c_db (snd (retry_delay H a s)) = c_db s" "c_saved (snd (retry_delay H a s)) = c_saved s"
  using retry_delay_bound [OF surjective_pairing, of H a s] by auto

lemma retry_sleep:
  "\<exists>d\<le>128. se_sleeps (sleep (retry_delay H a s)) = se_sleeps s @ [d]"
  using retry_delay_bound [OF surjective_pairing, of H a s] by auto

lemma attempt_outcome_cong:
  "c_db t = c_db s \<Longrightarrow> attempt_outcome H prev i opts raws t = attempt_outcome H prev i opts raws s"
  by (intro ext) (simp only: attempt_outcome_def session_stream_cong [of t s])

lemma attempt_outcome_ok: "attempt_outcome H prev i opts raws s r s' \<Longrightarrow> session_ok H prev s'"
  by (simp add: attempt_outcome_def)

text \<open>The delays slept between two sessions.\<close>

definition slept :: "'g session \<Rightarrow> 'g session \<Rightarrow> nat \<Rightarrow> nat \<Rightarrow> bool" where
  "slept s s' count ms \<longleftrightarrow>
     (\<exists>ds. se_sleeps s' = se_sleeps s @ ds \<and> length ds \<le> count \<and> sum_list ds \<le> ms)"

lemma slept_refl [simp]: "slept s s count ms"
  by (simp add: slept_def)

lemma slept_cong: "se_sleeps s' = se_sleeps s \<Longrightarrow> slept s s' count ms"
  by (simp add: slept_def)

lemma slept_trans:
  "slept s t m a \<Longrightarrow> slept t u n b \<Longrightarrow> m + n \<le> k \<Longrightarrow> a + b \<le> c \<Longrightarrow> slept s u k c"
  by (fastforce simp: slept_def)

lemma slept_one: "d \<le> b \<Longrightarrow> se_sleeps s' = se_sleeps s @ [d] \<Longrightarrow> slept s s' 1 b"
  by (simp add: slept_def)

lemma busy_loop_outcome:
  assumes ne: "raws \<noteq> []"
  shows "busy_loop H i opts raws n k (r, t) = (r', s') \<Longrightarrow> attempt_outcome H prev i opts raws s r t \<Longrightarrow>
    attempt_outcome H prev i opts raws s r' s' \<and> slept t s' n (500 * n)"
proof (induction n arbitrary: k r t)
  case 0
  then show ?case by simp
next
  case (Suc n)
  show ?case
  proof (cases "\<exists>e. r = Inl (Store e) \<and> is_sqlite_busy e")
    case True
    then obtain e where e: "r = Inl (Store e)" "is_sqlite_busy e" by blast
    let ?t = "sleep (busy_retry_delay H k t)"
    obtain q u where q: "try_publish_once H i opts raws ?t = (q, u)" by fastforce
    from Suc.prems(2) e have t: "c_db t = c_db s" "session_ok H prev t"
      by (auto simp: attempt_outcome_def)
    then have ok: "session_ok H prev ?t"
      by (auto simp: session_ok_def)
    note Q = try_publish_once_outcome [OF ok ne q]
    have "attempt_outcome H prev i opts raws s q u"
      using Q attempt_outcome_cong [of ?t s] t by simp
    moreover have "busy_loop H i opts raws n (Suc k) (q, u) = (r', s')"
      using Suc.prems(1) e q by simp
    ultimately have IH: "attempt_outcome H prev i opts raws s r' s'" "slept u s' n (500 * n)"
      using Suc.IH by blast+
    obtain d where d: "d \<le> 500" "se_sleeps u = se_sleeps t @ [d]"
      using Q busy_sleep [of H k t] by auto
    from slept_trans [OF slept_one [OF d] IH(2)] IH(1) show ?thesis by simp
  next
    case False
    then have "(r', s') = (r, t)"
      using Suc.prems(1) by (auto split: sum.splits publish_attempt_error.splits if_splits)
    with Suc.prems(2) show ?thesis by simp
  qed
qed

section \<open>How often a publish is attempted\<close>

text \<open>
  What a run of the two loops consists of, stated without the loops and without their constants.
  \<open>tries s k r t\<close>: one try and \<open>k\<close> more, each after the delay for a busy database; \<open>r\<close> is the answer
  of the last one, in the session \<open>t\<close>. \<open>attempts s cs a t\<close>: attempts that ended in the conflicts
  \<open>cs\<close>, each followed by its delay, then a last attempt that answered \<open>a\<close> in \<open>t\<close>.
\<close>

inductive tries ::
  "'g host \<Rightarrow> aggregate_id \<Rightarrow> publish_options \<Rightarrow> raw_event list \<Rightarrow> 'g session \<Rightarrow> nat \<Rightarrow>
    publish_attempt_error + change_set \<Rightarrow> 'g session \<Rightarrow> bool"
  for H i opts events s where
  first_try: "try_publish_once H i opts events s = (r, t) \<Longrightarrow> tries H i opts events s 0 r t"
| busy_try: "tries H i opts events s k (Inl (Store e)) t \<Longrightarrow> is_sqlite_busy e \<Longrightarrow>
    try_publish_once H i opts events (sleep (busy_retry_delay H k t)) = (r, u) \<Longrightarrow>
    tries H i opts events s (Suc k) r u"

definition still_busy :: "publish_attempt_error + change_set \<Rightarrow> bool" where
  "still_busy r \<longleftrightarrow> (\<exists>e. r = Inl (Store e) \<and> is_sqlite_busy e)"

definition attempt_ends ::
  "'g host \<Rightarrow> aggregate_id \<Rightarrow> publish_options \<Rightarrow> raw_event list \<Rightarrow> 'g session \<Rightarrow>
    publish_attempt_error + change_set \<Rightarrow> 'g session \<Rightarrow> bool" where
  "attempt_ends H i opts events s r t \<longleftrightarrow>
     (\<exists>k\<le>8. tries H i opts events s k r t \<and> (still_busy r \<longrightarrow> k = 8))"

inductive attempts ::
  "'g host \<Rightarrow> aggregate_id \<Rightarrow> publish_options \<Rightarrow> raw_event list \<Rightarrow> 'g session \<Rightarrow>
    publish_conflict list \<Rightarrow> publish_attempt_error + change_set \<Rightarrow> 'g session \<Rightarrow> bool"
  for H i opts events s where
  first_attempt: "attempt_ends H i opts events s a t \<Longrightarrow> attempts H i opts events s [] a t"
| next_attempt: "attempts H i opts events s cs (Inl (Conflict c)) t \<Longrightarrow>
    attempt_ends H i opts events (sleep (retry_delay H (length cs) t)) a u \<Longrightarrow>
    attempts H i opts events s (cs @ [c]) a u"

lemma busy_loop_tries:
  "busy_loop H i opts raws n k (r, t) = (r', s') \<Longrightarrow> tries H i opts raws s k r t \<Longrightarrow>
     \<exists>m\<le>k + n. tries H i opts raws s m r' s' \<and> (still_busy r' \<longrightarrow> m = k + n)"
proof (induction n arbitrary: k r t)
  case 0
  then show ?case by auto
next
  case (Suc n)
  show ?case
  proof (cases "still_busy r")
    case True
    then obtain e where e: "r = Inl (Store e)" "is_sqlite_busy e" by (auto simp: still_busy_def)
    obtain q u where q: "try_publish_once H i opts raws (sleep (busy_retry_delay H k t)) = (q, u)"
      by fastforce
    from Suc.prems(1) e q have "busy_loop H i opts raws n (Suc k) (q, u) = (r', s')" by simp
    from Suc.IH [OF this busy_try] Suc.prems(2) e q show ?thesis by fastforce
  next
    case False
    then have "(r', s') = (r, t)"
      using Suc.prems(1)
      by (auto simp: still_busy_def split: sum.splits publish_attempt_error.splits if_splits)
    with Suc.prems(2) False show ?thesis by (intro exI [of _ k]) simp
  qed
qed

lemma busy_loop_attempt:
  assumes "busy_loop H i opts raws MAX_BUSY_RETRIES 0 (try_publish_once H i opts raws s) = (r, t)"
  shows "attempt_ends H i opts raws s r t"
proof -
  obtain q u where q: "try_publish_once H i opts raws s = (q, u)" by fastforce
  from busy_loop_tries [OF assms [unfolded q] first_try [OF q]] show ?thesis
    by (simp add: attempt_ends_def MAX_BUSY_RETRIES_def)
qed

definition conflict_diagnostics :: "'g host \<Rightarrow> publish_conflict \<Rightarrow> retry_diagnostics" where
  "conflict_diagnostics H c =
     \<lparr>last_attempted_revision = pc_attempted c, observed_max_revision = pc_actual c,
      possible_clock_skew = possible_clock_skew_ms (h_ulid H) (pc_attempted c) (pc_actual c)\<rparr>"

text \<open>The answer of a publish that makes up to five attempts without an expected revision, else one.\<close>

definition publish_answer ::
  "'g host \<Rightarrow> publish_options \<Rightarrow> nat \<Rightarrow> publish_attempt_error + change_set \<Rightarrow>
    (sqlite_error + change_set) option" where
  "publish_answer H opts earlier a =
     (case (a, expected_revision opts) of
        (Inr changes, _) \<Rightarrow> Some (Inr changes)
      | (Inl (Store e), _) \<Rightarrow> Some (Inl e)
      | (Inl (Conflict c), Some x) \<Rightarrow>
          Some (Inl (WeeEvents (RevisionConflict (pc_expected c) (pc_actual c))))
      | (Inl (Conflict c), None) \<Rightarrow>
          if Suc earlier = 5
          then Some (Inl (WeeEvents (retry_exhausted 5 (conflict_diagnostics H c)))) else None)"

text \<open>Every attempt of a run answers as one attempt on the first session would.\<close>

lemma tries_outcome:
  assumes "tries H i opts raws s k r t" and ok: "session_ok H prev s" and ne: "raws \<noteq> []"
  shows "attempt_outcome H prev i opts raws s r t"
  using assms(1)
proof (induction rule: tries.induct)
  case (first_try r t)
  with try_publish_once_outcome [OF ok ne] show ?case by blast
next
  case (busy_try k e t r u)
  let ?t = "sleep (busy_retry_delay H k t)"
  from busy_try.IH have t: "c_db ?t = c_db s" "session_ok H prev ?t"
    by (auto simp: attempt_outcome_def session_ok_def)
  from try_publish_once_outcome [OF t(2) ne busy_try.hyps(3)] attempt_outcome_cong [OF t(1)]
  show ?case by simp
qed

lemma attempts_outcome:
  assumes "attempts H i opts raws s cs a t" and ok: "session_ok H prev s" and ne: "raws \<noteq> []"
  shows "attempt_outcome H prev i opts raws s a t \<and>
    (\<forall>c\<in>set cs. conflict_against opts (stream_revision (session_stream s i)) c)"
  using assms(1)
proof (induction rule: attempts.induct)
  case (first_attempt a t)
  then show ?case using tries_outcome [OF _ ok ne] by (auto simp: attempt_ends_def)
next
  case (next_attempt cs c t a u)
  let ?t = "sleep (retry_delay H (length cs) t)"
  from next_attempt.IH have t: "c_db ?t = c_db s" "session_ok H prev ?t"
    by (auto simp: attempt_outcome_def session_ok_def)
  from next_attempt.hyps(2) have "attempt_outcome H prev i opts raws ?t a u"
    using tries_outcome [OF _ t(2) ne] by (auto simp: attempt_ends_def)
  with next_attempt.IH attempt_outcome_cong [OF t(1)] show ?case
    by (auto simp: attempt_outcome_def)
qed

text \<open>Where the outer loop stands before an attempt, \<open>n\<close> of \<open>m\<close> being left.\<close>

definition loop_stands ::
  "'g host \<Rightarrow> aggregate_id \<Rightarrow> publish_options \<Rightarrow> raw_event list \<Rightarrow> 'g session \<Rightarrow> nat \<Rightarrow> nat \<Rightarrow>
    retry_diagnostics option \<Rightarrow> 'g session \<Rightarrow> bool" where
  "loop_stands H i opts raws s m n lc u \<longleftrightarrow>
     n = m \<and> lc = None \<and> u = s \<or>
     n < m \<and> expected_revision opts = None \<and>
       (\<exists>cs c t. attempts H i opts raws s cs (Inl (Conflict c)) t \<and> Suc (length cs + n) = m \<and>
          lc = Some (conflict_diagnostics H c) \<and>
          u = (if n = 0 then t else sleep (retry_delay H (length cs) t)))"

lemma loop_stands_attempt:
  assumes "loop_stands H i opts raws s m (Suc n) lc u" and "attempt_ends H i opts raws u a t"
  shows "\<exists>cs. attempts H i opts raws s cs a t \<and> Suc (length cs + n) = m"
proof (cases "Suc n = m")
  case True
  with assms first_attempt show ?thesis by (intro exI [of _ "[]"]) (simp add: loop_stands_def)
next
  case False
  with assms(1) obtain cs c t' where c: "attempts H i opts raws s cs (Inl (Conflict c)) t'"
    "Suc (length cs + Suc n) = m" "u = sleep (retry_delay H (length cs) t')"
    by (auto simp: loop_stands_def)
  from next_attempt [OF c(1)] assms(2) c show ?thesis by (intro exI [of _ "cs @ [c]"]) simp
qed

lemma attempt_loop_trace:
  assumes m: "m = (if expected_revision opts = None then 5 else 1)"
  shows "attempt_loop H i opts raws m n lc u = (r, s') \<Longrightarrow> loop_stands H i opts raws s m n lc u \<Longrightarrow>
    \<exists>cs a. attempts H i opts raws s cs a s' \<and> length cs < m \<and>
      publish_answer H opts (length cs) a = Some r"
proof (induction n arbitrary: lc u)
  case 0
  from 0(2) m obtain cs c where c: "attempts H i opts raws s cs (Inl (Conflict c)) u"
    "Suc (length cs) = 5" "m = 5" "expected_revision opts = None" "lc = Some (conflict_diagnostics H c)"
    by (auto simp: loop_stands_def split: if_splits)
  with 0(1) show ?case
    by (intro exI [of _ cs] exI [of _ "Inl (Conflict c)"]) (simp add: publish_answer_def)
next
  case (Suc n)
  obtain a t where a:
    "busy_loop H i opts raws MAX_BUSY_RETRIES 0 (try_publish_once H i opts raws u) = (a, t)"
    by fastforce
  from loop_stands_attempt [OF Suc.prems(2) busy_loop_attempt [OF a]]
  obtain cs where cs: "attempts H i opts raws s cs a t" "Suc (length cs + n) = m" by blast
  show ?case
  proof (cases "\<exists>c. a = Inl (Conflict c) \<and> expected_revision opts = None")
    case True
    then obtain c where c: "a = Inl (Conflict c)" "expected_revision opts = None" by blast
    let ?t = "if n = 0 then t else sleep (retry_delay H (length cs) t)"
    have k: "m - Suc n = length cs" and n: "(m - Suc n + 1 < m) = (n \<noteq> 0)"
      using cs(2) by auto
    from Suc.prems(1) have run: "attempt_loop H i opts raws m n (Some (conflict_diagnostics H c)) ?t = (r, s')"
      using c n k by (cases "n = 0") (simp_all add: a Let_def conflict_diagnostics_def)
    have "loop_stands H i opts raws s m n (Some (conflict_diagnostics H c)) ?t"
      using cs c unfolding loop_stands_def
      by (intro disjI2 conjI exI [of _ cs] exI [of _ c] exI [of _ t]) auto
    from Suc.IH [OF run this] show ?thesis .
  next
    case False
    with Suc.prems(1) have "s' = t \<and> publish_answer H opts (length cs) a = Some r"
      by (auto simp: a publish_answer_def split: sum.splits publish_attempt_error.splits option.splits)
    with cs show ?thesis by (intro exI [of _ cs] exI [of _ a]) auto
  qed
qed

text \<open>What a whole publish on a connection promises.\<close>

definition publish_outcome ::
  "'g host \<Rightarrow> ('g \<Rightarrow> ulid) \<Rightarrow> aggregate_id \<Rightarrow> publish_options \<Rightarrow> raw_event list \<Rightarrow>
    'g session \<Rightarrow> sqlite_error + change_set \<Rightarrow> 'g session \<Rightarrow> bool" where
  "publish_outcome H prev i opts raws s r s' \<longleftrightarrow>
     session_ok H prev s' \<and>
     (case r of
        Inl e \<Rightarrow> c_db s' = c_db s \<and>
          (attempt_failure H e \<or>
           (\<exists>x. expected_revision opts = Some x \<and>
              e = WeeEvents (RevisionConflict x (stream_revision (session_stream s i)))) \<or>
           (\<exists>d. expected_revision opts = None \<and> e = WeeEvents (retry_exhausted MAX_AUTO_RETRIES d) \<and>
              observed_max_revision d = stream_revision (session_stream s i) \<and>
              last_attempted_revision d \<le> stream_revision (session_stream s i)))
      | Inr cs \<Rightarrow>
          session_stream s' = (session_stream s)(i := session_stream s i @ cs_events cs) \<and>
          list_all2 (records opts) raws (cs_events cs) \<and>
          cs_aggregate_id cs = i \<and> cs_revision cs = stream_revision (session_stream s' i) \<and>
          (c_db s')\<lparr>tbl_events := tbl_events (c_db s)\<rparr> = c_db s \<and>
          (raws \<noteq> [] \<longrightarrow> expected_revision opts \<in> {None, Some (stream_revision (session_stream s i))}))"

lemma publish_outcome_cong:
  "c_db t = c_db s \<Longrightarrow> publish_outcome H prev i opts raws t = publish_outcome H prev i opts raws s"
  by (intro ext) (simp only: publish_outcome_def session_stream_cong [of t s])

definition diagnostics_against :: "retry_diagnostics \<Rightarrow> revision \<Rightarrow> bool" where
  "diagnostics_against d current \<longleftrightarrow>
     observed_max_revision d = current \<and> last_attempted_revision d \<le> current"

lemma attempt_loop_outcome:
  assumes ne: "raws \<noteq> []" and m: "m = (if expected_revision opts = None then MAX_AUTO_RETRIES else 1)"
  shows "attempt_loop H i opts raws m n lc s = (r, s') \<Longrightarrow> session_ok H prev s \<Longrightarrow> n \<le> m \<Longrightarrow>
    (n = 0 \<longrightarrow> lc \<noteq> None) \<Longrightarrow> (lc \<noteq> None \<longrightarrow> expected_revision opts = None) \<Longrightarrow>
    (\<forall>d. lc = Some d \<longrightarrow> diagnostics_against d (stream_revision (session_stream s i))) \<Longrightarrow>
    publish_outcome H prev i opts raws s r s' \<and> slept s s' (9 * n) (4128 * n)"
proof (induction n arbitrary: lc s)
  case 0
  then obtain d where "lc = Some d" by auto
  with 0 m show ?case by (auto simp: publish_outcome_def diagnostics_against_def)
next
  case (Suc n)
  obtain q0 t0 where t0: "try_publish_once H i opts raws s = (q0, t0)" by fastforce
  obtain q t where q: "busy_loop H i opts raws MAX_BUSY_RETRIES 0 (q0, t0) = (q, t)" by fastforce
  note T = try_publish_once_outcome [OF Suc.prems(2) ne t0]
  then have Q: "attempt_outcome H prev i opts raws s q t" "slept t0 t 8 4000"
    using busy_loop_outcome [OF ne q, of prev s] by (auto simp: MAX_BUSY_RETRIES_def)
  then have slept: "slept s t 8 4000" using T by (simp add: slept_def)
  note run = Suc.prems(1) [simplified, unfolded t0 Let_def, unfolded q, simplified]
  have done_: "slept s t (9 * Suc n) (4128 * Suc n)"
    using slept_trans [OF slept slept_refl [of t 0 0]] by simp
  show ?case
  proof (cases q)
    case (Inr cs)
    with run have "r = Inr cs" "s' = t" by auto
    with Q Inr done_ show ?thesis by (simp add: attempt_outcome_def publish_outcome_def)
  next
    case (Inl e)
    show ?thesis
    proof (cases e)
      case (Store e')
      with run Inl have "r = Inl e'" "s' = t" by auto
      with Q Inl Store done_ show ?thesis by (simp add: attempt_outcome_def publish_outcome_def)
    next
      case (Conflict c)
      with Inl Q have db: "c_db t = c_db s" and okt: "session_ok H prev t"
        and c: "conflict_against opts (stream_revision (session_stream s i)) c"
        by (auto simp: attempt_outcome_def)
      show ?thesis
      proof (cases "expected_revision opts")
        case (Some x)
        with run Inl Conflict c
        have "r = Inl (WeeEvents (RevisionConflict x (stream_revision (session_stream s i))))" "s' = t"
          by (auto simp: conflict_against_def)
        with okt db Some done_ show ?thesis by (simp add: publish_outcome_def)
      next
        case None
        let ?d = "\<lparr>last_attempted_revision = pc_attempted c, observed_max_revision = pc_actual c,
          possible_clock_skew = possible_clock_skew_ms (h_ulid H) (pc_attempted c) (pc_actual c)\<rparr>"
        let ?t = "if Suc (m - Suc n) < m then sleep (retry_delay H (m - Suc n) t) else t"
        have t': "c_db ?t = c_db s" "session_ok H prev ?t"
          using db okt by (auto simp: session_ok_def)
        have "slept t ?t 1 128"
          using retry_sleep [of H "m - Suc n" t] by (auto simp: slept_def)
        with slept have sl: "slept s ?t 9 4128" by (rule slept_trans) auto
        have "diagnostics_against ?d (stream_revision (session_stream ?t i))"
          using c None by (auto simp: diagnostics_against_def conflict_against_def publish_allowed_def
              session_stream_cong [OF t'(1)])
        moreover from run Inl Conflict None
        have "attempt_loop H i opts raws m n (Some ?d) ?t = (r, s')" by simp
        ultimately have "publish_outcome H prev i opts raws ?t r s'" "slept ?t s' (9 * n) (4128 * n)"
          using Suc.IH [of "Some ?d" ?t] t' None Suc.prems(3) by auto
        then show ?thesis
          using slept_trans [OF sl] by (simp add: publish_outcome_cong [OF t'(1)])
      qed
    qed
  qed
qed

section \<open>Loading and publishing\<close>

lemma load_from_connection_outcome:
  assumes "session_ok H prev s" and "load_from_connection H i s = (r, s')"
  shows "s' = s\<lparr>c_calls := Suc (c_calls s)\<rparr> \<and>
    (r = Inr (from_shared_events i (session_stream s i)) \<or>
     (\<exists>l. h_faults H (c_calls s) = Some l \<and> r = Inl (Libsql l)))"
proof -
  from assms(1) obtain rows where laws: "ulid_laws (h_ulid H)"
    and rows: "tbl_events (c_db s) = Some rows" "rows_inv (h_ulid H) rows"
    by (auto simp: session_ok_def)
  have "map (decode_row H) (sort_key row_revision (agg_rows rows i)) =
      map Inr (map event_of_row (sort_key row_revision (agg_rows rows i)))"
    using rows(2) agg_rows_subset [of rows i]
    by (auto simp: rows_inv_def intro!: decode_row_ok [OF laws])
  then have decoded: "collect_results (map (decode_row H) (sort_key row_revision (agg_rows rows i))) =
      Inr (session_stream s i)"
    by (simp add: collect_results_map_Inr session_stream_def rows(1) rows_stream_def del: map_map)
  from assms(2) show ?thesis unfolding load_from_connection_def
    by (cases rule: seq_result_cases) (auto simp: result_simps rows(1) decoded)
qed

lemma publish_with_connection_outcome:
  assumes ok: "session_ok H prev s" and run: "publish_with_connection H i opts raws s = (r, s')"
  shows "publish_outcome H prev i opts raws s r s' \<and> slept s s' 45 20640"
proof (cases "raws = []")
  case True
  from run True have "seq_result (load_from_connection H i) (\<lambda>a.
      give (Inr \<lparr>cs_aggregate_id = i, cs_revision = agg_revision a, cs_events = []\<rparr>)) s = (r, s')"
    by (simp add: publish_with_connection_def)
  then show ?thesis
  proof (cases rule: seq_result_cases)
    case (stop e)
    with load_from_connection_outcome [OF ok stop(1)] ok show ?thesis
      by (auto simp: publish_outcome_def attempt_failure_def session_ok_def slept_def)
  next
    case (run a t)
    with load_from_connection_outcome [OF ok run(1)] have
      "r = Inr \<lparr>cs_aggregate_id = i, cs_revision = stream_revision (session_stream s i), cs_events = []\<rparr>"
      "s' = s\<lparr>c_calls := Suc (c_calls s)\<rparr>" by (auto simp: result_simps)
    with ok True show ?thesis
      by (simp add: publish_outcome_def session_ok_def session_stream_def slept_def)
  qed
next
  case False
  let ?m = "if expected_revision opts = None then MAX_AUTO_RETRIES else 1"
  from run False have "attempt_loop H i opts raws ?m ?m None s = (r, s')"
    by (simp add: publish_with_connection_def Let_def)
  from attempt_loop_outcome [OF False refl this ok]
  have "publish_outcome H prev i opts raws s r s' \<and> slept s s' (9 * ?m) (4128 * ?m)"
    by (simp add: MAX_AUTO_RETRIES_def)
  then show ?thesis
    using slept_trans [OF _ slept_refl [of s' 0 0], of s "9 * ?m" "4128 * ?m" 45 20640]
    by (simp add: MAX_AUTO_RETRIES_def split: if_splits)
qed

lemma publish_with_connection_trace:
  assumes ok: "session_ok H prev s" and ne: "raws \<noteq> []"
    and run: "publish_with_connection H i opts raws s = (r, s')"
  shows "\<exists>conflicts a. attempts H i opts raws s conflicts a s' \<and>
    length conflicts < (if expected_revision opts = None then 5 else 1) \<and>
    publish_answer H opts (length conflicts) a = Some r \<and>
    (\<forall>c\<in>set conflicts. pc_actual c = stream_revision (session_stream s i) \<and>
       pc_attempted c \<le> pc_actual c)"
proof -
  let ?m = "if expected_revision opts = None then 5 else 1 :: nat"
  from run ne have loop: "attempt_loop H i opts raws ?m ?m None s = (r, s')"
    by (simp only: publish_with_connection_def Let_def MAX_AUTO_RETRIES_def if_False)
  have "loop_stands H i opts raws s ?m ?m None s" by (simp add: loop_stands_def)
  from attempt_loop_trace [OF refl loop this]
  obtain cs a where cs: "attempts H i opts raws s cs a s'" "length cs < ?m"
    "publish_answer H opts (length cs) a = Some r" by blast
  have "pc_actual c = stream_revision (session_stream s i) \<and> pc_attempted c \<le> pc_actual c"
    if "c \<in> set cs" for c
  proof -
    from cs(2) that have "expected_revision opts = None" by (cases cs) (auto split: if_splits)
    with attempts_outcome [OF cs(1) ok ne] that show ?thesis
      by (auto simp: conflict_against_def publish_allowed_def not_less)
  qed
  with cs show ?thesis by blast
qed

lemma publish_error_from_sqlite:
  assumes "publish_outcome H prev i opts raws s (Inl e) s'"
  shows "error_from_sqlite e \<noteq> Custom (Panicked m)"
  using assms by (auto simp: publish_outcome_def attempt_failure_def retry_exhausted_def)

text \<open>A connection keeps the contract of \<open>EventStore\<close>.\<close>

interpretation connection: event_store "connection_ops H e" "session_ok H prev" session_stream
  for H e prev
proof unfold_locales
  fix s :: "'a session" and i l s'
  assume ok: "session_ok H prev s" and run: "st_load (connection_ops H e) s i = (l, s')"
  from run obtain r where "load_from_connection H i s = (r, s')"
    by (cases "load_from_connection H i s") (auto simp: connection_ops_def seq_err_def)
  from load_from_connection_outcome [OF ok this] ok
  show "session_ok H prev s' \<and> session_stream s' = session_stream s"
    by (simp add: session_ok_def session_stream_def)
next
  fix s :: "'a session" and i a s'
  assume ok: "session_ok H prev s" and run: "st_load (connection_ops H e) s i = (Inr a, s')"
  from run have "load_from_connection H i s = (Inr a, s')"
    by (simp add: connection_ops_def result_simps)
  from load_from_connection_outcome [OF ok this]
  show "a = from_shared_events i (session_stream s i)" by simp
next
  fix s :: "'a session" and i opts raws r s'
  assume ok: "session_ok H prev s" and run: "st_publish (connection_ops H e) s i opts raws = (r, s')"
  from run obtain q where "publish_with_connection H i opts raws s = (q, s')"
    by (cases "publish_with_connection H i opts raws s") (auto simp: connection_ops_def seq_err_def)
  from publish_with_connection_outcome [OF ok this] show "session_ok H prev s'"
    by (simp add: publish_outcome_def)
next
  fix s :: "'a session" and i opts raws d s'
  assume ok: "session_ok H prev s" and run: "st_publish (connection_ops H e) s i opts raws = (Inl d, s')"
  from run obtain q where "publish_with_connection H i opts raws s = (Inl q, s')"
    by (auto simp: connection_ops_def result_simps)
  from publish_with_connection_outcome [OF ok this] show "session_stream s' = session_stream s"
    by (simp add: publish_outcome_def session_stream_def)
next
  fix s :: "'a session" and i opts raws cs s'
  assume ok: "session_ok H prev s" and run: "st_publish (connection_ops H e) s i opts raws = (Inr cs, s')"
  from run have "publish_with_connection H i opts raws s = (Inr cs, s')"
    by (simp add: connection_ops_def result_simps)
  from publish_with_connection_outcome [OF ok this]
  show "session_stream s' = (session_stream s)(i := session_stream s i @ cs_events cs) \<and>
      list_all2 (records opts) raws (cs_events cs) \<and>
      cs_aggregate_id cs = i \<and> cs_revision cs = stream_revision (session_stream s' i)"
    by (simp add: publish_outcome_def)
next
  fix s :: "'a session" and i opts raws cs s' x
  assume ok: "session_ok H prev s" and run: "st_publish (connection_ops H e) s i opts raws = (Inr cs, s')"
    and hyps: "raws \<noteq> []" "expected_revision opts = Some x"
  from run have "publish_with_connection H i opts raws s = (Inr cs, s')"
    by (simp add: connection_ops_def result_simps)
  from publish_with_connection_outcome [OF ok this] hyps
  show "x = stream_revision (session_stream s i)" by (simp add: publish_outcome_def)
next
  fix s :: "'a session" and i
  assume "session_ok H prev s"
  then show "strictly_increasing (revisions (session_stream s i))"
    by (auto simp: session_ok_def session_stream_def sorted_revisions)
next
  fix s :: "'a session" and i v
  assume "session_ok H prev s" and "v \<in> set (revisions (session_stream s i))"
  then show "revision_zero < v"
    by (auto simp: session_ok_def session_stream_def revision_zero_less dest: stream_rev_ulid)
qed

section \<open>The guarantees\<close>

text \<open>
  C4: a publish attempt is atomic. On a healthy database it either appends the whole batch, in
  order and with the caller's metadata, to the one stream, having checked a given expected
  revision against the stream's current one, or it returns an error and leaves the database as
  it was; the table stays healthy. A conflict names the actual current revision.
\<close>

theorem try_publish_once_atomic:
  assumes "session_ok H prev s" and "raws \<noteq> []"
    and "try_publish_once H i opts raws s = (r, s')"
  shows "session_ok H prev s' \<and>
    (case r of
       Inr cs \<Rightarrow>
         session_stream s' = (session_stream s)(i := session_stream s i @ cs_events cs) \<and>
         list_all2 (records opts) raws (cs_events cs) \<and>
         cs_aggregate_id cs = i \<and> cs_revision cs = stream_revision (session_stream s' i) \<and>
         expected_revision opts \<in> {None, Some (stream_revision (session_stream s i))} \<and>
         (c_db s')\<lparr>tbl_events := tbl_events (c_db s)\<rparr> = c_db s
     | Inl (Conflict c) \<Rightarrow>
         c_db s' = c_db s \<and> pc_actual c = stream_revision (session_stream s i) \<and>
         (expected_revision opts \<notin> {None, Some (pc_actual c)} \<or> pc_attempted c \<le> pc_actual c)
     | Inl (Store e) \<Rightarrow>
         c_db s' = c_db s \<and> ((\<exists>l. e = Libsql l) \<or> e = Internal (h_overflow_text H)))"
proof -
  from try_publish_once_outcome [OF assms] have "attempt_outcome H prev i opts raws s r s'" ..
  then show ?thesis
    by (auto simp: attempt_outcome_def attempt_failure_def conflict_against_def publish_allowed_def not_less
        split: sum.splits publish_attempt_error.splits)
qed

text \<open>
  C12: publishing on a connection keeps the table healthy and ends in one of four ways: the batch
  is appended; an error of libsql or of the ULID generator; a revision conflict, only when the
  caller gave an expected revision, naming that and the actual one; or exhausted retries, only
  without an expected revision, none of the attempted revisions being above the observed maximum.
  The database is unchanged in every case but the first. The answer comes from a run of whole
  attempts that is pinned independently of the loops: an attempt tries up to nine times while the
  database is busy; after each conflict without an expected revision the next attempt follows,
  five at most; retries are reported as exhausted exactly when the fifth attempt conflicted too,
  with that last conflict as diagnostics; with an expected revision there is one attempt.
\<close>

theorem publish_with_connection_outcomes:
  assumes "session_ok H prev s" and "raws \<noteq> []"
    and "publish_with_connection H i opts raws s = (r, s')"
  shows "session_ok H prev s' \<and>
    (case r of
       Inr cs \<Rightarrow>
         session_stream s' = (session_stream s)(i := session_stream s i @ cs_events cs) \<and>
         list_all2 (records opts) raws (cs_events cs) \<and>
         stream_revision (session_stream s i) < cs_revision cs \<and>
         expected_revision opts \<in> {None, Some (stream_revision (session_stream s i))}
     | Inl e \<Rightarrow> c_db s' = c_db s \<and>
         ((\<exists>l. e = Libsql l) \<or> e = Internal (h_overflow_text H) \<or>
          (\<exists>x. expected_revision opts = Some x \<and>
             e = WeeEvents (RevisionConflict x (stream_revision (session_stream s i)))) \<or>
          (\<exists>d. expected_revision opts = None \<and> e = WeeEvents (retry_exhausted 5 d) \<and>
             observed_max_revision d = stream_revision (session_stream s i) \<and>
             last_attempted_revision d \<le> observed_max_revision d))) \<and>
    (\<exists>conflicts a. attempts H i opts raws s conflicts a s' \<and>
       length conflicts < (if expected_revision opts = None then 5 else 1) \<and>
       publish_answer H opts (length conflicts) a = Some r \<and>
       (\<forall>c\<in>set conflicts. pc_actual c = stream_revision (session_stream s i) \<and>
          pc_attempted c \<le> pc_actual c))"
proof -
  note T = publish_with_connection_trace [OF assms]
  show ?thesis
  proof (cases r)
    case (Inl e)
    with publish_with_connection_outcome [OF assms(1,3)] T show ?thesis
      by (auto simp: publish_outcome_def attempt_failure_def MAX_AUTO_RETRIES_def)
  next
    case (Inr cs)
    with assms(3) have "st_publish (connection_ops H Json) s i opts raws = (Inr cs, s')"
      by (simp add: connection_ops_def seq_err_def)
    from connection.publish_advances [OF assms(1) this assms(2)] Inr T
      publish_with_connection_outcome [OF assms(1,3)] assms(2)
    show ?thesis by (auto simp: publish_outcome_def)
  qed
qed

text \<open>
  C35: the retry loops are bounded: one publish sleeps at most 45 times and at most 20.64 seconds
  altogether, whatever the database answers.
\<close>

theorem publish_delay_bounded:
  assumes "session_ok H prev s" and "publish_with_connection H i opts raws s = (r, s')"
  shows "\<exists>ds. se_sleeps s' = se_sleeps s @ ds \<and> length ds \<le> 45 \<and> sum_list ds \<le> 20640"
  using publish_with_connection_outcome [OF assms] by (simp add: slept_def)

section \<open>A session for the witnesses\<close>

definition demo_session :: "ulid session" where
  "demo_session = \<lparr>c_db = (empty_db ''wal'')\<lparr>tbl_events := Some []\<rparr>, c_saved = None,
     c_busy_timeout_ms = 30000, c_foreign_keys = True, c_calls = 0,
     se_generator = 0, se_jitter = 0, se_sleeps = []\<rparr>"

definition demo_id :: aggregate_id where
  "demo_id = aggregate_id_new ''run'' ''1''"

definition demo_options :: publish_options where
  "demo_options = default_options\<lparr>expected_revision := Some revision_zero\<rparr>"

definition demo_raw :: raw_event where
  "demo_raw = \<lparr>raw_event_type = EventType ''started'', raw_data = \<lparr>ed_encoding = Json, ed_data = []\<rparr>\<rparr>"

lemma demo_session_ok: "session_ok calm_host id demo_session"
  by (simp add: session_ok_def demo_session_def calm_host_def crockford_laws
      counter_generator_monotonic)

lemma digits32_small:
  "digits32 26 1 = ''00000000000000000000000001''"
  "digits32 26 2 = ''00000000000000000000000002''"
  by code_simp+

lemma crockford_small:
  "ulid_to_string crockford_codec 1 = ''00000000000000000000000001''"
  "ulid_to_string crockford_codec 2 = ''00000000000000000000000002''"
  by (simp_all add: crockford_codec_def digits32_small del: digits32.simps One_nat_def)

definition demo_changes :: change_set where
  "demo_changes = \<lparr>cs_aggregate_id = demo_id, cs_revision = revision_from_ulid crockford_codec 2,
     cs_events = [\<lparr>re_event_id = EventId (ulid_to_string crockford_codec 1),
         re_event_type = EventType ''started'', re_revision = revision_from_ulid crockford_codec 2,
         re_metadata = options_metadata demo_options, re_data = raw_data demo_raw\<rparr>]\<rparr>"

definition demo_row :: event_row where
  "demo_row = \<lparr>row_event_id = ''00000000000000000000000001'', row_aggregate_type = ''run'',
     row_aggregate_key = ''1'', row_event_type = ''started'',
     row_revision = ''00000000000000000000000002'', row_causation_id = None,
     row_correlation_id = None, row_encoding = JSON_ENCODING, row_data = []\<rparr>"

definition demo_published :: "ulid session" where
  "demo_published = demo_session\<lparr>c_calls := 3, se_generator := 2,
     c_db := (c_db demo_session)\<lparr>tbl_events := Some [demo_row]\<rparr>\<rparr>"

lemma demo_insert:
  "insert_events calm_host demo_id demo_options (options_metadata demo_options) 0 [demo_raw] []
     (demo_session\<lparr>c_calls := 1, c_saved := Some d\<rparr>) =
     (Inr (cs_events demo_changes), demo_published\<lparr>c_calls := 2, c_saved := Some d\<rparr>)"
  by (simp add: result_simps generate_ulid_def counter_generator_def execute_publish_statement_def
      insert_where_Inr calm_host_def demo_session_def demo_options_def default_options_def SQL_INITIAL_def revision_zero_def
      max_revision_def agg_rows_def coalesce_def constraint_violation_None row_of_def demo_raw_def
      demo_id_def aggregate_id_new_def crockford_small ZERO_REVISION_def demo_published_def
      demo_row_def demo_changes_def options_metadata_def empty_db_def revision_from_ulid_def)

lemma demo_try_publish:
  "try_publish_once calm_host demo_id demo_options [demo_raw] demo_session =
     (Inr demo_changes, demo_published)"
proof -
  let ?d = "c_db demo_session"
  have "begin_transaction calm_host demo_session =
      (Inr (), demo_session\<lparr>c_calls := 1, c_saved := Some ?d\<rparr>)"
    by (simp add: result_simps) (simp add: calm_host_def demo_session_def)
  moreover have "commit calm_host (demo_published\<lparr>c_calls := 2, c_saved := Some ?d\<rparr>) =
      (Inr (), demo_published)"
    by (simp add: result_simps) (simp add: calm_host_def demo_session_def demo_published_def)
  moreover have "last_opt (cs_events demo_changes) = Some (hd (cs_events demo_changes))"
    by (simp add: demo_changes_def last_opt_def)
  moreover have "demo_changes = \<lparr>cs_aggregate_id = demo_id,
      cs_revision = re_revision (hd (cs_events demo_changes)), cs_events = cs_events demo_changes\<rparr>"
    by (simp add: demo_changes_def)
  ultimately show ?thesis
    by (simp add: try_publish_once_def demo_insert del: insert_events.simps One_nat_def)
qed

lemma demo_publish:
  "publish_with_connection calm_host demo_id demo_options [demo_raw] demo_session =
     (Inr demo_changes, demo_published)"
proof -
  have "busy_loop H i opts raws n k (Inr cs, s) = (Inr cs, s)" for H :: "ulid host" and i opts raws n k cs s
    by (cases n) auto
  then have "attempt_loop calm_host demo_id demo_options [demo_raw] 1 (Suc 0) None
      demo_session = (Inr demo_changes, demo_published)"
    by (subst attempt_loop.simps(2)) (simp add: demo_try_publish)
  then show ?thesis
    by (simp add: publish_with_connection_def demo_options_def)
qed

theorem try_publish_once_atomic_witness:
  "try_publish_once calm_host demo_id demo_options [demo_raw] demo_session =
     (Inr demo_changes, demo_published) \<and>
   session_stream demo_published demo_id = session_stream demo_session demo_id @ cs_events demo_changes"
  using try_publish_once_atomic [OF demo_session_ok _ demo_try_publish] demo_try_publish by simp

theorem publish_with_connection_outcomes_witness:
  "publish_with_connection calm_host demo_id demo_options [demo_raw] demo_session =
     (Inr demo_changes, demo_published) \<and>
   stream_revision (session_stream demo_session demo_id) < cs_revision demo_changes"
  using publish_with_connection_outcomes [OF demo_session_ok _ demo_publish] demo_publish by simp

theorem publish_delay_bounded_witness:
  "\<exists>ds. se_sleeps demo_published = se_sleeps demo_session @ ds \<and> length ds \<le> 45 \<and>
     sum_list ds \<le> 20640"
  by (rule publish_delay_bounded [OF demo_session_ok demo_publish])

end
