(* ===== verification/SqlProcesses.thy ===== *)
theory SqlProcesses
  imports SqlPublish
begin

text \<open>
  Several processes (or several connections of one process) publishing to one database. SQLite's
  write lock is held from \<open>BEGIN IMMEDIATE\<close> to the commit or rollback, so the unit of
  interleaving is one \<open>try_publish_once\<close>. Between attempts a process may do anything to its own
  state: sleep, see its clock jump, restart with a fresh generator. A run is the list of its
  publish attempts with their results.
\<close>

record 'g system =
  sys_db :: db
  sys_sessions :: "nat \<Rightarrow> 'g session"

datatype attempt = Attempt (at_process: nat) (at_aggregate: aggregate_id)
  (at_options: publish_options) (at_result: "publish_attempt_error + change_set")

inductive sys_step ::
  "(nat \<Rightarrow> 'g host) \<Rightarrow> 'g system \<Rightarrow> attempt option \<Rightarrow> 'g system \<Rightarrow> bool" for H where
  publish: "raws \<noteq> [] \<Longrightarrow>
    try_publish_once (H p) i opts raws
      ((sys_sessions \<sigma> p)\<lparr>c_db := sys_db \<sigma>, c_saved := None\<rparr>) = (r, s) \<Longrightarrow>
    sys_step H \<sigma> (Some (Attempt p i opts r))
      \<lparr>sys_db = c_db s, sys_sessions = (sys_sessions \<sigma>)(p := s)\<rparr>"
| local: "sys_step H \<sigma> None (\<sigma>\<lparr>sys_sessions := (sys_sessions \<sigma>)(p := s)\<rparr>)"

inductive sys_run ::
  "(nat \<Rightarrow> 'g host) \<Rightarrow> 'g system \<Rightarrow> attempt list \<Rightarrow> 'g system \<Rightarrow> bool" for H where
  idle: "sys_run H \<sigma> [] \<sigma>"
| act: "sys_step H \<sigma> (Some a) \<sigma>' \<Longrightarrow> sys_run H \<sigma>' as \<sigma>'' \<Longrightarrow> sys_run H \<sigma> (a # as) \<sigma>''"
| silent: "sys_step H \<sigma> None \<sigma>' \<Longrightarrow> sys_run H \<sigma>' as \<sigma>'' \<Longrightarrow> sys_run H \<sigma> as \<sigma>''"

inductive_cases sys_stepE: "sys_step H \<sigma> a \<sigma>'"
inductive_simps sys_run_Nil: "sys_run H \<sigma> [] \<sigma>'"

definition sys_stream :: "'g system \<Rightarrow> aggregate_id \<Rightarrow> recorded_event list" where
  "sys_stream \<sigma> = rows_stream (case tbl_events (sys_db \<sigma>) of None \<Rightarrow> [] | Some rows \<Rightarrow> rows)"

text \<open>The processes share the ULID codec; each has its own clock and generator.\<close>

definition sys_hosts :: "ulid_codec \<Rightarrow> (nat \<Rightarrow> 'g host) \<Rightarrow> (nat \<Rightarrow> 'g \<Rightarrow> ulid) \<Rightarrow> bool" where
  "sys_hosts U H prev \<longleftrightarrow> ulid_laws U \<and>
     (\<forall>p. h_ulid (H p) = U \<and> monotonic_generator (h_gen (H p)) (prev p))"

definition sys_ok :: "ulid_codec \<Rightarrow> 'g system \<Rightarrow> bool" where
  "sys_ok U \<sigma> \<longleftrightarrow> (\<exists>rows. tbl_events (sys_db \<sigma>) = Some rows \<and> rows_inv U rows)"

definition accepted :: "aggregate_id \<Rightarrow> revision \<Rightarrow> attempt \<Rightarrow> bool" where
  "accepted i x a \<longleftrightarrow> at_aggregate a = i \<and> expected_revision (at_options a) = Some x \<and>
     is_ok (at_result a)"

lemma session_ok_of_system:
  "sys_hosts U H prev \<Longrightarrow> sys_ok U \<sigma> \<Longrightarrow>
     session_ok (H p) (prev p) (s\<lparr>c_db := sys_db \<sigma>, c_saved := None\<rparr>)"
  by (auto simp: sys_hosts_def sys_ok_def session_ok_def)

text \<open>One attempt keeps the table healthy, extends one stream or none, and checks its revision.\<close>

lemma sys_step_attempt:
  assumes "sys_step H \<sigma> (Some a) \<sigma>'" and "sys_hosts U H prev" and "sys_ok U \<sigma>"
  shows "sys_ok U \<sigma>'" and "prefix (sys_stream \<sigma> i) (sys_stream \<sigma>' i)"
    and "accepted i x a \<Longrightarrow> x = stream_revision (sys_stream \<sigma> i) \<and>
      stream_revision (sys_stream \<sigma> i) < stream_revision (sys_stream \<sigma>' i)"
proof -
  from assms(1) obtain p j opts raws r s where a: "a = Attempt p j opts r" and ne: "raws \<noteq> []"
    and run: "try_publish_once (H p) j opts raws
      ((sys_sessions \<sigma> p)\<lparr>c_db := sys_db \<sigma>, c_saved := None\<rparr>) = (r, s)"
    and \<sigma>': "\<sigma>' = \<lparr>sys_db = c_db s, sys_sessions = (sys_sessions \<sigma>)(p := s)\<rparr>"
    by (elim sys_stepE) auto
  let ?s = "(sys_sessions \<sigma> p)\<lparr>c_db := sys_db \<sigma>, c_saved := None\<rparr>"
  note ok = session_ok_of_system [OF assms(2,3), of p "sys_sessions \<sigma> p"]
  have out: "attempt_outcome (H p) (prev p) j opts raws ?s r s"
    using try_publish_once_outcome [OF ok ne run] ..
  have st: "sys_stream \<sigma> = session_stream ?s" "sys_stream \<sigma>' = session_stream s"
    by (simp_all add: sys_stream_def session_stream_def \<sigma>')
  have oks: "session_ok (H p) (prev p) s" using out by (rule attempt_outcome_ok)
  with assms(2) show "sys_ok U \<sigma>'" by (auto simp: sys_ok_def \<sigma>' session_ok_def sys_hosts_def)
  show "prefix (sys_stream \<sigma> i) (sys_stream \<sigma>' i)"
  proof (cases r)
    case (Inl e)
    with out have "c_db s = c_db ?s" by (auto simp: attempt_outcome_def split: publish_attempt_error.splits)
    then show ?thesis by (simp add: st session_stream_def)
  next
    case (Inr cs)
    with out show ?thesis by (auto simp: attempt_outcome_def st)
  qed
  assume "accepted i x a"
  then obtain cs where r: "r = Inr cs" and j: "j = i" and x: "expected_revision opts = Some x"
    by (cases r) (auto simp: accepted_def a)
  with out have app: "sys_stream \<sigma>' i = sys_stream \<sigma> i @ cs_events cs"
      "list_all2 (records opts) raws (cs_events cs)" "x = stream_revision (sys_stream \<sigma> i)"
    by (simp_all add: attempt_outcome_def st)
  from app(2) ne have "cs_events cs \<noteq> []" by auto
  with connection.extension_advances [OF oks, of i] app st
  show "x = stream_revision (sys_stream \<sigma> i) \<and>
      stream_revision (sys_stream \<sigma> i) < stream_revision (sys_stream \<sigma>' i)" by simp
qed

lemma sys_step_local:
  assumes "sys_step H \<sigma> None \<sigma>'"
  shows "sys_db \<sigma>' = sys_db \<sigma>"
  using assms by (elim sys_stepE) auto

lemma stream_revision_mono:
  assumes "sys_ok U \<sigma>" and "prefix es (sys_stream \<sigma> i)" and "ulid_laws U"
  shows "stream_revision es \<le> stream_revision (sys_stream \<sigma> i)"
proof (cases "es = []")
  case True
  show ?thesis
  proof (cases "sys_stream \<sigma> i = []")
    case False
    from assms(1) obtain rows where rows: "sys_stream \<sigma> = rows_stream rows" "rows_inv U rows"
      by (auto simp: sys_ok_def sys_stream_def)
    with stream_rev_ulid [OF rows(2), of "stream_revision (sys_stream \<sigma> i)" i]
      stream_revision_in [OF False] revision_zero_less [OF assms(3)] True
    show ?thesis by (auto intro: less_imp_le)
  qed (use True in simp)
next
  case False
  from assms(2) obtain zs where zs: "sys_stream \<sigma> i = es @ zs" by (auto simp: prefix_def)
  from assms(1) have incr: "strictly_increasing (revisions (sys_stream \<sigma> i))"
    by (auto simp: sys_ok_def sys_stream_def sorted_revisions)
  have "stream_revision es \<in> set (revisions (sys_stream \<sigma> i))"
    using stream_revision_in [OF False] zs by simp
  with incr show ?thesis by (rule strictly_increasing_stream_revision)
qed

lemma sys_run_extends:
  assumes "sys_run H \<sigma> as \<sigma>'" and "sys_hosts U H prev" and "sys_ok U \<sigma>"
  shows "sys_ok U \<sigma>' \<and> prefix (sys_stream \<sigma> i) (sys_stream \<sigma>' i)"
  using assms(1,3)
proof (induction rule: sys_run.induct)
  case (act \<sigma> a \<sigma>' as \<sigma>'')
  with sys_step_attempt [OF act.hyps(1) assms(2)] show ?case
    by (blast intro: prefix_order.trans)
next
  case (silent \<sigma> \<sigma>' as \<sigma>'')
  with sys_step_local [OF silent.hyps(1)] show ?case by (simp add: sys_ok_def sys_stream_def)
qed simp

lemma no_acceptance_below:
  assumes "sys_run H \<sigma> as \<sigma>'" and "sys_hosts U H prev" and "sys_ok U \<sigma>"
    and "x < stream_revision (sys_stream \<sigma> i)"
  shows "filter (accepted i x) as = []"
  using assms(1,3,4)
proof (induction rule: sys_run.induct)
  case (act \<sigma> a \<sigma>' as \<sigma>'')
  note S = sys_step_attempt [OF act.hyps(1) assms(2) act.prems(1)]
  have "stream_revision (sys_stream \<sigma> i) \<le> stream_revision (sys_stream \<sigma>' i)"
    using stream_revision_mono [OF S(1) S(2)] assms(2) by (simp add: sys_hosts_def)
  then have "x < stream_revision (sys_stream \<sigma>' i)" using act.prems(2) by simp
  with act.IH S(1) have "filter (accepted i x) as = []" by simp
  moreover have "\<not> accepted i x a" using S(3) act.prems(2) by fastforce
  ultimately show ?case by simp
next
  case (silent \<sigma> \<sigma>' as \<sigma>'')
  with sys_step_local [OF silent.hyps(1)] show ?case by (simp add: sys_ok_def sys_stream_def)
qed simp

text \<open>
  C3: no lost update. In any run of any number of processes, with any clocks, restarts and
  database failures, at most one publish attempt against the same expected revision of the same
  aggregate is accepted.
\<close>

theorem at_most_one_winner:
  assumes "sys_run H \<sigma> as \<sigma>'" and "sys_hosts U H prev" and "sys_ok U \<sigma>"
  shows "length (filter (accepted i x) as) \<le> 1"
  using assms(1,3)
proof (induction rule: sys_run.induct)
  case (act \<sigma> a \<sigma>' as \<sigma>'')
  note S = sys_step_attempt [OF act.hyps(1) assms(2) act.prems]
  show ?case
  proof (cases "accepted i x a")
    case True
    with S(3) have "x < stream_revision (sys_stream \<sigma>' i)" by auto
    from no_acceptance_below [OF act.hyps(2) assms(2) S(1) this] show ?thesis by simp
  qed (use act S(1) in simp)
next
  case (silent \<sigma> \<sigma>' as \<sigma>'')
  with sys_step_local [OF silent.hyps(1)] show ?case by (simp add: sys_ok_def)
qed simp

text \<open>
  C27: streams are append-only. Whatever the processes do, what a reader once loaded stays a
  prefix of every later state of the stream, every stream stays strictly increasing in its
  revisions, and the table stays readable.
\<close>

theorem streams_append_only:
  assumes "sys_run H \<sigma> as \<sigma>'" and "sys_hosts U H prev" and "sys_ok U \<sigma>"
  shows "prefix (sys_stream \<sigma> i) (sys_stream \<sigma>' i) \<and>
    strictly_increasing (revisions (sys_stream \<sigma>' i)) \<and> sys_ok U \<sigma>'"
proof -
  from sys_run_extends [OF assms, of i] have "sys_ok U \<sigma>'"
    and "prefix (sys_stream \<sigma> i) (sys_stream \<sigma>' i)" by blast+
  then show ?thesis by (auto simp: sys_ok_def sys_stream_def sorted_revisions)
qed

section \<open>Witnesses\<close>

definition demo_system :: "ulid system" where
  "demo_system = \<lparr>sys_db = c_db demo_session, sys_sessions = (\<lambda>_. demo_session)\<rparr>"

definition demo_attempt :: attempt where
  "demo_attempt = Attempt 0 demo_id demo_options (Inr demo_changes)"

definition demo_system' :: "ulid system" where
  "demo_system' = \<lparr>sys_db = c_db demo_published,
     sys_sessions = (\<lambda>_. demo_session)(0 := demo_published)\<rparr>"

lemma demo_hosts: "sys_hosts crockford_codec (\<lambda>_. calm_host) (\<lambda>_. id)"
  by (simp add: sys_hosts_def calm_host_def crockford_laws counter_generator_monotonic)

lemma demo_system_ok: "sys_ok crockford_codec demo_system"
  by (simp add: sys_ok_def demo_system_def demo_session_def)

lemma demo_run: "sys_run (\<lambda>_. calm_host) demo_system [demo_attempt] demo_system'"
proof -
  have "demo_session\<lparr>c_db := c_db demo_session, c_saved := None\<rparr> = demo_session"
    by (simp add: demo_session_def)
  then have "sys_step (\<lambda>_. calm_host) demo_system (Some demo_attempt) demo_system'"
    using sys_step.publish [of "[demo_raw]" "\<lambda>_. calm_host" 0 demo_id demo_options demo_system]
      demo_try_publish
    by (simp add: demo_system_def demo_attempt_def demo_system'_def)
  then show ?thesis by (rule sys_run.act) (rule sys_run.idle)
qed

theorem at_most_one_winner_witness:
  "accepted demo_id revision_zero demo_attempt \<and>
   length (filter (accepted demo_id revision_zero) [demo_attempt]) \<le> 1"
  using at_most_one_winner [OF demo_run demo_hosts demo_system_ok, of demo_id revision_zero]
  by (simp add: accepted_def demo_attempt_def demo_options_def)

theorem streams_append_only_witness:
  "prefix (sys_stream demo_system demo_id) (sys_stream demo_system' demo_id) \<and>
   strictly_increasing (revisions (sys_stream demo_system' demo_id)) \<and>
   sys_ok crockford_codec demo_system'"
  by (rule streams_append_only [OF demo_run demo_hosts demo_system_ok])

end
