(* ===== verification/Strategies.thy ===== *)
theory Strategies
  imports Database
begin

text \<open>
  \<^verbatim>\<open>crates/wee-events-sqlite/src/event_store/strategies/\<close>: how an aggregate is routed to a
  partition, which part of a partition an enumeration reads, and the stable names of partitions.
  The traits \<open>PartitionStrategy\<close> and \<open>PartitionNamingStrategy\<close> are the record \<open>strategy\<close>; the
  five implementations are values of it, and the contract they share is a locale.
\<close>

section \<open>The traits\<close>

datatype partition_read = ScanAll | ScanType aggregate_type | Direct aggregate_id | Skip

datatype partition_name = DefaultName | Named string

datatype local_partition_layout = SingleDatabase | NamedDatabases

datatype 'k named_partition = NamedPartition (np_name: string) (np_key: 'k)

instantiation named_partition :: (linorder) linorder
begin
definition less_eq_named_partition :: "'a named_partition \<Rightarrow> 'a named_partition \<Rightarrow> bool" where
  "a \<le> b \<longleftrightarrow> np_name a < np_name b \<or> (np_name a = np_name b \<and> np_key a \<le> np_key b)"
definition less_named_partition :: "'a named_partition \<Rightarrow> 'a named_partition \<Rightarrow> bool" where
  "a < b \<longleftrightarrow> np_name a < np_name b \<or> (np_name a = np_name b \<and> np_key a < np_key b)"
instance
  by standard
    (auto simp: less_eq_named_partition_def less_named_partition_def named_partition.expand)
end

datatype global_partition = GlobalPartition

instantiation global_partition :: linorder
begin
definition less_eq_global_partition :: "global_partition \<Rightarrow> global_partition \<Rightarrow> bool" where
  "less_eq_global_partition a b = True"
definition less_global_partition :: "global_partition \<Rightarrow> global_partition \<Rightarrow> bool" where
  "less_global_partition a b = False"
instance
proof
  show "x = y" if "x \<le> y" "y \<le> x" for x y :: global_partition
    by (cases x; cases y) simp
qed (simp_all add: less_eq_global_partition_def less_global_partition_def)
end

text \<open>
  \<open>ps_from_rows\<close> is an override of \<open>partition_from_target_name\<close>: what the rows of events in
  the opened target say; \<open>None\<close> is the default method, which goes by the target's name alone.
\<close>

record 'p strategy =
  ps_bootstrap :: "'p list"
  ps_partition_for :: "aggregate_id \<Rightarrow> sqlite_error + 'p"
  ps_read_plan :: "'p \<Rightarrow> partition_read"
  ps_read_plan_by_type :: "'p \<Rightarrow> aggregate_type \<Rightarrow> partition_read"
  ps_name :: "'p \<Rightarrow> partition_name"
  ps_from_name :: "string \<Rightarrow> sqlite_error + 'p"
  ps_from_rows :: "(string \<Rightarrow> event_row list \<Rightarrow> sqlite_error + 'p option) option"
  ps_layout :: local_partition_layout

definition quote_char :: string where
  "quote_char = [CHR 0x27]"

section \<open>Global\<close>

definition global_strategy :: "global_partition strategy" where
  "global_strategy =
     (let from_name = (\<lambda>name. Inl (Configuration
            (''global strategy does not support named local partitions: '' @ name)))
      in \<lparr>ps_bootstrap = [GlobalPartition],
          ps_partition_for = (\<lambda>i. Inr GlobalPartition),
          ps_read_plan = (\<lambda>p. ScanAll),
          ps_read_plan_by_type = (\<lambda>p t. ScanType t),
          ps_name = (\<lambda>p. DefaultName),
          ps_from_name = from_name,
          ps_from_rows = None,
          ps_layout = SingleDatabase\<rparr>)"

section \<open>Hashed\<close>

definition fnv_step :: "u32 \<Rightarrow> 8 word \<Rightarrow> u32" where
  "fnv_step hash byte = xor hash (ucast byte) * 0x01000193"

definition str_bytes :: "string \<Rightarrow> bytes" where
  "str_bytes s = map (\<lambda>c. word_of_nat (of_char c)) s"

text \<open>\<open>u32::to_le_bytes\<close>.\<close>

definition to_le_bytes :: "u32 \<Rightarrow> bytes" where
  "to_le_bytes w = map (\<lambda>k. ucast (drop_bit (8 * k) w)) [0, 1, 2, 3]"

definition hash_input :: "aggregate_id \<Rightarrow> bytes" where
  "hash_input i =
     (let agg_type = str_bytes (aggregate_type_str (aggregate_type i));
          len = length agg_type;
          len_prefix = to_le_bytes (if len < 2 ^ 32 then word_of_nat len else - 1)
      in len_prefix @ agg_type @ str_bytes (aggregate_key i))"

definition hash_aggregate_id :: "aggregate_id \<Rightarrow> u32" where
  "hash_aggregate_id i = foldl fnv_step 0x811c9dc5 (hash_input i)"

text \<open>\<open>str::parse::<u32>\<close>.\<close>

fun parse_u32_digits :: "nat \<Rightarrow> string \<Rightarrow> string + nat" where
  "parse_u32_digits acc [] = Inr acc"
| "parse_u32_digits acc (c # cs) =
     (if \<not> is_digit c then Inl ''invalid digit found in string''
      else let n = 10 * acc + (of_char c - 48)
           in if 2 ^ 32 \<le> n then Inl ''number too large to fit in target type''
              else parse_u32_digits n cs)"

definition parse_u32 :: "string \<Rightarrow> string + u32" where
  "parse_u32 s = map_ok word_of_nat
     (if s = [] then Inl ''cannot parse integer from empty string''
      else if s = ''+'' \<or> s = ''-'' then Inl ''invalid digit found in string''
      else case s of c # cs \<Rightarrow> if c = CHR ''+'' then parse_u32_digits 0 cs else parse_u32_digits 0 s)"

definition bucket_partition :: "u32 \<Rightarrow> u32 named_partition" where
  "bucket_partition b = NamedPartition (''bucket-'' @ decimal (unat b)) b"

definition hashed_from_name :: "string \<Rightarrow> sqlite_error + u32 named_partition" where
  "hashed_from_name name =
     and_then
       (ok_or (Configuration (''invalid hashed partition name '' @ quote_char @ name @ quote_char))
         (strip_prefix ''bucket-'' name))
       (\<lambda>suffix. map_ok bucket_partition
         (map_err (\<lambda>e. Configuration (''invalid hashed partition name '' @ quote_char @ name @
              quote_char @ '': '' @ e)) (parse_u32 suffix)))"

definition hashed_strategy :: "u32 \<Rightarrow> u32 named_partition strategy" where
  "hashed_strategy buckets =
     \<lparr>ps_bootstrap = [],
      ps_partition_for = (\<lambda>i. Inr (bucket_partition (hash_aggregate_id i mod buckets))),
      ps_read_plan = (\<lambda>p. ScanAll),
      ps_read_plan_by_type = (\<lambda>p t. ScanType t),
      ps_name = (\<lambda>p. Named (np_name p)),
      ps_from_name = hashed_from_name,
      ps_from_rows = None,
      ps_layout = NamedDatabases\<rparr>"

section \<open>By type, by aggregate, by function\<close>

definition type_partition :: "string \<Rightarrow> aggregate_type named_partition" where
  "type_partition name = NamedPartition name (AggregateType name)"

text \<open>\<open>SELECT DISTINCT ... ORDER BY\<close>, read up to the second row.\<close>

definition type_from_rows ::
  "string \<Rightarrow> event_row list \<Rightarrow> sqlite_error + aggregate_type named_partition option" where
  "type_from_rows name rows =
     (case sorted_list_of_set (set (map row_aggregate_type rows)) of
        [] \<Rightarrow> Inr None
      | [t] \<Rightarrow> Inr (Some (type_partition t))
      | _ \<Rightarrow> Inl (Configuration (''partition '' @ quote_char @ name @ quote_char @
          '' contains multiple aggregate types'')))"

definition type_strategy :: "aggregate_type named_partition strategy" where
  "type_strategy =
     \<lparr>ps_bootstrap = [],
      ps_partition_for = (\<lambda>i. Inr (type_partition (aggregate_type_str (aggregate_type i)))),
      ps_read_plan = (\<lambda>p. ScanType (np_key p)),
      ps_read_plan_by_type = (\<lambda>p t. if np_key p = t then ScanType t else Skip),
      ps_name = (\<lambda>p. Named (np_name p)),
      ps_from_name = (\<lambda>name. Inr (type_partition name)),
      ps_from_rows = Some type_from_rows,
      ps_layout = NamedDatabases\<rparr>"

definition aggregate_partition :: "aggregate_id \<Rightarrow> aggregate_id named_partition" where
  "aggregate_partition i = NamedPartition (aggregate_id_display i) i"

definition aggregate_from_name :: "string \<Rightarrow> sqlite_error + aggregate_id named_partition" where
  "aggregate_from_name name =
     map_ok aggregate_partition
       (map_err (\<lambda>e. Configuration (''invalid aggregate partition name '' @ quote_char @ name @
            quote_char @ '': '' @ aggregate_id_parse_error_display e))
         (aggregate_id_from_str name))"

definition aggregate_from_rows ::
  "string \<Rightarrow> event_row list \<Rightarrow> sqlite_error + aggregate_id named_partition option" where
  "aggregate_from_rows name rows =
     (case sorted_list_of_set
         (set (map (\<lambda>r. aggregate_id_new (row_aggregate_type r) (row_aggregate_key r)) rows)) of
        [] \<Rightarrow> Inr None
      | [i] \<Rightarrow> Inr (Some (aggregate_partition i))
      | _ \<Rightarrow> Inl (Configuration (''aggregate partition '' @ quote_char @ name @ quote_char @
          '' contains multiple aggregates'')))"

definition aggregate_strategy :: "aggregate_id named_partition strategy" where
  "aggregate_strategy =
     \<lparr>ps_bootstrap = [],
      ps_partition_for = (\<lambda>i. Inr (aggregate_partition i)),
      ps_read_plan = (\<lambda>p. Direct (np_key p)),
      ps_read_plan_by_type =
        (\<lambda>p t. if aggregate_type (np_key p) = t then Direct (np_key p) else Skip),
      ps_name = (\<lambda>p. Named (np_name p)),
      ps_from_name = aggregate_from_name,
      ps_from_rows = Some aggregate_from_rows,
      ps_layout = NamedDatabases\<rparr>"

definition partition_by_strategy :: "(aggregate_id \<Rightarrow> string) \<Rightarrow> string named_partition strategy" where
  "partition_by_strategy partitioner =
     (let from_name = (\<lambda>name. Inr (NamedPartition name name))
      in \<lparr>ps_bootstrap = [],
          ps_partition_for = (\<lambda>i. Inr (NamedPartition (partitioner i) (partitioner i))),
          ps_read_plan = (\<lambda>p. ScanAll),
          ps_read_plan_by_type = (\<lambda>p t. ScanType t),
          ps_name = (\<lambda>p. Named (np_name p)),
          ps_from_name = from_name,
          ps_from_rows = None,
          ps_layout = NamedDatabases\<rparr>)"

section \<open>The contract\<close>

text \<open>The aggregates that a read plan lists, among those routed to the partition.\<close>

fun plan_lists :: "partition_read \<Rightarrow> aggregate_id \<Rightarrow> bool" where
  "plan_lists ScanAll i = True"
| "plan_lists (ScanType t) i = (aggregate_type i = t)"
| "plan_lists (Direct j) i = (i = j)"
| "plan_lists Skip i = False"

text \<open>
  Every aggregate is routed somewhere, and the two read plans of its partition list it exactly
  when they should; \<open>nameable\<close> says for which aggregates the partition's name leads back to it.
\<close>

locale partition_strategy =
  fixes S :: "'p strategy" and nameable :: "aggregate_id \<Rightarrow> bool"
  assumes routed: "\<exists>p. ps_partition_for S i = Inr p"
    and plan_complete: "ps_partition_for S i = Inr p \<Longrightarrow> plan_lists (ps_read_plan S p) i"
    and plan_by_type: "ps_partition_for S i = Inr p \<Longrightarrow>
      plan_lists (ps_read_plan_by_type S p t) i \<longleftrightarrow> aggregate_type i = t"
    and name_roundtrip: "ps_partition_for S i = Inr p \<Longrightarrow> nameable i \<Longrightarrow> ps_name S p = Named n \<Longrightarrow>
      ps_from_name S n = Inr p"
begin

lemma same_name_same_partition:
  assumes "ps_partition_for S i = Inr p" and "ps_partition_for S j = Inr q"
    and "nameable i" and "nameable j" and "ps_name S p = Named n" and "ps_name S q = Named n"
  shows "p = q"
  using name_roundtrip [OF assms(1,3,5)] name_roundtrip [OF assms(2,4,6)] by simp

end

interpretation global: partition_strategy global_strategy "\<lambda>i. True"
  by unfold_locales (simp_all add: global_strategy_def Let_def)

lemma is_digit_digit_char: "d < 10 \<Longrightarrow> is_digit (digit_char d) \<and> of_char (digit_char d) = 48 + d"
  by (auto simp: is_digit_def digit_char_def less_eq_char_def)

lemma parse_u32_digits_append:
  "parse_u32_digits acc (xs @ ys) = and_then (parse_u32_digits acc xs) (\<lambda>a. parse_u32_digits a ys)"
  by (induction xs arbitrary: acc) (auto simp: Let_def)

lemma parse_u32_digits_decimal: "n < 2 ^ 32 \<Longrightarrow> parse_u32_digits 0 (decimal n) = Inr n"
proof (induction n rule: decimal.induct)
  case (1 n)
  show ?case
  proof (cases "n < 10")
    case True
    then show ?thesis using is_digit_digit_char [of n] 1(2)
      by (simp add: decimal.simps [of n])
  next
    case False
    have "n div 10 < 2 ^ 32" using 1(2) by simp
    from 1(1) [OF False this] show ?thesis
      using is_digit_digit_char [of "n mod 10"] 1(2) False
      by (simp add: decimal.simps [of n] parse_u32_digits_append)
  qed
qed

lemma decimal_first: "\<exists>d ds. decimal n = digit_char d # ds \<and> d < 10"
proof (induction n rule: decimal.induct)
  case (1 n)
  then show ?case by (cases "n < 10") (auto simp: decimal.simps [of n])
qed

lemma parse_u32_decimal: "parse_u32 (decimal (unat b)) = Inr b"
proof -
  have "unat b < 2 ^ 32" by (rule order_less_le_trans [OF unsigned_less]) simp
  note parsed = parse_u32_digits_decimal [OF this]
  obtain d ds where d: "decimal (unat b) = digit_char d # ds" "d < 10" using decimal_first by blast
  then have "digit_char d \<noteq> CHR ''+''" "digit_char d \<noteq> CHR ''-''"
    using is_digit_digit_char [of d] by (auto simp: is_digit_def less_eq_char_def)
  with parsed d show ?thesis by (auto simp: parse_u32_def)
qed

lemma hashed_from_name_bucket: "hashed_from_name (np_name (bucket_partition b)) = Inr (bucket_partition b)"
  by (simp add: hashed_from_name_def bucket_partition_def parse_u32_decimal ok_or_def
      del: append_Cons)

interpretation hashed: partition_strategy "hashed_strategy buckets" "\<lambda>i. True" for buckets
  by unfold_locales (auto simp: hashed_strategy_def hashed_from_name_bucket)

interpretation by_type: partition_strategy type_strategy "\<lambda>i. True"
  by unfold_locales (auto simp: type_strategy_def type_partition_def)

interpretation by_aggregate: partition_strategy aggregate_strategy printable_id
  by unfold_locales
    (auto simp: aggregate_strategy_def aggregate_partition_def aggregate_from_name_def
      result_simps aggregate_id_from_str_Inr)

interpretation partition_by: partition_strategy "partition_by_strategy f" "\<lambda>i. True" for f
  by unfold_locales (auto simp: partition_by_strategy_def Let_def)

section \<open>Hashing\<close>

lemma to_le_bytes_inj: "to_le_bytes v = to_le_bytes w \<Longrightarrow> v = w"
proof -
  assume eq: "to_le_bytes v = to_le_bytes w"
  have "bit v n = bit w n" if "n < 32" for n
  proof -
    have byte: "(ucast (drop_bit (8 * k) v) :: 8 word) = ucast (drop_bit (8 * k) w)" if "k < 4" for k
      using eq that by (auto simp: to_le_bytes_def less_Suc_eq numeral_eq_Suc)
    from that have k: "n div 8 < 4" and "n mod 8 < 8" by simp_all
    from arg_cong [OF byte [OF k], of "\<lambda>b. bit b (n mod 8)"] that show ?thesis
      by (simp add: bit_ucast_iff bit_drop_bit_eq)
  qed
  then show ?thesis by (auto intro: bit_word_eqI)
qed

lemma length_to_le_bytes [simp]: "length (to_le_bytes w) = 4"
  by (simp add: to_le_bytes_def)

lemma length_str_bytes [simp]: "length (str_bytes s) = length s"
  by (simp add: str_bytes_def)

lemma str_bytes_inj: "str_bytes s = str_bytes t \<Longrightarrow> s = t"
proof -
  have "inj (\<lambda>c :: char. word_of_nat (of_char c) :: 8 word)"
  proof (rule injI)
    fix c d :: char
    assume "(word_of_nat (of_char c) :: 8 word) = word_of_nat (of_char d)"
    then have "unat (word_of_nat (of_char c) :: 8 word) = unat (word_of_nat (of_char d) :: 8 word)" by simp
    then have "(of_char c :: nat) = of_char d" by (simp add: unat_of_nat)
    then show "c = d" by simp
  qed
  then show "str_bytes s = str_bytes t \<Longrightarrow> s = t" by (simp add: str_bytes_def inj_map_eq_map)
qed

text \<open>
  The length prefix keeps type and key apart: two aggregates with types shorter than 4 GiB
  feed the same bytes to the bucket hash only if they are the same aggregate.
\<close>

theorem hash_input_injective:
  assumes "length (aggregate_type_str (aggregate_type i)) < 2 ^ 32"
    and "length (aggregate_type_str (aggregate_type j)) < 2 ^ 32"
    and "hash_input i = hash_input j"
  shows "i = j"
proof -
  let ?n = "\<lambda>i. length (aggregate_type_str (aggregate_type i))"
  from assms have parts: "to_le_bytes (word_of_nat (?n i)) = to_le_bytes (word_of_nat (?n j))"
    "str_bytes (aggregate_type_str (aggregate_type i)) @ str_bytes (aggregate_key i) =
     str_bytes (aggregate_type_str (aggregate_type j)) @ str_bytes (aggregate_key j)"
    by (simp_all add: hash_input_def Let_def)
  from to_le_bytes_inj [OF parts(1)] have "unat (word_of_nat (?n i) :: u32) = unat (word_of_nat (?n j) :: u32)"
    by simp
  then have "?n i = ?n j" using assms(1,2) by (simp add: unat_of_nat)
  with parts(2) have "aggregate_type_str (aggregate_type i) = aggregate_type_str (aggregate_type j)"
    "aggregate_key i = aggregate_key j" by (auto dest: str_bytes_inj)
  then show ?thesis by (simp add: aggregate_id.expand aggregate_type.expand)
qed

theorem hash_input_injective_witness:
  "hash_input (aggregate_id_new ''foo'' '':bar'') \<noteq> hash_input (aggregate_id_new ''foo:'' ''bar'')"
proof
  assume "hash_input (aggregate_id_new ''foo'' '':bar'') = hash_input (aggregate_id_new ''foo:'' ''bar'')"
  from hash_input_injective [OF _ _ this] show False by (simp add: aggregate_id_new_def)
qed

text \<open>
  Hashed routing stays in range and is stable under naming: an aggregate's bucket is below
  the number of buckets, and the partition that its name restores is the one it was routed to.
\<close>

theorem hashed_bucket_in_range:
  assumes "0 < buckets" and "ps_partition_for (hashed_strategy buckets) i = Inr p"
  shows "np_key p < buckets \<and> ps_name (hashed_strategy buckets) p = Named (np_name p) \<and>
    ps_from_name (hashed_strategy buckets) (np_name p) = Inr p"
proof -
  from assms(2) have "np_key p = hash_aggregate_id i mod buckets"
    by (auto simp: hashed_strategy_def bucket_partition_def)
  then have "np_key p < buckets"
    using assms(1) by (simp add: word_less_nat_alt unat_mod)
  then show ?thesis using hashed.name_roundtrip [OF assms(2)] by (simp add: hashed_strategy_def)
qed

theorem hashed_bucket_in_range_witness:
  "np_key (bucket_partition (hash_aggregate_id (aggregate_id_new ''run'' ''1'') mod 7)) < 7"
  using hashed_bucket_in_range [of 7 "aggregate_id_new ''run'' ''1''"]
  by (simp add: hashed_strategy_def)

text \<open>The plans of the partition an aggregate is routed to list it, in total and by type.\<close>

definition plans_right :: "'p strategy \<Rightarrow> aggregate_id \<Rightarrow> bool" where
  "plans_right S i \<longleftrightarrow>
     (case ps_partition_for S i of
        Inl e \<Rightarrow> False
      | Inr p \<Rightarrow> plan_lists (ps_read_plan S p) i \<and>
          (\<forall>t. plan_lists (ps_read_plan_by_type S p t) i = (aggregate_type i = t)))"

context partition_strategy
begin

lemma plans_right: "plans_right S i"
proof -
  obtain p where "ps_partition_for S i = Inr p" using routed by blast
  then show ?thesis using plan_complete plan_by_type by (simp add: plans_right_def)
qed

end

text \<open>
  Enumeration reads the right partitions: under each of the five strategies every aggregate
  is routed to a partition, whose read plan lists it when all aggregates are asked for, and when
  a type is asked for lists it exactly if it has that type.
\<close>

theorem plans_complete:
  "plans_right global_strategy i \<and> plans_right (hashed_strategy buckets) i \<and>
   plans_right type_strategy i \<and> plans_right aggregate_strategy i \<and>
   plans_right (partition_by_strategy f) i"
  by (simp add: global.plans_right hashed.plans_right by_type.plans_right
      by_aggregate.plans_right partition_by.plans_right)

text \<open>
  With one partition per aggregate, an aggregate id whose type contains a colon shares its
  partition name with another aggregate, so their databases collide under the same name.
\<close>

theorem aggregate_partition_name_collision:
  "np_name (aggregate_partition (aggregate_id_new ''a:b'' ''c'')) =
     np_name (aggregate_partition (aggregate_id_new ''a'' ''b:c'')) \<and>
   aggregate_partition (aggregate_id_new ''a:b'' ''c'') \<noteq>
     aggregate_partition (aggregate_id_new ''a'' ''b:c'')"
  by (simp add: aggregate_partition_def aggregate_id_display_def aggregate_id_new_def)

end
