(* ===== verification/Catalogs.thy ===== *)
theory Catalogs
  imports Strategies SqlPublish
begin

text \<open>
  \<^verbatim>\<open>crates/wee-events-sqlite/src/event_store/\<close>: the state of the SQLite \<open>EventStore\<close>, opening
  a target (\<^verbatim>\<open>store.rs\<close>, \<^verbatim>\<open>database.rs\<close>), the targets and provisioner traits of
  \<^verbatim>\<open>types.rs\<close>, the \<open>PartitionCatalog\<close> trait of \<^verbatim>\<open>partitioning.rs\<close> and its implementations
  in \<^verbatim>\<open>backends/\<close>.
\<close>

section \<open>The store's state\<close>

text \<open>
  Where a database lives: at a target outside the process, or in the memory behind one
  connection (every opening of \<open>:memory:\<close> is another database). A database exists once
  something was written to it.
\<close>

datatype location = Memory nat | At database_target

record ('p, 'g) sqlite_store =
  ss_connections :: "('p \<times> location) list"
  ss_databases :: "location \<Rightarrow> db option"
  ss_memories :: nat
  ss_session :: "'g session"
  ss_encoding :: encoding

type_synonym ('p, 'g, 'a) store_action = "(('p, 'g) sqlite_store, sqlite_error, 'a) action"

text \<open>Runs \<open>f\<close> on the connection to the database at a location.\<close>

definition on_connection :: "location \<Rightarrow> ('g session, sqlite_error, 'a) action \<Rightarrow> ('p, 'g, 'a) store_action" where
  "on_connection loc f s =
     (let d = (case ss_databases s loc of None \<Rightarrow> empty_db ''delete'' | Some d \<Rightarrow> d) in
      case f ((ss_session s)\<lparr>c_db := d, c_saved := None\<rparr>) of
        (r, se) \<Rightarrow> (r, s\<lparr>ss_session := se, ss_databases := (ss_databases s)(loc \<mapsto> c_db (rollback se))\<rparr>))"

definition target_location :: "database_target \<Rightarrow> ('p, 'g) sqlite_store \<Rightarrow> location" where
  "target_location target s = (case target of InMemory \<Rightarrow> Memory (ss_memories s) | _ \<Rightarrow> At target)"

text \<open>\<open>open_target\<close>; a failed opening drops the connection, which rolls back.\<close>

definition open_target :: "'g host \<Rightarrow> database_target \<Rightarrow> ('p, 'g, location) store_action" where
  "open_target H target s =
     (let loc = target_location target s;
          fresh = empty_db (if target = InMemory then ''memory'' else ''delete'');
          d = (case ss_databases s loc of None \<Rightarrow> fresh | Some d \<Rightarrow> d)
      in case open_event_store_connection H target
           ((ss_session s)\<lparr>c_db := d, c_saved := None, c_busy_timeout_ms := 0, c_foreign_keys := False\<rparr>) of
           (r, se) \<Rightarrow>
             let d' = c_db (rollback se)
             in (map_ok (\<lambda>_. loc) r,
                 s\<lparr>ss_session := se,
                   ss_memories := (if target = InMemory then Suc (ss_memories s) else ss_memories s),
                   ss_databases :=
                     (if ss_databases s loc = None \<and> d' = fresh then ss_databases s
                      else (ss_databases s)(loc \<mapsto> d'))\<rparr>))"

section \<open>Targets\<close>

text \<open>\<open>Debug for DatabaseTarget\<close>; \<open>quoted\<close> is the standard library's quoting of strings.\<close>

fun database_target_debug :: "(string \<Rightarrow> string) \<Rightarrow> database_target \<Rightarrow> string" where
  "database_target_debug quoted InMemory = ''InMemory''"
| "database_target_debug quoted (Local path) = ''Local('' @ quoted path @ '')''"
| "database_target_debug quoted (SqldDefault url token) =
     ''SqldDefault { url: '' @ quoted url @ '', auth_token: '' @ quoted ''[REDACTED]'' @ '' }''"
| "database_target_debug quoted (SqldNamespace url token namespace) =
     ''SqldNamespace { url: '' @ quoted url @ '', auth_token: '' @ quoted ''[REDACTED]'' @
     '', namespace: '' @ quoted namespace @ '' }''"
| "database_target_debug quoted (Turso url token) =
     ''Turso { url: '' @ quoted url @ '', auth_token: '' @ quoted ''[REDACTED]'' @ '' }''"

fun with_token :: "string \<Rightarrow> database_target \<Rightarrow> database_target" where
  "with_token t (SqldDefault url _) = SqldDefault url t"
| "with_token t (SqldNamespace url _ n) = SqldNamespace url t n"
| "with_token t (Turso url _) = Turso url t"
| "with_token t target = target"

text \<open>Printing a target for debugging never reveals its token: the output does not depend on it.\<close>

theorem target_debug_hides_token:
  "database_target_debug quoted (with_token t target) = database_target_debug quoted target"
  by (cases target) simp_all

section \<open>Catalogs\<close>

text \<open>
  \<open>PartitionCatalog\<close>. A catalog may ask a file system or a remote service: what it answers may
  depend on the moment (the number of calls made) and on the databases that exist.
\<close>

record ('p, 'g) catalog =
  cat_ensure :: "nat \<Rightarrow> (location \<Rightarrow> db option) \<Rightarrow> 'p \<Rightarrow> sqlite_error + database_target"
  cat_existing :: "nat \<Rightarrow> (location \<Rightarrow> db option) \<Rightarrow> 'p \<Rightarrow> sqlite_error + database_target option"
  cat_partitions :: "('p, 'g, 'p list) store_action"
  cat_prepare :: "'p \<Rightarrow> string option"  \<comment> \<open>the name to record in the database\<close>

definition prepare_connection_for_partition ::
  "'g host \<Rightarrow> ('p, 'g) catalog \<Rightarrow> 'p \<Rightarrow> location \<Rightarrow> ('p, 'g, unit) store_action" where
  "prepare_connection_for_partition H C p loc =
     (case cat_prepare C p of
        None \<Rightarrow> give (Inr ())
      | Some name \<Rightarrow> on_connection loc (ensure_partition_name H name))"

definition name_to_record :: "'p strategy \<Rightarrow> 'p \<Rightarrow> string option" where
  "name_to_record S p = (case ps_name S p of Named n \<Rightarrow> Some n | DefaultName \<Rightarrow> None)"

subsection \<open>A single target\<close>

record single_provisioner =
  sp_ensure :: "nat \<Rightarrow> sqlite_error + database_target"
  sp_existing :: "nat \<Rightarrow> (location \<Rightarrow> db option) \<Rightarrow> sqlite_error + database_target option"

definition in_memory_target_resolver :: single_provisioner where
  "in_memory_target_resolver =
     \<lparr>sp_ensure = (\<lambda>_. Inr InMemory), sp_existing = (\<lambda>_ _. Inr (Some InMemory))\<rparr>"

definition single_target_catalog :: "single_provisioner \<Rightarrow> ('p, 'g) catalog" where
  "single_target_catalog R =
     \<lparr>cat_ensure = (\<lambda>n dbs p. sp_ensure R n), cat_existing = (\<lambda>n dbs p. sp_existing R n dbs),
      cat_partitions = give (Inr []), cat_prepare = (\<lambda>p. None)\<rparr>"

subsection \<open>Local files\<close>

text \<open>\<open>data_encoding::BASE32_NOPAD\<close>; the decoder's errors are known by their text.\<close>

record base32 =
  b32_encode :: "bytes \<Rightarrow> string"
  b32_decode :: "bytes \<Rightarrow> string + bytes"

definition base32_law :: "base32 \<Rightarrow> bool" where
  "base32_law B \<longleftrightarrow> (\<forall>bs. b32_decode B (str_bytes (b32_encode B bs)) = Inr bs) \<and>
     (\<forall>bs. set (b32_encode B bs) \<subseteq> set ''ABCDEFGHIJKLMNOPQRSTUVWXYZ234567'')"

definition bytes_str :: "bytes \<Rightarrow> string" where
  "bytes_str bs = map (\<lambda>b. char_of (unat b)) bs"

text \<open>\<open>String::from_utf8\<close> accepts exactly the well-formed byte sequences.\<close>

definition in_range :: "nat \<Rightarrow> nat \<Rightarrow> 8 word \<Rightarrow> bool" where
  "in_range lo hi b = (lo \<le> unat b \<and> unat b \<le> hi)"

fun utf8_valid :: "bytes \<Rightarrow> bool" where
  "utf8_valid [] = True"
| "utf8_valid (a # bs) =
     (if in_range 0x00 0x7F a then utf8_valid bs
      else case bs of
        [] \<Rightarrow> False
      | b # cs \<Rightarrow>
          if in_range 0xC2 0xDF a then in_range 0x80 0xBF b \<and> utf8_valid cs
          else case cs of
            [] \<Rightarrow> False
          | c # ds \<Rightarrow>
              if in_range 0xE0 0xEF a then
                in_range (if unat a = 0xE0 then 0xA0 else 0x80) (if unat a = 0xED then 0x9F else 0xBF) b \<and>
                in_range 0x80 0xBF c \<and> utf8_valid ds
              else case ds of
                [] \<Rightarrow> False
              | d # es \<Rightarrow>
                  in_range 0xF0 0xF4 a \<and>
                  in_range (if unat a = 0xF0 then 0x90 else 0x80) (if unat a = 0xF4 then 0x8F else 0xBF) b \<and>
                  in_range 0x80 0xBF c \<and> in_range 0x80 0xBF d \<and> utf8_valid es)"

definition ENCODED_PATH_PREFIX :: string where
  "ENCODED_PATH_PREFIX = ''b32-''"

definition encode_path_component :: "base32 \<Rightarrow> string \<Rightarrow> string" where
  "encode_path_component B v = ENCODED_PATH_PREFIX @ b32_encode B (str_bytes v)"

definition decode_path_component :: "base32 \<Rightarrow> (bytes \<Rightarrow> string) \<Rightarrow> string \<Rightarrow> sqlite_error + string" where
  "decode_path_component B utf8_error v =
     and_then
       (ok_or (Configuration (''invalid encoded partition path component: '' @ v))
         (strip_prefix ENCODED_PATH_PREFIX v))
       (\<lambda>encoded.
     and_then
       (map_err (\<lambda>e. Configuration (''invalid encoded partition path component '' @ quote_char @ v @
            quote_char @ '': '' @ e))
         (b32_decode B (str_bytes encoded)))
       (\<lambda>bs.
         if utf8_valid bs then Inr (bytes_str bs)
         else Inl (Configuration (''invalid utf-8 in encoded partition path component '' @ quote_char @
           v @ quote_char @ '': '' @ utf8_error bs))))"

text \<open>\<open>Path::join\<close> with a relative component, \<open>Path::extension\<close>, \<open>Path::file_stem\<close>.\<close>

definition path_join :: "string \<Rightarrow> string \<Rightarrow> string" where
  "path_join root c = (if root = [] \<or> last root = CHR ''/'' then root @ c else root @ ''/'' @ c)"

text \<open>Splits a file name at its last dot; a leading dot does not count.\<close>

definition split_extension :: "string \<Rightarrow> string \<times> string option" where
  "split_extension name =
     (case split_once CHR ''.'' (rev name) of
        None \<Rightarrow> (name, None)
      | Some (ext, stem) \<Rightarrow>
          if stem = [] \<or> name = ''..'' then (name, None) else (rev stem, Some (rev ext)))"

definition path_for_partition :: "base32 \<Rightarrow> string \<Rightarrow> 'p strategy \<Rightarrow> 'p \<Rightarrow> sqlite_error + string" where
  "path_for_partition B root S p =
     (case ps_layout S of
        SingleDatabase \<Rightarrow> Inr root
      | NamedDatabases \<Rightarrow>
          (case ps_name S p of
             Named name \<Rightarrow> Inr (path_join root (encode_path_component B name @ ''.db''))
           | DefaultName \<Rightarrow> Inl (Configuration
               ''named local partition strategy returned the default partition'')))"

text \<open>\<open>discover_partitions\<close> on the entries of the root directory.\<close>

fun partitions_of_entries ::
  "base32 \<Rightarrow> (bytes \<Rightarrow> string) \<Rightarrow> 'p strategy \<Rightarrow> string list \<Rightarrow> sqlite_error + 'p list" where
  "partitions_of_entries B ue S [] = Inr []"
| "partitions_of_entries B ue S (name # names) =
     (case split_extension name of
        (stem, ext) \<Rightarrow>
          if ext \<noteq> Some ''db'' then partitions_of_entries B ue S names
          else and_then (and_then (decode_path_component B ue stem) (ps_from_name S)) (\<lambda>p.
            map_ok ((#) p) (partitions_of_entries B ue S names)))"

text \<open>The file system: directory listings and directory creation, which may fail.\<close>

record file_system =
  fs_read_dir :: "nat \<Rightarrow> string \<Rightarrow> string + string list"
  fs_create_dir_all :: "nat \<Rightarrow> string \<Rightarrow> string option"

definition local_initialize_root :: "file_system \<Rightarrow> nat \<Rightarrow> string \<Rightarrow> 'p strategy \<Rightarrow> sqlite_error + unit" where
  "local_initialize_root F n root S =
     (case ps_layout S of
        SingleDatabase \<Rightarrow> Inr ()
      | NamedDatabases \<Rightarrow>
          (case fs_create_dir_all F n root of None \<Rightarrow> Inr () | Some e \<Rightarrow> Inl (Io e)))"

text \<open>\<open>Path::parent\<close>, for paths without \<open>.\<close> components.\<close>

definition strip_trailing_slashes :: "string \<Rightarrow> string" where
  "strip_trailing_slashes p = rev (dropWhile (\<lambda>c. c = CHR ''/'') (rev p))"

definition path_parent :: "string \<Rightarrow> string option" where
  "path_parent path =
     (let p = strip_trailing_slashes path in
      if p = [] then None
      else case split_once CHR ''/'' (rev p) of
          None \<Rightarrow> Some []
        | Some (_, r) \<Rightarrow>
            let parent = strip_trailing_slashes (rev r)
            in Some (if parent = [] then ''/'' else parent))"

definition create_parent :: "file_system \<Rightarrow> nat \<Rightarrow> string \<Rightarrow> string option" where
  "create_parent F n path =
     (case path_parent path of None \<Rightarrow> None | Some parent \<Rightarrow> fs_create_dir_all F n parent)"

definition local_catalog ::
  "base32 \<Rightarrow> (bytes \<Rightarrow> string) \<Rightarrow> file_system \<Rightarrow> string \<Rightarrow> 'p strategy \<Rightarrow> ('p, 'g) catalog" where
  "local_catalog B ue F root S =
     \<lparr>cat_ensure = (\<lambda>n dbs p. and_then (path_for_partition B root S p) (\<lambda>path.
        case create_parent F n path of Some e \<Rightarrow> Inl (Io e) | None \<Rightarrow> Inr (Local path))),
      cat_existing = (\<lambda>n dbs p. map_ok
        (\<lambda>path. if dbs (At (Local path)) \<noteq> None then Some (Local path) else None)
        (path_for_partition B root S p)),
      cat_partitions = (\<lambda>s. give
        (case ps_layout S of
           SingleDatabase \<Rightarrow> Inr (ps_bootstrap S)
         | NamedDatabases \<Rightarrow>
             and_then (map_err Io (fs_read_dir F (c_calls (ss_session s)) root))
               (partitions_of_entries B ue S)) s),
      cat_prepare = name_to_record S\<rparr>"

subsection \<open>Named targets\<close>

record named_provisioner =
  np_ensure :: "nat \<Rightarrow> partition_name \<Rightarrow> sqlite_error + database_target"
  np_existing :: "nat \<Rightarrow> (location \<Rightarrow> db option) \<Rightarrow> partition_name \<Rightarrow>
    sqlite_error + database_target option"
  np_names :: "nat \<Rightarrow> sqlite_error + string list"

text \<open>The default method \<open>named_targets\<close>.\<close>

fun collect_named_targets ::
  "named_provisioner \<Rightarrow> nat \<Rightarrow> (location \<Rightarrow> db option) \<Rightarrow> string list \<Rightarrow>
    sqlite_error + (string \<times> database_target) list" where
  "collect_named_targets R n dbs [] = Inr []"
| "collect_named_targets R n dbs (name # names) =
     and_then (np_existing R n dbs (Named name)) (\<lambda>found.
       case found of
         None \<Rightarrow> collect_named_targets R n dbs names
       | Some target \<Rightarrow> map_ok ((#) (name, target)) (collect_named_targets R n dbs names))"

definition named_targets ::
  "named_provisioner \<Rightarrow> nat \<Rightarrow> (location \<Rightarrow> db option) \<Rightarrow>
    sqlite_error + (string \<times> database_target) list" where
  "named_targets R n dbs = and_then (np_names R n) (collect_named_targets R n dbs)"

definition partition_from_target_name ::
  "'g host \<Rightarrow> 'p strategy \<Rightarrow> string \<Rightarrow> database_target \<Rightarrow> ('p, 'g, 'p option) store_action" where
  "partition_from_target_name H S name target =
     (case ps_from_rows S of
        None \<Rightarrow> give (map_ok Some (ps_from_name S name))
      | Some from_rows \<Rightarrow>
          seq_result (open_target H target) (\<lambda>loc.
          seq_result (on_connection loc (query H tbl_events ''events'' (\<lambda>rows. rows))) (\<lambda>rows.
            give (from_rows name rows))))"

definition named_target_partition ::
  "'g host \<Rightarrow> 'p strategy \<Rightarrow> string \<times> database_target \<Rightarrow> ('p, 'g, 'p option) store_action" where
  "named_target_partition H S nt =
     seq_result (open_target H (snd nt)) (\<lambda>loc.
     seq_result (on_connection loc (load_partition_name H)) (\<lambda>recorded.
       case recorded of
         Some name \<Rightarrow> give (map_ok Some (ps_from_name S name))
       | None \<Rightarrow> partition_from_target_name H S (fst nt) (snd nt)))"

definition named_target_catalog ::
  "'g host \<Rightarrow> 'p::linorder strategy \<Rightarrow> named_provisioner \<Rightarrow> ('p, 'g) catalog" where
  "named_target_catalog H S R =
     \<lparr>cat_ensure = (\<lambda>n dbs p. np_ensure R n (ps_name S p)),
      cat_existing = (\<lambda>n dbs p. np_existing R n dbs (ps_name S p)),
      cat_partitions =
        seq_result (\<lambda>s. give (named_targets R (c_calls (ss_session s)) (ss_databases s)) s) (\<lambda>targets.
        seq_result (collect_actions (named_target_partition H S) targets) (\<lambda>found.
          give (Inr (sorted_list_of_set (set
            (List.map_filter id found @
             filter (\<lambda>p. ps_name S p = DefaultName) (ps_bootstrap S))))))),
      cat_prepare = name_to_record S\<rparr>"

section \<open>Paths\<close>

lemma bytes_str_str_bytes [simp]: "bytes_str (str_bytes s) = s"
proof -
  have "char_of (unat (word_of_nat (of_char c) :: 8 word)) = c" for c :: char
    by (simp add: unat_of_nat)
  then show ?thesis by (simp add: bytes_str_def str_bytes_def comp_def)
qed

lemma decode_encode_path:
  assumes "base32_law B" and "utf8_valid (str_bytes v)"
  shows "decode_path_component B ue (encode_path_component B v) = Inr v"
  using assms by (simp add: decode_path_component_def encode_path_component_def ok_or_def base32_law_def)

lemma encode_path_inj:
  assumes "base32_law B" and "encode_path_component B v = encode_path_component B w"
  shows "v = w"
proof -
  have "b32_decode B (str_bytes (b32_encode B (str_bytes v))) =
      b32_decode B (str_bytes (b32_encode B (str_bytes w)))"
    using assms(2) by (simp add: encode_path_component_def)
  then show ?thesis using assms(1) by (auto simp: base32_law_def dest: str_bytes_inj)
qed

lemma split_extension_db:
  assumes "CHR ''.'' \<notin> set stem" and "stem \<noteq> []"
  shows "split_extension (stem @ ''.db'') = (stem, Some ''db'')"
proof -
  have "split_once CHR ''.'' (rev (stem @ ''.db'')) = Some (''bd'', rev stem)"
    by (simp add: split_once_append [of _ "''bd''", simplified])
  then show ?thesis using assms(2) by (cases stem) (auto simp: split_extension_def)
qed

lemma encoded_no_dot: "base32_law B \<Longrightarrow> CHR ''.'' \<notin> set (encode_path_component B v)"
  by (auto simp: encode_path_component_def ENCODED_PATH_PREFIX_def base32_law_def)

text \<open>
  C34: local partitions are rediscovered: the file that the catalog uses for a named partition
  is read back, from its name in the directory, as the same partition, for every strategy whose
  names lead back to their partitions; and different names get different files.
\<close>

theorem local_partition_rediscovered:
  assumes "base32_law B" and "utf8_valid (str_bytes n)"
    and "ps_layout S = NamedDatabases" and "ps_name S p = Named n" and "ps_from_name S n = Inr p"
    and "path_for_partition B root S q = path_for_partition B root S p" and "ps_name S q = Named m"
  shows "path_for_partition B root S p = Inr (path_join root (encode_path_component B n @ ''.db'')) \<and>
    partitions_of_entries B ue S [encode_path_component B n @ ''.db''] = Inr [p] \<and> m = n"
proof -
  have "encode_path_component B n \<noteq> []" by (simp add: encode_path_component_def ENCODED_PATH_PREFIX_def)
  from split_extension_db [OF encoded_no_dot [OF assms(1)] this] assms
  have "partitions_of_entries B ue S [encode_path_component B n @ ''.db''] = Inr [p]"
    by (simp add: decode_encode_path)
  moreover have "encode_path_component B m = encode_path_component B n"
    using assms(3,4,6,7) by (auto simp: path_for_partition_def path_join_def split: if_splits)
  then have "m = n" by (rule encode_path_inj [OF assms(1)])
  ultimately show ?thesis using assms(3,4) by (simp add: path_for_partition_def)
qed

section \<open>Witnesses\<close>

text \<open>An encoding with the laws of base 32: one letter of \<open>A\<close> to \<open>P\<close> for each half byte.\<close>

fun nibble_encode :: "bytes \<Rightarrow> string" where
  "nibble_encode [] = []"
| "nibble_encode (b # bs) =
     (''ABCDEFGHIJKLMNOP'' ! (unat b div 16)) # (''ABCDEFGHIJKLMNOP'' ! (unat b mod 16)) #
       nibble_encode bs"

fun nibble_decode :: "bytes \<Rightarrow> string + bytes" where
  "nibble_decode (a # b # bs) =
     map_ok ((#) (word_of_nat ((unat a - 65) * 16 + (unat b - 65)))) (nibble_decode bs)"
| "nibble_decode [] = Inr []"
| "nibble_decode [a] = Inl ''odd length''"

definition nibbles :: base32 where
  "nibbles = \<lparr>b32_encode = nibble_encode, b32_decode = nibble_decode\<rparr>"

lemma letter_code:
  fixes k :: nat
  assumes "k < 16"
  shows "of_char (''ABCDEFGHIJKLMNOP'' ! k) = (65 + k :: nat)"
proof -
  have "map of_char ''ABCDEFGHIJKLMNOP'' = map (\<lambda>k. 65 + k :: nat) [0..<16]"
    by (simp add: upt_conv_Cons)
  then have "map of_char ''ABCDEFGHIJKLMNOP'' ! k = map (\<lambda>k. 65 + k :: nat) [0..<16] ! k" by simp
  moreover have "map of_char ''ABCDEFGHIJKLMNOP'' ! k = (of_char (''ABCDEFGHIJKLMNOP'' ! k) :: nat)"
    by (rule nth_map) (use assms in simp)
  moreover have "map (\<lambda>k. 65 + k :: nat) [0..<16] ! k = 65 + k" using assms by simp
  ultimately show ?thesis by metis
qed

lemma unat_letter: "k < 16 \<Longrightarrow> unat (65 + word_of_nat k :: 8 word) = 65 + k"
  by (simp add: unat_word_ariths unat_of_nat)

lemma word_halves:
  "(word_of_nat (unat b div 16) :: 8 word) * 16 + word_of_nat (unat b mod 16) = b"
proof -
  have "word_of_nat (unat b div 16 * 16 + unat b mod 16) = b" by (simp only: div_mult_mod_eq) simp
  then show ?thesis by (simp only: of_nat_add of_nat_mult of_nat_numeral)
qed

lemma nibbles_law: "base32_law nibbles"
proof -
  have dec: "nibble_decode (str_bytes (nibble_encode bs)) = Inr bs" for bs
  proof (induction bs)
    case (Cons b bs)
    have "unat b < 256" by (rule order_less_le_trans [OF unsigned_less]) simp
    then have "unat b div 16 < 16" by simp
    with Cons show ?case by (simp add: str_bytes_def letter_code unat_letter word_halves)
  qed (simp add: str_bytes_def)
  have letters: "set (nibble_encode bs) \<subseteq> set ''ABCDEFGHIJKLMNOP''" for bs
  proof (induction bs)
    case (Cons b bs)
    have "unat b < 256" by (rule order_less_le_trans [OF unsigned_less]) simp
    then have "unat b div 16 < 16" by simp
    then have "''ABCDEFGHIJKLMNOP'' ! (unat b div 16) \<in> set ''ABCDEFGHIJKLMNOP''"
      "''ABCDEFGHIJKLMNOP'' ! (unat b mod 16) \<in> set ''ABCDEFGHIJKLMNOP''" by (intro nth_mem; simp)+
    with Cons show ?case by (simp only: nibble_encode.simps set_simps insert_subset)
  qed simp
  have "set ''ABCDEFGHIJKLMNOP'' \<subseteq> set ''ABCDEFGHIJKLMNOPQRSTUVWXYZ234567''" by simp
  from subset_trans [OF letters this] dec show ?thesis
    unfolding base32_law_def nibbles_def base32.simps by (intro conjI allI)
qed

lemma utf8_valid_ascii: "(\<And>b. b \<in> set bs \<Longrightarrow> unat b \<le> 127) \<Longrightarrow> utf8_valid bs"
  by (induction bs) (auto simp: in_range_def)

theorem local_partition_rediscovered_witness:
  "partitions_of_entries nibbles (\<lambda>_. ''invalid utf-8'') type_strategy [encode_path_component nibbles ''run'' @ ''.db''] =
     Inr [type_partition ''run'']"
proof -
  have "utf8_valid (str_bytes ''run'')"
    by (rule utf8_valid_ascii) (auto simp: str_bytes_def)
  moreover have "ps_layout type_strategy = NamedDatabases"
    "ps_name type_strategy (type_partition ''run'') = Named ''run''"
    "ps_from_name type_strategy ''run'' = Inr (type_partition ''run'')"
    by (simp_all add: type_strategy_def type_partition_def)
  ultimately show ?thesis
    using local_partition_rediscovered [OF nibbles_law, of "''run''" type_strategy
      "type_partition ''run''" "''data''" "type_partition ''run''" "''run''" "\<lambda>_. ''invalid utf-8''"] by (metis (no_types))
qed

end
