(* ===== verification/SqliteStore.thy ===== *)
theory SqliteStore
  imports Catalogs
begin

text \<open>
  \<^verbatim>\<open>crates/wee-events-sqlite/src/event_store/store.rs\<close>: the event store over partitions:
  opening and caching connections, loading and publishing through the partition of an aggregate,
  the retry loop for lazily created namespaces, and enumeration.
\<close>

section \<open>Opening partitions\<close>

definition connect_partition ::
  "'g host \<Rightarrow> ('p, 'g) catalog \<Rightarrow> 'p \<Rightarrow> database_target \<Rightarrow> ('p, 'g, location) store_action" where
  "connect_partition H C p target =
     seq_result (open_target H target) (\<lambda>loc.
     seq_result (prepare_connection_for_partition H C p loc) (\<lambda>_ s.
       (Inr loc, s\<lparr>ss_connections := upsert p loc (ss_connections s)\<rparr>)))"

definition ensure_partition_open ::
  "'g host \<Rightarrow> ('p, 'g) catalog \<Rightarrow> 'p \<Rightarrow> ('p, 'g, location) store_action" where
  "ensure_partition_open H C p s =
     (case map_of (ss_connections s) p of
        Some loc \<Rightarrow> (Inr loc, s)
      | None \<Rightarrow>
          seq_result (give (cat_ensure C (c_calls (ss_session s)) (ss_databases s) p))
            (connect_partition H C p) s)"

definition open_partition_if_exists ::
  "'g host \<Rightarrow> ('p, 'g) catalog \<Rightarrow> 'p \<Rightarrow> ('p, 'g, location option) store_action" where
  "open_partition_if_exists H C p s =
     (case map_of (ss_connections s) p of
        Some loc \<Rightarrow> (Inr (Some loc), s)
      | None \<Rightarrow>
          seq_result (give (cat_existing C (c_calls (ss_session s)) (ss_databases s) p)) (\<lambda>found.
            case found of
              None \<Rightarrow> give (Inr None)
            | Some target \<Rightarrow>
                seq_result (connect_partition H C p target) (\<lambda>loc. give (Inr (Some loc)))) s)"

section \<open>Building a store\<close>

definition from_catalog :: "'g \<Rightarrow> encoding \<Rightarrow> ('p, 'g) sqlite_store" where
  "from_catalog g e =
     \<lparr>ss_connections = [], ss_databases = (\<lambda>_. None), ss_memories = 0,
      ss_session = \<lparr>c_db = empty_db ''delete'', c_saved = None, c_busy_timeout_ms = 0,
        c_foreign_keys = False, c_calls = 0, se_generator = g, se_jitter = 0, se_sleeps = []\<rparr>,
      ss_encoding = e\<rparr>"

definition with_encoding :: "('p, 'g) sqlite_store \<Rightarrow> encoding \<Rightarrow> ('p, 'g) sqlite_store" where
  "with_encoding s e = s\<lparr>ss_encoding := e\<rparr>"

definition bootstrap ::
  "'g host \<Rightarrow> 'p strategy \<Rightarrow> ('p, 'g) catalog \<Rightarrow> ('p, 'g, unit) store_action" where
  "bootstrap H S C =
     seq_result (collect_actions (ensure_partition_open H C) (ps_bootstrap S)) (\<lambda>_. give (Inr ()))"

text \<open>The constructors return the catalog they chose with the outcome of the bootstrap.\<close>

definition open_local ::
  "'g host \<Rightarrow> base32 \<Rightarrow> (bytes \<Rightarrow> string) \<Rightarrow> file_system \<Rightarrow> string \<Rightarrow> 'p strategy \<Rightarrow>
    ('p, 'g, ('p, 'g) catalog) store_action" where
  "open_local H B ue F path S =
     seq_result (\<lambda>s. give (local_initialize_root F (c_calls (ss_session s)) path S) s) (\<lambda>_.
     seq_result (bootstrap H S (local_catalog B ue F path S)) (\<lambda>_.
       give (Inr (local_catalog B ue F path S))))"

definition open_single ::
  "'g host \<Rightarrow> single_provisioner \<Rightarrow> 'p strategy \<Rightarrow> ('p, 'g, ('p, 'g) catalog) store_action" where
  "open_single H R S =
     seq_result (bootstrap H S (single_target_catalog R)) (\<lambda>_. give (Inr (single_target_catalog R)))"

definition open_in_memory :: "'g host \<Rightarrow> 'p strategy \<Rightarrow> ('p, 'g, ('p, 'g) catalog) store_action" where
  "open_in_memory H S = open_single H in_memory_target_resolver S"

definition open_sqld_default ::
  "'g host \<Rightarrow> single_provisioner \<Rightarrow> 'p strategy \<Rightarrow> ('p, 'g, ('p, 'g) catalog) store_action" where
  "open_sqld_default H R S = open_single H R S"

definition open_named ::
  "'g host \<Rightarrow> named_provisioner \<Rightarrow> 'p::linorder strategy \<Rightarrow> ('p, 'g, ('p, 'g) catalog) store_action" where
  "open_named H R S =
     seq_result (bootstrap H S (named_target_catalog H S R)) (\<lambda>_. give (Inr (named_target_catalog H S R)))"

section \<open>Enumeration\<close>

definition sorted_unique_ids :: "aggregate_id list \<Rightarrow> aggregate_id list" where
  "sorted_unique_ids ids = remdups_adj (sort ids)"

definition all_known_partitions :: "('p::linorder, 'g) catalog \<Rightarrow> ('p, 'g, 'p list) store_action" where
  "all_known_partitions C =
     seq_result (cat_partitions C) (\<lambda>ps s.
       (Inr (sorted_list_of_set (set ps \<union> set (map fst (ss_connections s)))), s))"

definition enumerate_partition ::
  "'g host \<Rightarrow> ('p, 'g) catalog \<Rightarrow> 'p \<times> partition_read \<Rightarrow> ('p, 'g, aggregate_id list) store_action" where
  "enumerate_partition H C pp =
     (case snd pp of
        ScanAll \<Rightarrow> seq_result (open_partition_if_exists H C (fst pp)) (\<lambda>conn.
          case conn of None \<Rightarrow> give (Inr [])
          | Some loc \<Rightarrow> on_connection loc (enumerate_all_from_connection H))
      | ScanType t \<Rightarrow> seq_result (open_partition_if_exists H C (fst pp)) (\<lambda>conn.
          case conn of None \<Rightarrow> give (Inr [])
          | Some loc \<Rightarrow> on_connection loc (enumerate_by_type_from_connection H t))
      | Direct i \<Rightarrow> give (Inr [i])
      | Skip \<Rightarrow> give (Inr []))"

definition enumerate_with_plan ::
  "'g host \<Rightarrow> ('p::linorder, 'g) catalog \<Rightarrow> ('p \<Rightarrow> partition_read) \<Rightarrow>
    ('p, 'g, aggregate_id list) store_action" where
  "enumerate_with_plan H C plan =
     seq_result (all_known_partitions C) (\<lambda>ps.
     seq_result (collect_actions (enumerate_partition H C) (map (\<lambda>p. (p, plan p)) ps)) (\<lambda>ids.
       give (Inr (sorted_unique_ids (concat ids)))))"

definition sqlite_enumerate_aggregates ::
  "'g host \<Rightarrow> 'p::linorder strategy \<Rightarrow> ('p, 'g) catalog \<Rightarrow> ('p, 'g, aggregate_id list) store_action" where
  "sqlite_enumerate_aggregates H S C = enumerate_with_plan H C (ps_read_plan S)"

definition sqlite_enumerate_aggregates_by_type ::
  "'g host \<Rightarrow> 'p::linorder strategy \<Rightarrow> ('p, 'g) catalog \<Rightarrow> aggregate_type \<Rightarrow>
    ('p, 'g, aggregate_id list) store_action" where
  "sqlite_enumerate_aggregates_by_type H S C t =
     enumerate_with_plan H C (\<lambda>p. ps_read_plan_by_type S p t)"

section \<open>Loading and publishing\<close>

definition load_aggregate ::
  "'g host \<Rightarrow> 'p strategy \<Rightarrow> ('p, 'g) catalog \<Rightarrow> aggregate_id \<Rightarrow> ('p, 'g, aggregate) store_action" where
  "load_aggregate H S C i =
     seq_result (give (ps_partition_for S i)) (\<lambda>p.
     seq_result (open_partition_if_exists H C p) (\<lambda>conn.
       case conn of
         None \<Rightarrow> give (Inr (aggregate_empty i))
       | Some loc \<Rightarrow> on_connection loc (load_from_connection H i)))"

definition LAZY_CREATE_PARTITION_READY_ATTEMPTS :: nat where
  "LAZY_CREATE_PARTITION_READY_ATTEMPTS = 30"

definition LAZY_CREATE_PARTITION_READY_DELAY_MS :: nat where
  "LAZY_CREATE_PARTITION_READY_DELAY_MS = 1000"

definition publish_in_partition ::
  "'g host \<Rightarrow> ('p, 'g) catalog \<Rightarrow> 'p \<Rightarrow> aggregate_id \<Rightarrow> publish_options \<Rightarrow> raw_event list \<Rightarrow>
    ('p, 'g, change_set) store_action" where
  "publish_in_partition H C p i opts events =
     seq_result (ensure_partition_open H C p) (\<lambda>loc.
       on_connection loc (publish_with_connection H i opts events))"

definition forget_connection :: "'p \<Rightarrow> ('p, 'g) sqlite_store \<Rightarrow> ('p, 'g) sqlite_store" where
  "forget_connection p s = s\<lparr>ss_connections := filter (\<lambda>(q, _). q \<noteq> p) (ss_connections s)\<rparr>"

definition store_sleep :: "nat \<Rightarrow> ('p, 'g) sqlite_store \<Rightarrow> ('p, 'g) sqlite_store" where
  "store_sleep ms s =
     s\<lparr>ss_session := (ss_session s)\<lparr>se_sleeps := se_sleeps (ss_session s) @ [ms]\<rparr>\<rparr>"

fun publish_loop ::
  "'g host \<Rightarrow> ('p, 'g) catalog \<Rightarrow> 'p \<Rightarrow> aggregate_id \<Rightarrow> publish_options \<Rightarrow> raw_event list \<Rightarrow>
    nat \<Rightarrow> ('p, 'g, change_set) store_action" where
  "publish_loop H C p i opts events 0 s =
     (Inl (WeeEvents (Custom (Panicked ''lazy create retry loop always returns on the last attempt''))), s)"
| "publish_loop H C p i opts events (Suc remaining) s =
     (case publish_in_partition H C p i opts events s of
        (Inr cs, s1) \<Rightarrow> (Inr cs, s1)
      | (Inl e, s1) \<Rightarrow>
          if is_lazy_create_partition_not_ready e \<and> 0 < remaining then
            publish_loop H C p i opts events remaining
              (store_sleep LAZY_CREATE_PARTITION_READY_DELAY_MS (forget_connection p s1))
          else (Inl e, s1))"

definition publish_to_aggregate ::
  "'g host \<Rightarrow> 'p strategy \<Rightarrow> ('p, 'g) catalog \<Rightarrow> aggregate_id \<Rightarrow> publish_options \<Rightarrow> raw_event list \<Rightarrow>
    ('p, 'g, change_set) store_action" where
  "publish_to_aggregate H S C i opts events =
     seq_result (give (ps_partition_for S i)) (\<lambda>p.
       publish_loop H C p i opts events LAZY_CREATE_PARTITION_READY_ATTEMPTS)"

definition sqlite_ops :: "'g host \<Rightarrow> 'p strategy \<Rightarrow> ('p, 'g) catalog \<Rightarrow> ('p, 'g) sqlite_store store_ops" where
  "sqlite_ops H S C =
     \<lparr>st_load = (\<lambda>s i. seq_err error_from_sqlite (load_aggregate H S C i) s),
      st_publish = (\<lambda>s i opts events.
        seq_err error_from_sqlite (publish_to_aggregate H S C i opts events) s),
      st_encoding = ss_encoding\<rparr>"

end
