(* ===== verification/SqliteContract.thy ===== *)
theory SqliteContract
  imports SqliteStore
begin

text \<open>
  The partitioned event store of \<^verbatim>\<open>SqliteStore\<close> keeps the contract of \<^verbatim>\<open>StoreContract\<close>:
  the abstraction of its databases to one stream per aggregate, its invariant, a small logic of
  steps that change no event, and the outcome of a publish with its retries.
\<close>

section \<open>The abstraction and the invariant\<close>

definition db_rows :: "db \<Rightarrow> event_row list" where
  "db_rows d = (case tbl_events d of None \<Rightarrow> [] | Some rows \<Rightarrow> rows)"

definition db_ok :: "ulid_codec \<Rightarrow> db \<Rightarrow> bool" where
  "db_ok U d \<longleftrightarrow> schema_ok d \<and> rows_inv U (db_rows d)"

definition rows_at :: "('p, 'g) sqlite_store \<Rightarrow> location \<Rightarrow> event_row list" where
  "rows_at s loc = (case ss_databases s loc of None \<Rightarrow> [] | Some d \<Rightarrow> db_rows d)"

definition table_at :: "('p, 'g) sqlite_store \<Rightarrow> location \<Rightarrow> bool" where
  "table_at s loc = (case ss_databases s loc of None \<Rightarrow> False | Some d \<Rightarrow> tbl_events d \<noteq> None)"

definition store_stream ::
  "'p strategy \<Rightarrow> ('p \<Rightarrow> database_target) \<Rightarrow> ('p, 'g) sqlite_store \<Rightarrow> aggregate_id \<Rightarrow> recorded_event list" where
  "store_stream S tgt s i =
     (case ps_partition_for S i of Inl _ \<Rightarrow> [] | Inr p \<Rightarrow> rows_stream (rows_at s (At (tgt p))) i)"

text \<open>
  What the store relies on in its catalog: a partition always has the same durable target, and
  a partition reported missing holds no events. The catalogs of the library keep this
  (\<open>local_catalog_ok\<close>, \<open>single_catalog_ok\<close> and \<open>named_catalog_ok\<close> below, the last two for a
  provisioner that never moves a database). Memory-only targets are excluded here, because their
  data dies with the connection: \<^verbatim>\<open>MemoryDatabases\<close> is about a store on them.
\<close>

definition catalog_ok :: "('p, 'g) catalog \<Rightarrow> ('p \<Rightarrow> database_target) \<Rightarrow> bool" where
  "catalog_ok C tgt \<longleftrightarrow>
     (\<forall>p. tgt p \<noteq> InMemory) \<and>
     (\<forall>n D p t. cat_ensure C n D p = Inr t \<longrightarrow> t = tgt p) \<and>
     (\<forall>n D p t. cat_existing C n D p = Inr (Some t) \<longrightarrow> t = tgt p) \<and>
     (\<forall>n D p d. cat_existing C n D p = Inr None \<longrightarrow> D (At (tgt p)) = Some d \<longrightarrow> db_rows d = [])"

definition connections_ok :: "('p \<Rightarrow> database_target) \<Rightarrow> ('p, 'g) sqlite_store \<Rightarrow> bool" where
  "connections_ok tgt s \<longleftrightarrow>
     (\<forall>p loc. map_of (ss_connections s) p = Some loc \<longrightarrow> loc = At (tgt p) \<and> table_at s loc)"

definition store_ok ::
  "'g host \<Rightarrow> ('g \<Rightarrow> ulid) \<Rightarrow> ('p, 'g) catalog \<Rightarrow> ('p \<Rightarrow> database_target) \<Rightarrow>
    ('p, 'g) sqlite_store \<Rightarrow> bool" where
  "store_ok H prev C tgt s \<longleftrightarrow>
     ulid_laws (h_ulid H) \<and> monotonic_generator (h_gen H) prev \<and> catalog_ok C tgt \<and>
     (\<forall>loc d. ss_databases s loc = Some d \<longrightarrow> db_ok (h_ulid H) d) \<and> connections_ok tgt s"

section \<open>Calls on one connection that change no event\<close>

text \<open>On the tables that matter a call leaves everything, or creates the missing ones.\<close>

definition conn_quiet :: "('x, 'a) sql \<Rightarrow> bool" where
  "conn_quiet f \<longleftrightarrow>
     (\<forall>c r c'. c_saved c = None \<longrightarrow> schema_ok (c_db c) \<longrightarrow> f c = (r, c') \<longrightarrow>
        schema_ok (c_db (rollback c')) \<and>
        tbl_events (c_db (rollback c')) \<in> {tbl_events (c_db c), create_if_missing (tbl_events (c_db c))})"

lemma conn_quietD:
  assumes "conn_quiet f" and "c_saved c = None" and "schema_ok (c_db c)" and "f c = (r, c')"
  shows "schema_ok (c_db (rollback c'))"
    and "tbl_events (c_db (rollback c')) \<in> {tbl_events (c_db c), create_if_missing (tbl_events (c_db c))}"
  using assms unfolding conn_quiet_def by blast+

text \<open>A call that runs outside a transaction and does not touch the event or version tables.\<close>

definition conn_idle :: "('x, 'a) sql \<Rightarrow> bool" where
  "conn_idle f \<longleftrightarrow>
     (\<forall>c r c'. f c = (r, c') \<longrightarrow> c_saved c' = c_saved c \<and>
        tbl_events (c_db c') = tbl_events (c_db c) \<and>
        tbl_schema_versions (c_db c') = tbl_schema_versions (c_db c) \<and>
        (tbl_partition_metadata (c_db c) \<noteq> None \<longrightarrow> tbl_partition_metadata (c_db c') \<noteq> None))"

lemma conn_idleD:
  assumes "conn_idle f" and "f c = (r, c')"
  shows "c_saved c' = c_saved c" and "tbl_events (c_db c') = tbl_events (c_db c)"
    and "tbl_schema_versions (c_db c') = tbl_schema_versions (c_db c)"
    and "tbl_partition_metadata (c_db c) \<noteq> None \<Longrightarrow> tbl_partition_metadata (c_db c') \<noteq> None"
  using assms unfolding conn_idle_def by blast+

named_theorems idle_intros

lemma conn_idle_quiet: "conn_idle f \<Longrightarrow> conn_quiet f"
  unfolding conn_idle_def conn_quiet_def
  by (fastforce simp: schema_ok_def schema_version_def)

lemma idle_statement [idle_intros]:
  assumes "\<And>d a d'. f d = (Inr a, d') \<Longrightarrow> tbl_events d' = tbl_events d \<and>
    tbl_schema_versions d' = tbl_schema_versions d \<and>
    (tbl_partition_metadata d \<noteq> None \<longrightarrow> tbl_partition_metadata d' \<noteq> None)"
  shows "conn_idle (statement H f)"
  unfolding conn_idle_def
proof (intro allI impI)
  fix c :: "'b conn_scheme" and r c'
  assume "statement H f c = (r, c')"
  then show "c_saved c' = c_saved c \<and> tbl_events (c_db c') = tbl_events (c_db c) \<and>
      tbl_schema_versions (c_db c') = tbl_schema_versions (c_db c) \<and>
      (tbl_partition_metadata (c_db c) \<noteq> None \<longrightarrow> tbl_partition_metadata (c_db c') \<noteq> None)"
    using assms by (cases r) (fastforce simp: statement_Inl statement_Inr)+
qed

lemma idle_query [idle_intros]: "conn_idle (query H table name f)"
  unfolding query_def by (rule idle_statement) simp

lemma idle_give [idle_intros]: "conn_idle (give r)"
  by (simp add: conn_idle_def give_iff)

lemma idle_seq [idle_intros]:
  assumes "conn_idle m" and "\<And>a. conn_idle (f a)"
  shows "conn_idle (seq_result m f)"
  unfolding conn_idle_def
proof (intro allI impI)
  fix c :: "'a conn_scheme" and r c'
  assume "seq_result m f c = (r, c')"
  then show "c_saved c' = c_saved c \<and> tbl_events (c_db c') = tbl_events (c_db c) \<and>
      tbl_schema_versions (c_db c') = tbl_schema_versions (c_db c) \<and>
      (tbl_partition_metadata (c_db c) \<noteq> None \<longrightarrow> tbl_partition_metadata (c_db c') \<noteq> None)"
  proof (cases rule: seq_result_cases)
    case (stop e)
    with assms(1) show ?thesis unfolding conn_idle_def by blast
  next
    case (run a t)
    with assms show ?thesis unfolding conn_idle_def by metis
  qed
qed

lemma idle_update [idle_intros]:
  "conn_idle f \<Longrightarrow> conn_idle (\<lambda>c. f (c\<lparr>c_busy_timeout_ms := ms\<rparr>))"
  "conn_idle f \<Longrightarrow> conn_idle (\<lambda>c. f (c\<lparr>c_foreign_keys := b\<rparr>))"
  by (fastforce simp: conn_idle_def)+

lemma idle_split [idle_intros]:
  "(b \<Longrightarrow> conn_idle f) \<Longrightarrow> (\<not> b \<Longrightarrow> conn_idle g) \<Longrightarrow> conn_idle (if b then f else g)"
  by simp

lemma idle_option [idle_intros]:
  "conn_idle f \<Longrightarrow> (\<And>a. conn_idle (g a)) \<Longrightarrow> conn_idle (case x of None \<Rightarrow> f | Some a \<Rightarrow> g a)"
  by (cases x) simp_all

lemma idle_reads [idle_intros]:
  "conn_idle (load_from_connection H i)" "conn_idle (enumerate_all_from_connection H)"
  "conn_idle (enumerate_by_type_from_connection H t)" "conn_idle (load_partition_name H)"
  unfolding load_from_connection_def enumerate_all_from_connection_def
    enumerate_by_type_from_connection_def load_partition_name_def
  by (intro idle_intros)+

lemma idle_ensure_partition_name [idle_intros]: "conn_idle (ensure_partition_name H name)"
proof -
  have "conn_idle (insert_partition_name H name)"
    unfolding insert_partition_name_def
    by (rule idle_statement) (auto split: option.splits if_splits)
  then show ?thesis unfolding ensure_partition_name_def by (intro idle_intros)
qed

lemma idle_connect [idle_intros]: "conn_idle (connect H)"
  unfolding connect_def by (rule idle_statement) simp

lemma idle_pragma [idle_intros]:
  assumes "\<And>d. tbl_events (snd (pragma d)) = tbl_events d \<and>
    tbl_schema_versions (snd (pragma d)) = tbl_schema_versions d \<and>
    tbl_partition_metadata (snd (pragma d)) = tbl_partition_metadata d"
  shows "conn_idle (query_required_string H pragma sql)"
  unfolding query_required_string_def
proof (intro idle_intros)
  fix d a d'
  assume "(case pragma d of (row, d') \<Rightarrow> (Inr row, d')) = (Inr a, d')"
  with assms [of d] show "tbl_events d' = tbl_events d \<and>
    tbl_schema_versions d' = tbl_schema_versions d \<and>
    (tbl_partition_metadata d \<noteq> None \<longrightarrow> tbl_partition_metadata d' \<noteq> None)"
    by (auto split: prod.splits)
qed

lemma idle_prepare [idle_intros]: "conn_idle (prepare_local_connection H)"
  unfolding prepare_local_connection_def
  by (intro idle_intros) (auto simp: Let_def)

text \<open>Opening: quiet, and on success the events table exists.\<close>

lemma open_event_store_connection_result:
  assumes "open_event_store_connection H target c = (r, c')"
    and "c_saved c = None" and "schema_ok (c_db c)"
  shows "schema_ok (c_db (rollback c')) \<and>
    tbl_events (c_db (rollback c')) \<in> {tbl_events (c_db c), create_if_missing (tbl_events (c_db c))} \<and>
    (r = Inr u \<longrightarrow> tbl_events (c_db (rollback c')) \<noteq> None)"
proof -
  let ?pre = "case target of
      InMemory \<Rightarrow> seq_result (connect H) (\<lambda>_. prepare_local_connection H)
    | Local path \<Rightarrow>
        (case h_create_parent H path of
           Some e \<Rightarrow> give (Inl (Io e))
         | None \<Rightarrow> seq_result (connect H) (\<lambda>_. prepare_local_connection H))
    | SqldDefault url token \<Rightarrow> connect H
    | Turso url token \<Rightarrow> connect H
    | SqldNamespace url token namespace \<Rightarrow> connect H"
  have pre: "conn_idle (?pre :: ('x, unit) sql)" by (cases target) (simp; intro idle_intros)+
  note quiet = conn_quietD [OF conn_idle_quiet [OF pre] assms(2,3)]
  from assms(1) show ?thesis unfolding open_event_store_connection_def
  proof (cases rule: seq_result_cases)
    case (stop e)
    with quiet [OF stop(1)] show ?thesis by simp
  next
    case (run w c1)
    note idle = conn_idleD [OF pre run(1)]
    from idle(1) assms(2) have saved: "c_saved c1 = None" by simp
    with quiet [OF run(1)] idle(2) have c1: "schema_ok (c_db c1)"
      "tbl_events (c_db c1) = tbl_events (c_db c)" by simp_all
    from migrate_event_store_result [OF saved c1(1) run(2)] c1(2) show ?thesis
      by (cases r) (auto simp: same_tables_def)
  qed
qed

section \<open>Steps of the store that change no event\<close>

lemma table_at_rows: "ss_databases s loc = Some d \<Longrightarrow> table_at s loc \<longleftrightarrow> tbl_events d \<noteq> None"
  by (simp add: table_at_def)

lemma db_rows_simps [simp]:
  "tbl_events d = None \<Longrightarrow> db_rows d = []" "tbl_events d = Some rows \<Longrightarrow> db_rows d = rows"
  "db_rows (empty_db mode) = []"
  by (simp_all add: db_rows_def empty_db_def)

lemma db_rows_quiet:
  "tbl_events d' \<in> {tbl_events d, create_if_missing (tbl_events d)} \<Longrightarrow> db_rows d' = db_rows d"
  by (cases "tbl_events d") (auto simp: db_rows_def)

text \<open>
  Partial correctness of a store action that changes no event: started in a good state where
  \<open>P\<close> holds, it ends in a good state with the same rows everywhere, and in \<open>Q\<close> if it succeeds.
\<close>

definition silent ::
  "'g host \<Rightarrow> ('g \<Rightarrow> ulid) \<Rightarrow> ('p, 'g) catalog \<Rightarrow> ('p \<Rightarrow> database_target) \<Rightarrow>
    (('p, 'g) sqlite_store \<Rightarrow> bool) \<Rightarrow> ('p, 'g, 'a) store_action \<Rightarrow>
    ('a \<Rightarrow> ('p, 'g) sqlite_store \<Rightarrow> bool) \<Rightarrow> bool" where
  "silent H prev C tgt P m Q \<longleftrightarrow>
     (\<forall>s r s'. store_ok H prev C tgt s \<longrightarrow> P s \<longrightarrow> m s = (r, s') \<longrightarrow>
        store_ok H prev C tgt s' \<and> rows_at s' = rows_at s \<and>
        (\<forall>loc. table_at s loc \<longrightarrow> table_at s' loc) \<and> (\<forall>a. r = Inr a \<longrightarrow> Q a s'))"

named_theorems silent_intros

lemma silentD:
  assumes "silent H prev C tgt P m Q" and "store_ok H prev C tgt s" and "P s" and "m s = (r, s')"
  shows "store_ok H prev C tgt s'" and "rows_at s' = rows_at s" and "r = Inr a \<Longrightarrow> Q a s'"
    and "table_at s loc \<Longrightarrow> table_at s' loc"
  using assms unfolding silent_def by blast+

lemma silent_seq:
  assumes "silent H prev C tgt P m Q" and "\<And>a. silent H prev C tgt (Q a) (f a) R"
  shows "silent H prev C tgt P (seq_result m f) R"
  unfolding silent_def
proof (intro allI impI)
  fix s r s'
  assume ok: "store_ok H prev C tgt s" and P: "P s" and run: "seq_result m f s = (r, s')"
  from run show "store_ok H prev C tgt s' \<and> rows_at s' = rows_at s \<and>
      (\<forall>loc. table_at s loc \<longrightarrow> table_at s' loc) \<and> (\<forall>a. r = Inr a \<longrightarrow> R a s')"
  proof (cases rule: seq_result_cases)
    case (stop e)
    with silentD [OF assms(1) ok P stop(1)] show ?thesis by simp
  next
    case (run a t)
    note A = silentD [OF assms(1) ok P run(1)]
    from A(3) have "Q a t" by simp
    from silentD [OF assms(2) A(1) this run(2)] A(2,4) show ?thesis by simp
  qed
qed

lemma silent_give [silent_intros]: "silent H prev C tgt P (give r) (\<lambda>a s. P s \<and> r = Inr a)"
  by (auto simp: silent_def give_iff)

lemma silent_weaken:
  "silent H prev C tgt P m Q \<Longrightarrow> (\<And>s. P' s \<Longrightarrow> P s) \<Longrightarrow> (\<And>a s. Q a s \<Longrightarrow> Q' a s) \<Longrightarrow>
    silent H prev C tgt P' m Q'"
  by (fastforce simp: silent_def)

lemma silent_asking: "(\<And>s. silent H prev C tgt (\<lambda>t. P t \<and> t = s) (m s) Q) \<Longrightarrow>
    silent H prev C tgt P (\<lambda>s. m s s) Q"
  by (fastforce simp: silent_def)

lemma silent_collect:
  assumes "\<And>x. silent H prev C tgt (\<lambda>_. True) (f x) (\<lambda>_ _. True)"
  shows "silent H prev C tgt (\<lambda>_. True) (collect_actions f xs) (\<lambda>_ _. True)"
proof (induction xs)
  case (Cons x xs)
  show ?case unfolding collect_actions.simps
    by (intro silent_seq [OF assms] silent_seq [OF Cons]) (auto simp: silent_def give_iff)
qed (auto simp: silent_def give_iff)

lemma connections_ok_mono:
  assumes "connections_ok tgt s" and "ss_connections s' = ss_connections s"
    and "\<And>loc. table_at s loc \<Longrightarrow> table_at s' loc"
  shows "connections_ok tgt s'"
  using assms by (auto simp: connections_ok_def)

text \<open>Putting a database back whose events are those it had.\<close>

lemma store_ok_replace:
  assumes ok: "store_ok H prev C tgt s" and con: "ss_connections s' = ss_connections s"
    and dbs: "ss_databases s' = (ss_databases s)(loc \<mapsto> d') \<or>
      ss_databases s' = ss_databases s \<and> ss_databases s loc = None"
    and ok': "schema_ok d'" and old: "ss_databases s loc = Some d \<or>
      ss_databases s loc = None \<and> tbl_events d = None"
    and ev: "tbl_events d' \<in> {tbl_events d, create_if_missing (tbl_events d)}"
  shows "store_ok H prev C tgt s' \<and> rows_at s' = rows_at s \<and>
    (\<forall>loc. table_at s loc \<longrightarrow> table_at s' loc)"
proof -
  from db_rows_quiet [OF ev] old have rows: "db_rows d' = rows_at s loc"
    by (auto simp: rows_at_def)
  then have "rows_at s' = rows_at s" using dbs by (auto simp: rows_at_def fun_eq_iff)
  moreover have tables: "table_at s' l" if "table_at s l" for l
    using that dbs old ev by (auto simp: table_at_def split: if_splits option.splits)
  then have "connections_ok tgt s'"
    using ok con connections_ok_mono [of tgt s s'] by (simp add: store_ok_def)
  moreover have "db_ok (h_ulid H) d'"
    using ok ok' rows old by (auto simp: db_ok_def store_ok_def rows_at_def)
  then have "\<forall>l e. ss_databases s' l = Some e \<longrightarrow> db_ok (h_ulid H) e"
    using dbs ok by (auto simp: store_ok_def split: if_splits)
  ultimately show ?thesis using ok tables by (simp add: store_ok_def)
qed

lemma silent_on_connection [silent_intros]:
  assumes "conn_quiet f"
  shows "silent H prev C tgt (\<lambda>_. True) (on_connection loc f) (\<lambda>_ _. True)"
  unfolding silent_def
proof (intro allI impI)
  fix s r s'
  assume ok: "store_ok H prev C tgt s" and run: "on_connection loc f s = (r, s')"
  let ?d = "case ss_databases s loc of None \<Rightarrow> empty_db ''delete'' | Some d \<Rightarrow> d"
  let ?c = "(ss_session s)\<lparr>c_db := ?d, c_saved := None\<rparr>"
  obtain se where se: "f ?c = (r, se)"
    "s' = s\<lparr>ss_session := se, ss_databases := (ss_databases s)(loc \<mapsto> c_db (rollback se))\<rparr>"
    using run by (auto simp: on_connection_def Let_def split: prod.splits)
  have "schema_ok ?d" using ok by (auto simp: store_ok_def db_ok_def split: option.splits)
  with conn_quietD [OF assms _ _ se(1)] have Q: "schema_ok (c_db (rollback se))"
    "tbl_events (c_db (rollback se)) \<in> {tbl_events ?d, create_if_missing (tbl_events ?d)}"
    by simp_all
  have "ss_databases s loc = Some ?d \<or> ss_databases s loc = None \<and> tbl_events ?d = None"
    by (auto simp: empty_db_def split: option.splits)
  from store_ok_replace [OF ok _ _ Q(1) this Q(2), of s'] se(2)
  show "store_ok H prev C tgt s' \<and> rows_at s' = rows_at s \<and>
      (\<forall>loc. table_at s loc \<longrightarrow> table_at s' loc) \<and> (\<forall>a. r = Inr a \<longrightarrow> True)" by simp
qed

lemma silent_open_target:
  assumes "target \<noteq> InMemory"
  shows "silent H prev C tgt (\<lambda>_. True) (open_target H target)
    (\<lambda>loc s. loc = At target \<and> table_at s loc)"
  unfolding silent_def
proof (intro allI impI)
  fix s r s'
  assume ok: "store_ok H prev C tgt s" and run: "open_target H target s = (r, s')"
  let ?loc = "At target"
  let ?d = "case ss_databases s ?loc of None \<Rightarrow> empty_db ''delete'' | Some d \<Rightarrow> d"
  let ?c = "(ss_session s)\<lparr>c_db := ?d, c_saved := None, c_busy_timeout_ms := 0, c_foreign_keys := False\<rparr>"
  have loc: "target_location target s = ?loc"
    using assms by (simp add: target_location_def split: database_target.splits)
  obtain q se where q: "open_event_store_connection H target ?c = (q, se)" by fastforce
  let ?d' = "c_db (rollback se)"
  from run q loc assms have s': "r = map_ok (\<lambda>_. ?loc) q" "ss_connections s' = ss_connections s"
    "ss_databases s' = (if ss_databases s ?loc = None \<and> ?d' = empty_db ''delete'' then ss_databases s
       else (ss_databases s)(?loc \<mapsto> ?d'))"
    by (auto simp: open_target_def Let_def)
  have "schema_ok (c_db ?c)" using ok by (auto simp: store_ok_def db_ok_def split: option.splits)
  note R = open_event_store_connection_result [OF q _ this, simplified]
  have old: "ss_databases s ?loc = Some ?d \<or> ss_databases s ?loc = None \<and> tbl_events ?d = None"
    by (auto simp: empty_db_def split: option.splits)
  have dbs: "ss_databases s' = (ss_databases s)(?loc \<mapsto> ?d') \<or>
      ss_databases s' = ss_databases s \<and> ss_databases s ?loc = None"
    using s'(3) by (auto split: if_splits)
  have ev: "tbl_events ?d' \<in> {tbl_events ?d, create_if_missing (tbl_events ?d)}"
    using R by simp
  have "a = ?loc \<and> table_at s' a" if "r = Inr a" for a
    using that s' R by (auto simp: result_simps table_at_def empty_db_def)
  with store_ok_replace [OF ok s'(2) dbs _ old ev] R
  show "store_ok H prev C tgt s' \<and> rows_at s' = rows_at s \<and>
      (\<forall>loc. table_at s loc \<longrightarrow> table_at s' loc) \<and> (\<forall>a. r = Inr a \<longrightarrow> a = ?loc \<and> table_at s' a)"
    by blast
qed

lemma silent_prepare:
  "silent H prev C tgt (\<lambda>s. table_at s l) (prepare_connection_for_partition H C' p loc)
     (\<lambda>_ s. table_at s l)"
proof -
  have "silent H prev C tgt (\<lambda>_. True) (prepare_connection_for_partition H C' p loc) (\<lambda>_ _. True)"
  proof (cases "cat_prepare C' p")
    case (Some name)
    then show ?thesis
      by (simp add: prepare_connection_for_partition_def silent_on_connection conn_idle_quiet
          idle_ensure_partition_name)
  qed (simp add: prepare_connection_for_partition_def silent_def give_iff)
  then show ?thesis unfolding silent_def by blast
qed

lemma map_of_upsert': "map_of (upsert k v rows) j = (if j = k then Some v else map_of rows j)"
  by (simp add: map_of_upsert)

lemma silent_connect_partition:
  assumes "target = tgt p" and "tgt p \<noteq> InMemory"
  shows "silent H prev C tgt (\<lambda>_. True) (connect_partition H C p target)
    (\<lambda>loc s. loc = At (tgt p) \<and> table_at s loc)"
  unfolding connect_partition_def
proof (rule silent_seq)
  show "silent H prev C tgt (\<lambda>_. True) (open_target H target) (\<lambda>loc s. loc = At target \<and> table_at s loc)"
    using assms by (intro silent_open_target) simp
  fix loc
  show "silent H prev C tgt (\<lambda>s. loc = At target \<and> table_at s loc)
      (seq_result (prepare_connection_for_partition H C p loc)
        (\<lambda>_ s. (Inr loc, s\<lparr>ss_connections := upsert p loc (ss_connections s)\<rparr>)))
      (\<lambda>loc s. loc = At (tgt p) \<and> table_at s loc)"
  proof (cases "loc = At target")
    case True
    show ?thesis
    proof (rule silent_seq)
      show "silent H prev C tgt (\<lambda>s. loc = At target \<and> table_at s loc)
          (prepare_connection_for_partition H C p loc) (\<lambda>_ s. table_at s loc)"
        by (rule silent_weaken [OF silent_prepare [where l = loc]]) auto
      show "silent H prev C tgt (\<lambda>s. table_at s loc)
          (\<lambda>s. (Inr loc, s\<lparr>ss_connections := upsert p loc (ss_connections s)\<rparr>))
          (\<lambda>loc s. loc = At (tgt p) \<and> table_at s loc)"
        using True assms(1)
        by (auto simp: silent_def store_ok_def connections_ok_def map_of_upsert' table_at_def rows_at_def
            fun_eq_iff split: if_splits)
    qed
  qed (auto simp: silent_def)
qed

lemma connect_partition_result:
  assumes "store_ok H prev C tgt s" and "target = tgt p" and "tgt p \<noteq> InMemory"
    and "connect_partition H C p target s = (r, s')"
  shows "store_ok H prev C tgt s' \<and> rows_at s' = rows_at s \<and>
    (\<forall>loc. table_at s loc \<longrightarrow> table_at s' loc) \<and>
    (\<forall>loc. r = Inr loc \<longrightarrow> loc = At (tgt p) \<and> table_at s' loc)"
  using silent_connect_partition [where H = H and prev = prev and C = C and tgt = tgt and p = p
      and target = target] assms unfolding silent_def by blast

lemma catalog_okD:
  assumes "store_ok H prev C tgt s"
  shows "tgt p \<noteq> InMemory" and "cat_ensure C n D p = Inr t \<Longrightarrow> t = tgt p"
    and "cat_existing C n D p = Inr (Some t) \<Longrightarrow> t = tgt p"
    and "cat_existing C n D p = Inr None \<Longrightarrow> D (At (tgt p)) = Some d \<Longrightarrow> db_rows d = []"
  using assms by (auto simp: store_ok_def catalog_ok_def)

lemma ensure_partition_open_result:
  assumes ok: "store_ok H prev C tgt s" and run: "ensure_partition_open H C p s = (r, s')"
  shows "store_ok H prev C tgt s' \<and> rows_at s' = rows_at s \<and>
    (\<forall>loc. table_at s loc \<longrightarrow> table_at s' loc) \<and>
    (\<forall>loc. r = Inr loc \<longrightarrow> loc = At (tgt p) \<and> table_at s' loc)"
proof (cases "map_of (ss_connections s) p")
  case (Some loc)
  with run ok show ?thesis by (auto simp: ensure_partition_open_def store_ok_def connections_ok_def)
next
  case None
  show ?thesis
  proof (cases "cat_ensure C (c_calls (ss_session s)) (ss_databases s) p")
    case (Inl e)
    with run None ok show ?thesis by (auto simp: ensure_partition_open_def seq_result_def give_def)
  next
    case (Inr target)
    with run None have "connect_partition H C p target s = (r, s')"
      by (simp add: ensure_partition_open_def seq_result_def give_def)
    from connect_partition_result [OF ok catalog_okD(2) [OF ok Inr] catalog_okD(1) [OF ok] this]
    show ?thesis .
  qed
qed

lemma open_partition_if_exists_result:
  assumes ok: "store_ok H prev C tgt s" and run: "open_partition_if_exists H C p s = (r, s')"
  shows "store_ok H prev C tgt s' \<and> rows_at s' = rows_at s \<and>
    (\<forall>loc. table_at s loc \<longrightarrow> table_at s' loc) \<and>
    (\<forall>loc. r = Inr (Some loc) \<longrightarrow> loc = At (tgt p) \<and> table_at s' loc) \<and>
    (r = Inr None \<longrightarrow> rows_at s (At (tgt p)) = [])"
proof (cases "map_of (ss_connections s) p")
  case (Some loc)
  with run ok show ?thesis by (auto simp: open_partition_if_exists_def store_ok_def connections_ok_def)
next
  case None
  consider (error) e where "cat_existing C (c_calls (ss_session s)) (ss_databases s) p = Inl e"
    | (missing) "cat_existing C (c_calls (ss_session s)) (ss_databases s) p = Inr None"
    | (found) target where "cat_existing C (c_calls (ss_session s)) (ss_databases s) p = Inr (Some target)"
    by (cases "cat_existing C (c_calls (ss_session s)) (ss_databases s) p") auto
  then show ?thesis
  proof cases
    case error
    with run None ok show ?thesis by (auto simp: open_partition_if_exists_def seq_result_def give_def)
  next
    case missing
    with run None have "r = Inr None" "s' = s"
      by (auto simp: open_partition_if_exists_def seq_result_def give_def)
    moreover have "rows_at s (At (tgt p)) = []"
      using catalog_okD(4) [OF ok missing] by (simp add: rows_at_def split: option.splits)
    ultimately show ?thesis using ok by simp
  next
    case found
    with run None have "seq_result (connect_partition H C p target) (\<lambda>loc. give (Inr (Some loc))) s = (r, s')"
      by (simp add: open_partition_if_exists_def seq_result_def [of "give _"] give_def [of "Inr (Some target)"])
    then show ?thesis
    proof (cases rule: seq_result_cases)
      case (stop e)
      with connect_partition_result [OF ok catalog_okD(3) [OF ok found] catalog_okD(1) [OF ok] stop(1)]
      show ?thesis by simp
    next
      case (run a t)
      with connect_partition_result [OF ok catalog_okD(3) [OF ok found] catalog_okD(1) [OF ok] run(1)]
      show ?thesis by (simp add: give_iff) blast
    qed
  qed
qed

section \<open>Loading and publishing\<close>

lemma session_of_connection:
  assumes "store_ok H prev C tgt s" and "table_at s loc"
  obtains d where "ss_databases s loc = Some d" and "schema_ok d"
    and "session_ok H prev ((ss_session s)\<lparr>c_db := d, c_saved := None\<rparr>)"
    and "session_stream ((ss_session s)\<lparr>c_db := d, c_saved := None\<rparr>) = rows_stream (rows_at s loc)"
  using assms
  by (fastforce simp: table_at_def rows_at_def store_ok_def db_ok_def session_ok_def
      session_stream_def split: option.splits)

lemma load_connection_result:
  assumes "store_ok H prev C tgt t" and "table_at t loc"
    and on: "on_connection loc (load_from_connection H i) t = (r, s')"
  shows "store_ok H prev C tgt s' \<and> rows_at s' = rows_at t \<and> (\<forall>l. table_at t l \<longrightarrow> table_at s' l) \<and>
    (\<forall>a. r = Inr a \<longrightarrow> a = from_shared_events i (rows_stream (rows_at t loc) i))"
proof -
  obtain d where d: "ss_databases t loc = Some d" "schema_ok d"
    "session_ok H prev ((ss_session t)\<lparr>c_db := d, c_saved := None\<rparr>)"
    "session_stream ((ss_session t)\<lparr>c_db := d, c_saved := None\<rparr>) = rows_stream (rows_at t loc)"
    using session_of_connection [OF assms(1,2)] by blast
  have silent: "silent H prev C tgt (\<lambda>_. True) (on_connection loc (load_from_connection H i)) (\<lambda>_ _. True)"
    by (intro silent_on_connection conn_idle_quiet idle_intros)
  note K = silentD [OF silent assms(1) _ on]
  from on d(1) obtain se where "load_from_connection H i ((ss_session t)\<lparr>c_db := d, c_saved := None\<rparr>) = (r, se)"
    by (auto simp: on_connection_def split: prod.splits)
  from load_from_connection_outcome [OF d(3) this] d(4) K(1,2,4) show ?thesis by auto
qed

lemma load_aggregate_result:
  assumes ok: "store_ok H prev C tgt s" and run: "load_aggregate H S C i s = (r, s')"
  shows "store_ok H prev C tgt s' \<and> rows_at s' = rows_at s \<and>
    (\<forall>a. r = Inr a \<longrightarrow> a = from_shared_events i (store_stream S tgt s i))"
proof (cases "ps_partition_for S i")
  case (Inl e)
  with run ok show ?thesis by (auto simp: load_aggregate_def seq_result_def give_def)
next
  case (Inr p)
  with run have "seq_result (open_partition_if_exists H C p) (\<lambda>conn.
       case conn of
         None \<Rightarrow> give (Inr (aggregate_empty i))
       | Some loc \<Rightarrow> on_connection loc (load_from_connection H i)) s = (r, s')"
    by (simp add: load_aggregate_def give_def)
  then show ?thesis
  proof (cases rule: seq_result_cases)
    case (stop e)
    with open_partition_if_exists_result [OF ok stop(1)] show ?thesis by simp
  next
    case (run conn t)
    note O = open_partition_if_exists_result [OF ok run(1)]
    show ?thesis
    proof (cases conn)
      case None
      with run(2) O Inr show ?thesis
        by (auto simp: give_iff store_stream_def from_shared_events_def aggregate_empty_def
            stream_revision_def)
    next
      case (Some loc)
      with O have t: "store_ok H prev C tgt t" "rows_at t = rows_at s" "loc = At (tgt p)" "table_at t loc"
        by auto
      from run(2) Some have "on_connection loc (load_from_connection H i) t = (r, s')" by simp
      from load_connection_result [OF t(1,4) this] t(2,3) show ?thesis
        by (auto simp: store_stream_def Inr)
    qed
  qed
qed

text \<open>What one publish of the store promises; \<open>slept\<close> is the list of its waits between attempts.\<close>

definition store_published ::
  "'g host \<Rightarrow> ('g \<Rightarrow> ulid) \<Rightarrow> ('p, 'g) catalog \<Rightarrow> ('p \<Rightarrow> database_target) \<Rightarrow> 'p \<Rightarrow> aggregate_id \<Rightarrow>
    publish_options \<Rightarrow> raw_event list \<Rightarrow> ('p, 'g) sqlite_store \<Rightarrow> sqlite_error + change_set \<Rightarrow>
    ('p, 'g) sqlite_store \<Rightarrow> bool" where
  "store_published H prev C tgt p i opts raws s r s' \<longleftrightarrow>
     store_ok H prev C tgt s' \<and>
     (case r of
        Inl e \<Rightarrow> rows_at s' = rows_at s
      | Inr cs \<Rightarrow>
          (\<forall>loc. loc \<noteq> At (tgt p) \<longrightarrow> rows_at s' loc = rows_at s loc) \<and>
          rows_stream (rows_at s' (At (tgt p))) =
            (rows_stream (rows_at s (At (tgt p))))(i := rows_stream (rows_at s (At (tgt p))) i @ cs_events cs) \<and>
          list_all2 (records opts) raws (cs_events cs) \<and> cs_aggregate_id cs = i \<and>
          cs_revision cs = stream_revision (rows_stream (rows_at s' (At (tgt p))) i) \<and>
          (raws \<noteq> [] \<longrightarrow>
             expected_revision opts \<in> {None, Some (stream_revision (rows_stream (rows_at s (At (tgt p))) i))}))"

lemma store_published_cong:
  "rows_at t = rows_at s \<Longrightarrow>
    store_published H prev C tgt p i opts raws t r s' = store_published H prev C tgt p i opts raws s r s'"
  by (cases r) (simp_all add: store_published_def)

lemma only_events_schema_ok:
  assumes "d'\<lparr>tbl_events := tbl_events d\<rparr> = d" and "schema_ok d" and "tbl_events d' \<noteq> None"
  shows "schema_ok d'"
proof -
  have "tbl_schema_versions d = tbl_schema_versions (d'\<lparr>tbl_events := tbl_events d\<rparr>)"
    "tbl_partition_metadata d = tbl_partition_metadata (d'\<lparr>tbl_events := tbl_events d\<rparr>)"
    using assms(1) by simp_all
  with assms(2,3) show ?thesis by (simp add: schema_ok_def schema_version_def)
qed

lemma publish_connection_result:
  assumes t: "store_ok H prev C tgt t" "table_at t loc" and loc: "loc = At (tgt p)"
    and run: "on_connection loc (publish_with_connection H i opts raws) t = (r, s')"
  shows "store_published H prev C tgt p i opts raws t r s'" and "table_at t l \<Longrightarrow> table_at s' l"
proof -
  obtain d where d: "ss_databases t loc = Some d" "schema_ok d"
    "session_ok H prev ((ss_session t)\<lparr>c_db := d, c_saved := None\<rparr>)"
    "session_stream ((ss_session t)\<lparr>c_db := d, c_saved := None\<rparr>) = rows_stream (rows_at t loc)"
    using session_of_connection [OF t] by blast
  let ?c = "(ss_session t)\<lparr>c_db := d, c_saved := None\<rparr>"
  from run d(1) obtain se where se: "publish_with_connection H i opts raws ?c = (r, se)"
    "s' = t\<lparr>ss_session := se, ss_databases := (ss_databases t)(loc \<mapsto> c_db (rollback se))\<rparr>"
    by (auto simp: on_connection_def split: prod.splits)
  from publish_with_connection_outcome [OF d(3) se(1)]
  have out: "publish_outcome H prev i opts raws ?c r se" by simp
  then have sok: "session_ok H prev se" by (simp add: publish_outcome_def)
  then have roll: "rollback se = se" by (simp add: session_ok_def)
  from sok obtain rows where rows: "tbl_events (c_db se) = Some rows" "rows_inv (h_ulid H) rows"
    by (auto simp: session_ok_def)
  have stream: "session_stream se = rows_stream (rows_at s' loc)"
    by (simp add: se(2) roll session_stream_def rows_at_def db_rows_def)
  have other: "rows_at s' l = rows_at t l" if "l \<noteq> loc" for l
    using that by (simp add: se(2) rows_at_def)
  have "schema_ok (c_db se)"
  proof (cases r)
    case (Inl e)
    with out d(2) show ?thesis by (simp add: publish_outcome_def)
  next
    case (Inr cs)
    with out have "(c_db se)\<lparr>tbl_events := tbl_events d\<rparr> = d" by (simp add: publish_outcome_def)
    from only_events_schema_ok [OF this d(2)] rows(1) show ?thesis by simp
  qed
  with t(1) rows have "store_ok H prev C tgt s'"
    by (auto simp: store_ok_def se(2) roll db_ok_def connections_ok_def table_at_def
        split: if_splits option.splits)
  moreover have "rows_at s' = rows_at t" if "r = Inl e" for e
    using that out d(1) by (auto simp: publish_outcome_def se(2) roll rows_at_def fun_eq_iff)
  ultimately show "store_published H prev C tgt p i opts raws t r s'"
    using out stream d(4) other loc
    by (cases r) (simp_all add: store_published_def publish_outcome_def)
  show "table_at s' l" if "table_at t l"
    using that rows(1) by (simp add: table_at_def se(2) roll)
qed

lemma publish_in_partition_result:
  assumes ok: "store_ok H prev C tgt s" and run: "publish_in_partition H C p i opts raws s = (r, s')"
  shows "store_published H prev C tgt p i opts raws s r s'"
  using run unfolding publish_in_partition_def
proof (cases rule: seq_result_cases)
  case (stop e)
  with ensure_partition_open_result [OF ok stop(1)] show ?thesis by (simp add: store_published_def)
next
  case (run loc t)
  from ensure_partition_open_result [OF ok run(1)]
  have t: "store_ok H prev C tgt t" "rows_at t = rows_at s" "loc = At (tgt p)" "table_at t loc" by auto
  from publish_connection_result(1) [OF t(1,4,3) run(2)] store_published_cong [OF t(2)]
  show ?thesis by metis
qed

lemma map_of_filter_key: "map_of (filter (\<lambda>(q, _). q \<noteq> p) xs) q = (if q = p then None else map_of xs q)"
  by (induction xs) auto

lemma between_same:
  "rows_at (forget_connection p s) = rows_at s" "table_at (forget_connection p s) = table_at s"
  "rows_at (store_sleep ms s) = rows_at s" "table_at (store_sleep ms s) = table_at s"
  by (simp_all add: fun_eq_iff rows_at_def table_at_def store_sleep_def forget_connection_def)

lemma store_ok_forget: "store_ok H prev C tgt s \<Longrightarrow> store_ok H prev C tgt (forget_connection p s)"
  by (auto simp: store_ok_def forget_connection_def connections_ok_def table_at_def map_of_filter_key
      split: if_splits)

lemma store_ok_sleep: "store_ok H prev C tgt s \<Longrightarrow> store_ok H prev C tgt (store_sleep ms s)"
  by (auto simp: store_ok_def store_sleep_def connections_ok_def table_at_def)

lemma store_ok_between:
  "store_ok H prev C tgt s \<Longrightarrow> store_ok H prev C tgt (store_sleep ms (forget_connection p s))"
  by (intro store_ok_sleep store_ok_forget)

lemma rows_at_between [simp]: "rows_at (store_sleep ms (forget_connection p s)) = rows_at s"
  by (simp add: between_same)

lemma publish_loop_result:
  assumes "store_ok H prev C tgt s" and "publish_loop H C p i opts raws n s = (r, s')"
  shows "store_published H prev C tgt p i opts raws s r s'"
  using assms
proof (induction n arbitrary: s)
  case 0
  then show ?case by (auto simp: store_published_def)
next
  case (Suc n)
  obtain q t where q: "publish_in_partition H C p i opts raws s = (q, t)" by fastforce
  note P = publish_in_partition_result [OF Suc.prems(1) q]
  show ?case
  proof (cases "\<exists>e. q = Inl e \<and> is_lazy_create_partition_not_ready e \<and> 0 < n")
    case True
    then obtain e where e: "q = Inl e" "is_lazy_create_partition_not_ready e" "0 < n" by blast
    let ?t = "store_sleep LAZY_CREATE_PARTITION_READY_DELAY_MS (forget_connection p t)"
    from Suc.prems(2) q e have "publish_loop H C p i opts raws n ?t = (r, s')" by simp
    from P e have t: "store_ok H prev C tgt t" "rows_at ?t = rows_at s"
      by (simp_all add: store_published_def)
    from Suc.IH [OF store_ok_between [OF t(1)]] \<open>publish_loop H C p i opts raws n ?t = (r, s')\<close>
    have "store_published H prev C tgt p i opts raws ?t r s'" .
    then show ?thesis using store_published_cong [OF t(2)] by metis
  next
    case False
    with Suc.prems(2) q have "r = q" "s' = t" by (auto split: sum.splits if_splits)
    with P show ?thesis by simp
  qed
qed

lemma publish_to_aggregate_result:
  assumes ok: "store_ok H prev C tgt s" and run: "publish_to_aggregate H S C i opts raws s = (r, s')"
  shows "(\<exists>e. ps_partition_for S i = Inl e \<and> r = Inl e \<and> s' = s) \<or>
    (\<exists>p. ps_partition_for S i = Inr p \<and> store_published H prev C tgt p i opts raws s r s')"
  using run publish_loop_result [OF ok]
  by (cases "ps_partition_for S i") (auto simp: publish_to_aggregate_def seq_result_def give_def)

text \<open>The store keeps the contract of \<open>EventStore\<close>.\<close>

lemma sqlite_load_cases:
  assumes "st_load (sqlite_ops H S C) s i = (l, s')"
  obtains r where "load_aggregate H S C i s = (r, s')" and "l = map_err error_from_sqlite r"
  using assms by (cases "load_aggregate H S C i s") (auto simp: sqlite_ops_def seq_err_def)

lemma sqlite_publish_cases:
  assumes "st_publish (sqlite_ops H S C) s i opts raws = (q, s')"
  obtains r where "publish_to_aggregate H S C i opts raws s = (r, s')" and "q = map_err error_from_sqlite r"
  using assms by (cases "publish_to_aggregate H S C i opts raws s") (auto simp: sqlite_ops_def seq_err_def)

lemma store_stream_cong: "rows_at s' = rows_at s \<Longrightarrow> store_stream S tgt s' = store_stream S tgt s"
  by (simp add: fun_eq_iff store_stream_def split: sum.splits)

lemma store_stream_published:
  assumes "ps_partition_for S i = Inr p" and "store_published H prev C tgt p i opts raws s (Inr cs) s'"
  shows "store_stream S tgt s' = (store_stream S tgt s)(i := store_stream S tgt s i @ cs_events cs)"
proof
  fix j
  show "store_stream S tgt s' j = ((store_stream S tgt s)(i := store_stream S tgt s i @ cs_events cs)) j"
  proof (cases "ps_partition_for S j")
    case (Inr q)
    show ?thesis
    proof (cases "tgt q = tgt p")
      case True
      have "rows_stream (rows_at s' (At (tgt p))) j =
          ((rows_stream (rows_at s (At (tgt p))))(i := rows_stream (rows_at s (At (tgt p))) i @ cs_events cs)) j"
        using assms(2) by (simp add: store_published_def)
      with True Inr assms(1) show ?thesis by (simp add: store_stream_def)
    next
      case False
      with assms(2) have "rows_at s' (At (tgt q)) = rows_at s (At (tgt q))"
        by (simp add: store_published_def)
      with False Inr assms(1) show ?thesis by (auto simp: store_stream_def)
    qed
  next
    case (Inl e)
    with assms(1) show ?thesis by (auto simp: store_stream_def)
  qed
qed

lemma rows_at_inv: "store_ok H prev C tgt s \<Longrightarrow> rows_inv (h_ulid H) (rows_at s loc)"
  by (auto simp: store_ok_def db_ok_def rows_at_def split: option.splits)

interpretation sqlite: event_store "sqlite_ops H S C" "store_ok H prev C tgt" "store_stream S tgt"
  for H S C prev tgt
proof unfold_locales
  fix s i l s'
  assume ok: "store_ok H prev C tgt s" and "st_load (sqlite_ops H S C) s i = (l, s')"
  from this(2) obtain r where "load_aggregate H S C i s = (r, s')" by (rule sqlite_load_cases)
  from load_aggregate_result [OF ok this]
  show "store_ok H prev C tgt s' \<and> store_stream S tgt s' = store_stream S tgt s"
    using store_stream_cong [of s' s] by simp
next
  fix s i a s'
  assume ok: "store_ok H prev C tgt s" and "st_load (sqlite_ops H S C) s i = (Inr a, s')"
  from this(2) obtain r where r: "load_aggregate H S C i s = (r, s')" "Inr a = map_err error_from_sqlite r"
    by (rule sqlite_load_cases)
  from load_aggregate_result [OF ok r(1)] r(2)
  show "a = from_shared_events i (store_stream S tgt s i)" by (cases r) auto
next
  fix s i opts raws q s'
  assume ok: "store_ok H prev C tgt s" and "st_publish (sqlite_ops H S C) s i opts raws = (q, s')"
  from this(2) obtain r where "publish_to_aggregate H S C i opts raws s = (r, s')"
    by (rule sqlite_publish_cases)
  from publish_to_aggregate_result [OF ok this] ok show "store_ok H prev C tgt s'"
    by (auto simp: store_published_def)
next
  fix s i opts raws e s'
  assume ok: "store_ok H prev C tgt s" and "st_publish (sqlite_ops H S C) s i opts raws = (Inl e, s')"
  from this(2) obtain r where r: "publish_to_aggregate H S C i opts raws s = (r, s')"
    "Inl e = map_err error_from_sqlite r" by (rule sqlite_publish_cases)
  from publish_to_aggregate_result [OF ok r(1)] r(2)
  show "store_stream S tgt s' = store_stream S tgt s"
    using store_stream_cong [of s' s] by (cases r) (auto simp: store_published_def)
next
  fix s i opts raws cs s'
  assume ok: "store_ok H prev C tgt s" and "st_publish (sqlite_ops H S C) s i opts raws = (Inr cs, s')"
  from this(2) obtain r where r: "publish_to_aggregate H S C i opts raws s = (r, s')"
    "Inr cs = map_err error_from_sqlite r" by (rule sqlite_publish_cases)
  from r(2) have "r = Inr cs" by (cases r) auto
  with publish_to_aggregate_result [OF ok r(1)] obtain p where
    "ps_partition_for S i = Inr p" "store_published H prev C tgt p i opts raws s (Inr cs) s'" by auto
  with store_stream_published [OF this]
  show "store_stream S tgt s' = (store_stream S tgt s)(i := store_stream S tgt s i @ cs_events cs) \<and>
      list_all2 (records opts) raws (cs_events cs) \<and>
      cs_aggregate_id cs = i \<and> cs_revision cs = stream_revision (store_stream S tgt s' i)"
    by (auto simp: store_published_def store_stream_def)
next
  fix s i opts raws cs s' x
  assume ok: "store_ok H prev C tgt s" and "st_publish (sqlite_ops H S C) s i opts raws = (Inr cs, s')"
    and hyps: "raws \<noteq> []" "expected_revision opts = Some x"
  from this(2) obtain r where r: "publish_to_aggregate H S C i opts raws s = (r, s')"
    "Inr cs = map_err error_from_sqlite r" by (rule sqlite_publish_cases)
  from r(2) have "r = Inr cs" by (cases r) auto
  with publish_to_aggregate_result [OF ok r(1)] hyps
  show "x = stream_revision (store_stream S tgt s i)"
    by (auto simp: store_published_def store_stream_def)
next
  fix s i
  assume "store_ok H prev C tgt s"
  then show "strictly_increasing (revisions (store_stream S tgt s i))"
    by (simp add: store_stream_def sorted_revisions [OF rows_at_inv] split: sum.splits)
next
  fix s i v
  assume "store_ok H prev C tgt s" and "v \<in> set (revisions (store_stream S tgt s i))"
  then show "revision_zero < v"
    by (auto simp: store_stream_def store_ok_def revision_zero_less split: sum.splits
        dest!: stream_rev_ulid [OF rows_at_inv, rotated])
qed

section \<open>The retry loop is bounded\<close>

text \<open>A call that touches the connection only: what a session keeps beside it stays.\<close>

definition conn_bare :: "('x, 'a) sql \<Rightarrow> bool" where
  "conn_bare f \<longleftrightarrow> (\<forall>c r c'. f c = (r, c') \<longrightarrow> conn.more c' = conn.more c)"

named_theorems bare_intros

lemma bare_statement [bare_intros]: "conn_bare (statement H f)"
  by (auto simp: conn_bare_def statement_def Let_def split: option.splits prod.splits sum.splits)

lemma bare_give [bare_intros]: "conn_bare (give r)"
  by (simp add: conn_bare_def give_iff)

lemma bare_seq [bare_intros]:
  assumes "conn_bare m" and "\<And>a. conn_bare (f a)"
  shows "conn_bare (seq_result m f)"
  unfolding conn_bare_def
proof (intro allI impI)
  fix c r c'
  assume "seq_result m f c = (r, c')"
  then show "conn.more c' = conn.more c"
    by (cases rule: seq_result_cases) (use assms in \<open>auto simp: conn_bare_def\<close>)
qed

lemma bare_update [bare_intros]:
  "conn_bare f \<Longrightarrow> conn_bare (\<lambda>c. f (c\<lparr>c_busy_timeout_ms := ms\<rparr>))"
  "conn_bare f \<Longrightarrow> conn_bare (\<lambda>c. f (c\<lparr>c_foreign_keys := b\<rparr>))"
  "conn_bare f \<Longrightarrow> conn_bare (\<lambda>c. f (c\<lparr>c_db := D (c_db c)\<rparr>))"
  by (fastforce simp: conn_bare_def)+

lemma bare_split [bare_intros]:
  "conn_bare f \<Longrightarrow> conn_bare g \<Longrightarrow> conn_bare (if b then f else g)"
  "conn_bare f \<Longrightarrow> (\<And>a. conn_bare (h a)) \<Longrightarrow> conn_bare (case x of None \<Rightarrow> f | Some a \<Rightarrow> h a)"
  by (simp, cases x) simp_all

lemma bare_transaction [bare_intros]: "conn_bare (begin_transaction H)" "conn_bare (commit H)"
  by (auto simp: conn_bare_def begin_transaction_def commit_def statement_def Let_def
      split: option.splits)

lemma bare_open [bare_intros]: "conn_bare (open_event_store_connection H target)"
proof -
  have "conn_bare (prepare_local_connection H)"
    unfolding prepare_local_connection_def query_required_string_def by (intro bare_intros)
  moreover have "conn_bare (migrate_event_store H)"
    unfolding migrate_event_store_def migrate_schema_def current_schema_version_def query_def
      upsert_version_def by (intro bare_intros)
  ultimately show ?thesis
    unfolding open_event_store_connection_def connect_def
    by (cases target) (auto intro!: bare_intros)
qed

lemma bare_ensure_partition_name [bare_intros]: "conn_bare (ensure_partition_name H name)"
  unfolding ensure_partition_name_def insert_partition_name_def load_partition_name_def query_def
  by (intro bare_intros)

lemma bare_sleeps:
  assumes "conn_bare f" and "f c = (r, c')"
  shows "se_sleeps c' = se_sleeps c"
proof -
  have "conn.more c' = conn.more c" using assms by (simp add: conn_bare_def)
  then show ?thesis by (cases c; cases c') simp
qed

definition store_slept :: "('p, 'g) sqlite_store \<Rightarrow> ('p, 'g) sqlite_store \<Rightarrow> nat \<Rightarrow> nat \<Rightarrow> bool" where
  "store_slept s s' = slept (ss_session s) (ss_session s')"

lemma store_slept_trans:
  "store_slept s t m a \<Longrightarrow> store_slept t u n b \<Longrightarrow> m + n \<le> k \<Longrightarrow> a + b \<le> c \<Longrightarrow> store_slept s u k c"
  unfolding store_slept_def by (rule slept_trans)

lemma se_sleeps_rollback [simp]: "se_sleeps (rollback c) = se_sleeps c"
  by (simp add: rollback_def split: option.splits)

lemma on_connection_sleeps:
  assumes "on_connection loc f s = (r, s')" and "conn_bare f"
  shows "se_sleeps (ss_session s') = se_sleeps (ss_session s)"
  using assms(1) bare_sleeps [OF assms(2)]
  by (fastforce simp: on_connection_def Let_def split: prod.splits)

lemma open_target_sleeps:
  assumes "open_target H target s = (r, s')"
  shows "se_sleeps (ss_session s') = se_sleeps (ss_session s)"
  using assms bare_sleeps [OF bare_open] by (fastforce simp: open_target_def Let_def split: prod.splits)

lemma connect_partition_sleeps:
  assumes "connect_partition H C p target s = (r, s')"
  shows "se_sleeps (ss_session s') = se_sleeps (ss_session s)"
  using assms unfolding connect_partition_def
proof (cases rule: seq_result_cases)
  case (run loc t)
  have prep: "se_sleeps (ss_session u) = se_sleeps (ss_session t)"
    if "prepare_connection_for_partition H C p loc t = (q, u)" for q u
    using that on_connection_sleeps [OF _ bare_ensure_partition_name]
    unfolding prepare_connection_for_partition_def
    by (cases "cat_prepare C p") (simp_all add: give_iff, blast)
  from run(2) show ?thesis
    by (cases rule: seq_result_cases) (use open_target_sleeps [OF run(1)] prep in fastforce)+
qed (use open_target_sleeps in blast)

lemma ensure_partition_open_sleeps:
  assumes "ensure_partition_open H C p s = (r, s')"
  shows "se_sleeps (ss_session s') = se_sleeps (ss_session s)"
  using assms
  by (auto simp: ensure_partition_open_def seq_result_def give_def
      split: option.splits sum.splits dest: connect_partition_sleeps)

lemma publish_in_partition_slept:
  assumes ok: "store_ok H prev C tgt s" and run: "publish_in_partition H C p i opts raws s = (r, s')"
  shows "store_slept s s' 45 20640"
  using run unfolding publish_in_partition_def
proof (cases rule: seq_result_cases)
  case (stop e)
  with ensure_partition_open_sleeps [OF stop(1)] show ?thesis by (simp add: store_slept_def slept_cong)
next
  case (run loc t)
  from ensure_partition_open_result [OF ok run(1)]
  have t: "store_ok H prev C tgt t" "table_at t loc" by auto
  obtain d where d: "ss_databases t loc = Some d"
    "session_ok H prev ((ss_session t)\<lparr>c_db := d, c_saved := None\<rparr>)"
    using session_of_connection [OF t] by blast
  from run(2) d(1) obtain se where
    se: "publish_with_connection H i opts raws ((ss_session t)\<lparr>c_db := d, c_saved := None\<rparr>) = (r, se)"
      "ss_session s' = se" by (auto simp: on_connection_def split: prod.splits)
  from publish_with_connection_outcome [OF d(2) se(1)] se(2) ensure_partition_open_sleeps [OF run(1)]
  show ?thesis by (simp add: store_slept_def slept_def)
qed

lemma publish_loop_slept:
  assumes "store_ok H prev C tgt s" and "publish_loop H C p i opts raws (Suc n) s = (r, s')"
  shows "store_slept s s' (46 * n + 45) (21640 * n + 20640) \<and>
    (\<exists>t. publish_in_partition H C p i opts raws t = (r, s'))"
  using assms
proof (induction n arbitrary: s)
  case 0
  then obtain q t where q: "publish_in_partition H C p i opts raws s = (q, t)" "q = r" "t = s'"
    by (auto split: prod.splits sum.splits)
  with publish_in_partition_slept [OF 0(1) q(1)] show ?case by auto
next
  case (Suc n)
  obtain q t where q: "publish_in_partition H C p i opts raws s = (q, t)" by fastforce
  note P = publish_in_partition_slept [OF Suc.prems(1) q]
  show ?case
  proof (cases "\<exists>e. q = Inl e \<and> is_lazy_create_partition_not_ready e")
    case True
    then obtain e where e: "q = Inl e" "is_lazy_create_partition_not_ready e" by blast
    let ?t = "store_sleep LAZY_CREATE_PARTITION_READY_DELAY_MS (forget_connection p t)"
    from Suc.prems(2) q e have loop: "publish_loop H C p i opts raws (Suc n) ?t = (r, s')" by simp
    have "store_ok H prev C tgt t"
      using publish_in_partition_result [OF Suc.prems(1) q] by (simp add: store_published_def)
    from Suc.IH [OF store_ok_between [OF this] loop]
    have IH: "store_slept ?t s' (46 * n + 45) (21640 * n + 20640)"
      "\<exists>t. publish_in_partition H C p i opts raws t = (r, s')" by blast+
    have "store_slept t ?t 1 1000"
      by (simp add: store_slept_def slept_def store_sleep_def forget_connection_def
          LAZY_CREATE_PARTITION_READY_DELAY_MS_def)
    from store_slept_trans [OF this IH(1)]
    have "store_slept t s' (46 * n + 46) (21640 * n + 21640)" by simp
    from store_slept_trans [OF P this]
    have "store_slept s s' (46 * Suc n + 45) (21640 * Suc n + 20640)" by simp
    with IH(2) show ?thesis by blast
  next
    case False
    with Suc.prems(2) q have r: "q = r" "t = s'" by (auto split: sum.splits if_splits)
    have "store_slept t t 0 0" by (simp add: store_slept_def)
    from store_slept_trans [OF P this] r
    have "store_slept s s' (46 * Suc n + 45) (21640 * Suc n + 20640)" by simp
    with q r show ?thesis by blast
  qed
qed

section \<open>Enumeration\<close>

text \<open>The aggregates that a read plan finds in the rows of its partition.\<close>

fun listed :: "partition_read \<Rightarrow> event_row list \<Rightarrow> aggregate_id set" where
  "listed ScanAll rows = row_aggregate ` set rows"
| "listed (ScanType t) rows = {i. i \<in> row_aggregate ` set rows \<and> aggregate_type i = t}"
| "listed (Direct i) rows = {i}"
| "listed Skip rows = {}"

lemma set_distinct_values [simp]: "set (distinct_values xs) = set xs"
  by (simp add: distinct_values_def)

lemma enumerate_all_Inr:
  "enumerate_all_from_connection H c = (Inr ids, c') \<Longrightarrow> set ids = row_aggregate ` set (db_rows (c_db c))"
  unfolding enumerate_all_from_connection_def
  by (auto simp: result_simps row_aggregate_def image_image)

lemma enumerate_by_type_Inr:
  assumes "enumerate_by_type_from_connection H t c = (Inr ids, c')"
  shows "set ids = {i. i \<in> row_aggregate ` set (db_rows (c_db c)) \<and> aggregate_type i = t}"
proof -
  from assms obtain rows where rows: "tbl_events (c_db c) = Some rows"
    "set ids = (\<lambda>r. aggregate_id_new (aggregate_type_str t) (row_aggregate_key r)) `
       {r \<in> set rows. row_aggregate_type r = aggregate_type_str t}"
    unfolding enumerate_by_type_from_connection_def by (auto simp: result_simps image_image)
  have "aggregate_type (row_aggregate r) = t \<longleftrightarrow> row_aggregate_type r = aggregate_type_str t" for r
    by (cases t) (auto simp: row_aggregate_def aggregate_id_new_def)
  moreover have "aggregate_id_new (aggregate_type_str t) (row_aggregate_key r) = row_aggregate r"
    if "row_aggregate_type r = aggregate_type_str t" for r
    using that by (simp add: row_aggregate_def)
  ultimately show ?thesis using rows by (auto simp: image_iff)
qed

lemma scan_connection:
  assumes ok: "store_ok H prev C tgt s" and tab: "table_at s loc"
    and run: "on_connection loc f s = (r, s')" and quiet: "conn_quiet f"
    and found: "\<And>c ids c'. f c = (Inr ids, c') \<Longrightarrow> set ids = g (db_rows (c_db c))"
  shows "store_ok H prev C tgt s' \<and> rows_at s' = rows_at s \<and>
    (\<forall>ids. r = Inr ids \<longrightarrow> set ids = g (rows_at s loc))"
proof -
  from tab obtain d where d: "ss_databases s loc = Some d" by (auto simp: table_at_def split: option.splits)
  with run obtain se where "f ((ss_session s)\<lparr>c_db := d, c_saved := None\<rparr>) = (r, se)"
    by (auto simp: on_connection_def split: prod.splits)
  with found have "\<forall>ids. r = Inr ids \<longrightarrow> set ids = g (rows_at s loc)"
    using d by (fastforce simp: rows_at_def)
  with silentD(1,2) [OF silent_on_connection [OF quiet] ok _ run] show ?thesis by simp
qed

lemma enumerate_partition_result:
  assumes ok: "store_ok H prev C tgt s" and run: "enumerate_partition H C (p, plan) s = (r, s')"
  shows "store_ok H prev C tgt s' \<and> rows_at s' = rows_at s \<and>
    (\<forall>ids. r = Inr ids \<longrightarrow> set ids = listed plan (rows_at s (At (tgt p))))"
proof -
  have scan: ?thesis
    if f: "seq_result (open_partition_if_exists H C p) (\<lambda>conn.
        case conn of None \<Rightarrow> give (Inr []) | Some loc \<Rightarrow> on_connection loc f) s = (r, s')"
      and quiet: "conn_quiet f"
      and found: "\<And>c ids c'. f c = (Inr ids, c') \<Longrightarrow> set ids = listed plan (db_rows (c_db c))"
      and empty: "listed plan [] = {}" for f
    using f
  proof (cases rule: seq_result_cases)
    case (stop e)
    with open_partition_if_exists_result [OF ok stop(1)] show ?thesis by simp
  next
    case (run conn t)
    note O = open_partition_if_exists_result [OF ok run(1)]
    show ?thesis
    proof (cases conn)
      case None
      with O run(2) empty show ?thesis by (auto simp: give_iff)
    next
      case (Some loc)
      with O have t: "store_ok H prev C tgt t" "rows_at t = rows_at s" "loc = At (tgt p)" "table_at t loc"
        by auto
      from scan_connection [where g = "listed plan", OF t(1,4) _ quiet found] run(2) Some t(2,3) show ?thesis by simp
    qed
  qed
  show ?thesis
  proof (cases plan)
    case ScanAll
    with run show ?thesis
      by (intro scan [of "enumerate_all_from_connection H"])
        (auto simp: enumerate_partition_def enumerate_all_Inr intro!: conn_idle_quiet idle_intros)
  next
    case (ScanType t)
    with run show ?thesis
      by (intro scan [of "enumerate_by_type_from_connection H t"])
        (auto simp: enumerate_partition_def enumerate_by_type_Inr intro!: conn_idle_quiet idle_intros)
  qed (use run ok in \<open>auto simp: enumerate_partition_def give_iff\<close>)
qed

lemma enumerate_partitions_result:
  assumes "store_ok H prev C tgt s"
    and "collect_actions (enumerate_partition H C) (map (\<lambda>p. (p, plan p)) ps) s = (r, s')"
  shows "store_ok H prev C tgt s' \<and> rows_at s' = rows_at s \<and>
    (\<forall>idss. r = Inr idss \<longrightarrow>
       set (concat idss) = (\<Union>p\<in>set ps. listed (plan p) (rows_at s (At (tgt p)))))"
  using assms
proof (induction ps arbitrary: s r s')
  case Nil
  then show ?case by (auto simp: give_iff)
next
  case (Cons p ps)
  from Cons.prems(2) have "seq_result (enumerate_partition H C (p, plan p)) (\<lambda>y.
      seq_result (collect_actions (enumerate_partition H C) (map (\<lambda>p. (p, plan p)) ps))
        (\<lambda>ys. give (Inr (y # ys)))) s = (r, s')" by simp
  then show ?case
  proof (cases rule: seq_result_cases)
    case (stop e)
    with enumerate_partition_result [OF Cons.prems(1) stop(1)] show ?thesis by simp
  next
    case (run ids t)
    note E = enumerate_partition_result [OF Cons.prems(1) run(1)]
    from run(2) show ?thesis
    proof (cases rule: seq_result_cases)
      case (stop e)
      with E Cons.IH [OF _ stop(1)] show ?thesis by simp
    next
      case (run idss u)
      with E Cons.IH [OF _ run(1)] show ?thesis by (auto simp: give_iff simp del: set_concat)
    qed
  qed
qed

lemma sorted_unique_ids_strict:
  "strictly_increasing (sorted_unique_ids ids) \<and> set (sorted_unique_ids ids) = set ids"
proof -
  have "sorted xs \<Longrightarrow> sorted_wrt (<) (remdups_adj xs)" for xs :: "aggregate_id list"
    by (induction xs rule: remdups_adj.induct) auto
  then show ?thesis by (simp add: sorted_unique_ids_def)
qed

lemma enumerate_with_plan_result:
  assumes "store_ok H prev C tgt s" and "silent H prev C tgt (\<lambda>_. True) (cat_partitions C) (\<lambda>_ _. True)"
    and "all_known_partitions C s = (Inr ps, t)" and "enumerate_with_plan H C plan s = (Inr ids, s')"
  shows "store_ok H prev C tgt s' \<and> rows_at s' = rows_at s \<and> strictly_increasing ids \<and>
    set ids = (\<Union>p\<in>set ps. listed (plan p) (rows_at s (At (tgt p))))"
proof -
  from assms(3) obtain qs where qs: "cat_partitions C s = (Inr qs, t)"
    by (auto simp: all_known_partitions_def result_simps)
  note K = silentD(1,2) [OF assms(2,1) _ qs]
  from assms(3,4) obtain idss where idss:
    "collect_actions (enumerate_partition H C) (map (\<lambda>p. (p, plan p)) ps) t = (Inr idss, s')"
    "ids = sorted_unique_ids (concat idss)"
    by (auto simp: enumerate_with_plan_def result_simps)
  from enumerate_partitions_result [OF K(1) idss(1)] K(2) idss(2) sorted_unique_ids_strict [of "concat idss"]
  show ?thesis by simp
qed

section \<open>Local stores\<close>

text \<open>Where a local catalog puts a partition.\<close>

definition local_target :: "base32 \<Rightarrow> string \<Rightarrow> 'p strategy \<Rightarrow> 'p \<Rightarrow> database_target" where
  "local_target B root S p =
     (case path_for_partition B root S p of Inl _ \<Rightarrow> Local root | Inr path \<Rightarrow> Local path)"

lemma local_catalog_ok: "catalog_ok (local_catalog B ue F root S) (local_target B root S)"
  by (auto simp: catalog_ok_def local_catalog_def local_target_def result_simps
      split: sum.splits option.splits if_splits)

text \<open>Remote stores, on a provisioner that never moves a database.\<close>

definition fixed_target :: "single_provisioner \<Rightarrow> database_target \<Rightarrow> bool" where
  "fixed_target R t \<longleftrightarrow>
     t \<noteq> InMemory \<and> (\<forall>n u. sp_ensure R n = Inr u \<longrightarrow> u = t) \<and>
     (\<forall>n D u. sp_existing R n D = Inr (Some u) \<longrightarrow> u = t) \<and>
     (\<forall>n D d. sp_existing R n D = Inr None \<longrightarrow> D (At t) = Some d \<longrightarrow> db_rows d = [])"

definition fixed_targets :: "named_provisioner \<Rightarrow> (partition_name \<Rightarrow> database_target) \<Rightarrow> bool" where
  "fixed_targets R tgt \<longleftrightarrow>
     (\<forall>x. tgt x \<noteq> InMemory) \<and> (\<forall>n x u. np_ensure R n x = Inr u \<longrightarrow> u = tgt x) \<and>
     (\<forall>n D x u. np_existing R n D x = Inr (Some u) \<longrightarrow> u = tgt x) \<and>
     (\<forall>n D x d. np_existing R n D x = Inr None \<longrightarrow> D (At (tgt x)) = Some d \<longrightarrow> db_rows d = [])"

lemma single_catalog_ok: "fixed_target R t \<Longrightarrow> catalog_ok (single_target_catalog R) (\<lambda>_. t)"
  by (auto simp: catalog_ok_def single_target_catalog_def fixed_target_def)

lemma named_catalog_ok:
  "fixed_targets R tgt \<Longrightarrow> catalog_ok (named_target_catalog H S R) (\<lambda>p. tgt (ps_name S p))"
  by (auto simp: catalog_ok_def named_target_catalog_def fixed_targets_def)

lemma local_partitions_silent:
  "silent H prev C tgt (\<lambda>_. True) (cat_partitions (local_catalog B ue F root S)) (\<lambda>_ _. True)"
  by (auto simp: silent_def local_catalog_def give_iff)

lemma local_store_new:
  assumes "ulid_laws (h_ulid H)" and "monotonic_generator (h_gen H) prev"
  shows "store_ok H prev (local_catalog B ue F root S) (local_target B root S) (from_catalog g e)"
  using assms local_catalog_ok by (simp add: store_ok_def from_catalog_def connections_ok_def)

section \<open>The guarantees\<close>

text \<open>
  C1: publishing through the partitioned store keeps it healthy and touches one stream only. A
  failed publish, whichever partition, connection or retry failed, leaves every stream as it was;
  a successful one appended exactly the batch, with the caller's metadata, to the aggregate's
  stream, against the expected revision if one was given.
\<close>

theorem sqlite_publish_outcomes:
  assumes "store_ok H prev C tgt s" and "st_publish (sqlite_ops H S C) s i opts raws = (r, s')"
  shows "store_ok H prev C tgt s' \<and>
    (case r of
       Inl e \<Rightarrow> store_stream S tgt s' = store_stream S tgt s
     | Inr cs \<Rightarrow>
         store_stream S tgt s' = (store_stream S tgt s)(i := store_stream S tgt s i @ cs_events cs) \<and>
         list_all2 (records opts) raws (cs_events cs) \<and>
         cs_revision cs = stream_revision (store_stream S tgt s' i) \<and>
         (raws \<noteq> [] \<longrightarrow> expected_revision opts \<in> {None, Some (stream_revision (store_stream S tgt s i))} \<and>
            stream_revision (store_stream S tgt s i) < cs_revision cs))"
proof (cases r)
  case (Inl e)
  with sqlite.publish_keeps [OF assms] sqlite.publish_fails [OF assms(1)] assms(2)
  show ?thesis by auto
next
  case (Inr cs)
  with assms(2) have run: "st_publish (sqlite_ops H S C) s i opts raws = (Inr cs, s')" by simp
  from sqlite.publish_expected [OF assms(1) run]
  have "raws \<noteq> [] \<longrightarrow> expected_revision opts \<in> {None, Some (stream_revision (store_stream S tgt s i))}"
    by (cases "expected_revision opts") auto
  with Inr sqlite.publish_keeps [OF assms] sqlite.publish_appends [OF assms(1) run]
    sqlite.publish_advances [OF assms(1) run]
  show ?thesis by simp
qed

text \<open>
  C7: reads see earlier writes. After a successful publish and one more publish of any caller,
  successful or not, a load of the aggregate returns a stream that starts with what the first
  publish left, and exactly that if the second went to another aggregate, even one of the same
  partition.
\<close>

theorem sqlite_read_your_writes:
  assumes "store_ok H prev C tgt s" and "st_publish (sqlite_ops H S C) s i opts raws = (Inr cs, s1)"
    and "st_publish (sqlite_ops H S C) s1 j opts' raws' = (r, s2)"
    and "st_load (sqlite_ops H S C) s2 i = (Inr a, s3)"
  shows "prefix (store_stream S tgt s i @ cs_events cs) (agg_events a) \<and>
    (j \<noteq> i \<longrightarrow> a = from_shared_events i (store_stream S tgt s i @ cs_events cs))"
proof -
  note K = sqlite.publish_keeps [OF assms(1,2)]
  from sqlite.load_reads [OF sqlite.publish_keeps [OF K assms(3)] assms(4)]
  have a: "a = from_shared_events i (store_stream S tgt s2 i)" .
  from sqlite.publish_extends [OF K assms(3), of i] sqlite.publish_appends [OF assms(1,2)]
  have "prefix (store_stream S tgt s i @ cs_events cs) (store_stream S tgt s2 i)" by simp
  moreover have "store_stream S tgt s2 i = store_stream S tgt s1 i" if "j \<noteq> i"
    using that sqlite.publish_appends [OF K] sqlite.publish_fails [OF K] assms(3) by (cases r) auto
  ultimately show ?thesis using a sqlite.publish_appends [OF assms(1,2)]
    by (simp add: from_shared_events_def)
qed

text \<open>
  C15: the retries of a publish are bounded: it sleeps at most 1379 times and at most 648.2
  seconds altogether, and its result is that of one of its at most thirty attempts; the loop
  never falls through to the panic behind it.
\<close>

theorem sqlite_publish_bounded:
  assumes "store_ok H prev C tgt s" and "ps_partition_for S i = Inr p"
    and "publish_to_aggregate H S C i opts raws s = (r, s')"
  shows "(\<exists>ds. se_sleeps (ss_session s') = se_sleeps (ss_session s) @ ds \<and>
      length ds \<le> 1379 \<and> sum_list ds \<le> 648200) \<and>
    (\<exists>t. publish_in_partition H C p i opts raws t = (r, s'))"
proof -
  from assms(2,3) have "publish_loop H C p i opts raws (Suc 29) s = (r, s')"
    by (simp add: publish_to_aggregate_def give_def LAZY_CREATE_PARTITION_READY_ATTEMPTS_def
        del: publish_loop.simps)
  from publish_loop_slept [OF assms(1) this] show ?thesis by (simp add: store_slept_def slept_def)
qed

text \<open>
  C26: enumeration over a local store is exact: it returns, in strictly increasing order, exactly
  the aggregates that the read plans find in the files of the known partitions, and it changes
  no event.
\<close>

theorem local_enumeration_exact:
  assumes "store_ok H prev (local_catalog B ue F root S) (local_target B root S) s"
    and "all_known_partitions (local_catalog B ue F root S) s = (Inr ps, t)"
    and "sqlite_enumerate_aggregates H S (local_catalog B ue F root S) s = (Inr ids, s')"
  shows "strictly_increasing ids \<and>
    set ids = (\<Union>p\<in>set ps. listed (ps_read_plan S p) (rows_at s (At (local_target B root S p)))) \<and>
    store_stream S (local_target B root S) s' = store_stream S (local_target B root S) s"
  using enumerate_with_plan_result [OF assms(1) local_partitions_silent assms(2)]
    assms(3) store_stream_cong [of s' s] by (simp add: sqlite_enumerate_aggregates_def)

section \<open>A store for the witnesses\<close>

definition demo_files :: file_system where
  "demo_files = \<lparr>fs_read_dir = (\<lambda>_ _. Inr []), fs_create_dir_all = (\<lambda>_ _. None)\<rparr>"

definition demo_catalog :: "(global_partition, ulid) catalog" where
  "demo_catalog = local_catalog nibbles (\<lambda>_. ''invalid utf-8'') demo_files ''events.db'' global_strategy"

definition demo_target :: "global_partition \<Rightarrow> database_target" where
  "demo_target = local_target nibbles ''events.db'' global_strategy"

definition demo_store :: "ulid session \<Rightarrow> (global_partition, ulid) sqlite_store" where
  "demo_store se =
     \<lparr>ss_connections = [(GlobalPartition, At (Local ''events.db''))],
      ss_databases = [At (Local ''events.db'') \<mapsto> c_db se], ss_memories = 0,
      ss_session = se, ss_encoding = Json\<rparr>"

lemma demo_target: "demo_target p = Local ''events.db''"
  by (simp add: demo_target_def local_target_def path_for_partition_def global_strategy_def Let_def)

lemma demo_store_ok:
  assumes "session_ok calm_host id se" and "schema_ok (c_db se)"
  shows "store_ok calm_host id demo_catalog demo_target (demo_store se)"
  using assms local_catalog_ok
  by (auto simp: store_ok_def demo_store_def demo_catalog_def demo_target_def [symmetric]
      session_ok_def db_ok_def connections_ok_def demo_target table_at_def split: if_splits)
    (simp add: demo_target_def)

lemma demo_schema_ok: "schema_ok (c_db demo_session)"
  by (simp add: schema_ok_def schema_version_def demo_session_def empty_db_def)

lemma demo_publish_in_partition:
  "publish_in_partition calm_host demo_catalog GlobalPartition demo_id demo_options [demo_raw]
     (demo_store demo_session) = (Inr demo_changes, demo_store demo_published)"
proof -
  have "demo_session\<lparr>c_db := c_db demo_session, c_saved := None\<rparr> = demo_session"
    by (simp add: demo_session_def)
  moreover have "rollback demo_published = demo_published"
    by (simp add: demo_published_def demo_session_def)
  ultimately show ?thesis
    by (simp add: publish_in_partition_def ensure_partition_open_def seq_result_def demo_store_def
        on_connection_def demo_publish)
qed

lemma demo_store_publish:
  "publish_to_aggregate calm_host global_strategy demo_catalog demo_id demo_options [demo_raw]
     (demo_store demo_session) = (Inr demo_changes, demo_store demo_published)"
proof -
  have "publish_loop calm_host demo_catalog GlobalPartition demo_id demo_options [demo_raw] (Suc n)
      (demo_store demo_session) = (Inr demo_changes, demo_store demo_published)" for n
    by (simp add: demo_publish_in_partition)
  from this [of 29] show ?thesis
    by (simp add: publish_to_aggregate_def give_def global_strategy_def Let_def
        LAZY_CREATE_PARTITION_READY_ATTEMPTS_def del: publish_loop.simps)
qed

lemma demo_st_publish:
  "st_publish (sqlite_ops calm_host global_strategy demo_catalog) (demo_store demo_session) demo_id
     demo_options [demo_raw] = (Inr demo_changes, demo_store demo_published)"
  by (simp add: sqlite_ops_def seq_err_def demo_store_publish)

lemmas demo_start_ok = demo_store_ok [OF demo_session_ok demo_schema_ok]

theorem sqlite_publish_outcomes_witness:
  "store_stream global_strategy demo_target (demo_store demo_published) demo_id =
     store_stream global_strategy demo_target (demo_store demo_session) demo_id @ cs_events demo_changes"
  using sqlite_publish_outcomes [OF demo_start_ok demo_st_publish] by simp

theorem sqlite_publish_bounded_witness:
  "\<exists>ds. se_sleeps demo_published = se_sleeps demo_session @ ds \<and> length ds \<le> 1379"
  using sqlite_publish_bounded [OF demo_start_ok _ demo_store_publish, of GlobalPartition]
  by (auto simp: global_strategy_def Let_def demo_store_def)

lemma demo_load_connection:
  assumes "session_ok calm_host id se"
  shows "load_from_connection calm_host i se =
    (Inr (from_shared_events i (session_stream se i)), se\<lparr>c_calls := Suc (c_calls se)\<rparr>)"
proof -
  obtain r se' where "load_from_connection calm_host i se = (r, se')" by fastforce
  with load_from_connection_outcome [OF assms this] show ?thesis by (auto simp: calm_host_def)
qed

lemma demo_on_connection:
  assumes "session_ok calm_host id se" and "f se = (r, se\<lparr>c_calls := n\<rparr>)"
  shows "on_connection (At (Local ''events.db'')) f (demo_store se) = (r, demo_store (se\<lparr>c_calls := n\<rparr>))"
proof -
  have "se\<lparr>c_db := c_db se, c_saved := None\<rparr> = se" "rollback (se\<lparr>c_calls := n\<rparr>) = se\<lparr>c_calls := n\<rparr>"
    using assms(1) by (auto simp: session_ok_def)
  then show ?thesis using assms(2) by (simp add: on_connection_def demo_store_def)
qed

lemma demo_store_load:
  assumes "session_ok calm_host id se"
  shows "st_load (sqlite_ops calm_host global_strategy demo_catalog) (demo_store se) i =
    (Inr (from_shared_events i (session_stream se i)), demo_store (se\<lparr>c_calls := Suc (c_calls se)\<rparr>))"
proof -
  have "open_partition_if_exists calm_host demo_catalog GlobalPartition (demo_store se) =
      (Inr (Some (At (Local ''events.db''))), demo_store se)"
    by (simp add: open_partition_if_exists_def demo_store_def)
  then show ?thesis
    using demo_on_connection [where f = "load_from_connection calm_host i", OF assms demo_load_connection [OF assms]]
    by (simp add: sqlite_ops_def seq_err_def load_aggregate_def give_def global_strategy_def Let_def)
qed

lemma demo_store_publish_nothing:
  assumes "session_ok calm_host id se"
  shows "\<exists>cs. st_publish (sqlite_ops calm_host global_strategy demo_catalog) (demo_store se) i opts [] =
    (Inr cs, demo_store (se\<lparr>c_calls := Suc (c_calls se)\<rparr>))"
proof -
  let ?cs = "\<lparr>cs_aggregate_id = i, cs_revision = agg_revision (from_shared_events i (session_stream se i)),
    cs_events = []\<rparr>"
  have "publish_with_connection calm_host i opts [] se = (Inr ?cs, se\<lparr>c_calls := Suc (c_calls se)\<rparr>)"
    using demo_load_connection [OF assms] by (simp add: publish_with_connection_def give_def)
  from demo_on_connection [where f = "publish_with_connection calm_host i opts []", OF assms this]
  have "publish_in_partition calm_host demo_catalog GlobalPartition i opts [] (demo_store se) =
      (Inr ?cs, demo_store (se\<lparr>c_calls := Suc (c_calls se)\<rparr>))"
    by (simp add: publish_in_partition_def ensure_partition_open_def seq_result_def demo_store_def)
  then have "publish_loop calm_host demo_catalog GlobalPartition i opts [] (Suc n) (demo_store se) =
      (Inr ?cs, demo_store (se\<lparr>c_calls := Suc (c_calls se)\<rparr>))" for n by simp
  from this [of 29] show ?thesis
    by (simp add: sqlite_ops_def seq_err_def publish_to_aggregate_def give_def global_strategy_def
        Let_def LAZY_CREATE_PARTITION_READY_ATTEMPTS_def del: publish_loop.simps)
qed

lemma demo_published_ok: "session_ok calm_host id demo_published"
  using publish_with_connection_outcome [OF demo_session_ok demo_publish] by (simp add: publish_outcome_def)

theorem sqlite_read_your_writes_witness:
  "\<exists>a s. st_load (sqlite_ops calm_host global_strategy demo_catalog)
      (demo_store (demo_published\<lparr>c_calls := 4\<rparr>)) demo_id = (Inr a, s) \<and>
    prefix (cs_events demo_changes) (agg_events a)"
proof -
  let ?se = "demo_published\<lparr>c_calls := 4\<rparr>"
  have four: "demo_published\<lparr>c_calls := Suc (c_calls demo_published)\<rparr> = ?se"
    by (simp add: demo_published_def)
  obtain cs where empty: "st_publish (sqlite_ops calm_host global_strategy demo_catalog)
      (demo_store demo_published) demo_id demo_options [] = (Inr cs, demo_store ?se)"
    using demo_store_publish_nothing [OF demo_published_ok, of demo_id demo_options] four by auto
  have "session_ok calm_host id ?se" using demo_published_ok by (simp add: session_ok_def)
  note load = demo_store_load [OF this, of demo_id]
  from sqlite_read_your_writes [OF demo_start_ok demo_st_publish empty load]
  have "prefix (cs_events demo_changes) (agg_events (from_shared_events demo_id (session_stream ?se demo_id)))"
    by (auto simp: prefix_def store_stream_def rows_at_def demo_store_def demo_target demo_session_def
        global_strategy_def Let_def empty_db_def)
  with load show ?thesis by blast
qed

theorem local_enumeration_exact_witness:
  "set [demo_id] = row_aggregate ` set [demo_row]"
proof -
  let ?C = "local_catalog nibbles (\<lambda>_. ''invalid utf-8'') demo_files ''events.db'' global_strategy
    :: (global_partition, ulid) catalog"
  have ok: "store_ok calm_host id ?C (local_target nibbles ''events.db'' global_strategy) (demo_store demo_published)"
    using demo_store_ok [OF demo_published_ok]
    by (simp add: demo_catalog_def demo_target_def schema_ok_def schema_version_def demo_published_def
        demo_session_def empty_db_def)
  have known: "all_known_partitions ?C (demo_store demo_published) = (Inr [GlobalPartition], demo_store demo_published)"
    by (simp add: all_known_partitions_def seq_result_def local_catalog_def give_def global_strategy_def
        Let_def demo_store_def)
  have "enumerate_all_from_connection calm_host demo_published =
      (Inr [demo_id], demo_published\<lparr>c_calls := 4\<rparr>)"
    by (simp add: enumerate_all_from_connection_def seq_result_def query_def statement_def calm_host_def
        demo_published_def demo_session_def ok_or_def distinct_values_def demo_row_def demo_id_def give_def)
  from demo_on_connection [where f = "enumerate_all_from_connection calm_host", OF demo_published_ok this]
  have "enumerate_partition calm_host ?C (GlobalPartition, ScanAll) (demo_store demo_published) =
      (Inr [demo_id], demo_store (demo_published\<lparr>c_calls := 4\<rparr>))"
    by (simp add: enumerate_partition_def seq_result_def open_partition_if_exists_def demo_store_def)
  with known have "sqlite_enumerate_aggregates calm_host global_strategy ?C (demo_store demo_published) =
      (Inr [demo_id], demo_store (demo_published\<lparr>c_calls := 4\<rparr>))"
    by (simp add: sqlite_enumerate_aggregates_def enumerate_with_plan_def seq_result_def give_def
        global_strategy_def Let_def sorted_unique_ids_def)
  from local_enumeration_exact [OF ok known this] show ?thesis
    by (simp add: global_strategy_def Let_def rows_at_def demo_store_def local_target_def
        path_for_partition_def demo_published_def)
qed

end
