(* ===== verification/StoreConcurrent.thy ===== *)
theory StoreConcurrent
  imports SqliteContract
begin

text \<open>
  Concurrent use of one SQLite event store
  (\<^verbatim>\<open>crates/wee-events-sqlite/src/event_store/store.rs\<close>). Any number of tasks load and publish
  through the same store. The map of connections is locked while a partition is looked up or
  opened, and again while a connection is forgotten; each connection is locked while it is read
  or published to. Each of these is one step, as is a sleep, and between two steps of a task any
  other may run; so a task may hold a connection that another has already forgotten, or open one
  that another is waiting for.
\<close>

section \<open>Tasks\<close>

datatype 'p store_task =
    LoadOpening aggregate_id 'p
  | LoadReading aggregate_id 'p location
  | PublishOpening aggregate_id publish_options "raw_event list" 'p nat
  | PublishWriting aggregate_id publish_options "raw_event list" 'p nat location
  | PublishForgetting aggregate_id publish_options "raw_event list" 'p nat
  | PublishWaiting aggregate_id publish_options "raw_event list" 'p nat

datatype store_event =
    StoreLoaded aggregate_id "sqlite_error + aggregate"
  | StorePublished aggregate_id publish_options "raw_event list" "sqlite_error + change_set"

datatype 'p progress = Continue "'p store_task" | Complete store_event

text \<open>How a call begins: the strategy names the partition, or refuses the aggregate.\<close>

definition begin_load :: "'p strategy \<Rightarrow> aggregate_id \<Rightarrow> 'p progress" where
  "begin_load S i =
     (case ps_partition_for S i of
        Inl e \<Rightarrow> Complete (StoreLoaded i (Inl e))
      | Inr p \<Rightarrow> Continue (LoadOpening i p))"

definition begin_publish ::
  "'p strategy \<Rightarrow> aggregate_id \<Rightarrow> publish_options \<Rightarrow> raw_event list \<Rightarrow> 'p progress" where
  "begin_publish S i opts raws =
     (case ps_partition_for S i of
        Inl e \<Rightarrow> Complete (StorePublished i opts raws (Inl e))
      | Inr p \<Rightarrow> Continue (PublishOpening i opts raws p (LAZY_CREATE_PARTITION_READY_ATTEMPTS - 1)))"

text \<open>The end of an attempt; the number counts the attempts that are left.\<close>

fun attempt_result ::
  "aggregate_id \<Rightarrow> publish_options \<Rightarrow> raw_event list \<Rightarrow> 'p \<Rightarrow> nat \<Rightarrow> sqlite_error + change_set \<Rightarrow> 'p progress" where
  "attempt_result i opts raws p n (Inr cs) = Complete (StorePublished i opts raws (Inr cs))"
| "attempt_result i opts raws p n (Inl e) =
     (if is_lazy_create_partition_not_ready e \<and> 0 < n then Continue (PublishForgetting i opts raws p n)
      else Complete (StorePublished i opts raws (Inl e)))"

fun task_step ::
  "'g host \<Rightarrow> ('p, 'g) catalog \<Rightarrow> 'p store_task \<Rightarrow> ('p, 'g) sqlite_store \<Rightarrow>
    'p progress \<times> ('p, 'g) sqlite_store" where
  "task_step H C (LoadOpening i p) s =
     (case open_partition_if_exists H C p s of
        (Inl e, t) \<Rightarrow> (Complete (StoreLoaded i (Inl e)), t)
      | (Inr None, t) \<Rightarrow> (Complete (StoreLoaded i (Inr (aggregate_empty i))), t)
      | (Inr (Some loc), t) \<Rightarrow> (Continue (LoadReading i p loc), t))"
| "task_step H C (LoadReading i p loc) s =
     (case on_connection loc (load_from_connection H i) s of (r, t) \<Rightarrow> (Complete (StoreLoaded i r), t))"
| "task_step H C (PublishOpening i opts raws p n) s =
     (case ensure_partition_open H C p s of
        (Inl e, t) \<Rightarrow> (attempt_result i opts raws p n (Inl e), t)
      | (Inr loc, t) \<Rightarrow> (Continue (PublishWriting i opts raws p n loc), t))"
| "task_step H C (PublishWriting i opts raws p n loc) s =
     (case on_connection loc (publish_with_connection H i opts raws) s of
        (r, t) \<Rightarrow> (attempt_result i opts raws p n r, t))"
| "task_step H C (PublishForgetting i opts raws p n) s =
     (Continue (PublishWaiting i opts raws p n), forget_connection p s)"
| "task_step H C (PublishWaiting i opts raws p n) s =
     (Continue (PublishOpening i opts raws p (n - 1)), store_sleep LAZY_CREATE_PARTITION_READY_DELAY_MS s)"

section \<open>Runs\<close>

text \<open>\<open>progress_of\<close> records where the task now is, and what it has completed.\<close>

fun task_after :: "'p progress \<Rightarrow> 'p store_task option" where
  "task_after (Continue k) = Some k"
| "task_after (Complete e) = None"

fun event_after :: "'p progress \<Rightarrow> store_event list" where
  "event_after (Continue k) = []"
| "event_after (Complete e) = [e]"

inductive store_step ::
  "'g host \<Rightarrow> 'p strategy \<Rightarrow> ('p, 'g) catalog \<Rightarrow> ('p, 'g) sqlite_store \<times> (nat \<Rightarrow> 'p store_task option) \<Rightarrow>
    store_event list \<Rightarrow> ('p, 'g) sqlite_store \<times> (nat \<Rightarrow> 'p store_task option) \<Rightarrow> bool" for H S C where
  load: "th t = None \<Longrightarrow>
    store_step H S C (s, th) (event_after (begin_load S i)) (s, th(t := task_after (begin_load S i)))"
| publish: "th t = None \<Longrightarrow>
    store_step H S C (s, th) (event_after (begin_publish S i opts raws))
      (s, th(t := task_after (begin_publish S i opts raws)))"
| move: "th t = Some k \<Longrightarrow> task_step H C k s = (q, s') \<Longrightarrow>
    store_step H S C (s, th) (event_after q) (s', th(t := task_after q))"

inductive store_run ::
  "'g host \<Rightarrow> 'p strategy \<Rightarrow> ('p, 'g) catalog \<Rightarrow> ('p, 'g) sqlite_store \<times> (nat \<Rightarrow> 'p store_task option) \<Rightarrow>
    store_event list \<Rightarrow> ('p, 'g) sqlite_store \<times> (nat \<Rightarrow> 'p store_task option) \<Rightarrow> bool" for H S C where
  start: "store_run H S C c [] c"
| step: "store_run H S C c es c' \<Longrightarrow> store_step H S C c' fs c'' \<Longrightarrow> store_run H S C c (es @ fs) c''"

inductive_cases store_stepE: "store_step H S C (s, th) es (s', th')"

section \<open>The abstract store\<close>

text \<open>
  One stream per aggregate, and calls that happen at once: a load returns the stream, a failed
  publish changes nothing, a successful one appends its batch to one stream, against the revision
  it expected, and advances the stream's revision.
\<close>

type_synonym streams = "aggregate_id \<Rightarrow> recorded_event list"

fun happens :: "streams \<Rightarrow> store_event \<Rightarrow> streams \<Rightarrow> bool" where
  "happens \<sigma> (StoreLoaded i r) \<sigma>' \<longleftrightarrow> \<sigma>' = \<sigma> \<and> (\<forall>a. r = Inr a \<longrightarrow> a = from_shared_events i (\<sigma> i))"
| "happens \<sigma> (StorePublished i opts raws (Inl e)) \<sigma>' \<longleftrightarrow> \<sigma>' = \<sigma>"
| "happens \<sigma> (StorePublished i opts raws (Inr cs)) \<sigma>' \<longleftrightarrow>
     \<sigma>' = \<sigma>(i := \<sigma> i @ cs_events cs) \<and> list_all2 (records opts) raws (cs_events cs) \<and>
     cs_aggregate_id cs = i \<and> cs_revision cs = stream_revision (\<sigma>' i) \<and>
     (raws \<noteq> [] \<longrightarrow> expected_revision opts \<in> {None, Some (stream_revision (\<sigma> i))} \<and>
        stream_revision (\<sigma> i) < stream_revision (\<sigma>' i))"

inductive history :: "streams \<Rightarrow> store_event list \<Rightarrow> streams \<Rightarrow> bool" where
  none: "history \<sigma> [] \<sigma>"
| some: "happens \<sigma> e \<sigma>' \<Longrightarrow> history \<sigma>' es \<sigma>'' \<Longrightarrow> history \<sigma> (e # es) \<sigma>''"

inductive_simps history_simps [simp]: "history \<sigma> [] \<sigma>'" "history \<sigma> (e # es) \<sigma>'"

lemma history_append:
  "history \<sigma> (es @ fs) \<sigma>'' \<longleftrightarrow> (\<exists>\<sigma>'. history \<sigma> es \<sigma>' \<and> history \<sigma>' fs \<sigma>'')"
  by (induction es arbitrary: \<sigma>) auto

text \<open>No stream is ever set back.\<close>

lemma happens_revision: "happens \<sigma> e \<sigma>' \<Longrightarrow> stream_revision (\<sigma> i) \<le> stream_revision (\<sigma>' i)"
proof (induction \<sigma> e \<sigma>' rule: happens.induct)
  case (3 \<sigma> j opts raws cs \<sigma>')
  then show ?case by (cases "raws = []") (auto simp: less_imp_le)
qed auto

lemma history_revision: "history \<sigma> es \<sigma>' \<Longrightarrow> stream_revision (\<sigma> i) \<le> stream_revision (\<sigma>' i)"
  by (induction rule: history.induct) (auto dest: happens_revision [of _ _ _ i])

section \<open>The concurrent store implements it\<close>

text \<open>A task's connection is the one its partition leads to, with its tables in place.\<close>

fun store_task_ok ::
  "'p strategy \<Rightarrow> ('p \<Rightarrow> database_target) \<Rightarrow> ('p, 'g) sqlite_store \<Rightarrow> 'p store_task \<Rightarrow> bool" where
  "store_task_ok S tgt s (LoadOpening i p) \<longleftrightarrow> ps_partition_for S i = Inr p"
| "store_task_ok S tgt s (LoadReading i p loc) \<longleftrightarrow>
     ps_partition_for S i = Inr p \<and> loc = At (tgt p) \<and> table_at s loc"
| "store_task_ok S tgt s (PublishWriting i opts raws p n loc) \<longleftrightarrow>
     ps_partition_for S i = Inr p \<and> loc = At (tgt p) \<and> table_at s loc"
| "store_task_ok S tgt s (PublishOpening i opts raws p n) \<longleftrightarrow> ps_partition_for S i = Inr p"
| "store_task_ok S tgt s (PublishForgetting i opts raws p n) \<longleftrightarrow> ps_partition_for S i = Inr p"
| "store_task_ok S tgt s (PublishWaiting i opts raws p n) \<longleftrightarrow> ps_partition_for S i = Inr p"

fun progress_ok ::
  "'p strategy \<Rightarrow> ('p \<Rightarrow> database_target) \<Rightarrow> ('p, 'g) sqlite_store \<Rightarrow> 'p progress \<Rightarrow> bool" where
  "progress_ok S tgt s (Continue k) = store_task_ok S tgt s k"
| "progress_ok S tgt s (Complete e) = True"

lemma store_task_ok_mono:
  "(\<And>loc. table_at s loc \<Longrightarrow> table_at t loc) \<Longrightarrow> store_task_ok S tgt s k \<Longrightarrow> store_task_ok S tgt t k"
  by (cases k) auto

lemma attempt_result_ok: "ps_partition_for S i = Inr p \<Longrightarrow> progress_ok S tgt s (attempt_result i opts raws p n r)"
  by (cases r) auto

lemma begin_ok: "progress_ok S tgt s (begin_load S i)" "progress_ok S tgt s (begin_publish S i opts raws)"
  by (auto simp: begin_load_def begin_publish_def split: sum.split)

lemma begin_history:
  "history \<sigma> (event_after (begin_load S i)) \<sigma>" "history \<sigma> (event_after (begin_publish S i opts raws)) \<sigma>"
  by (auto simp: begin_load_def begin_publish_def split: sum.split)

lemma attempt_failed_history: "history \<sigma> (event_after (attempt_result i opts raws p n (Inl e))) \<sigma>"
  by simp

lemma published_history:
  assumes "store_ok H prev C tgt s" and part: "ps_partition_for S i = Inr p"
    and P: "store_published H prev C tgt p i opts raws s r s'"
  shows "history (store_stream S tgt s) (event_after (attempt_result i opts raws p n r)) (store_stream S tgt s')"
proof (cases r)
  case (Inl e)
  with P have "store_stream S tgt s' = store_stream S tgt s"
    by (intro store_stream_cong) (simp add: store_published_def)
  with Inl attempt_failed_history show ?thesis by simp
next
  case (Inr cs)
  note A = store_stream_published [OF part P [unfolded Inr]]
  from P Inr part have Q: "list_all2 (records opts) raws (cs_events cs)" "cs_aggregate_id cs = i"
    "cs_revision cs = stream_revision (store_stream S tgt s' i)"
    "raws \<noteq> [] \<longrightarrow> expected_revision opts \<in> {None, Some (stream_revision (store_stream S tgt s i))}"
    by (simp_all add: store_published_def store_stream_def)
  have "stream_revision (store_stream S tgt s i) < stream_revision (store_stream S tgt s' i)" if "raws \<noteq> []"
    using that Q(1) A P by (intro sqlite.extension_advances) (auto simp: store_published_def)
  with Inr A Q show ?thesis by simp
qed

lemma store_published_keeps: "store_published H prev C tgt p i opts raws s r s' \<Longrightarrow> store_ok H prev C tgt s'"
  by (simp add: store_published_def)

text \<open>One step of one task, whatever the others are in the middle of.\<close>

lemma task_step_result:
  assumes ok: "store_ok H prev C tgt s" and task: "store_task_ok S tgt s k"
    and run: "task_step H C k s = (q, s')"
  shows "store_ok H prev C tgt s' \<and> (\<forall>loc. table_at s loc \<longrightarrow> table_at s' loc) \<and> progress_ok S tgt s' q \<and>
    history (store_stream S tgt s) (event_after q) (store_stream S tgt s')"
proof (cases k)
  case (LoadOpening i p)
  obtain r t where r: "open_partition_if_exists H C p s = (r, t)" by fastforce
  note O = open_partition_if_exists_result [OF ok r]
  then have same: "store_stream S tgt t = store_stream S tgt s" by (intro store_stream_cong) simp
  from task LoadOpening have part: "ps_partition_for S i = Inr p" by simp
  consider (failed) e where "r = Inl e" | (missing) "r = Inr None" | (found) loc where "r = Inr (Some loc)"
    by (cases r) auto
  then show ?thesis
  proof cases
    case failed
    with run r LoadOpening O same show ?thesis by auto
  next
    case missing
    with O part have "store_stream S tgt s i = []" by (simp add: store_stream_def)
    then have "aggregate_empty i = from_shared_events i (store_stream S tgt s i)"
      by (simp add: from_shared_events_def aggregate_empty_def stream_revision_def)
    with missing run r LoadOpening O same show ?thesis by auto
  next
    case found
    with run r LoadOpening O same part show ?thesis by auto
  qed
next
  case (LoadReading i p loc)
  obtain r t where r: "on_connection loc (load_from_connection H i) s = (r, t)" by fastforce
  from task LoadReading have L: "ps_partition_for S i = Inr p" "loc = At (tgt p)" "table_at s loc" by auto
  from load_connection_result [OF ok L(3) r]
  have K: "store_ok H prev C tgt t" "rows_at t = rows_at s" "\<forall>l. table_at s l \<longrightarrow> table_at t l"
    "\<forall>a. r = Inr a \<longrightarrow> a = from_shared_events i (rows_stream (rows_at s loc) i)" by auto
  with L run r LoadReading store_stream_cong [OF K(2), of S tgt] show ?thesis
    by (auto simp: store_stream_def)
next
  case (PublishOpening i opts raws p n)
  obtain r t where r: "ensure_partition_open H C p s = (r, t)" by fastforce
  note O = ensure_partition_open_result [OF ok r]
  then have same: "store_stream S tgt t = store_stream S tgt s" by (intro store_stream_cong) simp
  from task PublishOpening have part: "ps_partition_for S i = Inr p" by simp
  show ?thesis
  proof (cases r)
    case (Inl e)
    with run r PublishOpening have "q = attempt_result i opts raws p n (Inl e)" "s' = t" by auto
    with O same attempt_result_ok [OF part] attempt_failed_history show ?thesis by metis
  next
    case (Inr loc)
    with run r PublishOpening O same part show ?thesis by auto
  qed
next
  case (PublishWriting i opts raws p n loc)
  obtain r t where r: "on_connection loc (publish_with_connection H i opts raws) s = (r, t)" by fastforce
  from task PublishWriting have L: "ps_partition_for S i = Inr p" "loc = At (tgt p)" "table_at s loc" by auto
  note P = publish_connection_result [OF ok L(3,2) r]
  from run r PublishWriting have "q = attempt_result i opts raws p n r" "s' = t" by auto
  with P store_published_keeps [OF P(1)] published_history [OF ok L(1) P(1)] attempt_result_ok [OF L(1)]
  show ?thesis by blast
next
  case (PublishForgetting i opts raws p n)
  with run task store_ok_forget [OF ok, of p] store_stream_cong [OF between_same(1), of S tgt p s]
  show ?thesis by (auto simp: between_same)
next
  case (PublishWaiting i opts raws p n)
  let ?ms = LAZY_CREATE_PARTITION_READY_DELAY_MS
  from PublishWaiting run task store_ok_sleep [OF ok, of ?ms] store_stream_cong [OF between_same(3), of S tgt ?ms s]
  show ?thesis by (auto simp: between_same)
qed

definition world_ok ::
  "'g host \<Rightarrow> ('g \<Rightarrow> ulid) \<Rightarrow> 'p strategy \<Rightarrow> ('p, 'g) catalog \<Rightarrow> ('p \<Rightarrow> database_target) \<Rightarrow>
    ('p, 'g) sqlite_store \<times> (nat \<Rightarrow> 'p store_task option) \<Rightarrow> bool" where
  "world_ok H prev S C tgt = (\<lambda>(s, th). store_ok H prev C tgt s \<and>
     (\<forall>t k. th t = Some k \<longrightarrow> store_task_ok S tgt s k))"

lemma task_after_ok: "progress_ok S tgt s q \<Longrightarrow> task_after q = Some k \<Longrightarrow> store_task_ok S tgt s k"
  by (cases q) auto

lemma store_step_result:
  assumes "store_step H S C c es c'" and "world_ok H prev S C tgt c"
  shows "world_ok H prev S C tgt c' \<and> history (store_stream S tgt (fst c)) es (store_stream S tgt (fst c'))"
  using assms
proof cases
  case (load th t s i)
  with assms(2) begin_history(1) [of "store_stream S tgt s" S i] task_after_ok [OF begin_ok(1)]
  show ?thesis by (auto simp: world_ok_def)
next
  case (publish th t s i opts raws)
  with assms(2) begin_history(2) [of "store_stream S tgt s" S i opts raws] task_after_ok [OF begin_ok(2)]
  show ?thesis by (auto simp: world_ok_def)
next
  case (move th t k s q s')
  with assms(2) have "store_ok H prev C tgt s" "store_task_ok S tgt s k" by (auto simp: world_ok_def)
  from task_step_result [OF this move(5)] have R: "store_ok H prev C tgt s'"
    "\<And>loc. table_at s loc \<Longrightarrow> table_at s' loc" "progress_ok S tgt s' q"
    "history (store_stream S tgt s) (event_after q) (store_stream S tgt s')" by blast+
  have "store_task_ok S tgt s' l" if "(th(t := task_after q)) u = Some l" for u l
    using that assms(2) move(1) task_after_ok [OF R(3)] store_task_ok_mono [of s s' S tgt l] R(2)
    by (auto simp: world_ok_def split: if_splits)
  with R(1,4) move show ?thesis by (simp add: world_ok_def)
qed

lemma store_run_result:
  assumes "store_run H S C c es c'" and "world_ok H prev S C tgt c"
  shows "world_ok H prev S C tgt c' \<and> history (store_stream S tgt (fst c)) es (store_stream S tgt (fst c'))"
  using assms
proof (induction rule: store_run.induct)
  case (start c)
  then show ?case by simp
next
  case (step c es c' fs c'')
  with store_step_result [OF step.hyps(2), of prev tgt] show ?case by (auto simp: history_append)
qed

lemma store_run_history:
  assumes "store_ok H prev C tgt s" and "store_run H S C (s, \<lambda>_. None) es (s', th)"
  shows "store_ok H prev C tgt s'" and "history (store_stream S tgt s) es (store_stream S tgt s')"
  using store_run_result [OF assms(2), of prev tgt] assms(1) by (simp_all add: world_ok_def)

text \<open>
  C6: the store is linearizable. However the steps of loads and publishes on one store interleave,
  with partitions being opened, connections forgotten and attempts repeated in between, the calls
  in the order in which they end form a history of the abstract store: each load has returned the
  stream at its moment, each failed publish has changed nothing, and each successful one appended
  its batch to one stream, at the revision it expected. The history starts at the streams of the
  first state and ends at those of the last.
\<close>

theorem sqlite_store_linearizable:
  assumes "store_ok H prev C tgt s" and "store_run H S C (s, \<lambda>_. None) es (s', th)"
  shows "history (store_stream S tgt s) es (store_stream S tgt s')"
  using store_run_history [OF assms] by blast

lemma history_one_winner:
  assumes "history \<sigma> (es @ StorePublished i o1 r1 (Inr c1) # fs @ StorePublished i o2 r2 (Inr c2) # gs) \<sigma>'"
    and "expected_revision o1 = Some x" and "r1 \<noteq> []" and "expected_revision o2 = Some x" and "r2 \<noteq> []"
  shows False
proof -
  let ?p = "StorePublished i o1 r1 (Inr c1)" and ?q = "StorePublished i o2 r2 (Inr c2)"
  from assms(1) obtain \<sigma>1 \<sigma>2 \<sigma>3 \<sigma>4 where H: "happens \<sigma>1 ?p \<sigma>2" "history \<sigma>2 fs \<sigma>3" "happens \<sigma>3 ?q \<sigma>4"
    by (simp only: history_append history_simps) blast
  from H(1) assms(2,3) have "x = stream_revision (\<sigma>1 i)" "stream_revision (\<sigma>1 i) < stream_revision (\<sigma>2 i)"
    by auto
  moreover from H(3) assms(4,5) have "x = stream_revision (\<sigma>3 i)" by auto
  moreover note history_revision [OF H(2), of i]
  ultimately show False by simp
qed

text \<open>
  One winner per revision. Of the publishes of a run that expected the same revision of the
  same aggregate, at most one has succeeded, however the tasks interleaved.
\<close>

theorem sqlite_store_one_winner:
  assumes "store_ok H prev C tgt s"
    and "expected_revision o1 = Some x" and "r1 \<noteq> []" and "expected_revision o2 = Some x" and "r2 \<noteq> []"
  shows "\<not> store_run H S C (s, \<lambda>_. None)
    (es @ StorePublished i o1 r1 (Inr c1) # fs @ StorePublished i o2 r2 (Inr c2) # gs) (s', th)"
  using history_one_winner [OF store_run_history(2) [OF assms(1)] assms(2-5)] by blast

section \<open>A call on its own\<close>

text \<open>With no other task, the steps of a call add up to the function that models the whole call.\<close>

inductive store_alone ::
  "'g host \<Rightarrow> ('p, 'g) catalog \<Rightarrow> 'p progress \<times> ('p, 'g) sqlite_store \<Rightarrow>
    'p progress \<times> ('p, 'g) sqlite_store \<Rightarrow> bool" for H C where
  finish: "store_alone H C x x"
| proceed: "store_alone H C (task_step H C k s) y \<Longrightarrow> store_alone H C (Continue k, s) y"

lemma load_alone:
  assumes "load_aggregate H S C i s = (r, s')"
  shows "store_alone H C (begin_load S i, s) (Complete (StoreLoaded i r), s')"
proof (cases "ps_partition_for S i")
  case (Inl e)
  with assms show ?thesis
    by (auto simp: begin_load_def load_aggregate_def seq_result_def give_def intro: store_alone.finish)
next
  case (Inr p)
  obtain q t where q: "open_partition_if_exists H C p s = (q, t)" by fastforce
  consider (failed) e where "q = Inl e" | (missing) "q = Inr None" | (found) loc where "q = Inr (Some loc)"
    by (cases q) auto
  then have "store_alone H C (Continue (LoadOpening i p), s) (Complete (StoreLoaded i r), s')"
  proof cases
    case failed
    with assms q Inr show ?thesis
      by (intro store_alone.proceed) (auto simp: load_aggregate_def seq_result_def give_def intro: store_alone.finish)
  next
    case missing
    with assms q Inr show ?thesis
      by (intro store_alone.proceed) (auto simp: load_aggregate_def seq_result_def give_def intro: store_alone.finish)
  next
    case found
    with assms q Inr have "on_connection loc (load_from_connection H i) t = (r, s')"
      by (simp add: load_aggregate_def give_def)
    then have "store_alone H C (Continue (LoadReading i p loc), t) (Complete (StoreLoaded i r), s')"
      by (intro store_alone.proceed) (simp add: store_alone.finish)
    with found q show ?thesis by (intro store_alone.proceed) simp
  qed
  with Inr show ?thesis by (simp add: begin_load_def)
qed

lemma attempt_alone:
  assumes "publish_in_partition H C p i opts raws s = (r, s')"
    and "store_alone H C (attempt_result i opts raws p n r, s') y"
  shows "store_alone H C (Continue (PublishOpening i opts raws p n), s) y"
  using assms(1) unfolding publish_in_partition_def
proof (cases rule: seq_result_cases)
  case (stop e)
  with assms(2) show ?thesis by (intro store_alone.proceed) (simp del: attempt_result.simps)
next
  case (run loc t)
  with assms(2) have "store_alone H C (Continue (PublishWriting i opts raws p n loc), t) y"
    by (intro store_alone.proceed) simp
  with run(1) show ?thesis by (intro store_alone.proceed) simp
qed

lemma publish_alone:
  assumes "publish_loop H C p i opts raws (Suc n) s = (r, s')"
  shows "store_alone H C (Continue (PublishOpening i opts raws p n), s)
    (Complete (StorePublished i opts raws r), s')"
  using assms
proof (induction n arbitrary: s)
  case 0
  obtain q t where q: "publish_in_partition H C p i opts raws s = (q, t)" by fastforce
  with 0 have "attempt_result i opts raws p 0 q = Complete (StorePublished i opts raws r)" "t = s'"
    by (auto split: sum.splits)
  with attempt_alone [OF q, of 0] store_alone.finish show ?case by metis
next
  case (Suc n)
  obtain q t where q: "publish_in_partition H C p i opts raws s = (q, t)" by fastforce
  show ?case
  proof (cases "\<exists>e. q = Inl e \<and> is_lazy_create_partition_not_ready e")
    case True
    then obtain e where e: "q = Inl e" "is_lazy_create_partition_not_ready e" by blast
    with Suc.prems q have "publish_loop H C p i opts raws (Suc n)
        (store_sleep LAZY_CREATE_PARTITION_READY_DELAY_MS (forget_connection p t)) = (r, s')"
      by (subst (asm) publish_loop.simps(2)) simp
    from Suc.IH [OF this] have "store_alone H C (Continue (PublishForgetting i opts raws p (Suc n)), t)
        (Complete (StorePublished i opts raws r), s')"
      by (intro store_alone.proceed) (simp, intro store_alone.proceed, simp)
    with e show ?thesis by (intro attempt_alone [OF q]) simp
  next
    case False
    with Suc.prems q have "attempt_result i opts raws p (Suc n) q = Complete (StorePublished i opts raws r)"
      "t = s'" by (auto simp: publish_loop.simps(2) [of _ _ _ _ _ _ "Suc n"] split: sum.splits
        simp del: publish_loop.simps)
    with attempt_alone [OF q, of "Suc n"] store_alone.finish show ?thesis by metis
  qed
qed

text \<open>
  Taken alone, the interleaved steps are the calls: a load or a publish that no other task
  interrupts ends with the result and in the state of the function for the whole call.
\<close>

theorem sqlite_call_alone:
  "(case load_aggregate H S C i s of (r, s') \<Rightarrow>
      store_alone H C (begin_load S i, s) (Complete (StoreLoaded i r), s')) \<and>
   (case publish_to_aggregate H S C i opts raws s of (r, s') \<Rightarrow>
      store_alone H C (begin_publish S i opts raws, s) (Complete (StorePublished i opts raws r), s'))"
proof -
  obtain q s1 where "load_aggregate H S C i s = (q, s1)" by fastforce
  with load_alone have "case load_aggregate H S C i s of (r, s') \<Rightarrow>
      store_alone H C (begin_load S i, s) (Complete (StoreLoaded i r), s')" by auto
  moreover obtain r s2 where run: "publish_to_aggregate H S C i opts raws s = (r, s2)" by fastforce
  have "store_alone H C (begin_publish S i opts raws, s) (Complete (StorePublished i opts raws r), s2)"
  proof (cases "ps_partition_for S i")
    case (Inl e)
    with run show ?thesis
      by (auto simp: begin_publish_def publish_to_aggregate_def seq_result_def give_def intro: store_alone.finish)
  next
    case (Inr p)
    with run have "publish_loop H C p i opts raws (Suc 29) s = (r, s2)"
      by (simp add: publish_to_aggregate_def give_def LAZY_CREATE_PARTITION_READY_ATTEMPTS_def
          del: publish_loop.simps)
    from publish_alone [OF this] Inr show ?thesis
      by (simp add: begin_publish_def LAZY_CREATE_PARTITION_READY_ATTEMPTS_def)
  qed
  ultimately show ?thesis by (simp add: run)
qed

section \<open>Witnesses\<close>

text \<open>Two tasks publish against revision zero; the second has its connection before the first writes.\<close>

definition demo_run_events :: "store_event list" where
  "demo_run_events = [StorePublished demo_id demo_options [demo_raw] (Inr demo_changes)]"

lemma demo_task_step:
  "task_step calm_host demo_catalog (PublishOpening demo_id demo_options [demo_raw] GlobalPartition n)
     (demo_store demo_session) =
   (Continue (PublishWriting demo_id demo_options [demo_raw] GlobalPartition n (At (Local ''events.db''))),
    demo_store demo_session)"
  "task_step calm_host demo_catalog
     (PublishWriting demo_id demo_options [demo_raw] GlobalPartition n (At (Local ''events.db'')))
     (demo_store demo_session) =
   (Complete (StorePublished demo_id demo_options [demo_raw] (Inr demo_changes)), demo_store demo_published)"
  using demo_publish_in_partition
  by (simp_all add: publish_in_partition_def ensure_partition_open_def seq_result_def demo_store_def
      split: prod.splits)

lemma run_publish:
  assumes "store_run H S C c [] (s, th)" and "th t = None" and "begin_publish S i opts raws = Continue k"
  shows "store_run H S C c [] (s, th(t := Some k))"
  using store_run.step [OF assms(1) store_step.publish [where t = t and i = i and opts = opts and raws = raws]] assms(2,3)
  by simp

lemma run_move:
  assumes "store_run H S C c [] (s, th)" and "th t = Some k" and "task_step H C k s = (q, s')"
  shows "store_run H S C c (event_after q) (s', th(t := task_after q))"
  using store_run.step [OF assms(1) store_step.move [where t = t and k = k]] assms(2,3) by simp

lemma demo_tasks_run:
  "\<exists>th. store_run calm_host global_strategy demo_catalog (demo_store demo_session, \<lambda>_. None)
     demo_run_events (demo_store demo_published, th)"
proof -
  let ?run = "store_run calm_host global_strategy demo_catalog (demo_store demo_session, \<lambda>_. None)"
  let ?k = "PublishOpening demo_id demo_options [demo_raw] GlobalPartition 29"
  let ?w = "PublishWriting demo_id demo_options [demo_raw] GlobalPartition 29 (At (Local ''events.db''))"
  have b: "begin_publish global_strategy demo_id demo_options [demo_raw] = Continue ?k"
    by (simp add: begin_publish_def global_strategy_def Let_def LAZY_CREATE_PARTITION_READY_ATTEMPTS_def)
  have "?run [] (demo_store demo_session, (\<lambda>_. None)(0 := Some ?k))"
    by (rule run_publish [OF store_run.start _ b]) simp
  then have "?run [] (demo_store demo_session, (\<lambda>_. None)(0 := Some ?k, 1 := Some ?k))"
    by (rule run_publish [OF _ _ b]) simp
  from run_move [OF this _ demo_task_step(1), of 1]
  have "?run [] (demo_store demo_session, (\<lambda>_. None)(0 := Some ?k, 1 := Some ?w))" by simp
  from run_move [OF this _ demo_task_step(1), of 0]
  have "?run [] (demo_store demo_session, (\<lambda>_. None)(0 := Some ?w, 1 := Some ?w))"
    by (simp add: fun_upd_twist [of "Suc 0" 0])
  from run_move [OF this _ demo_task_step(2), of 0] show ?thesis
    by (auto simp: demo_run_events_def)
qed

theorem sqlite_store_linearizable_witness:
  "history (store_stream global_strategy demo_target (demo_store demo_session)) demo_run_events
     (store_stream global_strategy demo_target (demo_store demo_published))"
  using demo_tasks_run sqlite_store_linearizable [OF demo_start_ok] by blast

theorem sqlite_store_one_winner_witness:
  "\<not> store_run calm_host global_strategy demo_catalog (demo_store demo_session, \<lambda>_. None)
     ([] @ StorePublished demo_id demo_options [demo_raw] (Inr demo_changes) #
       [] @ StorePublished demo_id demo_options [demo_raw] (Inr demo_changes) # [])
     (demo_store demo_published, \<lambda>_. None)"
  by (rule sqlite_store_one_winner [OF demo_start_ok, where x = revision_zero])
    (simp_all add: demo_options_def)

end
