(* ===== verification/Sanitize.thy ===== *)
theory Sanitize
  imports Strategies "HOL-Library.Sublist"
begin

text \<open>
  \<^verbatim>\<open>crates/wee-events-sqlite/src/event_store/turso_platform/sanitize.rs\<close>: database names for the
  Turso platform. Strings are UTF-8 bytes here and the code iterates over characters; the bytes of
  a non-ASCII character all fall into the branch that its character takes, and after the first of
  them the branch skips, so the result is the same.
\<close>

section \<open>The code\<close>

definition name_char :: "char \<Rightarrow> bool" where
  "name_char c \<longleftrightarrow> is_lower c \<or> is_digit c"

text \<open>The loop over \<open>raw.chars()\<close> with \<open>result\<close> and \<open>prev_dash\<close>.\<close>

fun sanitize_loop :: "nat \<Rightarrow> string \<Rightarrow> bool \<Rightarrow> string \<Rightarrow> string" where
  "sanitize_loop limit result prev_dash [] = result"
| "sanitize_loop limit result prev_dash (c # cs) =
     (if name_char c then
        (if limit \<le> length result then result else sanitize_loop limit (result @ [c]) False cs)
      else if is_upper c then
        (if limit \<le> length result then result else sanitize_loop limit (result @ [to_lower c]) False cs)
      else if prev_dash \<or> result = [] then sanitize_loop limit result prev_dash cs
      else
        (if limit \<le> length result then result else sanitize_loop limit (result @ [CHR ''-'']) True cs))"

definition strip_trailing_dashes :: "string \<Rightarrow> string" where
  "strip_trailing_dashes s = rev (dropWhile (\<lambda>c. c = CHR ''-'') (rev s))"

definition sanitize_fragment :: "string \<Rightarrow> nat \<Rightarrow> string" where
  "sanitize_fragment raw limit = strip_trailing_dashes (sanitize_loop limit [] False raw)"

definition FNV64_OFFSET :: u64 where "FNV64_OFFSET = 0xcbf29ce484222325"
definition FNV64_PRIME :: u64 where "FNV64_PRIME = 0x0100000001b3"

definition stable_hash :: "string \<Rightarrow> u64" where
  "stable_hash raw = fold (\<lambda>b h. xor h (ucast b) * FNV64_PRIME) (str_bytes raw) FNV64_OFFSET"

text \<open>\<open>{hash:016x}\<close>.\<close>

definition hex_digit :: "nat \<Rightarrow> char" where
  "hex_digit n = (if n < 10 then char_of (48 + n) else char_of (87 + n))"

definition hex16 :: "u64 \<Rightarrow> string" where
  "hex16 h = map (\<lambda>k. hex_digit (unat (drop_bit (4 * (15 - k)) h) mod 16)) [0..<16]"

definition stable_hash_hex :: "string \<Rightarrow> string" where
  "stable_hash_hex raw = hex16 (stable_hash raw)"

definition named_database_prefix :: "string \<Rightarrow> string" where
  "named_database_prefix pre =
     (let fragment = sanitize_fragment pre 12;
          fragment = (if fragment = [] then ''db'' else fragment)
      in fragment @ ''-'' @ take 8 (stable_hash_hex pre))"

definition sanitize_database_name :: "string \<Rightarrow> string \<Rightarrow> string" where
  "sanitize_database_name name pre =
     (if name = [] then sanitize_fragment pre 51
      else
        let p = named_database_prefix pre;
            h = stable_hash_hex name;
            remaining = 51 - length p - length h - 2;
            fragment = sanitize_fragment name remaining
        in if fragment = [] then p @ ''-'' @ h else p @ ''-'' @ fragment @ ''-'' @ h)"

section \<open>Fragments\<close>

text \<open>Letters, digits and dashes, not starting with a dash.\<close>

definition fragment_ok :: "string \<Rightarrow> bool" where
  "fragment_ok s \<longleftrightarrow> (\<forall>c\<in>set s. name_char c \<or> c = CHR ''-'') \<and> (s \<noteq> [] \<longrightarrow> hd s \<noteq> CHR ''-'')"

lemma name_char_not_dash: "name_char c \<Longrightarrow> c \<noteq> CHR ''-''"
  by (auto simp: name_char_def char_class_defs)

lemma name_char_to_lower: "is_upper c \<Longrightarrow> name_char (to_lower c)"
  by (simp add: name_char_def to_lower_is_lower)

lemma fragment_ok_Nil [simp]: "fragment_ok []"
  by (simp add: fragment_ok_def)

lemma fragment_ok_snoc:
  "fragment_ok (s @ [c]) \<longleftrightarrow> fragment_ok s \<and> (name_char c \<or> c = CHR ''-'' \<and> s \<noteq> [])"
  by (cases s) (auto simp: fragment_ok_def dest: name_char_not_dash)

lemma sanitize_loop_ok:
  "fragment_ok result \<Longrightarrow> length result \<le> limit \<Longrightarrow>
    fragment_ok (sanitize_loop limit result prev cs) \<and> length (sanitize_loop limit result prev cs) \<le> limit"
proof (induction limit result prev cs rule: sanitize_loop.induct)
  case (2 limit result prev c cs)
  show ?case
  proof (cases "limit \<le> length result")
    case True
    with 2 show ?thesis by simp
  next
    case False
    with 2 show ?thesis by (simp add: fragment_ok_snoc name_char_to_lower)
  qed
qed simp

lemma strip_trailing_prefix: "\<exists>ds. s = strip_trailing_dashes s @ ds \<and> set ds \<subseteq> {CHR ''-''}"
proof -
  have "rev s = takeWhile (\<lambda>c. c = CHR ''-'') (rev s) @ dropWhile (\<lambda>c. c = CHR ''-'') (rev s)" by simp
  then have "s = strip_trailing_dashes s @ rev (takeWhile (\<lambda>c. c = CHR ''-'') (rev s))"
    unfolding strip_trailing_dashes_def by (metis rev_append rev_rev_ident)
  moreover have "set (rev (takeWhile (\<lambda>c. c = CHR ''-'') (rev s))) \<subseteq> {CHR ''-''}"
    by (auto dest: set_takeWhileD)
  ultimately show ?thesis by blast
qed

lemma strip_trailing_last: "strip_trailing_dashes s \<noteq> [] \<Longrightarrow> last (strip_trailing_dashes s) \<noteq> CHR ''-''"
  using hd_dropWhile [of "\<lambda>c. c = CHR ''-''" "rev s"]
  by (auto simp: strip_trailing_dashes_def last_rev)

lemma sanitize_fragment_ok:
  "fragment_ok (sanitize_fragment raw limit)" "length (sanitize_fragment raw limit) \<le> limit"
  "sanitize_fragment raw limit \<noteq> [] \<Longrightarrow> last (sanitize_fragment raw limit) \<noteq> CHR ''-''"
proof -
  have loop: "fragment_ok (sanitize_loop limit [] False raw)" "length (sanitize_loop limit [] False raw) \<le> limit"
    using sanitize_loop_ok [of "[]" limit False raw] by (simp_all add: fragment_ok_def)
  obtain ds where ds: "sanitize_loop limit [] False raw = sanitize_fragment raw limit @ ds"
    using strip_trailing_prefix unfolding sanitize_fragment_def by blast
  from loop(1) ds show "fragment_ok (sanitize_fragment raw limit)"
    by (cases "sanitize_fragment raw limit") (auto simp: fragment_ok_def)
  from loop(2) ds show "length (sanitize_fragment raw limit) \<le> limit" by simp
  show "sanitize_fragment raw limit \<noteq> [] \<Longrightarrow> last (sanitize_fragment raw limit) \<noteq> CHR ''-''"
    unfolding sanitize_fragment_def by (rule strip_trailing_last)
qed

text \<open>A fragment is empty exactly if there is nothing to keep.\<close>

definition alphanumeric :: "char \<Rightarrow> bool" where
  "alphanumeric c \<longleftrightarrow> name_char c \<or> is_upper c"

lemma sanitize_loop_keeps: "prefix result (sanitize_loop limit result prev cs)"
proof (induction limit result prev cs rule: sanitize_loop.induct)
  case (2 limit result prev c cs)
  have step: "prefix result t" if "prefix (result @ [d]) t" for d t
    using that by (auto simp: prefix_def)
  show ?case
  proof (cases "limit \<le> length result")
    case False
    with 2 show ?thesis
      by (cases "name_char c"; cases "is_upper c"; cases "prev \<or> result = []") (auto dest: step)
  qed (use 2 in simp)
qed simp

lemma sanitize_loop_Nil:
  "0 < limit \<Longrightarrow> sanitize_loop limit [] prev cs = [] \<longleftrightarrow> filter alphanumeric cs = []"
proof (induction cs)
  case (Cons c cs)
  show ?case
  proof (cases "alphanumeric c")
    case True
    then have "sanitize_loop limit [] prev (c # cs) =
        sanitize_loop limit [if name_char c then c else to_lower c] False cs"
      using Cons.prems by (auto simp: alphanumeric_def)
    then obtain d where "sanitize_loop limit [] prev (c # cs) = sanitize_loop limit [d] False cs"
      by blast
    with sanitize_loop_keeps [of "[d]" limit False cs] True show ?thesis by (auto simp: prefix_def)
  next
    case False
    with Cons show ?thesis by (simp add: alphanumeric_def)
  qed
qed simp

lemma sanitize_fragment_Nil:
  assumes "0 < limit"
  shows "sanitize_fragment raw limit = [] \<longleftrightarrow> filter alphanumeric raw = []"
proof -
  let ?l = "sanitize_loop limit [] False raw"
  have "fragment_ok ?l" using sanitize_loop_ok [of "[]" limit False raw] by (simp add: fragment_ok_def)
  moreover obtain ds where "?l = sanitize_fragment raw limit @ ds" "set ds \<subseteq> {CHR ''-''}"
    using strip_trailing_prefix unfolding sanitize_fragment_def by blast
  ultimately have "sanitize_fragment raw limit = [] \<longleftrightarrow> ?l = []"
    by (cases ds) (auto simp: fragment_ok_def)
  with sanitize_loop_Nil [OF assms, of False raw] show ?thesis by simp
qed

section \<open>Hashes in hexadecimal\<close>

lemma hex_digit_code: "k < 16 \<Longrightarrow> (of_char (hex_digit k) :: nat) = (if k < 10 then 48 + k else 87 + k)"
  by (simp add: hex_digit_def)

lemma hex_digit_inj:
  assumes "m < 16" and "n < 16" and "hex_digit m = hex_digit n"
  shows "m = n"
proof -
  have "(if m < 10 then 48 + m else 87 + m) = (if n < 10 then 48 + n else 87 + n)"
    using hex_digit_code [OF assms(1)] hex_digit_code [OF assms(2)] by (simp only: assms(3))
  then show ?thesis using assms(1,2) by (simp split: if_splits)
qed

lemma hex_digit_name_char:
  assumes "n < 16"
  shows "name_char (hex_digit n)"
  using hex_digit_code [OF assms] assms
  by (simp add: name_char_def is_lower_def is_digit_def less_eq_char_def split: if_splits)

lemma hex16_length [simp]: "length (hex16 h) = 16"
  by (simp add: hex16_def)

lemma hex16_name_chars: "c \<in> set (hex16 h) \<Longrightarrow> name_char c"
  by (auto simp: hex16_def intro: hex_digit_name_char)

lemma hex16_nth: "k < 16 \<Longrightarrow> hex16 h ! k = hex_digit (unat (drop_bit (4 * (15 - k)) h) mod 16)"
  unfolding hex16_def by (subst nth_map) simp_all

lemma hex16_inj:
  assumes "hex16 g = hex16 h"
  shows "g = h"
proof (rule bit_word_eqI)
  fix n
  assume "n < LENGTH(64)"
  then have n: "n div 4 < 16" "4 * (n div 4) + n mod 4 = n" "n mod 4 < 4" by auto
  let ?k = "15 - n div 4"
  have k: "?k < 16" "15 - ?k = n div 4" using n(1) by simp_all
  have "hex16 g ! ?k = hex16 h ! ?k" using assms by simp
  then have "unat (drop_bit (4 * (n div 4)) g) mod 16 = unat (drop_bit (4 * (n div 4)) h) mod 16"
    by (intro hex_digit_inj) (simp_all add: hex16_nth [OF k(1)] k(2))
  then have "take_bit 4 (drop_bit (4 * (n div 4)) g) = take_bit 4 (drop_bit (4 * (n div 4)) h)"
    by (simp add: word_unat_eq_iff take_bit_eq_mod unat_mod)
  then have "bit (take_bit 4 (drop_bit (4 * (n div 4)) g)) (n mod 4) =
      bit (take_bit 4 (drop_bit (4 * (n div 4)) h)) (n mod 4)" by simp
  then show "bit g n = bit h n" using n by (simp add: bit_take_bit_iff bit_drop_bit_eq)
qed

section \<open>Database names\<close>

definition database_name_ok :: "string \<Rightarrow> bool" where
  "database_name_ok s \<longleftrightarrow> s \<noteq> [] \<and> length s \<le> 51 \<and> fragment_ok s \<and> last s \<noteq> CHR ''-''"

lemma fragment_ok_join:
  assumes "fragment_ok a" and "a \<noteq> []" and "\<forall>c\<in>set b. name_char c \<or> c = CHR ''-''"
  shows "fragment_ok (a @ CHR ''-'' # b)"
  using assms by (auto simp: fragment_ok_def)

lemma named_database_prefix_ok:
  "fragment_ok (named_database_prefix pre)" "named_database_prefix pre \<noteq> []"
  "length (named_database_prefix pre) \<le> 21"
proof -
  let ?f = "if sanitize_fragment pre 12 = [] then ''db'' else sanitize_fragment pre 12"
  have f: "fragment_ok ?f" "?f \<noteq> []" "length ?f \<le> 12"
    using sanitize_fragment_ok [of pre 12]
    by (auto simp: fragment_ok_def name_char_def is_lower_def less_eq_char_def)
  have eq: "named_database_prefix pre = ?f @ CHR ''-'' # take 8 (stable_hash_hex pre)"
    by (simp add: named_database_prefix_def Let_def)
  show "fragment_ok (named_database_prefix pre)" unfolding eq
    using f(1,2) by (rule fragment_ok_join)
      (auto simp: stable_hash_hex_def dest: in_set_takeD hex16_name_chars)
  show "named_database_prefix pre \<noteq> []" unfolding eq by simp
  show "length (named_database_prefix pre) \<le> 21" unfolding eq
    using f(3) by (simp add: stable_hash_hex_def)
qed

text \<open>The subtraction in \<open>usize\<close> does not wrap, and leaves room for a fragment.\<close>

lemma remaining_no_underflow:
  "length (named_database_prefix pre) + length (stable_hash_hex name) + 2 + 12 \<le> 51"
  using named_database_prefix_ok(3) [of pre] by (simp add: stable_hash_hex_def)

lemma sanitize_database_name_cases:
  assumes "name \<noteq> []"
  obtains fragment where
    "sanitize_database_name name pre =
       named_database_prefix pre @ CHR ''-'' # (fragment @ stable_hash_hex name)"
    "\<forall>c\<in>set fragment. name_char c \<or> c = CHR ''-''"
    "length (named_database_prefix pre) + 1 + length fragment + 16 \<le> 51"
proof -
  let ?p = "named_database_prefix pre"
  let ?r = "51 - length ?p - length (stable_hash_hex name) - 2"
  let ?f = "sanitize_fragment name ?r"
  note p = named_database_prefix_ok(3) [of pre]
  have f: "fragment_ok ?f" "length ?f \<le> ?r" by (rule sanitize_fragment_ok)+
  show thesis
  proof (cases "?f = []")
    case True
    with assms p show thesis
      by (intro that [of "[]"]) (simp_all add: sanitize_database_name_def Let_def)
  next
    case False
    have "length (?f @ ''-'') + length ?p + 17 \<le> 51"
      using f(2) p by (simp add: stable_hash_hex_def)
    with False assms f(1) show thesis
      by (intro that [of "?f @ ''-''"]) (auto simp: sanitize_database_name_def Let_def fragment_ok_def)
  qed
qed

text \<open>
  Sanitising yields a legal Turso name: at most 51 lowercase letters, digits and dashes, not
  empty, with no dash at either end, for every named partition under every configured prefix; the
  name of the default partition is legal exactly if the prefix has a letter or a digit.
\<close>

theorem sanitized_name_legal:
  "database_name_ok (sanitize_database_name name pre) \<longleftrightarrow>
     \<not> (name = [] \<and> filter alphanumeric pre = [])"
proof (cases "name = []")
  case True
  then show ?thesis
    using sanitize_fragment_ok [of pre 51] sanitize_fragment_Nil [of 51 pre]
    by (auto simp: database_name_ok_def sanitize_database_name_def)
next
  case False
  then obtain fragment where fragment:
    "sanitize_database_name name pre =
       named_database_prefix pre @ CHR ''-'' # (fragment @ stable_hash_hex name)"
    "\<forall>c\<in>set fragment. name_char c \<or> c = CHR ''-''"
    "length (named_database_prefix pre) + 1 + length fragment + 16 \<le> 51"
    by (rule sanitize_database_name_cases)
  have hash: "stable_hash_hex name \<noteq> []" "length (stable_hash_hex name) = 16"
    "\<And>c. c \<in> set (stable_hash_hex name) \<Longrightarrow> name_char c"
    using hex16_length [of "stable_hash name"]
    by (auto simp: stable_hash_hex_def simp del: hex16_length intro: hex16_name_chars)
  from named_database_prefix_ok(1,2) have "fragment_ok (sanitize_database_name name pre)"
    unfolding fragment(1) by (rule fragment_ok_join) (use fragment(2) hash(3) in auto)
  moreover have "last (sanitize_database_name name pre) \<noteq> CHR ''-''"
    using hash(1) hash(3) [of "last (stable_hash_hex name)"] name_char_not_dash by (auto simp: fragment(1))
  ultimately show ?thesis using False fragment(1,3) hash(2) by (simp add: database_name_ok_def)
qed

text \<open>
  Distinct partitions get distinct databases unless their 64-bit hashes collide: two named
  partitions with the same database name under one prefix have the same hash, however similar
  their sanitised fragments are.
\<close>

theorem sanitized_name_collision:
  assumes "n \<noteq> []" and "m \<noteq> []" and "sanitize_database_name n pre = sanitize_database_name m pre"
  shows "stable_hash n = stable_hash m"
proof -
  obtain f where f: "sanitize_database_name n pre =
      named_database_prefix pre @ CHR ''-'' # (f @ stable_hash_hex n)"
    by (rule sanitize_database_name_cases [OF assms(1)])
  obtain g where g: "sanitize_database_name m pre =
      named_database_prefix pre @ CHR ''-'' # (g @ stable_hash_hex m)"
    by (rule sanitize_database_name_cases [OF assms(2)])
  from assms(3) f g have "f @ stable_hash_hex n = g @ stable_hash_hex m" by simp
  then have "stable_hash_hex n = stable_hash_hex m" by (simp add: stable_hash_hex_def append_eq_append_conv)
  then show ?thesis by (auto simp: stable_hash_hex_def dest: hex16_inj)
qed

theorem sanitized_name_collision_witness:
  "sanitize_database_name ''a-b'' ''app'' \<noteq> sanitize_database_name ''a_b'' ''app''"
proof
  assume "sanitize_database_name ''a-b'' ''app'' = sanitize_database_name ''a_b'' ''app''"
  from sanitized_name_collision [OF _ _ this] show False
    by (simp add: stable_hash_def str_bytes_def FNV64_OFFSET_def FNV64_PRIME_def)
qed

end
