(* ===== verification/Wire.thy ===== *)
theory Wire
  imports Codec
begin

text \<open>
  JSON on the wire, as the HTTP clients and the Restate adapter see it: the fields that a derived
  deserialiser reads, \<open>serde_json::Value\<close> as a map with sorted distinct keys, and responses.
  Text itself is a parameter: the record \<open>wire\<close> holds serde_json's printer and its parser, which
  returns the syntax tree of the text, repeated object keys included.
\<close>

section \<open>Derived deserialisers\<close>

text \<open>
  A struct is read from an object, where unknown fields are skipped and a repeated one is an
  error, or from an array of its fields in order. \<open>json_optional_string\<close> is a field of type
  \<open>Option<String>\<close>, for which an absent field and \<open>null\<close> are \<open>None\<close>.
\<close>

definition json_field :: "string \<Rightarrow> (string \<times> json) list \<Rightarrow> json option" where
  "json_field name kvs =
     (case filter (\<lambda>(k, _). k = name) kvs of [(_, v)] \<Rightarrow> Some v | _ \<Rightarrow> None)"

fun json_string :: "json \<Rightarrow> string option" where
  "json_string (JString s) = Some s"
| "json_string _ = None"

fun json_nullable_string :: "json \<Rightarrow> string option option" where
  "json_nullable_string JNull = Some None"
| "json_nullable_string (JString s) = Some (Some s)"
| "json_nullable_string _ = None"

definition json_optional_string :: "string \<Rightarrow> (string \<times> json) list \<Rightarrow> string option option" where
  "json_optional_string name kvs =
     (if name \<in> fst ` set kvs then Option.bind (json_field name kvs) json_nullable_string
      else Some None)"

fun all_some :: "'a option list \<Rightarrow> 'a list option" where
  "all_some [] = Some []"
| "all_some (None # xs) = None"
| "all_some (Some x # xs) = map_option ((#) x) (all_some xs)"

lemma json_field_Nil [simp]: "json_field name [] = None"
  by (simp add: json_field_def)

lemma json_field_skip [simp]: "k \<noteq> name \<Longrightarrow> json_field name ((k, v) # kvs) = json_field name kvs"
  by (simp add: json_field_def)

lemma json_field_here [simp]:
  "name \<notin> fst ` set kvs \<Longrightarrow> json_field name ((name, v) # kvs) = Some v"
proof -
  assume "name \<notin> fst ` set kvs"
  then have "filter (\<lambda>(k, _). k = name) kvs = []" by (force simp: filter_empty_conv)
  then show ?thesis by (simp add: json_field_def)
qed

section \<open>Values\<close>

text \<open>
  \<open>serde_json::Map\<close> (without the \<open>preserve_order\<close> feature) is ordered by key, and a repeated key
  replaces the earlier entry. \<open>json_value\<close> reads a \<open>Value\<close> off a syntax tree.
\<close>

fun map_insert :: "string \<Rightarrow> 'v \<Rightarrow> (string \<times> 'v) list \<Rightarrow> (string \<times> 'v) list" where
  "map_insert k v [] = [(k, v)]"
| "map_insert k v ((l, w) # m) =
     (if k < l then (k, v) # (l, w) # m
      else if k = l then (k, v) # m
      else (l, w) # map_insert k v m)"

definition map_collect :: "(string \<times> 'v) list \<Rightarrow> (string \<times> 'v) list" where
  "map_collect kvs = foldl (\<lambda>m (k, v). map_insert k v m) [] kvs"

fun json_value :: "json \<Rightarrow> json" where
  "json_value (JArray js) = JArray (map json_value js)"
| "json_value (JObject kvs) = JObject (map_collect (map (\<lambda>(k, v). (k, json_value v)) kvs))"
| "json_value j = j"

text \<open>\<open>value.get(name)\<close> and \<open>value.as_str()\<close>.\<close>

fun value_get :: "string \<Rightarrow> json \<Rightarrow> json option" where
  "value_get name (JObject kvs) = map_of kvs name"
| "value_get name _ = None"

abbreviation is_value :: "json \<Rightarrow> bool" where
  "is_value j \<equiv> json_value j = j"

lemma map_insert_append:
  "(\<forall>l\<in>fst ` set m. l < k) \<Longrightarrow> map_insert k v m = m @ [(k, v)]"
  by (induction k v m rule: map_insert.induct) (auto dest: less_asym)

lemma map_collect_sorted:
  assumes "strictly_increasing (map fst kvs)"
  shows "map_collect kvs = kvs"
  using assms
proof (induction kvs rule: rev_induct)
  case (snoc kv kvs)
  then have "map_collect kvs = kvs" and "\<forall>l\<in>fst ` set kvs. l < fst kv"
    by (auto simp: sorted_wrt_append)
  then show ?case
    by (cases kv) (simp add: map_collect_def map_insert_append)
qed (simp add: map_collect_def)

lemma map_of_map_insert: "map_of (map_insert k v m) = (map_of m)(k \<mapsto> v)"
  by (induction k v m rule: map_insert.induct) auto

lemma map_of_map_collect: "map_of (map_collect kvs) = map_of (rev kvs)"
  by (induction kvs rule: rev_induct)
    (auto simp: map_collect_def map_of_map_insert split: prod.splits)

section \<open>Text\<close>

record wire =
  wire_text :: "json \<Rightarrow> string"
  wire_parse :: "string \<Rightarrow> json_error + json"
  wire_mismatch :: "json \<Rightarrow> json_error"

text \<open>serde_json reads back what it wrote.\<close>

definition wire_stable :: "wire \<Rightarrow> json \<Rightarrow> bool" where
  "wire_stable W j \<longleftrightarrow> wire_parse W (wire_text W j) = Inr j"

text \<open>\<open>serde_json::from_str\<close> at a type whose derived deserialiser is \<open>read\<close>.\<close>

definition wire_read :: "wire \<Rightarrow> (json \<Rightarrow> 'a option) \<Rightarrow> string \<Rightarrow> json_error + 'a" where
  "wire_read W read s = and_then (wire_parse W s) (\<lambda>j. ok_or (wire_mismatch W j) (read j))"

lemma wire_read_text [simp]:
  "wire_stable W j \<Longrightarrow> read j = Some a \<Longrightarrow> wire_read W read (wire_text W j) = Inr a"
  by (simp add: wire_read_def wire_stable_def ok_or_def)

section \<open>HTTP responses\<close>

text \<open>
  A response: its status, its body parsed as JSON (or the parser's error), and its text where it
  can be read.
\<close>

record http_response =
  rs_status :: nat
  rs_json :: "string + json"
  rs_text :: "string option"

end
