(* ===== verification/Turso.thy ===== *)
theory Turso
  imports Catalogs Sanitize Wire
begin

text \<open>
  \<^verbatim>\<open>crates/wee-events-sqlite/src/event_store/turso_platform/\<close>: the Platform API and its HTTP
  client (\<^verbatim>\<open>api.rs\<close>), and the provisioner that maps partitions to Turso databases
  (\<^verbatim>\<open>mod.rs\<close>). The HTTP transport is a parameter; the state of the platform is an arbitrary
  type, and so is the state that the partition metadata is kept in. Here a call runs
  alone; \<open>TursoConcurrent\<close> interleaves the steps of several.
\<close>

section \<open>The platform API\<close>

record database_info =
  di_hostname :: string
  di_name :: string

datatype api_error = AlreadyExists | AuthFailure string | Unexpected string

fun api_error_display :: "api_error \<Rightarrow> string" where
  "api_error_display AlreadyExists = ''database already exists''"
| "api_error_display (AuthFailure msg) = ''auth failure: '' @ msg"
| "api_error_display (Unexpected msg) = ''unexpected error: '' @ msg"

record 'a turso_api =
  ta_create_database :: "string \<Rightarrow> string \<Rightarrow> ('a, api_error, database_info) action"
  ta_get_database :: "string \<Rightarrow> ('a, api_error, database_info option) action"
  ta_list_databases :: "string \<Rightarrow> ('a, api_error, database_info list) action"
  ta_delete_database :: "string \<Rightarrow> ('a, api_error, unit) action"

section \<open>The HTTP client\<close>

datatype http_method = GET | POST | DELETE

record http_request =
  rq_method :: http_method
  rq_url :: string
  rq_bearer :: string
  rq_json :: "json option"

text \<open>
  \<open>reqwest::Client\<close> and serde's messages: \<open>http_send\<close> performs a request; \<open>http_mismatch\<close> is
  the error text for a JSON body of another shape.
\<close>

record 'a http_client =
  http_send :: "http_request \<Rightarrow> ('a, string, http_response) action"
  http_mismatch :: "json \<Rightarrow> string"
  http_base_url :: string
  http_api_token :: string
  http_org :: string

definition client_url :: "'a http_client \<Rightarrow> string \<Rightarrow> string" where
  "client_url K path = http_base_url K @ ''/v1/organizations/'' @ http_org K @ path"

text \<open>The derived deserialisers of the response types.\<close>

fun database_response_info :: "json \<Rightarrow> database_info option" where
  "database_response_info (JObject kvs) =
     Option.bind (Option.bind (json_field ''Hostname'' kvs) json_string) (\<lambda>h.
     Option.bind (Option.bind (json_field ''Name'' kvs) json_string) (\<lambda>n.
       Some \<lparr>di_hostname = h, di_name = n\<rparr>))"
| "database_response_info (JArray [JString h, JString n]) = Some \<lparr>di_hostname = h, di_name = n\<rparr>"
| "database_response_info _ = None"

fun database_response :: "json \<Rightarrow> database_info option" where
  "database_response (JObject kvs) = Option.bind (json_field ''database'' kvs) database_response_info"
| "database_response (JArray [j]) = database_response_info j"
| "database_response _ = None"

fun databases_array :: "json \<Rightarrow> database_info list option" where
  "databases_array (JArray js) = all_some (map database_response_info js)"
| "databases_array _ = None"

fun list_databases_response :: "json \<Rightarrow> database_info list option" where
  "list_databases_response (JObject kvs) = Option.bind (json_field ''databases'' kvs) databases_array"
| "list_databases_response (JArray [j]) = databases_array j"
| "list_databases_response _ = None"

text \<open>\<open>response.json().await.map_err(...)\<close> and the two arms for other statuses.\<close>

definition response_body ::
  "'a http_client \<Rightarrow> (json \<Rightarrow> 'b option) \<Rightarrow> http_response \<Rightarrow> api_error + 'b" where
  "response_body K decode_body r =
     (case rs_json r of
        Inl e \<Rightarrow> Inl (Unexpected (''bad response body: '' @ e))
      | Inr j \<Rightarrow> ok_or (Unexpected (''bad response body: '' @ http_mismatch K j)) (decode_body j))"

definition response_error :: "http_response \<Rightarrow> api_error" where
  "response_error r =
     (let body = (case rs_text r of None \<Rightarrow> [] | Some t \<Rightarrow> t)
      in if rs_status r \<in> {401, 403} then AuthFailure body
         else Unexpected (''status '' @ decimal (rs_status r) @ '': '' @ body))"

definition client_request ::
  "'a http_client \<Rightarrow> http_method \<Rightarrow> string \<Rightarrow> json option \<Rightarrow> (http_response \<Rightarrow> api_error + 'b) \<Rightarrow>
    ('a, api_error, 'b) action" where
  "client_request K method path body f =
     seq_result
       (seq_err (\<lambda>e. Unexpected (''request failed: '' @ e))
         (http_send K \<lparr>rq_method = method, rq_url = client_url K path, rq_bearer = http_api_token K,
            rq_json = body\<rparr>))
       (\<lambda>r. give (f r))"

definition client_create_database ::
  "'a http_client \<Rightarrow> string \<Rightarrow> string \<Rightarrow> ('a, api_error, database_info) action" where
  "client_create_database K name grp =
     client_request K POST ''/databases''
       (Some (JObject [(''name'', JString name), (''group'', JString grp)])) (\<lambda>r.
         if rs_status r \<in> {200, 201} then response_body K database_response r
         else if rs_status r = 409 then Inl AlreadyExists
         else Inl (response_error r))"

definition client_get_database ::
  "'a http_client \<Rightarrow> string \<Rightarrow> ('a, api_error, database_info option) action" where
  "client_get_database K name =
     client_request K GET (''/databases/'' @ name) None (\<lambda>r.
       if rs_status r = 200 then map_ok Some (response_body K database_response r)
       else if rs_status r = 404 then Inr None
       else Inl (response_error r))"

definition client_list_databases ::
  "'a http_client \<Rightarrow> string \<Rightarrow> ('a, api_error, database_info list) action" where
  "client_list_databases K grp =
     client_request K GET ''/databases'' None (\<lambda>r.
       if rs_status r = 200 then response_body K list_databases_response r
       else Inl (response_error r))"

definition client_delete_database :: "'a http_client \<Rightarrow> string \<Rightarrow> ('a, api_error, unit) action" where
  "client_delete_database K name =
     client_request K DELETE (''/databases/'' @ name) None (\<lambda>r.
       if rs_status r \<in> {200, 404} then Inr () else Inl (response_error r))"

definition http_api :: "'a http_client \<Rightarrow> 'a turso_api" where
  "http_api K =
     \<lparr>ta_create_database = client_create_database K, ta_get_database = client_get_database K,
      ta_list_databases = client_list_databases K, ta_delete_database = client_delete_database K\<rparr>"

section \<open>The in-memory platform\<close>

text \<open>\<open>FakeTursoPlatformApi\<close>, which the tests run against; its call counters are left out.\<close>

type_synonym fake_platform = "(string \<times> database_info) list"

definition fake_hostname :: "string \<Rightarrow> string" where
  "fake_hostname name = name @ ''-testorg.turso.io''"

definition fake_create_database ::
  "string \<Rightarrow> string \<Rightarrow> (fake_platform, api_error, database_info) action" where
  "fake_create_database name grp dbs =
     (if map_of dbs name \<noteq> None then (Inl AlreadyExists, dbs)
      else let info = \<lparr>di_hostname = fake_hostname name, di_name = name\<rparr>
           in (Inr info, upsert name info dbs))"

definition fake_api :: "fake_platform turso_api" where
  "fake_api =
     \<lparr>ta_create_database = fake_create_database,
      ta_get_database = (\<lambda>name dbs. (Inr (map_of dbs name), dbs)),
      ta_list_databases = (\<lambda>grp dbs. (Inr (map snd dbs), dbs)),
      ta_delete_database = (\<lambda>name dbs. (Inr (), filter (\<lambda>(k, _). k \<noteq> name) dbs))\<rparr>"

section \<open>Partition metadata\<close>

record 'd metadata_store =
  pm_ensure_partition_name :: "database_target \<Rightarrow> string \<Rightarrow> ('d, sqlite_error, unit) action"
  pm_load_partition_name :: "database_target \<Rightarrow> ('d, sqlite_error, string option) action"

text \<open>
  \<open>LibsqlPartitionMetadataStore\<close>: each call opens a connection of its own to the target.
\<close>

definition libsql_metadata :: "'g host \<Rightarrow> ('p, 'g) sqlite_store metadata_store" where
  "libsql_metadata H =
     \<lparr>pm_ensure_partition_name = (\<lambda>target logical_name.
        seq_result (open_target H target) (\<lambda>loc. on_connection loc (ensure_partition_name H logical_name))),
      pm_load_partition_name = (\<lambda>target.
        seq_result (open_target H target) (\<lambda>loc. on_connection loc (load_partition_name H)))\<rparr>"

section \<open>The provisioner\<close>

record turso_config =
  tc_org :: string
  tc_group :: string
  tc_prefix :: string
  tc_api_token :: string
  tc_group_token :: string
  tc_base_url :: "string option"

definition DEFAULT_BASE_URL :: string where
  "DEFAULT_BASE_URL = ''https://api.turso.tech''"

definition config_from_env :: "(string \<Rightarrow> string option) \<Rightarrow> sqlite_error + turso_config" where
  "config_from_env env =
     (let read = (\<lambda>name. ok_or (Configuration (''missing environment variable: '' @ name)) (env name))
      in and_then (read ''TURSO_ORG'') (\<lambda>org.
         and_then (read ''TURSO_GROUP'') (\<lambda>grp.
         and_then (read ''TURSO_DB_PREFIX'') (\<lambda>pre.
         and_then (read ''TURSO_API_TOKEN'') (\<lambda>api_token.
         and_then (read ''TURSO_GROUP_TOKEN'') (\<lambda>group_token.
           Inr \<lparr>tc_org = org, tc_group = grp, tc_prefix = pre, tc_api_token = api_token,
             tc_group_token = group_token, tc_base_url = env ''TURSO_API_BASE_URL''\<rparr>))))))"

text \<open>
  \<open>TursoPlatformProvisionerImpl\<close> with the states of the platform and of the metadata store; the
  mutexes of \<open>cache\<close> and \<open>known_names\<close> are held for single reads and updates only.
\<close>

record ('a, 'd) provisioner =
  tp_group :: string
  tp_prefix :: string
  tp_group_token :: string
  tp_cache :: "(string \<times> database_target) list"
  tp_known_names :: "string set"
  tp_platform :: 'a
  tp_metadata :: 'd

type_synonym ('a, 'd, 'r) provisioner_action = "(('a, 'd) provisioner, sqlite_error, 'r) action"

definition with_api :: "'a \<Rightarrow> 'd \<Rightarrow> string \<Rightarrow> string \<Rightarrow> string \<Rightarrow> ('a, 'd) provisioner" where
  "with_api a d grp pre group_token =
     \<lparr>tp_group = grp, tp_prefix = pre, tp_group_token = group_token, tp_cache = [],
      tp_known_names = {}, tp_platform = a, tp_metadata = d\<rparr>"

definition provisioner_new ::
  "(http_request \<Rightarrow> ('a, string, http_response) action) \<Rightarrow> (json \<Rightarrow> string) \<Rightarrow> turso_config \<Rightarrow>
    'a \<Rightarrow> 'd \<Rightarrow> 'a http_client \<times> ('a, 'd) provisioner" where
  "provisioner_new send mismatch config a d =
     (\<lparr>http_send = send, http_mismatch = mismatch,
       http_base_url = (case tc_base_url config of None \<Rightarrow> DEFAULT_BASE_URL | Some u \<Rightarrow> u),
       http_api_token = tc_api_token config, http_org = tc_org config\<rparr>,
      with_api a d (tc_group config) (tc_prefix config) (tc_group_token config))"

definition on_platform :: "('a, 'e, 'r) action \<Rightarrow> (('a, 'd) provisioner, 'e, 'r) action" where
  "on_platform f P = (case f (tp_platform P) of (r, a) \<Rightarrow> (r, P\<lparr>tp_platform := a\<rparr>))"

definition on_metadata :: "('d, 'e, 'r) action \<Rightarrow> (('a, 'd) provisioner, 'e, 'r) action" where
  "on_metadata f P = (case f (tp_metadata P) of (r, d) \<Rightarrow> (r, P\<lparr>tp_metadata := d\<rparr>))"

definition api_internal :: "api_error \<Rightarrow> sqlite_error" where
  "api_internal e = Internal (api_error_display e)"

fun db_name_for :: "string \<Rightarrow> partition_name \<Rightarrow> string" where
  "db_name_for pre DefaultName = sanitize_database_name [] pre"
| "db_name_for pre (Named n) = sanitize_database_name n pre"

definition named_db_prefix :: "string \<Rightarrow> string" where
  "named_db_prefix pre = named_database_prefix pre @ ''-''"

definition is_managed_named_database :: "string \<Rightarrow> string \<Rightarrow> bool" where
  "is_managed_named_database pre db_name \<longleftrightarrow>
     db_name \<noteq> db_name_for pre DefaultName \<and> starts_with (named_db_prefix pre) db_name"

definition make_target :: "('a, 'd) provisioner \<Rightarrow> string \<Rightarrow> database_target" where
  "make_target P hostname = Turso (''libsql://'' @ hostname) (tp_group_token P)"

definition lookup_existing_database ::
  "'a turso_api \<Rightarrow> string \<Rightarrow> ('a, 'd, database_info option) provisioner_action" where
  "lookup_existing_database A db_name = seq_err api_internal (on_platform (ta_get_database A db_name))"

definition find_existing_database ::
  "'a turso_api \<Rightarrow> partition_name \<Rightarrow> ('a, 'd, (string \<times> database_info) option) provisioner_action" where
  "find_existing_database A name P =
     (let db_name = db_name_for (tp_prefix P) name
      in seq_result (lookup_existing_database A db_name) (\<lambda>found.
           give (Inr (map_option (\<lambda>info. (db_name, info)) found))) P)"

fun record_name :: "partition_name \<Rightarrow> ('a, 'd) provisioner \<Rightarrow> ('a, 'd) provisioner" where
  "record_name (Named n) P = P\<lparr>tp_known_names := insert n (tp_known_names P)\<rparr>"
| "record_name DefaultName P = P"

fun persist_logical_name ::
  "'d metadata_store \<Rightarrow> partition_name \<Rightarrow> database_target \<Rightarrow> ('a, 'd, unit) provisioner_action" where
  "persist_logical_name M DefaultName target = give (Inr ())"
| "persist_logical_name M (Named logical_name) target =
     on_metadata (pm_ensure_partition_name M target logical_name)"

text \<open>The common tail of the three successful paths.\<close>

definition adopt_database ::
  "'d metadata_store \<Rightarrow> partition_name \<Rightarrow> string \<Rightarrow> database_info \<Rightarrow> ('a, 'd, database_target) provisioner_action" where
  "adopt_database M name db_name info P =
     (let target = make_target P (di_hostname info)
      in seq_result (persist_logical_name M name target) (\<lambda>_ P.
           (Inr target, record_name name (P\<lparr>tp_cache := upsert db_name target (tp_cache P)\<rparr>))) P)"

definition create_or_get ::
  "'a turso_api \<Rightarrow> string \<Rightarrow> ('a, 'd, database_info) provisioner_action" where
  "create_or_get A db_name P =
     (case on_platform (ta_create_database A db_name (tp_group P)) P of
        (Inr info, P1) \<Rightarrow> (Inr info, P1)
      | (Inl AlreadyExists, P1) \<Rightarrow>
          seq_result (lookup_existing_database A db_name) (\<lambda>found.
            give (ok_or (Internal (''database '' @ quote_char @ db_name @ quote_char @
              '' reported as existing but not found'')) found)) P1
      | (Inl (AuthFailure msg), P1) \<Rightarrow> (Inl (Configuration (''Turso API auth failure: '' @ msg)), P1)
      | (Inl (Unexpected msg), P1) \<Rightarrow> (Inl (api_internal (Unexpected msg)), P1))"

definition ensure_target_for_name ::
  "'a turso_api \<Rightarrow> 'd metadata_store \<Rightarrow> partition_name \<Rightarrow> ('a, 'd, database_target) provisioner_action" where
  "ensure_target_for_name A M name P =
     (let db_name = db_name_for (tp_prefix P) name in
      case map_of (tp_cache P) db_name of
        Some target \<Rightarrow> (Inr target, P)
      | None \<Rightarrow>
          seq_result (find_existing_database A name) (\<lambda>found.
            case found of
              Some (existing_name, info) \<Rightarrow> adopt_database M name existing_name info
            | None \<Rightarrow> seq_result (create_or_get A db_name) (adopt_database M name db_name)) P)"

definition target_for_existing_name ::
  "'a turso_api \<Rightarrow> 'd metadata_store \<Rightarrow> partition_name \<Rightarrow>
    ('a, 'd, database_target option) provisioner_action" where
  "target_for_existing_name A M name P =
     (case map_of (tp_cache P) (db_name_for (tp_prefix P) name) of
        Some target \<Rightarrow> (Inr (Some target), P)
      | None \<Rightarrow>
          seq_result (find_existing_database A name) (\<lambda>found.
            case found of
              None \<Rightarrow> give (Inr None)
            | Some (db_name, info) \<Rightarrow>
                seq_result (adopt_database M name db_name info) (\<lambda>target. give (Inr (Some target)))) P)"

text \<open>
  \<open>names\<close>: the known names if there are any, else those recorded in the listed databases; each
  future of the \<open>try_join_all\<close> caches its target before it reads the metadata.
\<close>

definition cache_target :: "database_info \<Rightarrow> ('a, 'd) provisioner \<Rightarrow> ('a, 'd) provisioner" where
  "cache_target info P =
     P\<lparr>tp_cache := upsert (di_name info) (make_target P (di_hostname info)) (tp_cache P)\<rparr>"

definition logical_name_of ::
  "'d metadata_store \<Rightarrow> database_info \<Rightarrow> ('a, 'd, string) provisioner_action" where
  "logical_name_of M info P =
     seq_result (on_metadata (pm_load_partition_name M (make_target P (di_hostname info)))) (\<lambda>recorded.
       give (ok_or (Configuration (''database '' @ quote_char @ di_name info @ quote_char @
         '' is missing logical partition metadata'')) recorded)) (cache_target info P)"

definition provisioner_names ::
  "'a turso_api \<Rightarrow> 'd metadata_store \<Rightarrow> ('a, 'd, string list) provisioner_action" where
  "provisioner_names A M P =
     (if tp_known_names P \<noteq> {} then (Inr (sorted_list_of_set (tp_known_names P)), P)
      else
        seq_result (seq_err api_internal (on_platform (ta_list_databases A (tp_group P)))) (\<lambda>databases.
        seq_result
          (collect_actions (logical_name_of M)
            (filter (\<lambda>db. is_managed_named_database (tp_prefix P) (di_name db)) databases))
          (\<lambda>names P.
            let sorted = remdups_adj (sort names)
            in (Inr sorted, P\<lparr>tp_known_names := tp_known_names P \<union> set sorted\<rparr>))) P)"

text \<open>The loop of \<open>named_targets\<close>.\<close>

fun target_loop ::
  "database_info list \<Rightarrow> (string \<times> database_target) list \<Rightarrow> ('a, 'd) provisioner \<Rightarrow>
    (string \<times> database_target) list \<times> ('a, 'd) provisioner" where
  "target_loop [] targets P = (targets, P)"
| "target_loop (db # dbs) targets P =
     (if di_name db = db_name_for (tp_prefix P) DefaultName then target_loop dbs targets P
      else case strip_prefix (named_db_prefix (tp_prefix P)) (di_name db) of
          None \<Rightarrow> target_loop dbs targets P
        | Some stripped_name \<Rightarrow>
            target_loop dbs (targets @ [(stripped_name, make_target P (di_hostname db))])
              (cache_target db P))"

definition provisioner_named_targets ::
  "'a turso_api \<Rightarrow> ('a, 'd, (string \<times> database_target) list) provisioner_action" where
  "provisioner_named_targets A P =
     seq_result (seq_err api_internal (on_platform (ta_list_databases A (tp_group P)))) (\<lambda>databases P.
       case target_loop databases [] P of (targets, P') \<Rightarrow> (Inr targets, P')) P"

text \<open>\<open>cleanup\<close> deletes what the cache and the platform's listing name; a failure stops it.\<close>

definition delete_named ::
  "'a turso_api \<Rightarrow> string \<Rightarrow> ('a, 'd, unit) provisioner_action" where
  "delete_named A name =
     seq_err (\<lambda>e. Internal (''failed to delete '' @ name @ '': '' @ api_error_display e))
       (on_platform (ta_delete_database A name))"

definition names_to_delete :: "('a, 'd) provisioner \<Rightarrow> database_info list \<Rightarrow> string list" where
  "names_to_delete P databases =
     remdups (map fst (tp_cache P) @
       filter (\<lambda>n. n = db_name_for (tp_prefix P) DefaultName \<or>
           starts_with (named_db_prefix (tp_prefix P)) n) (map di_name databases))"

definition cleanup :: "'a turso_api \<Rightarrow> ('a, 'd, unit) provisioner_action" where
  "cleanup A P =
     seq_result (seq_err api_internal (on_platform (ta_list_databases A (tp_group P)))) (\<lambda>databases P1.
     seq_result (collect_actions (delete_named A) (names_to_delete P databases)) (\<lambda>_ P2.
       (Inr (), P2\<lparr>tp_cache := [], tp_known_names := {}\<rparr>)) P1) P"

section \<open>Caching\<close>

lemma tp_prefix_simps [simp]:
  "tp_prefix (record_name name P) = tp_prefix P" "tp_group_token (record_name name P) = tp_group_token P"
  "tp_cache (record_name name P) = tp_cache P" "tp_platform (record_name name P) = tp_platform P"
  by (cases name; simp)+

lemma make_target_cong: "tp_group_token Q = tp_group_token P \<Longrightarrow> make_target Q = make_target P"
  by (simp add: make_target_def fun_eq_iff)

text \<open>What no call changes, and what only a successful call changes.\<close>

definition same_settings :: "('a, 'd) provisioner \<Rightarrow> ('a, 'd) provisioner \<Rightarrow> bool" where
  "same_settings P Q \<longleftrightarrow> tp_prefix Q = tp_prefix P \<and> tp_group_token Q = tp_group_token P \<and>
     tp_group Q = tp_group P"

definition same_caches :: "('a, 'd) provisioner \<Rightarrow> ('a, 'd) provisioner \<Rightarrow> bool" where
  "same_caches P Q \<longleftrightarrow> same_settings P Q \<and> tp_cache Q = tp_cache P \<and>
     tp_known_names Q = tp_known_names P"

lemma same_caches_trans: "same_caches P Q \<Longrightarrow> same_caches Q R \<Longrightarrow> same_caches P R"
  by (simp add: same_caches_def same_settings_def)

lemma on_platform_caches: "on_platform f P = (r, P') \<Longrightarrow> same_caches P P' \<and> tp_metadata P' = tp_metadata P \<and>
    f (tp_platform P) = (r, tp_platform P')"
  by (auto simp: on_platform_def same_caches_def same_settings_def split: prod.splits)

lemma on_metadata_caches: "on_metadata f P = (r, P') \<Longrightarrow> same_caches P P' \<and> tp_platform P' = tp_platform P \<and>
    f (tp_metadata P) = (r, tp_metadata P')"
  by (auto simp: on_metadata_def same_caches_def same_settings_def split: prod.splits)

lemma lookup_cases:
  assumes "lookup_existing_database A n P = (r, P')"
  obtains q where "ta_get_database A n (tp_platform P) = (q, tp_platform P')"
    and "r = map_err api_internal q" and "same_caches P P'"
  using assms on_platform_caches [of "ta_get_database A n" P]
  by (cases "on_platform (ta_get_database A n) P") (auto simp: lookup_existing_database_def seq_err_def)

lemma find_cases:
  assumes "find_existing_database A name P = (r, P')"
  obtains q where "ta_get_database A (db_name_for (tp_prefix P) name) (tp_platform P) = (q, tp_platform P')"
    and "r = map_ok (map_option (\<lambda>info. (db_name_for (tp_prefix P) name, info))) (map_err api_internal q)"
    and "same_caches P P'"
proof -
  from assms have "seq_result (lookup_existing_database A (db_name_for (tp_prefix P) name)) (\<lambda>found.
      give (Inr (map_option (\<lambda>info. (db_name_for (tp_prefix P) name, info)) found))) P = (r, P')"
    by (simp add: find_existing_database_def Let_def)
  then show thesis
  proof (cases rule: seq_result_cases)
    case (stop e)
    from stop(1) obtain q where "ta_get_database A (db_name_for (tp_prefix P) name) (tp_platform P) = (q, tp_platform P')"
      "Inl e = map_err api_internal q" "same_caches P P'" by (rule lookup_cases)
    with stop(2) that [of q] show thesis by (cases q) auto
  next
    case (run a t)
    from run(1) obtain q where "ta_get_database A (db_name_for (tp_prefix P) name) (tp_platform P) = (q, tp_platform t)"
      "Inr a = map_err api_internal q" "same_caches P t" by (rule lookup_cases)
    with run(2) that [of q] show thesis by (cases q) (auto simp: give_iff)
  qed
qed

lemma adopt_cases:
  assumes "adopt_database M name db_name info P = (r, P')"
  obtains (failed) e where "r = Inl e" and "same_caches P P'" and "tp_platform P' = tp_platform P"
  | (adopted) "r = Inr (make_target P (di_hostname info))" and "same_settings P P'"
    and "tp_cache P' = upsert db_name (make_target P (di_hostname info)) (tp_cache P)"
    and "tp_platform P' = tp_platform P"
proof -
  let ?target = "make_target P (di_hostname info)"
  have quiet: "same_caches P Q \<and> tp_platform Q = tp_platform P"
    if "persist_logical_name M name ?target P = (q, Q)" for q Q
    using that by (cases name)
      (auto simp: give_iff same_caches_def same_settings_def dest: on_metadata_caches)
  from assms have "seq_result (persist_logical_name M name ?target) (\<lambda>_ P.
      (Inr ?target, record_name name (P\<lparr>tp_cache := upsert db_name ?target (tp_cache P)\<rparr>))) P = (r, P')"
    by (simp add: adopt_database_def Let_def)
  then show thesis
  proof (cases rule: seq_result_cases)
    case (stop e)
    with quiet that(1) show thesis by blast
  next
    case (run a t)
    from run(2) quiet [OF run(1)] show thesis
      by (intro that(2)) (cases name; auto simp: same_caches_def same_settings_def)+
  qed
qed

lemma create_or_get_cases:
  assumes "create_or_get A db_name P = (r, P')"
  obtains (created) info where "r = Inr info" and "same_caches P P'"
    and "ta_create_database A db_name (tp_group P) (tp_platform P) = (Inr info, tp_platform P')"
  | (found) info a where "r = Inr info" and "same_caches P P'"
    and "ta_create_database A db_name (tp_group P) (tp_platform P) = (Inl AlreadyExists, a)"
    and "ta_get_database A db_name a = (Inr (Some info), tp_platform P')"
  | (failed) e a q where "r = Inl e" and "same_caches P P'"
    and "ta_create_database A db_name (tp_group P) (tp_platform P) = (Inl q, a)"
    and "a = tp_platform P' \<or> (\<exists>g. ta_get_database A db_name a = (g, tp_platform P'))"
proof -
  obtain q P1 where q: "on_platform (ta_create_database A db_name (tp_group P)) P = (q, P1)" by fastforce
  note Q = on_platform_caches [OF q]
  show thesis
  proof (cases "q = Inl AlreadyExists")
    case True
    with assms q have "seq_result (lookup_existing_database A db_name) (\<lambda>found.
        give (ok_or (Internal (''database '' @ quote_char @ db_name @ quote_char @
          '' reported as existing but not found'')) found)) P1 = (r, P')"
      by (simp add: create_or_get_def)
    then show thesis
    proof (cases rule: seq_result_cases)
      case (stop e)
      from stop(1) obtain g where "ta_get_database A db_name (tp_platform P1) = (g, tp_platform P')"
        "same_caches P1 P'" by (rule lookup_cases)
      with Q True stop(2) that(3) show thesis by (metis same_caches_trans)
    next
      case (run a t)
      from run(1) obtain g where g: "ta_get_database A db_name (tp_platform P1) = (g, tp_platform t)"
        "Inr a = map_err api_internal g" "same_caches P1 t" by (rule lookup_cases)
      from run(2) have r: "t = P'" "r = ok_or (Internal (''database '' @ quote_char @ db_name @ quote_char @
          '' reported as existing but not found'')) a" by (simp_all add: give_iff)
      from g(2) have "g = Inr a" by (cases g) auto
      show thesis
      proof (cases a)
        case None
        then obtain e where "r = Inl e" using r(2) by (auto simp: ok_or_def)
        with that(3) [of e] Q True g(1,3) r(1) show thesis by (metis same_caches_trans)
      next
        case (Some info)
        with r(2) have "r = Inr info" by (simp add: ok_or_def)
        with that(2) [of info] Q True g r(1) Some \<open>g = Inr a\<close> show thesis by (metis same_caches_trans)
      qed
    qed
  next
    case False
    show thesis
    proof (cases q)
      case (Inr info)
      with assms q have "r = Inr info" "P' = P1" by (simp_all add: create_or_get_def)
      with Q Inr that(1) show thesis by blast
    next
      case (Inl e)
      with assms q False obtain d where "r = Inl d" "P' = P1"
        by (cases e) (auto simp: create_or_get_def)
      with Q Inl that(3) show thesis by blast
    qed
  qed
qed

lemma create_or_get_caches: "create_or_get A db_name P = (r, P') \<Longrightarrow> same_caches P P'"
  by (erule create_or_get_cases)

lemma ensure_target_cases:
  assumes "ensure_target_for_name A M name P = (r, P')"
  obtains (cached) target where "map_of (tp_cache P) (db_name_for (tp_prefix P) name) = Some target"
    and "r = Inr target" and "P' = P"
  | (failed) e where "r = Inl e" and "same_caches P P'"
  | (adopted) info Q where "same_caches P Q"
    and "adopt_database M name (db_name_for (tp_prefix P) name) info Q = (r, P')"
    and "map_of (tp_cache P) (db_name_for (tp_prefix P) name) = None"
proof (cases "map_of (tp_cache P) (db_name_for (tp_prefix P) name)")
  case (Some target)
  with assms have "r = Inr target" "P' = P" by (simp_all add: ensure_target_for_name_def)
  with that(1) [OF Some] show thesis by blast
next
  case None
  let ?n = "db_name_for (tp_prefix P) name"
  from assms None have "seq_result (find_existing_database A name) (\<lambda>found.
      case found of
        Some (existing_name, info) \<Rightarrow> adopt_database M name existing_name info
      | None \<Rightarrow> seq_result (create_or_get A ?n) (adopt_database M name ?n)) P = (r, P')"
    by (simp add: ensure_target_for_name_def Let_def)
  then show thesis
  proof (cases rule: seq_result_cases)
    case (stop e)
    from stop(1) have "same_caches P P'" by (rule find_cases)
    with stop(2) that(2) show thesis by blast
  next
    case (run found t)
    from run(1) obtain q where q: "Inr found = map_ok (map_option (\<lambda>info. (?n, info))) (map_err api_internal q)"
      "same_caches P t" by (rule find_cases)
    show thesis
    proof (cases found)
      case None
      with run(2) have "seq_result (create_or_get A ?n) (adopt_database M name ?n) t = (r, P')" by simp
      then show thesis
      proof (cases rule: seq_result_cases)
        case (stop e)
        with create_or_get_caches [OF stop(1)] q(2) that(2) show thesis by (blast intro: same_caches_trans)
      next
        case (run info u)
        with create_or_get_caches [OF run(1)] q(2) \<open>map_of (tp_cache P) ?n = None\<close> that(3) show thesis
          by (blast intro: same_caches_trans)
      qed
    next
      case (Some f)
      with q(1) have "\<exists>info. f = (?n, info)" by (cases q) (auto simp: map_option_case split: option.splits)
      then obtain info where "f = (?n, info)" by blast
      with Some run(2) q(2) \<open>map_of (tp_cache P) ?n = None\<close> that(3) show thesis by auto
    qed
  qed
qed

text \<open>
  C31: provisioning is idempotent. Once a name has a target, asking again, to create it or only
  for an existing one, returns the same target from the cache, without a request to the platform
  or to the database; a failed request leaves the cache and the known names as they were.
\<close>

theorem turso_ensure_idempotent:
  "case ensure_target_for_name A M name P of
     (Inr target, P') \<Rightarrow>
       ensure_target_for_name A M name P' = (Inr target, P') \<and>
       target_for_existing_name A M name P' = (Inr (Some target), P')
   | (Inl e, P') \<Rightarrow> tp_cache P' = tp_cache P \<and> tp_known_names P' = tp_known_names P"
proof -
  obtain r P' where run: "ensure_target_for_name A M name P = (r, P')" by fastforce
  have hit: "ensure_target_for_name A M name P' = (Inr target, P') \<and>
      target_for_existing_name A M name P' = (Inr (Some target), P')"
    if "map_of (tp_cache P') (db_name_for (tp_prefix P') name) = Some target" for target
    using that by (simp add: ensure_target_for_name_def target_for_existing_name_def)
  from run show ?thesis
  proof (cases rule: ensure_target_cases)
    case (cached target)
    with run hit [of target] show ?thesis by simp
  next
    case (failed e)
    with run show ?thesis by (simp add: same_caches_def)
  next
    case (adopted info Q)
    from adopted(2) show ?thesis
    proof (cases rule: adopt_cases)
      case (failed e)
      with run adopted(1) show ?thesis by (simp add: same_caches_def)
    next
      case adopted': adopted
      let ?t = "make_target Q (di_hostname info)"
      from adopted' adopted(1) have "map_of (tp_cache P') (db_name_for (tp_prefix P') name) = Some ?t"
        by (simp add: same_caches_def same_settings_def map_of_upsert)
      with run adopted'(1) hit show ?thesis by simp
    qed
  qed
qed

section \<open>The platform's contract\<close>

text \<open>Every cached target belongs to an existing database.\<close>

definition cache_ok ::
  "('a \<Rightarrow> bool) \<Rightarrow> ('a \<Rightarrow> string \<Rightarrow> string option) \<Rightarrow> ('a, 'd) provisioner \<Rightarrow> bool" where
  "cache_ok ok hosts P \<longleftrightarrow> ok (tp_platform P) \<and>
     (\<forall>k t. map_of (tp_cache P) k = Some t \<longrightarrow>
        (\<exists>h. hosts (tp_platform P) k = Some h \<and> t = make_target P h))"

text \<open>
  What the provisioner relies on: a database name leads to one host name for as long as the
  database exists, and only a creation adds a database. A creation or deletion that ends in an
  error may have taken effect all the same, as when the answer was lost. \<open>hosts\<close> abstracts the
  platform's state.
\<close>

locale turso_platform =
  fixes api :: "'a turso_api" and ok :: "'a \<Rightarrow> bool" and hosts :: "'a \<Rightarrow> string \<Rightarrow> string option"
  assumes get_keeps: "ok a \<Longrightarrow> ta_get_database api n a = (r, b) \<Longrightarrow> ok b \<and> hosts b = hosts a"
    and get_reads: "ok a \<Longrightarrow> ta_get_database api n a = (Inr found, b) \<Longrightarrow>
      map_option di_hostname found = hosts a n"
    and create_fails: "ok a \<Longrightarrow> ta_create_database api n g a = (Inl e, b) \<Longrightarrow>
      ok b \<and> (hosts b = hosts a \<or> hosts a n = None \<and> (\<exists>h. hosts b = (hosts a)(n \<mapsto> h)))"
    and create_adds: "ok a \<Longrightarrow> ta_create_database api n g a = (Inr info, b) \<Longrightarrow>
      ok b \<and> hosts a n = None \<and> hosts b = (hosts a)(n \<mapsto> di_hostname info)"
    and list_keeps: "ok a \<Longrightarrow> ta_list_databases api g a = (l, b) \<Longrightarrow> ok b \<and> hosts b = hosts a"
    and list_reads: "ok a \<Longrightarrow> ta_list_databases api g a = (Inr infos, b) \<Longrightarrow>
      (hosts a n = Some h \<longleftrightarrow> (\<exists>info\<in>set infos. di_name info = n \<and> di_hostname info = h))"
    and delete_result: "ok a \<Longrightarrow> ta_delete_database api n a = (d, b) \<Longrightarrow>
      ok b \<and> (hosts b = (hosts a)(n := None) \<or> d \<noteq> Inr () \<and> hosts b = hosts a)"
begin

lemma create_grows: "ok a \<Longrightarrow> ta_create_database api n g a = (r, b) \<Longrightarrow> ok b \<and> hosts a \<subseteq>\<^sub>m hosts b"
  using create_fails [of a n g _ b] create_adds [of a n g _ b]
  by (cases r) (fastforce simp: map_le_def)+

lemma cache_ok_same:
  assumes "cache_ok ok hosts P" and "same_caches P Q" and "ok (tp_platform Q)"
    and "hosts (tp_platform P) \<subseteq>\<^sub>m hosts (tp_platform Q)"
  shows "cache_ok ok hosts Q"
  using assms unfolding cache_ok_def same_caches_def same_settings_def map_le_def
  by (metis domI make_target_cong)

lemma create_or_get_result:
  assumes "cache_ok ok hosts P" and "create_or_get api n P = (r, P')"
  shows "cache_ok ok hosts P' \<and> hosts (tp_platform P) \<subseteq>\<^sub>m hosts (tp_platform P') \<and>
    (\<forall>info. r = Inr info \<longrightarrow> hosts (tp_platform P') n = Some (di_hostname info))"
proof -
  from assms(1) have ok: "ok (tp_platform P)" by (simp add: cache_ok_def)
  from assms(2) show ?thesis
  proof (cases rule: create_or_get_cases)
    case (created info)
    note C = create_adds [OF ok created(3)]
    then have "hosts (tp_platform P) \<subseteq>\<^sub>m hosts (tp_platform P')"
      by (auto simp: map_le_def)
    with C created cache_ok_same [OF assms(1) created(2)] show ?thesis by auto
  next
    case (found info a)
    note F = create_grows [OF ok found(3)]
    from found(4) F get_keeps [of a n] get_reads [of a n "Some info"]
    have "ok (tp_platform P')" "hosts (tp_platform P) \<subseteq>\<^sub>m hosts (tp_platform P')"
      "hosts (tp_platform P') n = Some (di_hostname info)" by fastforce+
    with found cache_ok_same [OF assms(1) found(2)] show ?thesis by simp
  next
    case (failed e a q)
    note F = create_grows [OF ok failed(3)]
    with failed(4) get_keeps [of a n]
    have "ok (tp_platform P')" "hosts (tp_platform P) \<subseteq>\<^sub>m hosts (tp_platform P')" by fastforce+
    with failed cache_ok_same [OF assms(1) failed(2)] show ?thesis by simp
  qed
qed

lemma adopt_result:
  assumes "cache_ok ok hosts P" and "hosts (tp_platform P) n = Some (di_hostname info)"
    and "adopt_database M name n info P = (r, P')"
  shows "cache_ok ok hosts P' \<and> tp_platform P' = tp_platform P \<and> same_settings P P' \<and>
    (\<forall>t. r = Inr t \<longrightarrow> t = make_target P (di_hostname info))"
  using assms(3)
proof (cases rule: adopt_cases)
  case (failed e)
  with assms(1) cache_ok_same [OF assms(1) failed(2)] show ?thesis
    by (simp add: cache_ok_def same_caches_def)
next
  case adopted
  with assms(1,2) show ?thesis
    by (auto simp: cache_ok_def map_of_upsert same_settings_def make_target_def)
qed

lemma find_result:
  assumes "cache_ok ok hosts P" and "find_existing_database api name P = (r, P')"
  shows "cache_ok ok hosts P' \<and> hosts (tp_platform P') = hosts (tp_platform P) \<and> same_caches P P' \<and>
    (\<forall>found. r = Inr found \<longrightarrow> found = None \<or> (\<exists>info. found = Some (db_name_for (tp_prefix P) name, info) \<and>
       hosts (tp_platform P) (db_name_for (tp_prefix P) name) = Some (di_hostname info)))"
  using assms(2)
proof (cases rule: find_cases)
  case (1 q)
  from assms(1) have ok: "ok (tp_platform P)" by (simp add: cache_ok_def)
  note K = get_keeps [OF ok 1(1)]
  then have "cache_ok ok hosts P'" using cache_ok_same [OF assms(1) 1(3)] by simp
  moreover have "found = None \<or> (\<exists>info. found = Some (db_name_for (tp_prefix P) name, info) \<and>
       hosts (tp_platform P) (db_name_for (tp_prefix P) name) = Some (di_hostname info))"
    if "r = Inr found" for found
  proof -
    from that 1(2) obtain b where "q = Inr b"
      "found = map_option (\<lambda>info. (db_name_for (tp_prefix P) name, info)) b" by (cases q) auto
    with get_reads [OF ok, of "db_name_for (tp_prefix P) name" b "tp_platform P'"] 1(1)
    show ?thesis by (cases b) auto
  qed
  ultimately show ?thesis using K 1(3) by blast
qed

lemma ensure_result:
  assumes "cache_ok ok hosts P" and "ensure_target_for_name api M name P = (r, P')"
  shows "cache_ok ok hosts P' \<and> same_settings P P' \<and> hosts (tp_platform P) \<subseteq>\<^sub>m hosts (tp_platform P') \<and>
    (\<forall>t. r = Inr t \<longrightarrow> (\<exists>h. hosts (tp_platform P') (db_name_for (tp_prefix P) name) = Some h \<and>
       t = make_target P h))"
proof (cases "map_of (tp_cache P) (db_name_for (tp_prefix P) name)")
  case (Some t)
  with assms show ?thesis
    by (auto simp: ensure_target_for_name_def cache_ok_def same_settings_def)
next
  case None
  let ?n = "db_name_for (tp_prefix P) name"
  from assms(2) None have "seq_result (find_existing_database api name) (\<lambda>found.
      case found of
        Some (existing_name, info) \<Rightarrow> adopt_database M name existing_name info
      | None \<Rightarrow> seq_result (create_or_get api ?n) (adopt_database M name ?n)) P = (r, P')"
    by (simp add: ensure_target_for_name_def Let_def)
  then show ?thesis
  proof (cases rule: seq_result_cases)
    case (stop e)
    with find_result [OF assms(1) stop(1)] show ?thesis by (simp add: same_caches_def)
  next
    case (run found Q)
    note F = find_result [OF assms(1) run(1)]
    then have Q: "cache_ok ok hosts Q" "hosts (tp_platform Q) = hosts (tp_platform P)" "same_settings P Q"
      by (auto simp only: same_caches_def)
    have adopted: ?thesis
      if R: "cache_ok ok hosts R" "same_settings P R" "hosts (tp_platform P) \<subseteq>\<^sub>m hosts (tp_platform R)"
        and info: "hosts (tp_platform R) ?n = Some (di_hostname info)"
        and run: "adopt_database M name ?n info R = (r, P')" for R info
    proof -
      note A = adopt_result [OF R(1) info run]
      have "make_target R = make_target P"
        by (rule make_target_cong) (use R(2) in \<open>simp add: same_settings_def\<close>)
      moreover have "same_settings P P'" using A R(2) by (simp add: same_settings_def)
      ultimately show ?thesis using A R(3) info by metis
    qed
    show ?thesis
    proof (cases found)
      case (Some f)
      with F obtain info where info: "f = (?n, info)" "hosts (tp_platform Q) ?n = Some (di_hostname info)"
        by auto
      with run(2) Some have "adopt_database M name ?n info Q = (r, P')" by simp
      from adopted [OF Q(1,3) _ info(2) this] Q(2) show ?thesis by simp
    next
      case None
      with run(2) have "seq_result (create_or_get api ?n) (adopt_database M name ?n) Q = (r, P')" by simp
      then show ?thesis
      proof (cases rule: seq_result_cases)
        case (stop e)
        from create_or_get_caches [OF stop(1)] Q(3) have "same_settings P P'"
          by (simp add: same_caches_def same_settings_def)
        with create_or_get_result [OF Q(1) stop(1)] Q(2) stop(2) show ?thesis by simp
      next
        case (run info R)
        from create_or_get_caches [OF run(1)] Q(3) have "same_settings P R"
          by (simp add: same_caches_def same_settings_def)
        with create_or_get_result [OF Q(1) run(1)] Q(2) adopted [OF _ _ _ _ run(2)] show ?thesis by simp
      qed
    qed
  qed
qed

text \<open>Two provisioners that share a platform agree on the target of a name.\<close>

lemma provisioners_agree:
  assumes "cache_ok ok hosts P" and "ensure_target_for_name api M name P = (Inr t, P')"
    and "cache_ok ok hosts Q" and "tp_platform Q = tp_platform P'" and "same_settings P Q"
    and "ensure_target_for_name api M' name Q = (Inr u, Q')"
  shows "u = t \<and> hosts (tp_platform Q') (db_name_for (tp_prefix P) name) \<noteq> None"
proof -
  from ensure_result [OF assms(1,2)] obtain h where h:
    "hosts (tp_platform P') (db_name_for (tp_prefix P) name) = Some h" "t = make_target P h" by auto
  from ensure_result [OF assms(3,6)] assms(5) obtain k where k:
    "hosts (tp_platform Q') (db_name_for (tp_prefix P) name) = Some k" "u = make_target Q k"
    "hosts (tp_platform Q) \<subseteq>\<^sub>m hosts (tp_platform Q')" by (auto simp: same_settings_def)
  from h(1) k(1,3) assms(4) have "h = k" by (force simp: map_le_def dom_def)
  with h k assms(5) show ?thesis by (simp add: same_settings_def make_target_def)
qed

lemma delete_all_result:
  assumes "ok (tp_platform P)" and "collect_actions (delete_named api) ns P = (Inr us, P')"
  shows "ok (tp_platform P') \<and> same_caches P P' \<and>
    hosts (tp_platform P') = (\<lambda>n. if n \<in> set ns then None else hosts (tp_platform P) n)"
  using assms
proof (induction ns arbitrary: P us)
  case Nil
  then show ?case by (auto simp: give_iff same_caches_def same_settings_def)
next
  case (Cons n ns)
  from Cons.prems(2) obtain u Q vs where Q: "delete_named api n P = (Inr u, Q)"
    "collect_actions (delete_named api) ns Q = (Inr vs, P')"
    by (auto simp: result_simps)
  from Q(1) have "on_platform (ta_delete_database api n) P = (Inr u, Q)"
    by (simp add: delete_named_def result_simps)
  note C = on_platform_caches [OF this]
  with delete_result [OF Cons.prems(1), of n "Inr u" "tp_platform Q"]
  have D: "ok (tp_platform Q)" "hosts (tp_platform Q) = (hosts (tp_platform P))(n := None)" by auto
  from Cons.IH [OF D(1) Q(2)] D(2) C show ?case
    by (auto simp: fun_eq_iff same_caches_def same_settings_def)
qed

lemma cleanup_result:
  assumes "cache_ok ok hosts P" and "cleanup api P = (Inr u, P')"
  shows "tp_cache P' = [] \<and> tp_known_names P' = {} \<and> ok (tp_platform P') \<and>
    hosts (tp_platform P') n =
      (if n = db_name_for (tp_prefix P) DefaultName \<or> starts_with (named_db_prefix (tp_prefix P)) n \<or>
          n \<in> fst ` set (tp_cache P)
       then None else hosts (tp_platform P) n)"
proof -
  from assms(2) obtain infos P1 us P2 where run:
    "on_platform (ta_list_databases api (tp_group P)) P = (Inr infos, P1)"
    "collect_actions (delete_named api) (names_to_delete P infos) P1 = (Inr us, P2)"
    "P' = P2\<lparr>tp_cache := [], tp_known_names := {}\<rparr>"
    unfolding cleanup_def by (auto simp: result_simps)
  have ok: "ok (tp_platform P)" using assms(1) by (simp add: cache_ok_def)
  note L = on_platform_caches [OF run(1)]
  then have list: "ta_list_databases api (tp_group P) (tp_platform P) = (Inr infos, tp_platform P1)" by blast
  from list_keeps [OF ok list] have P1: "ok (tp_platform P1)" "hosts (tp_platform P1) = hosts (tp_platform P)"
    by blast+
  note D = delete_all_result [OF P1(1) run(2)]
  have listed: "n \<in> di_name ` set infos" if "hosts (tp_platform P) n = Some h" for h
    using that list_reads [OF ok list, of n h] by auto
  have "n \<in> set (names_to_delete P infos) \<longleftrightarrow> n \<in> fst ` set (tp_cache P) \<or>
      n \<in> di_name ` set infos \<and> (n = db_name_for (tp_prefix P) DefaultName \<or>
        starts_with (named_db_prefix (tp_prefix P)) n)"
    by (auto simp: names_to_delete_def)
  with D P1(2) listed run(3) show ?thesis by (cases "hosts (tp_platform P) n") auto
qed

lemma target_loop_result:
  assumes "target_loop infos ts P = (us, P')"
  shows "(s, t) \<in> set us \<longleftrightarrow> (s, t) \<in> set ts \<or>
    (\<exists>info\<in>set infos. di_name info \<noteq> db_name_for (tp_prefix P) DefaultName \<and>
       di_name info = named_db_prefix (tp_prefix P) @ s \<and> t = make_target P (di_hostname info))"
  using assms
proof (induction infos arbitrary: ts P)
  case (Cons info infos)
  let ?skip = "di_name info = db_name_for (tp_prefix P) DefaultName \<or>
    strip_prefix (named_db_prefix (tp_prefix P)) (di_name info) = None"
  show ?case
  proof (cases ?skip)
    case True
    then have "target_loop infos ts P = (us, P')" using Cons.prems by (auto split: if_splits)
    from Cons.IH [OF this] True show ?thesis by auto
  next
    case False
    then obtain r where r: "strip_prefix (named_db_prefix (tp_prefix P)) (di_name info) = Some r" by blast
    then have name: "di_name info = named_db_prefix (tp_prefix P) @ r" by (simp add: text_simps)
    from False r Cons.prems have run: "target_loop infos (ts @ [(r, make_target P (di_hostname info))])
        (cache_target info P) = (us, P')" by simp
    have same: "tp_prefix (cache_target info P) = tp_prefix P"
      "make_target (cache_target info P) = make_target P"
      by (simp_all add: cache_target_def make_target_def fun_eq_iff)
    from Cons.IH [OF run] False name show ?thesis unfolding same by auto
  qed
qed simp

text \<open>
  What was provisioned for a named partition is found again, by this provisioner or by another of
  the same settings, as long as the platform keeps the database.
\<close>

lemma provisioned_discovered:
  assumes "cache_ok ok hosts P" and "ensure_target_for_name api M (Named n) P = (Inr t, P')" and "n \<noteq> []"
    and "db_name_for (tp_prefix P) (Named n) \<noteq> db_name_for (tp_prefix P) DefaultName"
    and "same_settings P Q" and "ok (tp_platform Q)" and "hosts (tp_platform P') \<subseteq>\<^sub>m hosts (tp_platform Q)"
    and "provisioner_named_targets api Q = (Inr targets, Q')"
  shows "\<exists>s. db_name_for (tp_prefix P) (Named n) = named_db_prefix (tp_prefix P) @ s \<and> (s, t) \<in> set targets"
proof -
  let ?n = "db_name_for (tp_prefix P) (Named n)"
  from ensure_result [OF assms(1,2)] obtain h where E: "hosts (tp_platform P') ?n = Some h"
    "t = make_target P h" by auto
  from E(1) assms(7) have h: "hosts (tp_platform Q) ?n = Some h" by (auto simp: map_le_def dom_def)
  from assms(8) obtain infos Q1 where run:
    "on_platform (ta_list_databases api (tp_group Q)) Q = (Inr infos, Q1)"
    and loop: "(case target_loop infos [] Q1 of (targets, R) \<Rightarrow> (Inr targets, R)) =
      (Inr targets :: sqlite_error + (string \<times> database_target) list, Q')"
    unfolding provisioner_named_targets_def by (auto simp: result_simps)
  then have "target_loop infos [] Q1 = (targets, Q')" by (cases "target_loop infos [] Q1") simp
  note run = run this
  note L = on_platform_caches [OF run(1)]
  then have "ta_list_databases api (tp_group Q) (tp_platform Q) = (Inr infos, tp_platform Q1)" by blast
  from list_reads [OF assms(6) this, of ?n h] h obtain info where
    info: "info \<in> set infos" "di_name info = ?n" "di_hostname info = h" by auto
  obtain s where s: "?n = named_db_prefix (tp_prefix P) @ s"
    by (rule sanitize_database_name_cases [OF assms(3), of "tp_prefix P"]) (simp add: named_db_prefix_def)
  have same: "tp_prefix Q1 = tp_prefix P" "make_target Q1 = make_target P"
    using L assms(5) by (auto simp: same_caches_def same_settings_def intro!: make_target_cong)
  have "(s, t) \<in> set targets"
    unfolding target_loop_result [OF run(2)] same
    by (intro disjI2 bexI [OF _ info(1)]) (use info s E(2) assms(4) in auto)
  with s show ?thesis by blast
qed

end

section \<open>The platform over HTTP\<close>

text \<open>
  What Turso documents of its endpoints, as far as \<open>TursoHttpClient\<close> reads the answers: \<open>hosts\<close> are
  the organization's databases with their host names. A request for one database is answered 200
  with that database, or 404 when there is none; the list is complete; a creation answered 200 or
  201 has added the database it returns, a deletion answered 200 or 404 leaves no such database.
  Any other answer, or none, says nothing: the creation or deletion may have happened. Nothing
  else changes the databases.
\<close>

locale turso_http =
  fixes K :: "'a http_client" and ok :: "'a \<Rightarrow> bool" and hosts :: "'a \<Rightarrow> string \<Rightarrow> string option"
  assumes http_get: "ok a \<Longrightarrow> http_send K \<lparr>rq_method = GET, rq_url = client_url K (''/databases/'' @ n),
        rq_bearer = http_api_token K, rq_json = None\<rparr> a = (r, b) \<Longrightarrow>
      ok b \<and> hosts b = hosts a \<and>
      (\<forall>resp. r = Inr resp \<longrightarrow>
         (rs_status resp = 404 \<longrightarrow> hosts a n = None) \<and>
         (\<forall>j info. rs_status resp = 200 \<longrightarrow> rs_json resp = Inr j \<longrightarrow> database_response j = Some info \<longrightarrow>
            hosts a n = Some (di_hostname info)))"
    and http_list: "ok a \<Longrightarrow> http_send K \<lparr>rq_method = GET, rq_url = client_url K ''/databases'',
        rq_bearer = http_api_token K, rq_json = None\<rparr> a = (r, b) \<Longrightarrow>
      ok b \<and> hosts b = hosts a \<and>
      (\<forall>resp j infos. r = Inr resp \<longrightarrow> rs_status resp = 200 \<longrightarrow> rs_json resp = Inr j \<longrightarrow>
         list_databases_response j = Some infos \<longrightarrow>
         (\<forall>n h. hosts a n = Some h \<longleftrightarrow> (\<exists>info\<in>set infos. di_name info = n \<and> di_hostname info = h)))"
    and http_post: "ok a \<Longrightarrow> http_send K \<lparr>rq_method = POST, rq_url = client_url K ''/databases'',
        rq_bearer = http_api_token K,
        rq_json = Some (JObject [(''name'', JString n), (''group'', JString g)])\<rparr> a = (r, b) \<Longrightarrow>
      ok b \<and> (hosts b = hosts a \<or> hosts a n = None \<and> (\<exists>h. hosts b = (hosts a)(n \<mapsto> h))) \<and>
      (\<forall>resp j info. r = Inr resp \<longrightarrow> rs_status resp \<in> {200, 201} \<longrightarrow> rs_json resp = Inr j \<longrightarrow>
         database_response j = Some info \<longrightarrow>
         hosts a n = None \<and> hosts b = (hosts a)(n \<mapsto> di_hostname info))"
    and http_delete: "ok a \<Longrightarrow> http_send K \<lparr>rq_method = DELETE, rq_url = client_url K (''/databases/'' @ n),
        rq_bearer = http_api_token K, rq_json = None\<rparr> a = (r, b) \<Longrightarrow>
      ok b \<and> (hosts b = hosts a \<or> hosts b = (hosts a)(n := None)) \<and>
      (\<forall>resp. r = Inr resp \<longrightarrow> rs_status resp \<in> {200, 404} \<longrightarrow> hosts b n = None)"
begin

lemma request_sent:
  assumes "client_request K m path body f a = (x, b)"
  obtains (failed) e where "http_send K \<lparr>rq_method = m, rq_url = client_url K path,
      rq_bearer = http_api_token K, rq_json = body\<rparr> a = (Inl e, b)"
      "x = Inl (Unexpected (''request failed: '' @ e))"
  | (answered) resp where "http_send K \<lparr>rq_method = m, rq_url = client_url K path,
      rq_bearer = http_api_token K, rq_json = body\<rparr> a = (Inr resp, b)" "x = f resp"
proof -
  let ?send = "http_send K \<lparr>rq_method = m, rq_url = client_url K path,
    rq_bearer = http_api_token K, rq_json = body\<rparr>"
  obtain r c where send: "?send a = (r, c)" by fastforce
  show thesis
  proof (cases r)
    case (Inl e)
    with send assms failed [of e] show ?thesis
      by (simp add: client_request_def seq_result_def seq_err_def)
  next
    case (Inr resp)
    with send assms answered [of resp] show ?thesis
      by (simp add: client_request_def seq_result_def seq_err_def give_def)
  qed
qed

lemma response_body_Inr:
  "response_body K f resp = Inr x \<longleftrightarrow> (\<exists>j. rs_json resp = Inr j \<and> f j = Some x)"
  by (auto simp: response_body_def ok_or_def split: sum.splits option.splits)

lemma http_platform: "turso_platform (http_api K) ok hosts"
proof
  fix a n r b
  assume ok: "ok a" and run: "ta_get_database (http_api K) n a = (r, b)"
  from run have "client_get_database K n a = (r, b)" by (simp add: http_api_def)
  then show "ok b \<and> hosts b = hosts a"
    unfolding client_get_database_def by (cases rule: request_sent) (use http_get [OF ok] in blast)+
next
  fix a n found b
  assume ok: "ok a" and run: "ta_get_database (http_api K) n a = (Inr found, b)"
  from run have "client_get_database K n a = (Inr found, b)" by (simp add: http_api_def)
  then show "map_option di_hostname found = hosts a n"
    unfolding client_get_database_def
  proof (cases rule: request_sent)
    case (answered resp)
    from answered(2) consider "rs_status resp = 404" "found = None"
      | j info where "rs_status resp = 200" "rs_json resp = Inr j" "database_response j = Some info"
        "found = Some info"
      by (auto simp: response_body_Inr map_ok_Inr dest!: sym [of "Inr found"] split: if_splits)
    then show ?thesis by cases (use http_get [OF ok answered(1)] in auto)
  qed simp
next
  fix a n g e b
  assume ok: "ok a" and run: "ta_create_database (http_api K) n g a = (Inl e, b)"
  from run have "client_create_database K n g a = (Inl e, b)" by (simp add: http_api_def)
  then show "ok b \<and> (hosts b = hosts a \<or> hosts a n = None \<and> (\<exists>h. hosts b = (hosts a)(n \<mapsto> h)))"
    unfolding client_create_database_def by (cases rule: request_sent) (use http_post [OF ok] in blast)+
next
  fix a n g info b
  assume ok: "ok a" and run: "ta_create_database (http_api K) n g a = (Inr info, b)"
  from run have "client_create_database K n g a = (Inr info, b)" by (simp add: http_api_def)
  then show "ok b \<and> hosts a n = None \<and> hosts b = (hosts a)(n \<mapsto> di_hostname info)"
    unfolding client_create_database_def
  proof (cases rule: request_sent)
    case (answered resp)
    from answered(2) obtain j where "rs_status resp \<in> {200, 201}" "rs_json resp = Inr j"
      "database_response j = Some info"
      by (auto simp: response_body_Inr dest!: sym [of "Inr info"] split: if_splits)
    with http_post [OF ok answered(1)] show ?thesis by blast
  qed simp
next
  fix a g r b
  assume ok: "ok a" and run: "ta_list_databases (http_api K) g a = (r, b)"
  from run have "client_list_databases K g a = (r, b)" by (simp add: http_api_def)
  then show "ok b \<and> hosts b = hosts a"
    unfolding client_list_databases_def by (cases rule: request_sent) (use http_list [OF ok] in blast)+
next
  fix a g infos b n h
  assume ok: "ok a" and run: "ta_list_databases (http_api K) g a = (Inr infos, b)"
  from run have "client_list_databases K g a = (Inr infos, b)" by (simp add: http_api_def)
  then show "(hosts a n = Some h) = (\<exists>info\<in>set infos. di_name info = n \<and> di_hostname info = h)"
    unfolding client_list_databases_def
  proof (cases rule: request_sent)
    case (answered resp)
    from answered(2) obtain j where "rs_status resp = 200" "rs_json resp = Inr j"
      "list_databases_response j = Some infos"
      by (auto simp: response_body_Inr dest!: sym [of "Inr infos"] split: if_splits)
    with http_list [OF ok answered(1)] show ?thesis by blast
  qed simp
next
  fix a n d b
  assume ok: "ok a" and run: "ta_delete_database (http_api K) n a = (d, b)"
  from run have "client_delete_database K n a = (d, b)" by (simp add: http_api_def)
  then show "ok b \<and> (hosts b = (hosts a)(n := None) \<or> d \<noteq> Inr () \<and> hosts b = hosts a)"
    unfolding client_delete_database_def
  proof (cases rule: request_sent)
    case (failed e)
    with http_delete [OF ok failed(1)] show ?thesis by auto
  next
    case (answered resp)
    with http_delete [OF ok answered(1)] show ?thesis
      by (auto simp: fun_upd_idem split: if_splits)
  qed
qed

end

sublocale turso_http \<subseteq> over_http: turso_platform "http_api K" ok hosts
  by (rule http_platform)

section \<open>The in-memory platform keeps the contract\<close>

definition fake_ok :: "fake_platform \<Rightarrow> bool" where
  "fake_ok dbs \<longleftrightarrow> distinct (map fst dbs) \<and> (\<forall>(k, info)\<in>set dbs. di_name info = k)"

definition fake_hosts :: "fake_platform \<Rightarrow> string \<Rightarrow> string option" where
  "fake_hosts dbs n = map_option di_hostname (map_of dbs n)"

lemma set_upsert_new: "map_of rows k = None \<Longrightarrow> upsert k v rows = rows @ [(k, v)]"
  by (induction rows) auto

interpretation fake: turso_platform fake_api fake_ok fake_hosts
proof unfold_locales
  fix a n g info b
  assume ok: "fake_ok a" and run: "ta_create_database fake_api n g a = (Inr info, b)"
  then have new: "map_of a n = None" and info: "di_name info = n" and b: "b = upsert n info a"
    by (auto simp: fake_api_def fake_create_database_def Let_def split: if_splits)
  from new have "n \<notin> fst ` set a" by (simp add: map_of_eq_None_iff)
  with ok info b new have "fake_ok b" by (simp add: fake_ok_def set_upsert_new)
  with b new show "fake_ok b \<and> fake_hosts a n = None \<and> fake_hosts b = (fake_hosts a)(n \<mapsto> di_hostname info)"
    by (auto simp: fake_hosts_def map_of_upsert fun_eq_iff)
next
  fix a g infos b n h
  assume ok: "fake_ok a" and "ta_list_databases fake_api g a = (Inr infos, b)"
  then have infos: "infos = map snd a" by (auto simp: fake_api_def)
  have keys: "(map_of a n = Some info) = ((n, info) \<in> set a)" for info
    using ok by (simp add: fake_ok_def)
  have key: "di_name info = k" if "(k, info) \<in> set a" for k info
    using that ok by (auto simp: fake_ok_def)
  show "(fake_hosts a n = Some h) = (\<exists>info\<in>set infos. di_name info = n \<and> di_hostname info = h)"
  proof
    assume "fake_hosts a n = Some h"
    then obtain info where "map_of a n = Some info" "di_hostname info = h" by (auto simp: fake_hosts_def)
    then show "\<exists>info\<in>set infos. di_name info = n \<and> di_hostname info = h"
      using key unfolding keys infos by (intro bexI [of _ info]) force+
  next
    assume "\<exists>info\<in>set infos. di_name info = n \<and> di_hostname info = h"
    then obtain k info where "(k, info) \<in> set a" "di_name info = n" "di_hostname info = h"
      unfolding infos by auto
    then have "map_of a n = Some info" using key keys by metis
    then show "fake_hosts a n = Some h" using \<open>di_hostname info = h\<close> by (simp add: fake_hosts_def)
  qed
next
  fix a n d b
  assume ok: "fake_ok a" and "ta_delete_database fake_api n a = (d, b)"
  then have b: "b = filter (\<lambda>(k, _). k \<noteq> n) a" "d = Inr ()" by (simp_all add: fake_api_def)
  have "map_of (filter (\<lambda>(k, _). k \<noteq> n) xs) m = (if m = n then None else map_of xs m)" for xs :: fake_platform and m
    by (induction xs) auto
  moreover have "fake_ok b" using ok b by (auto simp: fake_ok_def distinct_map inj_on_def)
  ultimately show "fake_ok b \<and>
      (fake_hosts b = (fake_hosts a)(n := None) \<or> d \<noteq> Inr () \<and> fake_hosts b = fake_hosts a)"
    using b by (simp add: fake_hosts_def fun_eq_iff)
qed (auto simp: fake_api_def fake_create_database_def Let_def fake_hosts_def split: if_splits)

text \<open>
  Provisioners agree. A process that asks for a partition's target after another process was
  given one for the same name, under the same prefix and token, whether or not either had to
  create the database, is given the same target, and its database exists.
\<close>

theorem turso_provisioners_agree:
  assumes "cache_ok fake_ok fake_hosts P" and "ensure_target_for_name fake_api M name P = (Inr t, P')"
    and "cache_ok fake_ok fake_hosts Q" and "tp_platform Q = tp_platform P'" and "same_settings P Q"
    and "ensure_target_for_name fake_api M' name Q = (Inr u, Q')"
  shows "u = t \<and> fake_hosts (tp_platform Q') (db_name_for (tp_prefix P) name) \<noteq> None"
  using assms by (rule fake.provisioners_agree)

text \<open>
  C32: discovery is complete, over the Platform API of \<open>TursoHttpClient\<close> against a server that
  answers as Turso documents it. After a target was provisioned for a named partition, listing the
  named targets returns it, under the database name without the managed prefix, unless that name
  coincides with the default partition's; also when another provisioner of the same prefix, group
  and token lists, and as long as the platform has kept the database.
\<close>

theorem turso_provisioned_discovered:
  assumes "turso_http K ok hosts" and "cache_ok ok hosts P"
    and "ensure_target_for_name (http_api K) M (Named n) P = (Inr t, P')" and "n \<noteq> []"
    and "db_name_for (tp_prefix P) (Named n) \<noteq> db_name_for (tp_prefix P) DefaultName"
    and "same_settings P Q" and "ok (tp_platform Q)" and "hosts (tp_platform P') \<subseteq>\<^sub>m hosts (tp_platform Q)"
    and "provisioner_named_targets (http_api K) Q = (Inr targets, Q')"
  shows "\<exists>s. db_name_for (tp_prefix P) (Named n) = named_db_prefix (tp_prefix P) @ s \<and> (s, t) \<in> set targets"
  by (rule turso_platform.provisioned_discovered [OF turso_http.http_platform [OF assms(1)] assms(2-9)])

text \<open>
  Cleaning up deletes exactly the managed databases: afterwards the default database, every
  database under the managed prefix and every cached one is gone, all others are untouched, and
  the provisioner remembers nothing.
\<close>

theorem turso_cleanup_complete:
  assumes "cache_ok fake_ok fake_hosts P" and "cleanup fake_api P = (Inr u, P')"
  shows "tp_cache P' = [] \<and> tp_known_names P' = {} \<and>
    fake_hosts (tp_platform P') n =
      (if n = db_name_for (tp_prefix P) DefaultName \<or> starts_with (named_db_prefix (tp_prefix P)) n \<or>
          n \<in> fst ` set (tp_cache P)
       then None else fake_hosts (tp_platform P) n)"
  using fake.cleanup_result [OF assms] by blast

section \<open>A server for the witnesses\<close>

text \<open>The endpoints over the databases of the in-memory platform.\<close>

definition demo_answer :: "nat \<Rightarrow> json \<Rightarrow> http_response" where
  "demo_answer status j = \<lparr>rs_status = status, rs_json = Inr j, rs_text = Some []\<rparr>"

definition info_json :: "database_info \<Rightarrow> json" where
  "info_json info = JObject [(''Name'', JString (di_name info)), (''Hostname'', JString (di_hostname info))]"

definition database_json :: "database_info \<Rightarrow> json" where
  "database_json info = JObject [(''database'', info_json info)]"

definition databases_json :: "fake_platform \<Rightarrow> json" where
  "databases_json dbs = JObject [(''databases'', JArray (map (\<lambda>(k, info). info_json info) dbs))]"

definition demo_root :: string where
  "demo_root = ''https://api/v1/organizations/org/databases''"

fun demo_create :: "json option \<Rightarrow> fake_platform \<Rightarrow> http_response \<times> fake_platform" where
  "demo_create (Some (JObject [(k, JString n), (l, JString g)])) dbs =
     (case fake_create_database n g dbs of
        (Inl e, dbs') \<Rightarrow> (demo_answer 409 JNull, dbs')
      | (Inr info, dbs') \<Rightarrow> (demo_answer 201 (database_json info), dbs'))"
| "demo_create j dbs = (demo_answer 400 JNull, dbs)"

definition demo_serve :: "http_request \<Rightarrow> fake_platform \<Rightarrow> http_response \<times> fake_platform" where
  "demo_serve q dbs =
     (if rq_url q = demo_root then
        (if rq_method q = POST then demo_create (rq_json q) dbs
         else (demo_answer 200 (databases_json dbs), dbs))
      else case strip_prefix (demo_root @ ''/'') (rq_url q) of
             None \<Rightarrow> (demo_answer 404 JNull, dbs)
           | Some n \<Rightarrow>
               if rq_method q = DELETE then (demo_answer 200 JNull, filter (\<lambda>(k, _). k \<noteq> n) dbs)
               else case map_of dbs n of
                      None \<Rightarrow> (demo_answer 404 JNull, dbs)
                    | Some info \<Rightarrow> (demo_answer 200 (database_json info), dbs))"

definition demo_client :: "fake_platform http_client" where
  "demo_client =
     \<lparr>http_send = (\<lambda>q dbs. map_prod Inr id (demo_serve q dbs)), http_mismatch = (\<lambda>_. ''mismatch''),
      http_base_url = ''https://api'', http_api_token = ''token'', http_org = ''org''\<rparr>"

lemma demo_urls:
  "client_url demo_client ''/databases'' = demo_root"
  "client_url demo_client (''/databases/'' @ n) = demo_root @ CHR ''/'' # n"
  "client_url demo_client (CHR ''/'' # CHR ''d'' # CHR ''a'' # CHR ''t'' # CHR ''a'' # CHR ''b'' # CHR ''a'' #
     CHR ''s'' # CHR ''e'' # CHR ''s'' # CHR ''/'' # n) = demo_root @ CHR ''/'' # n"
  by (simp_all add: client_url_def demo_client_def demo_root_def)

lemma read_info [simp]: "database_response_info (info_json info) = Some info"
  by (simp add: info_json_def json_field_def)

lemma read_database [simp]: "database_response (database_json info) = Some info"
  by (simp add: database_json_def json_field_def)

lemma read_databases [simp]: "list_databases_response (databases_json dbs) = Some (map snd dbs)"
  by (simp add: databases_json_def json_field_def) (induction dbs, auto)

lemma demo_send:
  "http_send demo_client \<lparr>rq_method = m, rq_url = demo_root, rq_bearer = t, rq_json = j\<rparr> dbs =
     (if m = POST then map_prod Inr id (demo_create j dbs)
      else (Inr (demo_answer 200 (databases_json dbs)), dbs))"
  "http_send demo_client \<lparr>rq_method = m, rq_url = demo_root @ CHR ''/'' # n, rq_bearer = t, rq_json = j\<rparr> dbs =
     (if m = DELETE then (Inr (demo_answer 200 JNull), filter (\<lambda>(k, _). k \<noteq> n) dbs)
      else (case map_of dbs n of
          None \<Rightarrow> (Inr (demo_answer 404 JNull), dbs)
        | Some info \<Rightarrow> (Inr (demo_answer 200 (database_json info)), dbs)))"
proof -
  have "strip_prefix (demo_root @ ''/'') (demo_root @ CHR ''/'' # n) = Some n"
    using strip_prefix_Some [of "demo_root @ ''/''" "demo_root @ CHR ''/'' # n" n] by simp
  then show "http_send demo_client \<lparr>rq_method = m, rq_url = demo_root @ CHR ''/'' # n, rq_bearer = t, rq_json = j\<rparr> dbs =
     (if m = DELETE then (Inr (demo_answer 200 JNull), filter (\<lambda>(k, _). k \<noteq> n) dbs)
      else (case map_of dbs n of
          None \<Rightarrow> (Inr (demo_answer 404 JNull), dbs)
        | Some info \<Rightarrow> (Inr (demo_answer 200 (database_json info)), dbs)))"
    by (simp add: demo_client_def demo_serve_def split: option.split)
qed (simp add: demo_client_def demo_serve_def)

text \<open>Through this server the HTTP client is the in-memory platform.\<close>

lemma demo_http_api: "http_api demo_client = fake_api"
  by (simp add: http_api_def fake_api_def fun_eq_iff client_create_database_def client_get_database_def
      client_list_databases_def client_delete_database_def client_request_def demo_urls demo_send
      seq_result_def seq_err_def give_def demo_answer_def response_body_def ok_or_def
      fake_create_database_def Let_def split: option.split)

interpretation demo_http: turso_http demo_client fake_ok fake_hosts
proof
  fix a n r b
  assume ok: "fake_ok a" and "http_send demo_client \<lparr>rq_method = GET,
    rq_url = client_url demo_client (''/databases/'' @ n), rq_bearer = http_api_token demo_client,
    rq_json = None\<rparr> a = (r, b)"
  then show "fake_ok b \<and> fake_hosts b = fake_hosts a \<and> (\<forall>resp. r = Inr resp \<longrightarrow>
      (rs_status resp = 404 \<longrightarrow> fake_hosts a n = None) \<and>
      (\<forall>j info. rs_status resp = 200 \<longrightarrow> rs_json resp = Inr j \<longrightarrow> database_response j = Some info \<longrightarrow>
         fake_hosts a n = Some (di_hostname info)))"
    by (auto simp: demo_urls demo_send demo_answer_def fake_hosts_def split: option.splits)
next
  fix a r b
  assume ok: "fake_ok a" and run: "http_send demo_client \<lparr>rq_method = GET,
    rq_url = client_url demo_client ''/databases'', rq_bearer = http_api_token demo_client,
    rq_json = None\<rparr> a = (r, b)"
  have "ta_list_databases fake_api g a = (Inr (map snd a), a)" for g by (simp add: fake_api_def)
  note L = fake.list_reads [OF ok this]
  from run have "b = a" "r = Inr (demo_answer 200 (databases_json a))"
    by (auto simp: demo_urls demo_send)
  with ok L show "fake_ok b \<and> fake_hosts b = fake_hosts a \<and> (\<forall>resp j infos. r = Inr resp \<longrightarrow>
      rs_status resp = 200 \<longrightarrow> rs_json resp = Inr j \<longrightarrow> list_databases_response j = Some infos \<longrightarrow>
      (\<forall>n h. fake_hosts a n = Some h \<longleftrightarrow> (\<exists>info\<in>set infos. di_name info = n \<and> di_hostname info = h)))"
    by (simp add: demo_answer_def del: list_databases_response.simps)
next
  fix a n g r b
  assume ok: "fake_ok a" and run: "http_send demo_client \<lparr>rq_method = POST,
    rq_url = client_url demo_client ''/databases'', rq_bearer = http_api_token demo_client,
    rq_json = Some (JObject [(''name'', JString n), (''group'', JString g)])\<rparr> a = (r, b)"
  obtain q c where c: "ta_create_database fake_api n g a = (q, c)" by fastforce
  then have q: "fake_create_database n g a = (q, c)" by (simp add: fake_api_def)
  show "fake_ok b \<and> (fake_hosts b = fake_hosts a \<or>
      fake_hosts a n = None \<and> (\<exists>h. fake_hosts b = (fake_hosts a)(n \<mapsto> h))) \<and>
    (\<forall>resp j info. r = Inr resp \<longrightarrow> rs_status resp \<in> {200, 201} \<longrightarrow> rs_json resp = Inr j \<longrightarrow>
       database_response j = Some info \<longrightarrow>
       fake_hosts a n = None \<and> fake_hosts b = (fake_hosts a)(n \<mapsto> di_hostname info))"
  proof (cases q)
    case (Inl e)
    with run q have "b = c" "r = Inr (demo_answer 409 JNull)" by (simp_all add: demo_urls demo_send)
    with fake.create_fails [OF ok, of n g e c] c Inl show ?thesis by (simp add: demo_answer_def)
  next
    case (Inr info)
    with run q have "b = c" "r = Inr (demo_answer 201 (database_json info))"
      by (simp_all add: demo_urls demo_send)
    with fake.create_adds [OF ok, of n g info c] c Inr show ?thesis
      by (auto simp: demo_answer_def)
  qed
next
  fix a n r b
  assume ok: "fake_ok a" and "http_send demo_client \<lparr>rq_method = DELETE,
    rq_url = client_url demo_client (''/databases/'' @ n), rq_bearer = http_api_token demo_client,
    rq_json = None\<rparr> a = (r, b)"
  then have "ta_delete_database fake_api n a = (Inr (), b)" "r = Inr (demo_answer 200 JNull)"
    by (simp_all add: demo_urls demo_send fake_api_def)
  with fake.delete_result [OF ok, of n "Inr ()" b] show "fake_ok b \<and>
      (fake_hosts b = fake_hosts a \<or> fake_hosts b = (fake_hosts a)(n := None)) \<and>
      (\<forall>resp. r = Inr resp \<longrightarrow> rs_status resp \<in> {200, 404} \<longrightarrow> fake_hosts b n = None)"
    by simp
qed

section \<open>Witnesses\<close>

definition demo_metadata :: "unit metadata_store" where
  "demo_metadata = \<lparr>pm_ensure_partition_name = (\<lambda>t n d. (Inr (), d)),
     pm_load_partition_name = (\<lambda>t d. (Inr None, d))\<rparr>"

definition demo_provisioner :: "fake_platform \<Rightarrow> (fake_platform, unit) provisioner" where
  "demo_provisioner a = with_api a () ''default'' ''app'' ''token''"

definition demo_db :: string where
  "demo_db = sanitize_database_name ''orders'' ''app''"

definition demo_platform :: fake_platform where
  "demo_platform = [(demo_db, \<lparr>di_hostname = fake_hostname demo_db, di_name = demo_db\<rparr>)]"

definition demo_turso_target :: database_target where
  "demo_turso_target = Turso (''libsql://'' @ fake_hostname demo_db) ''token''"

lemma demo_provisioner_ok: "fake_ok a \<Longrightarrow> cache_ok fake_ok fake_hosts (demo_provisioner a)"
  by (simp add: cache_ok_def demo_provisioner_def with_api_def)

lemma demo_platform_ok: "fake_ok []" "fake_ok demo_platform"
  by (simp_all add: fake_ok_def demo_platform_def)

lemma demo_ensure:
  assumes "a = [] \<or> a = demo_platform"
  shows "ensure_target_for_name fake_api demo_metadata (Named ''orders'') (demo_provisioner a) =
    (Inr demo_turso_target, (demo_provisioner demo_platform)
       \<lparr>tp_cache := [(demo_db, demo_turso_target)], tp_known_names := {''orders''}\<rparr>)"
  using assms
  by (auto simp: ensure_target_for_name_def find_existing_database_def lookup_existing_database_def
      seq_result_def seq_err_def on_platform_def fake_api_def demo_provisioner_def with_api_def give_def
      create_or_get_def fake_create_database_def adopt_database_def make_target_def on_metadata_def
      demo_metadata_def demo_db_def demo_platform_def demo_turso_target_def Let_def)

theorem turso_provisioners_agree_witness:
  "fake_hosts demo_platform (db_name_for ''app'' (Named ''orders'')) \<noteq> None"
proof -
  have "tp_platform (demo_provisioner demo_platform) = tp_platform ((demo_provisioner demo_platform)
      \<lparr>tp_cache := [(demo_db, demo_turso_target)], tp_known_names := {''orders''}\<rparr>)"
    "same_settings (demo_provisioner []) (demo_provisioner demo_platform)"
    by (simp_all add: same_settings_def demo_provisioner_def with_api_def)
  from turso_provisioners_agree [OF demo_provisioner_ok [OF demo_platform_ok(1)] demo_ensure
      demo_provisioner_ok [OF demo_platform_ok(2)] this demo_ensure]
  show ?thesis by (simp add: demo_provisioner_def with_api_def)
qed

theorem turso_provisioned_discovered_witness:
  "\<exists>s targets Q. demo_db = named_db_prefix ''app'' @ s \<and> (s, demo_turso_target) \<in> set targets \<and>
     provisioner_named_targets (http_api demo_client) (demo_provisioner demo_platform) = (Inr targets, Q)"
proof -
  let ?P = "(demo_provisioner demo_platform)
      \<lparr>tp_cache := [(demo_db, demo_turso_target)], tp_known_names := {''orders''}\<rparr>"
  let ?Q = "demo_provisioner demo_platform"
  obtain ts Q where run: "provisioner_named_targets (http_api demo_client) ?Q = (Inr ts, Q)"
    unfolding demo_http_api by (cases "provisioner_named_targets fake_api ?Q")
      (auto simp: provisioner_named_targets_def seq_result_def seq_err_def on_platform_def fake_api_def
        split: prod.splits)
  have "sanitize_fragment ''app'' 51 = ''app''"
    by (simp add: sanitize_fragment_def strip_trailing_dashes_def name_char_def is_lower_def less_eq_char_def)
  moreover have "length demo_db \<noteq> 3"
    unfolding demo_db_def by (rule sanitize_database_name_cases [of "''orders''" "''app''"])
      (simp_all add: stable_hash_hex_def)
  ultimately have differs: "db_name_for ''app'' (Named ''orders'') \<noteq> db_name_for ''app'' DefaultName"
    by (auto simp: demo_db_def sanitize_database_name_def [of "[]"])
  have "same_settings (demo_provisioner []) ?Q" "fake_ok (tp_platform ?Q)"
    "fake_hosts (tp_platform ?P) \<subseteq>\<^sub>m fake_hosts (tp_platform ?Q)"
    using demo_platform_ok(2) by (simp_all add: same_settings_def demo_provisioner_def with_api_def)
  from turso_provisioned_discovered [OF demo_http.turso_http_axioms demo_provisioner_ok [OF demo_platform_ok(1)]
      demo_ensure [folded demo_http_api] _ _ this run] differs run
  show ?thesis by (auto simp: demo_provisioner_def with_api_def demo_db_def)
qed

theorem turso_cleanup_complete_witness:
  "\<exists>P. cleanup fake_api (demo_provisioner demo_platform) = (Inr (), P) \<and> fake_hosts (tp_platform P) demo_db = None"
proof -
  have del: "fst (collect_actions (delete_named fake_api) ns P) = Inr (replicate (length ns) ())"
    for ns and P :: "(fake_platform, unit) provisioner"
    by (induction ns arbitrary: P)
      (auto simp: seq_result_def give_def delete_named_def seq_err_def on_platform_def fake_api_def
        split: prod.splits sum.splits dest: arg_cong [of _ _ fst])
  let ?D = "demo_provisioner demo_platform"
  obtain us P2 where "collect_actions (delete_named fake_api) (names_to_delete ?D (map snd demo_platform)) ?D =
      (Inr us, P2)" by (metis del prod.collapse)
  moreover have "seq_err api_internal (on_platform (ta_list_databases fake_api g)) ?D =
      (Inr (map snd demo_platform), ?D)" for g
    by (simp add: seq_err_def on_platform_def fake_api_def demo_provisioner_def with_api_def)
  ultimately obtain P where run: "cleanup fake_api ?D = (Inr (), P)"
    by (simp add: cleanup_def)
  obtain f where "demo_db = named_database_prefix ''app'' @ CHR ''-'' # f"
    unfolding demo_db_def by (rule sanitize_database_name_cases [of "''orders''" "''app''"]) auto
  then have "starts_with (named_db_prefix ''app'') demo_db"
    by (auto simp: text_simps named_db_prefix_def)
  with turso_cleanup_complete [OF demo_provisioner_ok [OF demo_platform_ok(2)] run, of demo_db] run
  show ?thesis by (simp add: demo_provisioner_def with_api_def)
qed

end
