(* ===== verification/TursoConcurrent.thy ===== *)
theory TursoConcurrent
  imports Turso
begin

text \<open>
  Concurrent calls of Turso provisioners
  (\<^verbatim>\<open>crates/wee-events-sqlite/src/event_store/turso_platform/mod.rs\<close>). Any number of tasks call
  any number of provisioners, which share the platform and the databases' metadata and have
  their own \<open>cache\<close> and \<open>known_names\<close>. One step of a task is one request to the platform, one
  use of the metadata store, or one use of a mutex; between two steps any other task may run.
  Where the code leaves an order open (the futures of \<open>try_join_all\<close>, the iteration over a
  \<open>HashSet\<close>) a step takes the number of the alternative.
\<close>

section \<open>Calls in progress\<close>

datatype turso_call =
    EnsureTarget partition_name
  | ExistingTarget partition_name
  | ListNames
  | ListTargets
  | Cleanup

datatype turso_result =
    GotTarget partition_name "sqlite_error + database_target"
  | GotExisting partition_name "sqlite_error + database_target option"
  | GotNames "sqlite_error + string list"
  | GotTargets "sqlite_error + (string \<times> database_target) list"
  | Cleaned "sqlite_error + unit"

text \<open>A future of the \<open>try_join_all\<close> in \<open>names\<close>.\<close>

datatype name_future = Unpolled database_info | Loading database_info | Loaded string

text \<open>
  Where a call is. The flag tells \<open>ensure_target_for_name\<close> from \<open>target_for_existing_name\<close>, whose
  last steps are the same.
\<close>

datatype turso_task =
    Called turso_call
  | Finding bool partition_name
  | Creating partition_name
  | Refetching partition_name
  | Persisting bool partition_name database_info
  | Caching bool partition_name database_target
  | Recording bool partition_name database_target
  | ListingNames
  | Joining "name_future list"
  | ListingTargets
  | Looping "database_info list"
  | Cleaning "string list"
  | Checking "string list" "database_info list"
  | Deleting "string list"
  | ClearingCache
  | ClearingNames
  | Finished turso_result

fun finished :: "turso_task \<Rightarrow> bool" where
  "finished (Finished r) = True"
| "finished _ = False"

definition target_result :: "bool \<Rightarrow> partition_name \<Rightarrow> sqlite_error + database_target \<Rightarrow> turso_task" where
  "target_result creating name r =
     Finished (if creating then GotTarget name r else GotExisting name (map_ok Some r))"

fun is_loaded :: "name_future \<Rightarrow> bool" where
  "is_loaded (Loaded n) = True"
| "is_loaded _ = False"

fun loaded_name :: "name_future \<Rightarrow> string" where
  "loaded_name (Loaded n) = n"
| "loaded_name _ = []"

definition pending_futures :: "name_future list \<Rightarrow> nat list" where
  "pending_futures fs = filter (\<lambda>j. \<not> is_loaded (fs ! j)) [0..<length fs]"

text \<open>One future of the join is polled.\<close>

fun poll_future ::
  "'d metadata_store \<Rightarrow> name_future list \<Rightarrow> nat \<Rightarrow> name_future \<Rightarrow> ('a, 'd) provisioner \<Rightarrow>
    turso_task \<times> ('a, 'd) provisioner" where
  "poll_future M fs j (Unpolled info) P = (Joining (fs[j := Loading info]), cache_target info P)"
| "poll_future M fs j (Loading info) P =
     (case on_metadata (pm_load_partition_name M (make_target P (di_hostname info))) P of
        (Inl e, P') \<Rightarrow> (Finished (GotNames (Inl e)), P')
      | (Inr None, P') \<Rightarrow>
          (Finished (GotNames (Inl (Configuration (''database '' @ quote_char @ di_name info @ quote_char @
             '' is missing logical partition metadata'')))), P')
      | (Inr (Some n), P') \<Rightarrow> (Joining (fs[j := Loaded n]), P'))"
| "poll_future M fs j (Loaded n) P = (Joining fs, P)"

definition remember_names ::
  "string list \<Rightarrow> ('a, 'd) provisioner \<Rightarrow> turso_task \<times> ('a, 'd) provisioner" where
  "remember_names names P =
     (let sorted = remdups_adj (sort names)
      in (Finished (GotNames (Inr sorted)), P\<lparr>tp_known_names := tp_known_names P \<union> set sorted\<rparr>))"

text \<open>The databases to delete, with the second look into the cache.\<close>

definition cleanup_names :: "string list \<Rightarrow> database_info list \<Rightarrow> ('a, 'd) provisioner \<Rightarrow> string list" where
  "cleanup_names cached databases P =
     (let default_db_name = db_name_for (tp_prefix P) DefaultName in
      remdups (cached @
        (if default_db_name \<in> fst ` set (tp_cache P) \<and> default_db_name \<notin> set cached
         then [default_db_name] else []) @
        filter (\<lambda>n. n = default_db_name \<or> starts_with (named_db_prefix (tp_prefix P)) n)
          (map di_name databases)))"

definition remove_nth :: "nat \<Rightarrow> 'b list \<Rightarrow> 'b list" where
  "remove_nth j xs = take j xs @ drop (Suc j) xs"

section \<open>The steps\<close>

fun turso_step ::
  "'a turso_api \<Rightarrow> 'd metadata_store \<Rightarrow> nat \<Rightarrow> turso_task \<Rightarrow> ('a, 'd) provisioner \<Rightarrow>
    turso_task \<times> ('a, 'd) provisioner" where
  "turso_step A M c (Called (EnsureTarget name)) P =
     (case map_of (tp_cache P) (db_name_for (tp_prefix P) name) of
        Some target \<Rightarrow> (Finished (GotTarget name (Inr target)), P)
      | None \<Rightarrow> (Finding True name, P))"
| "turso_step A M c (Called (ExistingTarget name)) P =
     (case map_of (tp_cache P) (db_name_for (tp_prefix P) name) of
        Some target \<Rightarrow> (Finished (GotExisting name (Inr (Some target))), P)
      | None \<Rightarrow> (Finding False name, P))"
| "turso_step A M c (Called ListNames) P =
     (if tp_known_names P \<noteq> {}
      then (Finished (GotNames (Inr (sorted_list_of_set (tp_known_names P)))), P)
      else (ListingNames, P))"
| "turso_step A M c (Called ListTargets) P = (ListingTargets, P)"
| "turso_step A M c (Called Cleanup) P = (Cleaning (map fst (tp_cache P)), P)"
| "turso_step A M c (Finding creating name) P =
     (case lookup_existing_database A (db_name_for (tp_prefix P) name) P of
        (Inl e, P') \<Rightarrow> (target_result creating name (Inl e), P')
      | (Inr (Some info), P') \<Rightarrow> (Persisting creating name info, P')
      | (Inr None, P') \<Rightarrow>
          (if creating then Creating name else Finished (GotExisting name (Inr None)), P'))"
| "turso_step A M c (Creating name) P =
     (case on_platform (ta_create_database A (db_name_for (tp_prefix P) name) (tp_group P)) P of
        (Inr info, P') \<Rightarrow> (Persisting True name info, P')
      | (Inl AlreadyExists, P') \<Rightarrow> (Refetching name, P')
      | (Inl (AuthFailure msg), P') \<Rightarrow>
          (target_result True name (Inl (Configuration (''Turso API auth failure: '' @ msg))), P')
      | (Inl (Unexpected msg), P') \<Rightarrow> (target_result True name (Inl (api_internal (Unexpected msg))), P'))"
| "turso_step A M c (Refetching name) P =
     (case lookup_existing_database A (db_name_for (tp_prefix P) name) P of
        (Inl e, P') \<Rightarrow> (target_result True name (Inl e), P')
      | (Inr (Some info), P') \<Rightarrow> (Persisting True name info, P')
      | (Inr None, P') \<Rightarrow>
          (target_result True name (Inl (Internal (''database '' @ quote_char @
             db_name_for (tp_prefix P) name @ quote_char @ '' reported as existing but not found''))), P'))"
| "turso_step A M c (Persisting creating name info) P =
     (case persist_logical_name M name (make_target P (di_hostname info)) P of
        (Inl e, P') \<Rightarrow> (target_result creating name (Inl e), P')
      | (Inr u, P') \<Rightarrow> (Caching creating name (make_target P (di_hostname info)), P'))"
| "turso_step A M c (Caching creating name target) P =
     (Recording creating name target,
      P\<lparr>tp_cache := upsert (db_name_for (tp_prefix P) name) target (tp_cache P)\<rparr>)"
| "turso_step A M c (Recording creating name target) P =
     (target_result creating name (Inr target), record_name name P)"
| "turso_step A M c ListingNames P =
     (case seq_err api_internal (on_platform (ta_list_databases A (tp_group P))) P of
        (Inl e, P') \<Rightarrow> (Finished (GotNames (Inl e)), P')
      | (Inr databases, P') \<Rightarrow>
          (Joining (map Unpolled
             (filter (\<lambda>db. is_managed_named_database (tp_prefix P) (di_name db)) databases)), P'))"
| "turso_step A M c (Joining fs) P =
     (let pending = pending_futures fs in
      if pending = [] then remember_names (map loaded_name fs) P
      else let j = pending ! (c mod length pending) in poll_future M fs j (fs ! j) P)"
| "turso_step A M c ListingTargets P =
     (case seq_err api_internal (on_platform (ta_list_databases A (tp_group P))) P of
        (Inl e, P') \<Rightarrow> (Finished (GotTargets (Inl e)), P')
      | (Inr databases, P') \<Rightarrow> (Looping databases, P'))"
| "turso_step A M c (Looping databases) P =
     (case target_loop databases [] P of (targets, P') \<Rightarrow> (Finished (GotTargets (Inr targets)), P'))"
| "turso_step A M c (Cleaning cached) P =
     (case seq_err api_internal (on_platform (ta_list_databases A (tp_group P))) P of
        (Inl e, P') \<Rightarrow> (Finished (Cleaned (Inl e)), P')
      | (Inr databases, P') \<Rightarrow> (Checking cached databases, P'))"
| "turso_step A M c (Checking cached databases) P = (Deleting (cleanup_names cached databases P), P)"
| "turso_step A M c (Deleting ns) P =
     (if ns = [] then (ClearingCache, P)
      else let j = c mod length ns in
        (case delete_named A (ns ! j) P of
           (Inl e, P') \<Rightarrow> (Finished (Cleaned (Inl e)), P')
         | (Inr u, P') \<Rightarrow> (Deleting (remove_nth j ns), P')))"
| "turso_step A M c ClearingCache P = (ClearingNames, P\<lparr>tp_cache := []\<rparr>)"
| "turso_step A M c ClearingNames P = (Finished (Cleaned (Inr ())), P\<lparr>tp_known_names := {}\<rparr>)"
| "turso_step A M c (Finished r) P = (Finished r, P)"

text \<open>
  The world: the shared platform and metadata, each provisioner's own part (its \<open>tp_platform\<close> and
  \<open>tp_metadata\<close> are overlaid by the shared ones), and the tasks, each with its provisioner.
\<close>

record ('a, 'd) turso_world =
  tw_platform :: 'a
  tw_metadata :: 'd
  tw_provisioners :: "nat \<Rightarrow> ('a, 'd) provisioner"
  tw_tasks :: "nat \<Rightarrow> (nat \<times> turso_task) option"

definition provisioner_at :: "('a, 'd) turso_world \<Rightarrow> nat \<Rightarrow> ('a, 'd) provisioner" where
  "provisioner_at W i =
     (tw_provisioners W i)\<lparr>tp_platform := tw_platform W, tp_metadata := tw_metadata W\<rparr>"

definition task_moves ::
  "nat \<Rightarrow> nat \<Rightarrow> turso_task \<times> ('a, 'd) provisioner \<Rightarrow> ('a, 'd) turso_world \<Rightarrow> ('a, 'd) turso_world" where
  "task_moves t i = (\<lambda>(k, P) W.
     \<lparr>tw_platform = tp_platform P, tw_metadata = tp_metadata P,
      tw_provisioners = (tw_provisioners W)(i := P), tw_tasks = (tw_tasks W)(t \<mapsto> (i, k))\<rparr>)"

text \<open>
  \<open>allowed\<close> restricts the calls that tasks make. The databases have other users, who may change
  what the metadata calls read.
\<close>

inductive turso_world_step ::
  "'a turso_api \<Rightarrow> 'd metadata_store \<Rightarrow> (turso_call \<Rightarrow> bool) \<Rightarrow> ('a, 'd) turso_world \<Rightarrow>
    ('a, 'd) turso_world \<Rightarrow> bool" for A M allowed where
  called: "tw_tasks W t = None \<Longrightarrow> allowed c \<Longrightarrow>
    turso_world_step A M allowed W (W\<lparr>tw_tasks := (tw_tasks W)(t \<mapsto> (i, Called c))\<rparr>)"
| moved: "tw_tasks W t = Some (i, k) \<Longrightarrow> \<not> finished k \<Longrightarrow>
    turso_world_step A M allowed W (task_moves t i (turso_step A M c k (provisioner_at W i)) W)"
| elsewhere: "turso_world_step A M allowed W (W\<lparr>tw_metadata := d\<rparr>)"

abbreviation turso_runs where
  "turso_runs A M allowed \<equiv> (turso_world_step A M allowed)\<^sup>*\<^sup>*"

text \<open>Where a run begins: fresh provisioners on the platform, no calls yet.\<close>

definition turso_start :: "('a, 'd) turso_world \<Rightarrow> bool" where
  "turso_start W \<longleftrightarrow> (\<forall>i. tp_cache (tw_provisioners W i) = []) \<and> tw_tasks W = Map.empty"

section \<open>A call on its own\<close>

text \<open>
  With no other task, and with the first alternative taken everywhere, the steps of a call add up
  to the function that models the whole call.
\<close>

definition turso_alone ::
  "'a turso_api \<Rightarrow> 'd metadata_store \<Rightarrow> turso_task \<times> ('a, 'd) provisioner \<Rightarrow>
    turso_task \<times> ('a, 'd) provisioner \<Rightarrow> bool" where
  "turso_alone A M x y \<longleftrightarrow> y = turso_step A M 0 (fst x) (snd x)"

fun sequential_call ::
  "'a turso_api \<Rightarrow> 'd metadata_store \<Rightarrow> turso_call \<Rightarrow> ('a, 'd) provisioner \<Rightarrow>
    turso_result \<times> ('a, 'd) provisioner" where
  "sequential_call A M (EnsureTarget name) P =
     map_prod (GotTarget name) id (ensure_target_for_name A M name P)"
| "sequential_call A M (ExistingTarget name) P =
     map_prod (GotExisting name) id (target_for_existing_name A M name P)"
| "sequential_call A M ListNames P = map_prod GotNames id (provisioner_names A M P)"
| "sequential_call A M ListTargets P = map_prod GotTargets id (provisioner_named_targets A P)"
| "sequential_call A M Cleanup P = map_prod Cleaned id (cleanup A P)"

lemma alone_step: "(turso_alone A M)\<^sup>*\<^sup>* (turso_step A M 0 k P) y \<Longrightarrow> (turso_alone A M)\<^sup>*\<^sup>* (k, P) y"
  by (rule converse_rtranclp_into_rtranclp) (simp_all add: turso_alone_def)

lemma alone_done: "(turso_alone A M)\<^sup>*\<^sup>* x x"
  by simp

lemma alone_adopt:
  assumes "adopt_database M name (db_name_for (tp_prefix P) name) info P = (r, P')"
  shows "(turso_alone A M)\<^sup>*\<^sup>* (Persisting creating name info, P) (target_result creating name r, P')"
proof -
  let ?target = "make_target P (di_hostname info)"
  obtain q Q where q: "persist_logical_name M name ?target P = (q, Q)" by fastforce
  show ?thesis
  proof (cases q)
    case (Inl e)
    with assms q have "r = Inl e" "P' = Q" by (simp_all add: adopt_database_def)
    with q Inl show ?thesis by (intro alone_step) simp
  next
    case (Inr u)
    have "tp_prefix Q = tp_prefix P"
      using q by (cases name) (auto simp: give_iff same_caches_def same_settings_def dest: on_metadata_caches)
    with assms q Inr show ?thesis
      by (intro alone_step) (simp add: adopt_database_def Let_def, intro alone_step,
        simp add: adopt_database_def Let_def, intro alone_step, simp)
  qed
qed

lemma persist_prefix:
  "lookup_existing_database A n P = (r, P') \<Longrightarrow> tp_prefix P' = tp_prefix P \<and> tp_group P' = tp_group P"
  by (erule lookup_cases) (simp add: same_caches_def same_settings_def)

lemma alone_create:
  assumes "seq_result (create_or_get A (db_name_for (tp_prefix P) name))
      (adopt_database M name (db_name_for (tp_prefix P) name)) P = (r, P')"
  shows "(turso_alone A M)\<^sup>*\<^sup>* (Creating name, P) (target_result True name r, P')"
proof -
  let ?n = "db_name_for (tp_prefix P) name"
  obtain q Q where q: "on_platform (ta_create_database A ?n (tp_group P)) P = (q, Q)" by fastforce
  then have same: "tp_prefix Q = tp_prefix P"
    by (auto simp: same_caches_def same_settings_def dest: on_platform_caches)
  consider (created) info where "q = Inr info" | (exists) "q = Inl AlreadyExists"
    | (auth) msg where "q = Inl (AuthFailure msg)" | (other) msg where "q = Inl (Unexpected msg)"
    by (cases q; cases "projl q") auto
  then show ?thesis
  proof cases
    case created
    with q assms same show ?thesis
      by (intro alone_step) (auto simp: create_or_get_def seq_result_def intro!: alone_adopt)
  next
    case exists
    obtain l R where l: "lookup_existing_database A ?n Q = (l, R)" by fastforce
    from persist_prefix [OF this] same have "tp_prefix R = tp_prefix P" by simp
    with q exists l same assms have "(turso_alone A M)\<^sup>*\<^sup>* (Refetching name, Q) (target_result True name r, P')"
      by (intro alone_step)
        (auto simp: create_or_get_def seq_result_def give_def ok_or_def intro!: alone_adopt
          split: sum.splits option.splits)
    with q exists show ?thesis by (intro alone_step) simp
  next
    case auth
    with q assms show ?thesis by (intro alone_step) (simp add: create_or_get_def seq_result_def)
  next
    case other
    with q assms show ?thesis by (intro alone_step) (simp add: create_or_get_def seq_result_def)
  qed
qed

lemma alone_ensure:
  assumes "ensure_target_for_name A M name P = (r, P')"
  shows "(turso_alone A M)\<^sup>*\<^sup>* (Called (EnsureTarget name), P) (Finished (GotTarget name r), P')"
proof (cases "map_of (tp_cache P) (db_name_for (tp_prefix P) name)")
  case (Some target)
  with assms show ?thesis by (intro alone_step) (simp add: ensure_target_for_name_def)
next
  case None
  obtain l Q where l: "lookup_existing_database A (db_name_for (tp_prefix P) name) P = (l, Q)" by fastforce
  note same = persist_prefix [OF this]
  have "(turso_alone A M)\<^sup>*\<^sup>* (Finding True name, P) (target_result True name r, P')"
    using assms None l same
    by (intro alone_step)
      (auto simp: ensure_target_for_name_def find_existing_database_def seq_result_def give_def
        Let_def intro!: alone_adopt alone_create split: sum.splits option.splits)
  with None show ?thesis by (intro alone_step) (simp add: target_result_def)
qed

lemma alone_existing:
  assumes "target_for_existing_name A M name P = (r, P')"
  shows "(turso_alone A M)\<^sup>*\<^sup>* (Called (ExistingTarget name), P) (Finished (GotExisting name r), P')"
proof (cases "map_of (tp_cache P) (db_name_for (tp_prefix P) name)")
  case (Some target)
  with assms show ?thesis by (intro alone_step) (simp add: target_for_existing_name_def)
next
  case None
  obtain l Q where l: "lookup_existing_database A (db_name_for (tp_prefix P) name) P = (l, Q)" by fastforce
  note same = persist_prefix [OF this]
  have adopt: "(turso_alone A M)\<^sup>*\<^sup>* (Persisting False name info, Q) (Finished (GotExisting name r), P')"
    if run: "seq_result (adopt_database M name (db_name_for (tp_prefix P) name) info)
      (\<lambda>target. give (Inr (Some target))) Q = (r, P')" for info
  proof -
    obtain q R where q: "adopt_database M name (db_name_for (tp_prefix P) name) info Q = (q, R)" by fastforce
    then have "(turso_alone A M)\<^sup>*\<^sup>* (Persisting False name info, Q) (target_result False name q, R)"
      using alone_adopt [of M name Q] same by simp
    with run q show ?thesis by (cases q) (auto simp: target_result_def seq_result_def give_def)
  qed
  have "(turso_alone A M)\<^sup>*\<^sup>* (Finding False name, P) (Finished (GotExisting name r), P')"
    using assms None l same
    by (intro alone_step)
      (auto simp: target_for_existing_name_def find_existing_database_def seq_result_def [of "find_existing_database A name"]
        seq_result_def [of "lookup_existing_database A x" for x] give_def target_result_def
        intro!: adopt split: sum.splits option.splits)
  with None show ?thesis by (intro alone_step) simp
qed

lemma pending_futures_split:
  "pending_futures (map Loaded ns) = []"
  "\<not> is_loaded f \<Longrightarrow> \<exists>js. pending_futures (map Loaded ns @ f # fs) = length ns # js"
proof -
  have split: "[0..<length (map Loaded ns @ f # fs)] =
      [0..<length ns] @ length ns # [Suc (length ns)..<length (map Loaded ns @ f # fs)]"
    using upt_add_eq_append [of 0 "length ns" "Suc (length fs)"]
    by (simp add: upt_conv_Cons del: upt_Suc)
  show "pending_futures (map Loaded ns) = []"
    by (simp add: pending_futures_def)
  assume "\<not> is_loaded f"
  then show "\<exists>js. pending_futures (map Loaded ns @ f # fs) = length ns # js"
    unfolding pending_futures_def split by (simp add: nth_append cong: filter_cong)
qed

lemma poll_next:
  assumes "\<not> is_loaded f"
  shows "turso_step A M 0 (Joining (map Loaded ns @ f # fs)) P =
    poll_future M (map Loaded ns @ f # fs) (length ns) f P"
  using pending_futures_split(2) [OF assms, of ns fs] by (auto simp: Let_def nth_append)

text \<open>The futures of \<open>names\<close>, each run to its end before the next is polled.\<close>

lemma alone_join:
  "seq_result (collect_actions (logical_name_of M) dbs) (\<lambda>names P.
      let sorted = remdups_adj (sort (ns @ names))
      in (Inr sorted, P\<lparr>tp_known_names := tp_known_names P \<union> set sorted\<rparr>)) P = (r, P') \<Longrightarrow>
   (turso_alone A M)\<^sup>*\<^sup>* (Joining (map Loaded ns @ map Unpolled dbs), P) (Finished (GotNames r), P')"
proof (induction dbs arbitrary: ns P)
  case Nil
  then show ?case
    by (intro alone_step) (simp add: pending_futures_split(1) remember_names_def give_def seq_result_def
      Let_def o_def)
next
  case (Cons db dbs)
  let ?Q = "cache_target db P"
  let ?load = "on_metadata (pm_load_partition_name M (make_target P (di_hostname db)))"
  let ?missing = "Configuration (''database '' @ quote_char @ di_name db @ quote_char @
         '' is missing logical partition metadata'')"
  let ?fs = "map Loaded ns @ Loading db # map Unpolled dbs"
  have target: "make_target ?Q = make_target P"
    by (simp add: cache_target_def make_target_def fun_eq_iff)
  obtain q R where q: "?load ?Q = (q, R)" by fastforce
  have name: "logical_name_of M db P = (and_then q (ok_or ?missing), R)"
    by (cases q) (simp_all add: logical_name_of_def seq_result_def give_def q)
  have "(turso_alone A M)\<^sup>*\<^sup>* (Joining ?fs, ?Q) (Finished (GotNames r), P')"
  proof (cases "\<exists>n. q = Inr (Some n)")
    case True
    then obtain n where n: "q = Inr (Some n)" ..
    with Cons.prems name have "seq_result (collect_actions (logical_name_of M) dbs) (\<lambda>names P.
      let sorted = remdups_adj (sort ((ns @ [n]) @ names))
      in (Inr sorted, P\<lparr>tp_known_names := tp_known_names P \<union> set sorted\<rparr>)) R = (r, P')"
      by (auto simp: seq_result_def give_def ok_or_def split: prod.splits sum.splits)
    from Cons.IH [OF this] show ?thesis
      by (intro alone_step, subst poll_next) (simp_all add: target q n list_update_append)
  next
    case False
    then obtain e where e: "and_then q (ok_or ?missing) = Inl e"
      by (cases q) (auto simp: ok_or_def split: option.splits)
    with Cons.prems name have "r = Inl e" "P' = R" by (simp_all add: seq_result_def)
    moreover have "poll_future M ?fs (length ns) (Loading db) ?Q = (Finished (GotNames (Inl e)), R)"
      using e False by (cases q) (auto simp: target q ok_or_def split: option.splits)
    ultimately show ?thesis
      by (intro alone_step, subst poll_next) simp_all
  qed
  then show ?case
    using poll_next [of "Unpolled db" A M ns "map Unpolled dbs" P]
    by (intro alone_step) (simp add: list_update_append del: turso_step.simps)
qed

lemma alone_names:
  assumes "provisioner_names A M P = (r, P')"
  shows "(turso_alone A M)\<^sup>*\<^sup>* (Called ListNames, P) (Finished (GotNames r), P')"
proof (cases "tp_known_names P = {}")
  case False
  with assms show ?thesis by (intro alone_step) (auto simp: provisioner_names_def)
next
  case True
  obtain l Q where l: "seq_err api_internal (on_platform (ta_list_databases A (tp_group P))) P = (l, Q)"
    by fastforce
  show ?thesis
  proof (cases l)
    case (Inl e)
    with True l assms show ?thesis
      by (intro alone_step, simp, intro alone_step) (simp add: provisioner_names_def)
  next
    case (Inr dbs)
    let ?dbs = "filter (\<lambda>db. is_managed_named_database (tp_prefix P) (di_name db)) dbs"
    have "(turso_alone A M)\<^sup>*\<^sup>* (Joining (map Loaded [] @ map Unpolled ?dbs), Q) (Finished (GotNames r), P')"
      using assms True l Inr by (intro alone_join) (simp add: provisioner_names_def)
    with True l Inr show ?thesis
      by (intro alone_step, simp, intro alone_step) simp
  qed
qed

lemma alone_targets:
  assumes "provisioner_named_targets A P = (r, P')"
  shows "(turso_alone A M)\<^sup>*\<^sup>* (Called ListTargets, P) (Finished (GotTargets r), P')"
proof -
  obtain l Q where l: "seq_err api_internal (on_platform (ta_list_databases A (tp_group P))) P = (l, Q)"
    by fastforce
  show ?thesis
  proof (cases l)
    case (Inl e)
    with l assms show ?thesis
      by (intro alone_step, simp, intro alone_step) (simp add: provisioner_named_targets_def)
  next
    case (Inr dbs)
    obtain ts R where "target_loop dbs [] Q = (ts, R)" by fastforce
    with l Inr assms show ?thesis
      by (intro alone_step, simp, intro alone_step, simp, intro alone_step)
        (simp add: provisioner_named_targets_def)
  qed
qed

lemma alone_delete:
  "seq_result (collect_actions (delete_named A) ns) (\<lambda>_ P.
      (Inr (), P\<lparr>tp_cache := [], tp_known_names := {}\<rparr>)) P = (r, P') \<Longrightarrow>
   (turso_alone A M)\<^sup>*\<^sup>* (Deleting ns, P) (Finished (Cleaned r), P')"
proof (induction ns arbitrary: P)
  case Nil
  then have "r = Inr ()" "P' = P\<lparr>tp_cache := [], tp_known_names := {}\<rparr>"
    by (simp_all add: seq_result_def give_def)
  then show ?case
    by (intro alone_step, simp, intro alone_step, simp, intro alone_step) simp
next
  case (Cons n ns)
  obtain q Q where q: "delete_named A n P = (q, Q)" by fastforce
  show ?case
  proof (cases q)
    case (Inl e)
    with q Cons.prems have "r = Inl e" "P' = Q" by (simp_all add: seq_result_def)
    with q Inl show ?thesis by (intro alone_step) simp
  next
    case (Inr u)
    with q Cons.prems have "seq_result (collect_actions (delete_named A) ns) (\<lambda>_ P.
      (Inr (), P\<lparr>tp_cache := [], tp_known_names := {}\<rparr>)) Q = (r, P')"
      by (auto simp: seq_result_def give_def split: prod.splits sum.splits)
    from Cons.IH [OF this] q Inr show ?thesis
      by (intro alone_step) (simp add: remove_nth_def)
  qed
qed

lemma alone_cleanup:
  assumes "cleanup A P = (r, P')"
  shows "(turso_alone A M)\<^sup>*\<^sup>* (Called Cleanup, P) (Finished (Cleaned r), P')"
proof -
  obtain l Q where l: "seq_err api_internal (on_platform (ta_list_databases A (tp_group P))) P = (l, Q)"
    by fastforce
  show ?thesis
  proof (cases l)
    case (Inl e)
    with l assms show ?thesis by (intro alone_step, simp, intro alone_step) (simp add: cleanup_def)
  next
    case (Inr dbs)
    from l Inr have same: "same_caches P Q"
      by (auto simp: result_simps dest: on_platform_caches)
    then have names: "cleanup_names (map fst (tp_cache P)) dbs Q = names_to_delete P dbs"
      by (simp add: cleanup_names_def names_to_delete_def Let_def same_caches_def same_settings_def)
    from assms l Inr have "seq_result (collect_actions (delete_named A) (names_to_delete P dbs)) (\<lambda>_ P.
      (Inr (), P\<lparr>tp_cache := [], tp_known_names := {}\<rparr>)) Q = (r, P')"
      by (simp add: cleanup_def)
    from alone_delete [OF this] l Inr names show ?thesis
      by (intro alone_step, simp, intro alone_step, simp, intro alone_step) simp
  qed
qed

text \<open>
  Taken alone, the interleaved steps are the calls. A call that no other task interrupts comes to
  the result and the state that the function for the whole call gives, for every call and on every
  platform and metadata store.
\<close>

theorem turso_call_alone:
  "\<exists>r P'. sequential_call A M c P = (r, P') \<and> (turso_alone A M)\<^sup>*\<^sup>* (Called c, P) (Finished r, P')"
proof (cases c)
  case (EnsureTarget name)
  then show ?thesis
    using alone_ensure by (cases "ensure_target_for_name A M name P") auto
next
  case (ExistingTarget name)
  then show ?thesis
    using alone_existing by (cases "target_for_existing_name A M name P") auto
next
  case ListNames
  then show ?thesis using alone_names by (cases "provisioner_names A M P") auto
next
  case ListTargets
  then show ?thesis
    using alone_targets by (cases "provisioner_named_targets A P") auto
next
  case Cleanup
  then show ?thesis using alone_cleanup by (cases "cleanup A P") auto
qed

section \<open>Safety\<close>

text \<open>The target leads to the database of that name.\<close>

definition leads_to ::
  "('a \<Rightarrow> string \<Rightarrow> string option) \<Rightarrow> ('a, 'd) provisioner \<Rightarrow> string \<Rightarrow> database_target \<Rightarrow> bool" where
  "leads_to hosts P n t \<longleftrightarrow> (\<exists>h. hosts (tp_platform P) n = Some h \<and> t = make_target P h)"

definition exists_as ::
  "('a \<Rightarrow> string \<Rightarrow> string option) \<Rightarrow> ('a, 'd) provisioner \<Rightarrow> string \<Rightarrow> database_info \<Rightarrow> bool" where
  "exists_as hosts P n info \<longleftrightarrow> hosts (tp_platform P) n = Some (di_hostname info)"

text \<open>What a call in progress knows.\<close>

fun task_ok :: "('a \<Rightarrow> string \<Rightarrow> string option) \<Rightarrow> ('a, 'd) provisioner \<Rightarrow> turso_task \<Rightarrow> bool" where
  "task_ok hosts P (Persisting creating name info) =
     exists_as hosts P (db_name_for (tp_prefix P) name) info"
| "task_ok hosts P (Caching creating name t) = leads_to hosts P (db_name_for (tp_prefix P) name) t"
| "task_ok hosts P (Recording creating name t) = leads_to hosts P (db_name_for (tp_prefix P) name) t"
| "task_ok hosts P (Joining fs) \<longleftrightarrow>
     (\<forall>info. Unpolled info \<in> set fs \<longrightarrow> exists_as hosts P (di_name info) info)"
| "task_ok hosts P (Looping dbs) \<longleftrightarrow> (\<forall>info\<in>set dbs. exists_as hosts P (di_name info) info)"
| "task_ok hosts P (Finished (GotTarget name (Inr t))) =
     leads_to hosts P (db_name_for (tp_prefix P) name) t"
| "task_ok hosts P (Finished (GotExisting name (Inr (Some t)))) =
     leads_to hosts P (db_name_for (tp_prefix P) name) t"
| "task_ok hosts P (Finished (GotTargets (Inr ts))) \<longleftrightarrow>
     (\<forall>(s, t)\<in>set ts. leads_to hosts P (named_db_prefix (tp_prefix P) @ s) t)"
| "task_ok hosts P _ = True"

fun cleaning :: "turso_task \<Rightarrow> bool" where
  "cleaning (Called c) \<longleftrightarrow> c = Cleanup"
| "cleaning (Cleaning ns) = True"
| "cleaning (Checking ns dbs) = True"
| "cleaning (Deleting ns) = True"
| "cleaning ClearingCache = True"
| "cleaning ClearingNames = True"
| "cleaning _ = False"

definition grows :: "('a \<Rightarrow> string \<Rightarrow> string option) \<Rightarrow> ('a, 'd) provisioner \<Rightarrow> ('a, 'd) provisioner \<Rightarrow> bool" where
  "grows hosts P Q \<longleftrightarrow> same_settings P Q \<and> hosts (tp_platform P) \<subseteq>\<^sub>m hosts (tp_platform Q)"

lemma leads_to_grows: "grows hosts P Q \<Longrightarrow> leads_to hosts P n t \<Longrightarrow> leads_to hosts Q n t"
  unfolding grows_def leads_to_def same_settings_def map_le_def
  by (metis domI make_target_cong)

lemma exists_as_grows: "grows hosts P Q \<Longrightarrow> exists_as hosts P n info \<Longrightarrow> exists_as hosts Q n info"
  unfolding grows_def exists_as_def map_le_def by (metis domI)

lemma exists_leads: "exists_as hosts P n info \<Longrightarrow> leads_to hosts P n (make_target P (di_hostname info))"
  by (simp add: exists_as_def leads_to_def)

lemma grows_refl: "grows hosts P P"
  by (simp add: grows_def same_settings_def)

lemma grows_prefix: "grows hosts P Q \<Longrightarrow> tp_prefix Q = tp_prefix P"
  by (simp add: grows_def same_settings_def)

lemma task_ok_grows:
  assumes "grows hosts P Q" and "task_ok hosts P k"
  shows "task_ok hosts Q k"
  using assms(2) leads_to_grows [OF assms(1)] exists_as_grows [OF assms(1)] grows_prefix [OF assms(1)]
  by (cases "(hosts, P, k)" rule: task_ok.cases) auto

lemma task_ok_target_result:
  "task_ok hosts P (target_result creating name r) \<longleftrightarrow>
     (\<forall>t. r = Inr t \<longrightarrow> leads_to hosts P (db_name_for (tp_prefix P) name) t)"
  "\<not> cleaning (target_result creating name r)"
  by (cases r; simp add: target_result_def)+

lemma cache_ok_leads:
  "cache_ok ok hosts P \<longleftrightarrow> ok (tp_platform P) \<and>
     (\<forall>n t. map_of (tp_cache P) n = Some t \<longrightarrow> leads_to hosts P n t)"
  by (simp add: cache_ok_def leads_to_def)

text \<open>A step that keeps the caches right.\<close>

definition step_ok ::
  "('a \<Rightarrow> bool) \<Rightarrow> ('a \<Rightarrow> string \<Rightarrow> string option) \<Rightarrow> ('a, 'd) provisioner \<Rightarrow>
    turso_task \<times> ('a, 'd) provisioner \<Rightarrow> bool" where
  "step_ok ok hosts P = (\<lambda>(k, Q).
     cache_ok ok hosts Q \<and> grows hosts P Q \<and> task_ok hosts Q k \<and> \<not> cleaning k)"

lemma step_ok_same:
  assumes "cache_ok ok hosts P" and "same_caches P Q" and "ok (tp_platform Q)"
    and "hosts (tp_platform P) \<subseteq>\<^sub>m hosts (tp_platform Q)" and "task_ok hosts Q k" and "\<not> cleaning k"
  shows "step_ok ok hosts P (k, Q)"
proof -
  from assms(2,4) have g: "grows hosts P Q" by (simp add: grows_def same_caches_def)
  with assms show ?thesis
    by (auto simp: step_ok_def cache_ok_leads same_caches_def intro: leads_to_grows [OF g])
qed

lemma step_ok_cached:
  assumes "cache_ok ok hosts P" and "leads_to hosts P n t" and "task_ok hosts P k" and "\<not> cleaning k"
  shows "step_ok ok hosts P (k, P\<lparr>tp_cache := upsert n t (tp_cache P)\<rparr>)"
proof -
  let ?Q = "P\<lparr>tp_cache := upsert n t (tp_cache P)\<rparr>"
  have g: "grows hosts P ?Q" by (simp add: grows_def same_settings_def)
  show ?thesis
    using assms leads_to_grows [OF g] task_ok_grows [OF g] g
    by (auto simp: step_ok_def cache_ok_leads map_of_upsert)
qed

lemma cache_target_eq:
  "cache_target info P = P\<lparr>tp_cache := upsert (di_name info) (make_target P (di_hostname info)) (tp_cache P)\<rparr>"
  by (simp add: cache_target_def)

lemma cache_target_ok:
  assumes "cache_ok ok hosts P" and "exists_as hosts P (di_name info) info"
  shows "cache_ok ok hosts (cache_target info P)" and "grows hosts P (cache_target info P)"
  using step_ok_cached [OF assms(1) exists_leads [OF assms(2)], of "Called ListNames"]
  by (simp_all add: cache_target_eq step_ok_def)

lemma target_loop_ok:
  assumes "cache_ok ok hosts P" and "\<forall>info\<in>set dbs. exists_as hosts P (di_name info) info"
    and "target_loop dbs ts P = (us, Q)"
    and "\<forall>(s, t)\<in>set ts. leads_to hosts P (named_db_prefix (tp_prefix P) @ s) t"
  shows "cache_ok ok hosts Q \<and> grows hosts P Q \<and>
    (\<forall>(s, t)\<in>set us. leads_to hosts Q (named_db_prefix (tp_prefix Q) @ s) t)"
  using assms
proof (induction dbs ts P rule: target_loop.induct)
  case (1 ts P)
  then show ?case by (auto simp: grows_refl)
next
  case (2 db dbs ts P)
  from "2.prems"(2) have db: "exists_as hosts P (di_name db) db"
    and rest: "\<forall>info\<in>set dbs. exists_as hosts P (di_name info) info" by simp_all
  show ?case
  proof (cases "di_name db = db_name_for (tp_prefix P) DefaultName")
    case True
    with 2 rest show ?thesis by simp
  next
    case False
    show ?thesis
    proof (cases "strip_prefix (named_db_prefix (tp_prefix P)) (di_name db)")
      case None
      with 2 False rest show ?thesis by simp
    next
      case (Some s)
      let ?Q = "cache_target db P"
      note C = cache_target_ok [OF "2.prems"(1) db]
      note keep = leads_to_grows [OF C(2)] exists_as_grows [OF C(2)] grows_prefix [OF C(2)]
      from Some have name: "di_name db = named_db_prefix (tp_prefix P) @ s" by (simp add: text_simps)
      have "cache_ok ok hosts Q \<and> grows hosts ?Q Q \<and>
          (\<forall>(s, t)\<in>set us. leads_to hosts Q (named_db_prefix (tp_prefix Q) @ s) t)"
        using "2.prems"(3,4) False Some rest keep exists_leads [OF db] name
        by (intro "2.IH"(3) [OF False Some C(1)]) auto
      with C(2) show ?thesis
        by (auto simp: grows_def same_settings_def intro: map_le_trans)
    qed
  qed
qed

text \<open>Every cached target, and every target that a call has returned, leads to its database.\<close>

definition turso_world_ok ::
  "('a \<Rightarrow> bool) \<Rightarrow> ('a \<Rightarrow> string \<Rightarrow> string option) \<Rightarrow> ('a, 'd) turso_world \<Rightarrow> bool" where
  "turso_world_ok ok hosts W \<longleftrightarrow> (\<forall>i. cache_ok ok hosts (provisioner_at W i)) \<and>
     (\<forall>t i k. tw_tasks W t = Some (i, k) \<longrightarrow> task_ok hosts (provisioner_at W i) k \<and> \<not> cleaning k)"

fun returned_target :: "turso_task \<Rightarrow> (partition_name \<times> database_target) option" where
  "returned_target (Finished (GotTarget name (Inr t))) = Some (name, t)"
| "returned_target (Finished (GotExisting name (Inr (Some t)))) = Some (name, t)"
| "returned_target _ = None"

lemma returned_leads:
  "task_ok hosts P k \<Longrightarrow> returned_target k = Some (name, t) \<Longrightarrow>
     leads_to hosts P (db_name_for (tp_prefix P) name) t"
  by (cases k rule: returned_target.cases) auto

context turso_platform begin

lemma lookup_keeps:
  assumes "cache_ok ok hosts P" and "lookup_existing_database api n P = (r, Q)"
  shows "same_caches P Q" and "ok (tp_platform Q)" and "hosts (tp_platform Q) = hosts (tp_platform P)"
    and "r = Inr (Some info) \<Longrightarrow> exists_as hosts Q n info"
proof -
  from assms(1) have ok: "ok (tp_platform P)" by (simp add: cache_ok_def)
  from assms(2) obtain q where q: "ta_get_database api n (tp_platform P) = (q, tp_platform Q)"
    "r = map_err api_internal q" and same: "same_caches P Q" by (rule lookup_cases)
  note K = get_keeps [OF ok q(1)]
  with same show "same_caches P Q" "ok (tp_platform Q)" "hosts (tp_platform Q) = hosts (tp_platform P)"
    by simp_all
  assume "r = Inr (Some info)"
  with q have "q = Inr (Some info)" by (cases q) simp_all
  with q get_reads [OF ok, of n "Some info" "tp_platform Q"] K show "exists_as hosts Q n info"
    by (simp add: exists_as_def)
qed

lemma list_result:
  assumes "cache_ok ok hosts P" and "seq_err api_internal (on_platform (ta_list_databases api g)) P = (r, Q)"
  shows "same_caches P Q" and "ok (tp_platform Q)" and "hosts (tp_platform Q) = hosts (tp_platform P)"
    and "r = Inr infos \<Longrightarrow> info \<in> set infos \<Longrightarrow> exists_as hosts Q (di_name info) info"
proof -
  from assms(1) have ok: "ok (tp_platform P)" by (simp add: cache_ok_def)
  obtain q R where q: "on_platform (ta_list_databases api g) P = (q, R)" by fastforce
  with assms(2) have r: "r = map_err api_internal q" "R = Q" by (simp_all add: seq_err_def)
  note C = on_platform_caches [OF q [unfolded r(2)]]
  then have run: "ta_list_databases api g (tp_platform P) = (q, tp_platform Q)" by blast
  note K = list_keeps [OF ok run]
  with C show "same_caches P Q" "ok (tp_platform Q)" "hosts (tp_platform Q) = hosts (tp_platform P)"
    by simp_all
  assume "r = Inr infos" "info \<in> set infos"
  with r have "q = Inr infos" by (cases q) simp_all
  with \<open>info \<in> set infos\<close> run list_reads [OF ok, of g infos "tp_platform Q" "di_name info" "di_hostname info"] K
  show "exists_as hosts Q (di_name info) info" by (auto simp: exists_as_def)
qed

lemma metadata_quiet:
  assumes "cache_ok ok hosts P" and "on_metadata f P = (r, Q)" and "task_ok hosts P k" and "\<not> cleaning k"
  shows "step_ok ok hosts P (k, Q)"
proof -
  from on_metadata_caches [OF assms(2)] have C: "same_caches P Q" "tp_platform Q = tp_platform P" by blast+
  then have "grows hosts P Q" by (simp add: grows_def same_caches_def)
  from task_ok_grows [OF this assms(3)] C assms(1,4) show ?thesis
    by (intro step_ok_same) (simp_all add: cache_ok_def)
qed

lemma step_ok_stay: "cache_ok ok hosts P \<Longrightarrow> task_ok hosts P k \<Longrightarrow> \<not> cleaning k \<Longrightarrow> step_ok ok hosts P (k, P)"
  by (simp add: step_ok_def grows_refl)

text \<open>The requests to the platform.\<close>

lemma finding_ok:
  assumes "cache_ok ok hosts P"
  shows "step_ok ok hosts P (turso_step api M c (Finding creating name) P)"
    and "step_ok ok hosts P (turso_step api M c (Refetching name) P)"
proof -
  let ?n = "db_name_for (tp_prefix P) name"
  obtain r Q where run: "lookup_existing_database api ?n P = (r, Q)" by fastforce
  note L = lookup_keeps [OF assms run]
  have prefix: "tp_prefix Q = tp_prefix P" using L(1) by (simp add: same_caches_def same_settings_def)
  have step: "step_ok ok hosts P (k, Q)" if "task_ok hosts Q k" "\<not> cleaning k" for k
    using that L(1-3) assms by (intro step_ok_same) simp_all
  show "step_ok ok hosts P (turso_step api M c (Finding creating name) P)"
    "step_ok ok hosts P (turso_step api M c (Refetching name) P)"
    using run L(4) prefix by (auto split: sum.split option.split intro!: step simp: task_ok_target_result)
qed

lemma creating_ok:
  assumes "cache_ok ok hosts P"
  shows "step_ok ok hosts P (turso_step api M c (Creating name) P)"
proof -
  let ?n = "db_name_for (tp_prefix P) name"
  from assms have ok: "ok (tp_platform P)" by (simp add: cache_ok_def)
  obtain r Q where run: "on_platform (ta_create_database api ?n (tp_group P)) P = (r, Q)" by fastforce
  note C = on_platform_caches [OF run]
  then have create: "ta_create_database api ?n (tp_group P) (tp_platform P) = (r, tp_platform Q)" by blast
  have prefix: "tp_prefix Q = tp_prefix P" using C by (simp add: same_caches_def same_settings_def)
  show ?thesis
  proof (cases r)
    case (Inl e)
    from create_grows [OF ok create]
    have "ok (tp_platform Q)" "hosts (tp_platform P) \<subseteq>\<^sub>m hosts (tp_platform Q)" by blast+
    then have step: "step_ok ok hosts P (k, Q)" if "task_ok hosts Q k" "\<not> cleaning k" for k
      using that C assms by (intro step_ok_same) simp_all
    show ?thesis using run Inl
      by (auto split: sum.split api_error.split intro!: step simp: task_ok_target_result)
  next
    case (Inr info)
    with create_adds [OF ok] create have "ok (tp_platform Q)" "hosts (tp_platform P) ?n = None"
      "hosts (tp_platform Q) = (hosts (tp_platform P))(?n \<mapsto> di_hostname info)" by blast+
    with C run Inr prefix assms show ?thesis
      by (auto simp: exists_as_def map_le_def intro!: step_ok_same)
  qed
qed

lemma listing_ok:
  assumes "cache_ok ok hosts P"
  shows "step_ok ok hosts P (turso_step api M c ListingNames P)"
    and "step_ok ok hosts P (turso_step api M c ListingTargets P)"
proof -
  obtain r Q where run: "seq_err api_internal (on_platform (ta_list_databases api (tp_group P))) P = (r, Q)"
    by fastforce
  note L = list_result [OF assms run]
  have step: "step_ok ok hosts P (k, Q)" if "task_ok hosts Q k" "\<not> cleaning k" for k
    using that L(1-3) assms by (intro step_ok_same) simp_all
  show "step_ok ok hosts P (turso_step api M c ListingNames P)"
    "step_ok ok hosts P (turso_step api M c ListingTargets P)"
    using run L(4) by (auto split: sum.split intro!: step)
qed

lemma poll_ok:
  assumes "cache_ok ok hosts P" and "task_ok hosts P (Joining fs)" and "j < length fs"
  shows "step_ok ok hosts P (poll_future M fs j (fs ! j) P)"
proof (cases "fs ! j")
  case (Unpolled info)
  with assms(2,3) have "exists_as hosts P (di_name info) info" by (metis nth_mem task_ok.simps(4))
  note C = cache_target_ok [OF assms(1) this]
  have "task_ok hosts P (Joining (fs[j := Loading info]))"
    using assms(2) by (auto dest!: set_update_subset_insert [THEN subsetD])
  from C task_ok_grows [OF C(2) this] Unpolled show ?thesis by (simp add: step_ok_def)
next
  case (Loading info)
  obtain r Q where run: "on_metadata (pm_load_partition_name M (make_target P (di_hostname info))) P = (r, Q)"
    by fastforce
  have "task_ok hosts P (Joining (fs[j := Loaded n]))" for n
    using assms(2) by (auto dest!: set_update_subset_insert [THEN subsetD])
  with Loading run show ?thesis
    by (auto split: sum.split option.split intro!: metadata_quiet [OF assms(1) run])
next
  case (Loaded n)
  with assms show ?thesis by (simp add: step_ok_stay)
qed

lemma joining_ok:
  assumes "cache_ok ok hosts P" and "task_ok hosts P (Joining fs)"
  shows "step_ok ok hosts P (turso_step api M c (Joining fs) P)"
proof (cases "pending_futures fs = []")
  case True
  then have "turso_step api M c (Joining fs) P = remember_names (map loaded_name fs) P" by simp
  moreover have "step_ok ok hosts P (remember_names ns P)" for ns
    using assms(1) by (auto simp: remember_names_def Let_def step_ok_def grows_def same_settings_def
      cache_ok_def make_target_def)
  ultimately show ?thesis by simp
next
  case False
  let ?j = "pending_futures fs ! (c mod length (pending_futures fs))"
  have "c mod length (pending_futures fs) < length (pending_futures fs)" using False by simp
  then have "?j \<in> set (pending_futures fs)" by (rule nth_mem)
  then have "?j < length fs" by (simp add: pending_futures_def)
  from poll_ok [OF assms this] False show ?thesis by (simp add: Let_def)
qed

text \<open>Every step of a call other than a cleanup, at any moment.\<close>

lemma turso_step_ok:
  assumes "cache_ok ok hosts P" and "task_ok hosts P k" and "\<not> cleaning k"
  shows "step_ok ok hosts P (turso_step api M c k P)"
proof (cases k)
  case (Called call)
  with assms show ?thesis
    by (cases call) (auto simp: cache_ok_leads intro!: step_ok_stay split: option.split)
next
  case (Persisting creating name info)
  let ?target = "make_target P (di_hostname info)"
  have t: "leads_to hosts P (db_name_for (tp_prefix P) name) ?target"
    using assms(2) Persisting by (simp add: exists_leads)
  show ?thesis
  proof (cases name)
    case DefaultName
    with assms(1) t Persisting show ?thesis by (simp add: give_def step_ok_stay)
  next
    case (Named n)
    obtain r Q where run: "on_metadata (pm_ensure_partition_name M ?target n) P = (r, Q)" by fastforce
    with Named t Persisting show ?thesis
      by (auto split: sum.split intro!: metadata_quiet [OF assms(1) run] simp: task_ok_target_result)
  qed
next
  case (Caching creating name target)
  with assms show ?thesis by (simp add: step_ok_cached)
next
  case (Recording creating name target)
  have "same_settings P (record_name name P)" by (cases name) (simp_all add: same_settings_def)
  then have "grows hosts P (record_name name P)" by (simp add: grows_def)
  with assms Recording leads_to_grows [OF this] show ?thesis
    by (simp add: step_ok_def task_ok_target_result cache_ok_leads)
next
  case (Joining fs)
  with assms joining_ok show ?thesis by simp
next
  case (Looping dbs)
  obtain us Q where run: "target_loop dbs [] P = (us, Q)" by fastforce
  with target_loop_ok [OF assms(1) _ run] assms(2) Looping show ?thesis by (simp add: step_ok_def)
next
  case (Finished r)
  with assms show ?thesis by (simp add: step_ok_stay)
qed (use assms finding_ok creating_ok listing_ok in \<open>simp_all del: turso_step.simps\<close>)

text \<open>The whole world, while nobody cleans up.\<close>

lemma world_start:
  assumes "turso_start W" and "ok (tw_platform W)"
  shows "turso_world_ok ok hosts W"
  using assms by (simp add: turso_start_def turso_world_ok_def cache_ok_def provisioner_at_def)

lemma world_step:
  assumes "turso_world_step api M allowed W W'" and "\<not> allowed Cleanup" and "turso_world_ok ok hosts W"
  shows "turso_world_ok ok hosts W' \<and> hosts (tw_platform W) \<subseteq>\<^sub>m hosts (tw_platform W')"
  using assms(1)
proof cases
  case (called t c i)
  with assms(2,3) show ?thesis
    by (cases c) (auto simp: turso_world_ok_def provisioner_at_def)
next
  case (moved t i k c)
  let ?P = "provisioner_at W i"
  obtain k' Q where step: "turso_step api M c k ?P = (k', Q)" by fastforce
  from assms(3) moved(2) have "cache_ok ok hosts ?P" "task_ok hosts ?P k" "\<not> cleaning k"
    by (auto simp: turso_world_ok_def)
  from turso_step_ok [OF this, of M c] step
  have Q: "cache_ok ok hosts Q" "grows hosts ?P Q" "task_ok hosts Q k'" "\<not> cleaning k'"
    by (simp_all add: step_ok_def)
  have W': "W' = \<lparr>tw_platform = tp_platform Q, tw_metadata = tp_metadata Q,
      tw_provisioners = (tw_provisioners W)(i := Q), tw_tasks = (tw_tasks W)(t \<mapsto> (i, k'))\<rparr>"
    by (simp add: moved(1) step task_moves_def)
  have at: "provisioner_at W' j = (if j = i then Q else
      (tw_provisioners W j)\<lparr>tp_platform := tp_platform Q, tp_metadata := tp_metadata Q\<rparr>)" for j
    by (simp add: W' provisioner_at_def)
  have more: "hosts (tw_platform W) \<subseteq>\<^sub>m hosts (tp_platform Q)"
    using Q(2) by (simp add: grows_def provisioner_at_def)
  have g: "grows hosts (provisioner_at W j) (provisioner_at W' j)" for j
    using Q(2) more by (simp add: at) (simp add: grows_def same_settings_def provisioner_at_def)
  have "cache_ok ok hosts (provisioner_at W' j)" for j
  proof (cases "j = i")
    case False
    with assms(3) Q(1) leads_to_grows [OF g [of j]] show ?thesis
      by (simp add: turso_world_ok_def cache_ok_leads at) (simp add: provisioner_at_def)
  qed (simp add: at Q)
  moreover have "task_ok hosts (provisioner_at W' j) l \<and> \<not> cleaning l" if "tw_tasks W' u = Some (j, l)" for u j l
  proof (cases "u = t")
    case True
    with that Q show ?thesis by (simp add: W' provisioner_at_def)
  next
    case False
    with that have "tw_tasks W u = Some (j, l)" by (simp add: W')
    with assms(3) task_ok_grows [OF g] show ?thesis by (auto simp: turso_world_ok_def)
  qed
  ultimately show ?thesis using more
    by (simp add: turso_world_ok_def) (simp add: W')
next
  case (elsewhere d)
  have g: "grows hosts (provisioner_at W i) (provisioner_at W' i)" for i
    by (simp add: elsewhere grows_def same_settings_def provisioner_at_def)
  show ?thesis
    using assms(3) leads_to_grows [OF g] task_ok_grows [OF g]
    by (auto simp: turso_world_ok_def cache_ok_leads) (auto simp: elsewhere provisioner_at_def)
qed

lemma world_runs:
  assumes "turso_runs api M allowed W W'" and "\<not> allowed Cleanup" and "turso_world_ok ok hosts W"
  shows "turso_world_ok ok hosts W' \<and> hosts (tw_platform W) \<subseteq>\<^sub>m hosts (tw_platform W')"
  using assms(1)
proof (induction rule: rtranclp_induct)
  case base
  then show ?case using assms(3) by simp
next
  case (step V V')
  with world_step [OF step.hyps(2) assms(2)] show ?case by (blast intro: map_le_trans)
qed

lemma tasks_agree:
  assumes "turso_world_ok ok hosts W"
    and "tw_tasks W t = Some (i, k)" and "returned_target k = Some (name, x)"
    and "tw_tasks W u = Some (j, l)" and "returned_target l = Some (name, y)"
    and "same_settings (provisioner_at W i) (provisioner_at W j)"
  shows "x = y \<and> leads_to hosts (provisioner_at W i) (db_name_for (tp_prefix (provisioner_at W i)) name) x"
proof -
  have leads: "leads_to hosts (provisioner_at W i) (db_name_for (tp_prefix (provisioner_at W i)) name) x"
    if "tw_tasks W t = Some (i, k)" "returned_target k = Some (name, x)" for t i k x
    using that assms(1) by (intro returned_leads) (auto simp: turso_world_ok_def)
  have same: "tp_prefix (provisioner_at W j) = tp_prefix (provisioner_at W i)"
    "make_target (provisioner_at W j) = make_target (provisioner_at W i)"
    "tp_platform (provisioner_at W j) = tp_platform (provisioner_at W i)"
    using assms(6) by (auto simp: same_settings_def intro: make_target_cong) (simp add: provisioner_at_def)
  from leads [OF assms(2,3)] leads [OF assms(4,5)] show ?thesis
    unfolding leads_to_def same by fastforce
qed

end

text \<open>
  C29: concurrent provisioning agrees, over the Platform API of \<open>TursoHttpClient\<close> against a server
  that answers as Turso documents it. However the calls of any number of provisioners on one
  platform interleave, two calls that have returned a target for the same partition name, under
  the same prefix, group and token, have returned the same target, and it leads to the database
  of that name, which exists; also when both found no database and both tried to create it, and
  when a request failed although it had created the database. Nobody cleans up meanwhile.
\<close>

theorem turso_concurrent_agreement:
  assumes "turso_http K ok hosts" and "turso_start W" and "ok (tw_platform W)"
    and "turso_runs (http_api K) M allowed W W'" and "\<not> allowed Cleanup"
    and "tw_tasks W' t = Some (i, k)" and "returned_target k = Some (name, x)"
    and "tw_tasks W' u = Some (j, l)" and "returned_target l = Some (name, y)"
    and "same_settings (provisioner_at W' i) (provisioner_at W' j)"
  shows "x = y \<and>
    leads_to hosts (provisioner_at W' i) (db_name_for (tp_prefix (provisioner_at W' i)) name) x"
proof -
  note platform = turso_http.http_platform [OF assms(1)]
  note world = turso_platform.world_runs [OF platform assms(4,5)
      turso_platform.world_start [OF platform assms(2,3)]]
  show ?thesis by (rule turso_platform.tasks_agree [OF platform conjunct1 [OF world] assms(6-10)])
qed

section \<open>Progress\<close>

fun future_work :: "name_future \<Rightarrow> nat" where
  "future_work (Unpolled info) = 2"
| "future_work (Loading info) = 1"
| "future_work (Loaded n) = 0"

fun task_rank :: "turso_task \<Rightarrow> nat \<times> nat" where
  "task_rank (Called c) = (9, 0)"
| "task_rank (Finding creating name) = (8, 0)"
| "task_rank (Creating name) = (7, 0)"
| "task_rank (Refetching name) = (6, 0)"
| "task_rank (Persisting creating name info) = (5, 0)"
| "task_rank (Caching creating name t) = (4, 0)"
| "task_rank (Recording creating name t) = (3, 0)"
| "task_rank ListingNames = (8, 0)"
| "task_rank (Joining fs) = (2, sum_list (map future_work fs))"
| "task_rank ListingTargets = (8, 0)"
| "task_rank (Looping dbs) = (7, 0)"
| "task_rank (Cleaning ns) = (8, 0)"
| "task_rank (Checking ns dbs) = (7, 0)"
| "task_rank (Deleting ns) = (6, length ns)"
| "task_rank ClearingCache = (5, 0)"
| "task_rank ClearingNames = (4, 0)"
| "task_rank (Finished r) = (0, 0)"

abbreviation rank_less :: "((nat \<times> nat) \<times> (nat \<times> nat)) set" where
  "rank_less \<equiv> less_than <*lex*> less_than"

lemma sum_list_update_less:
  "j < length xs \<Longrightarrow> y < xs ! j \<Longrightarrow> sum_list (xs[j := y]) < sum_list (xs :: nat list)"
proof (induction xs arbitrary: j)
  case (Cons x xs)
  then show ?case by (cases j) auto
qed simp

lemma poll_future_rank:
  assumes "j < length fs" and "fs ! j = f" and "\<not> is_loaded f"
  shows "(task_rank (fst (poll_future M fs j f P)), task_rank (Joining fs)) \<in> rank_less"
proof -
  have less: "sum_list (map future_work (fs[j := g])) < sum_list (map future_work fs)"
    if "future_work g < future_work f" for g
    using that assms(1,2) by (simp add: map_update sum_list_update_less)
  show ?thesis
    using assms(3) less by (cases f) (auto split: prod.split sum.split option.split)
qed

lemma joining_rank: "(task_rank (fst (turso_step A M c (Joining fs) P)), task_rank (Joining fs)) \<in> rank_less"
proof (cases "pending_futures fs = []")
  case True
  then show ?thesis by (simp add: remember_names_def Let_def)
next
  case False
  let ?j = "pending_futures fs ! (c mod length (pending_futures fs))"
  have "?j \<in> set (pending_futures fs)" by (rule nth_mem) (simp add: False)
  then have "?j < length fs" "\<not> is_loaded (fs ! ?j)" by (simp_all add: pending_futures_def)
  from poll_future_rank [OF this(1) refl this(2), of M P] False show ?thesis
    by (simp add: Let_def del: task_rank.simps)
qed

lemma remove_nth_length: "j < length xs \<Longrightarrow> length (remove_nth j xs) < length xs"
  by (simp add: remove_nth_def)

lemma deleting_rank: "(task_rank (fst (turso_step A M c (Deleting ns) P)), task_rank (Deleting ns)) \<in> rank_less"
proof (cases "ns = []")
  case False
  then have "length (remove_nth (c mod length ns) ns) < length ns"
    by (intro remove_nth_length) simp
  with False show ?thesis
    by (cases "delete_named A (ns ! (c mod length ns)) P") (auto split: sum.split)
qed simp

lemma target_result_rank: "task_rank (target_result creating name r) = (0, 0)"
  by (simp add: target_result_def)

lemma turso_step_rank:
  assumes "\<not> finished k"
  shows "(task_rank (fst (turso_step A M c k P)), task_rank k) \<in> rank_less"
proof (cases k)
  case (Called call)
  then show ?thesis by (cases call) (auto split: option.split)
next
  case (Joining fs)
  then show ?thesis using joining_rank by blast
next
  case (Deleting ns)
  then show ?thesis using deleting_rank by blast
qed (use assms in \<open>auto simp: target_result_rank split: prod.split sum.split option.split api_error.split\<close>)

text \<open>
  C30: every call returns. Whatever the other tasks do between its steps, and whatever the platform
  and the metadata store answer, a call reaches its end after finitely many steps of its own;
  nothing it waits for depends on another call.
\<close>

theorem turso_call_returns:
  assumes "\<And>n. k (Suc n) = fst (turso_step A M (c n) (k n) (P n))"
  shows "\<exists>n. finished (k n)"
proof (rule ccontr)
  assume "\<nexists>n. finished (k n)"
  then have "\<forall>n. (task_rank (k (Suc n)), task_rank (k n)) \<in> rank_less"
    unfolding assms by (intro allI turso_step_rank) blast
  then have "\<exists>f. \<forall>i. (f (Suc i), f i) \<in> rank_less" by (rule exI [of _ "\<lambda>n. task_rank (k n)"])
  moreover have "wf rank_less" by (intro wf_lex_prod wf_less_than)
  ultimately show False by (simp add: wf_iff_no_infinite_down_chain)
qed

section \<open>Schedules\<close>

text \<open>Runs given by the tasks that move, with the alternatives they take.\<close>

fun turso_schedule ::
  "'a turso_api \<Rightarrow> 'd metadata_store \<Rightarrow> (nat \<times> nat) list \<Rightarrow> ('a, 'd) turso_world \<Rightarrow> ('a, 'd) turso_world" where
  "turso_schedule A M [] W = W"
| "turso_schedule A M ((t, c) # cs) W =
     turso_schedule A M cs
       (case tw_tasks W t of
          None \<Rightarrow> W
        | Some (i, k) \<Rightarrow>
            if finished k then W else task_moves t i (turso_step A M c k (provisioner_at W i)) W)"

lemma schedule_runs: "turso_runs A M allowed W (turso_schedule A M cs W)"
proof (induction A M cs W rule: turso_schedule.induct)
  case (2 A M t c cs W)
  let ?V = "case tw_tasks W t of None \<Rightarrow> W | Some (i, k) \<Rightarrow>
    if finished k then W else task_moves t i (turso_step A M c k (provisioner_at W i)) W"
  have "turso_runs A M allowed W ?V"
    by (auto split: option.split intro!: r_into_rtranclp turso_world_step.moved)
  with 2 show ?case by simp
qed simp

definition demo_world :: "(fake_platform, unit) turso_world" where
  "demo_world =
     \<lparr>tw_platform = [], tw_metadata = (), tw_provisioners = (\<lambda>_. demo_provisioner []),
      tw_tasks = Map.empty\<rparr>"

definition call_at :: "nat \<Rightarrow> nat \<Rightarrow> turso_call \<Rightarrow> ('a, 'd) turso_world \<Rightarrow> ('a, 'd) turso_world" where
  "call_at t i c W = W\<lparr>tw_tasks := (tw_tasks W)(t \<mapsto> (i, Called c))\<rparr>"

lemma call_at_runs:
  "tw_tasks W t = None \<Longrightarrow> allowed c \<Longrightarrow> turso_runs A M allowed W (call_at t i c W)"
  by (auto simp: call_at_def intro: r_into_rtranclp turso_world_step.called)

lemmas schedule_simps =
  demo_world_def call_at_def provisioner_at_def task_moves_def demo_provisioner_def with_api_def
  lookup_existing_database_def seq_err_def on_platform_def fake_api_def fake_create_database_def
  on_metadata_def demo_metadata_def make_target_def target_result_def give_def Let_def

text \<open>
  Two provisioners that both find no database and both try to create it: the second creation is
  answered \<open>AlreadyExists\<close>, and the second call fetches what the first has created.
\<close>

definition demo_race :: "(fake_platform, unit) turso_world" where
  "demo_race =
     turso_schedule fake_api demo_metadata
       (map (\<lambda>t. (t, 0)) [0, 1, 0, 1, 0, 1, 1, 0, 0, 0, 1, 1, 1])
       (call_at 1 1 (EnsureTarget (Named ''orders''))
          (call_at 0 0 (EnsureTarget (Named ''orders'')) demo_world))"

lemma demo_race_tasks:
  "tw_tasks demo_race 0 = Some (0, Finished (GotTarget (Named ''orders'') (Inr demo_turso_target)))"
  "tw_tasks demo_race 1 = Some (1, Finished (GotTarget (Named ''orders'') (Inr demo_turso_target)))"
  by (simp_all add: demo_race_def schedule_simps demo_turso_target_def flip: demo_db_def)

theorem turso_concurrent_agreement_witness:
  "leads_to fake_hosts (provisioner_at demo_race 0)
     (db_name_for (tp_prefix (provisioner_at demo_race 0)) (Named ''orders'')) demo_turso_target"
proof -
  let ?W0 = "call_at 0 0 (EnsureTarget (Named ''orders'')) demo_world"
  have "turso_runs fake_api demo_metadata (\<lambda>c. c \<noteq> Cleanup) demo_world ?W0"
    by (rule call_at_runs) (simp_all add: demo_world_def)
  moreover have "turso_runs fake_api demo_metadata (\<lambda>c. c \<noteq> Cleanup) ?W0
      (call_at 1 1 (EnsureTarget (Named ''orders'')) ?W0)"
    by (rule call_at_runs) (simp_all add: demo_world_def call_at_def)
  ultimately have run: "turso_runs fake_api demo_metadata (\<lambda>c. c \<noteq> Cleanup) demo_world demo_race"
    unfolding demo_race_def using schedule_runs by (rule rtranclp_trans [OF rtranclp_trans])
  have start: "turso_start demo_world" "fake_ok (tw_platform demo_world)"
    by (simp_all add: turso_start_def demo_world_def demo_provisioner_def with_api_def fake_ok_def)
  have same: "same_settings (provisioner_at demo_race 0) (provisioner_at demo_race 1)"
    by (simp add: demo_race_def schedule_simps same_settings_def flip: demo_db_def)
  from turso_concurrent_agreement [OF demo_http.turso_http_axioms start run [folded demo_http_api] _
      demo_race_tasks(1) _ demo_race_tasks(2) _ same,
      of "Named ''orders''" demo_turso_target demo_turso_target]
  show ?thesis by simp
qed

theorem turso_call_returns_witness:
  "\<exists>n. finished (fst (((\<lambda>(k, P). turso_step fake_api demo_metadata 0 k P) ^^ n)
     (Called (EnsureTarget (Named ''orders'')), demo_provisioner [])))"
proof -
  let ?x = "\<lambda>n. ((\<lambda>(k, P). turso_step fake_api demo_metadata 0 k P) ^^ n)
     (Called (EnsureTarget (Named ''orders'')), demo_provisioner [])"
  show ?thesis
    by (rule turso_call_returns [of "\<lambda>n. fst (?x n)" fake_api demo_metadata "\<lambda>_. 0" "\<lambda>n. snd (?x n)"])
      (simp add: case_prod_unfold)
qed

text \<open>
  With a cleanup in between the guarantee is lost. A call has created its database and is about to
  cache the target; the cleanup deletes the database and clears the caches; then the call caches
  its target. From then on every call for the name is given the target of a deleted database.
\<close>

definition demo_cleanup_race :: "(fake_platform, unit) turso_world" where
  "demo_cleanup_race =
     turso_schedule fake_api demo_metadata
       (map (\<lambda>t. (t, 0)) [0, 0, 0, 0, 1, 1, 1, 1, 1, 1, 1, 0, 0])
       (call_at 1 0 Cleanup
          (call_at 0 0 (EnsureTarget (Named ''orders'')) demo_world))"

lemma demo_db_managed: "starts_with (named_db_prefix ''app'') demo_db"
proof -
  obtain f where "demo_db = named_database_prefix ''app'' @ CHR ''-'' # f"
    unfolding demo_db_def by (rule sanitize_database_name_cases [of "''orders''" "''app''"]) auto
  then show ?thesis by (auto simp: text_simps named_db_prefix_def)
qed

lemma turso_cleanup_race:
  "tw_tasks demo_cleanup_race 0 = Some (0, Finished (GotTarget (Named ''orders'') (Inr demo_turso_target)))"
  "tw_tasks demo_cleanup_race 1 = Some (0, Finished (Cleaned (Inr ())))"
  "tw_platform demo_cleanup_race = []"
  "ensure_target_for_name fake_api demo_metadata (Named ''orders'') (provisioner_at demo_cleanup_race 0) =
     (Inr demo_turso_target, provisioner_at demo_cleanup_race 0)"
  by (simp_all add: demo_cleanup_race_def schedule_simps demo_turso_target_def cleanup_names_def
      demo_db_managed delete_named_def remove_nth_def ensure_target_for_name_def fake_hostname_def
      flip: demo_db_def)

end
