(* ===== verification/Documents.thy ===== *)
theory Documents
  imports SqlPublish
begin

text \<open>
  \<^verbatim>\<open>crates/wee-events-sqlite/src/document_store.rs\<close>: the store of projected documents,
  its contract as a map from collection and key to revision and value, and the proof that the
  SQL table keeps it. The state of a document store is its connection, whose mutex every
  operation holds to its end.
\<close>

section \<open>The document store\<close>

record document =
  document_key :: string
  document_revision :: revision
  document_data :: json

text \<open>\<open>serde_json\<close>'s printer and parser of values, and SQLite's function \<open>json_valid\<close>.\<close>

record json_text =
  js_to_string :: "json \<Rightarrow> json_error + string"
  js_from_str :: "string \<Rightarrow> json_error + json"
  js_valid :: "string \<Rightarrow> bool"

definition document_id :: "document_row \<Rightarrow> string \<times> string" where
  "document_id r = (doc_collection r, doc_key r)"

text \<open>
  \<open>open\<close> and \<open>open_in_memory\<close>, on the stored database or a new one; the store is the connection.
\<close>

definition open_documents :: "'g host \<Rightarrow> db \<Rightarrow> (sqlite_error + unit) \<times> conn" where
  "open_documents H d =
     open_document_store_connection H \<lparr>c_db = d, c_saved = None, c_busy_timeout_ms = 0,
       c_foreign_keys = False, c_calls = 0\<rparr>"

definition open_documents_in_memory :: "'g host \<Rightarrow> (sqlite_error + unit) \<times> conn" where
  "open_documents_in_memory H = open_documents H (empty_db ''memory'')"

text \<open>
  \<open>INSERT ... ON CONFLICT (collection, key) DO UPDATE ... WHERE excluded.revision >
  documents.revision\<close>: the number of rows changed and the new rows. SQLite tests the \<open>CHECK\<close>
  constraint before it looks for a conflict.
\<close>

definition upsert_document ::
  "json_text \<Rightarrow> document_row \<Rightarrow> document_row list \<Rightarrow> libsql_error + nat \<times> document_row list" where
  "upsert_document J r rows =
     (if \<not> js_valid J (doc_data r)
      then Inl (SqliteFailure SQLITE_CONSTRAINT_CHECK ''CHECK constraint failed'')
      else case find (\<lambda>q. document_id q = document_id r) rows of
        None \<Rightarrow> Inr (1, rows @ [r])
      | Some old \<Rightarrow>
          if doc_revision old < doc_revision r
          then Inr (1, map (\<lambda>q. if document_id q = document_id r
                 then q\<lparr>doc_revision := doc_revision r, doc_data := doc_data r\<rparr> else q) rows)
          else Inr (0, rows))"

definition document_upsert ::
  "'g host \<Rightarrow> json_text \<Rightarrow> string \<Rightarrow> string \<Rightarrow> revision \<Rightarrow> json \<Rightarrow> ('x, nat) sql" where
  "document_upsert H J collection key revision data =
     seq_result (give (map_err Serialization (js_to_string J data))) (\<lambda>json_str.
       statement H (\<lambda>d. case tbl_documents d of
           None \<Rightarrow> (Inl (no_such_table ''documents''), d)
         | Some rows \<Rightarrow>
             (case upsert_document J \<lparr>doc_collection = collection, doc_key = key,
                doc_revision = revision_str revision, doc_data = json_str\<rparr> rows of
                Inl e \<Rightarrow> (Inl e, d)
              | Inr (n, rows') \<Rightarrow> (Inr n, d\<lparr>tbl_documents := Some rows'\<rparr>))))"

text \<open>A row read back: the value is parsed before the revision.\<close>

definition document_of_row :: "'g host \<Rightarrow> json_text \<Rightarrow> document_row \<Rightarrow> sqlite_error + document" where
  "document_of_row H J r =
     and_then (map_err Serialization (js_from_str J (doc_data r))) (\<lambda>value.
     and_then (map_err (\<lambda>e. Internal (''document row has invalid revision: '' @
          revision_parse_error_display (h_ulid_error_text H) e))
        (revision_from_str (h_ulid H) (doc_revision r))) (\<lambda>revision.
       Inr \<lparr>document_key = doc_key r, document_revision = revision, document_data = value\<rparr>))"

definition document_get ::
  "'g host \<Rightarrow> json_text \<Rightarrow> string \<Rightarrow> string \<Rightarrow> ('x, document option) sql" where
  "document_get H J collection key =
     seq_result
       (query H tbl_documents ''documents'' (filter (\<lambda>r. document_id r = (collection, key))))
       (\<lambda>rows. case rows of
          [] \<Rightarrow> give (Inr None)
        | r # rest \<Rightarrow> give (map_ok Some (document_of_row H J r)))"

definition document_list :: "'g host \<Rightarrow> json_text \<Rightarrow> string \<Rightarrow> ('x, document list) sql" where
  "document_list H J collection =
     seq_result
       (query H tbl_documents ''documents'' (filter (\<lambda>r. doc_collection r = collection)))
       (\<lambda>rows. give (collect_results (map (document_of_row H J) rows)))"

definition document_delete :: "'g host \<Rightarrow> string \<Rightarrow> string \<Rightarrow> ('x, bool) sql" where
  "document_delete H collection key =
     statement H (\<lambda>d. case tbl_documents d of
         None \<Rightarrow> (Inl (no_such_table ''documents''), d)
       | Some rows \<Rightarrow>
           (Inr (0 < length (filter (\<lambda>r. document_id r = (collection, key)) rows)),
            d\<lparr>tbl_documents := Some (filter (\<lambda>r. document_id r \<noteq> (collection, key)) rows)\<rparr>))"

text \<open>The two operations that projections call, over the state of the store.\<close>

record 'd document_ops =
  do_upsert :: "string \<Rightarrow> string \<Rightarrow> revision \<Rightarrow> json \<Rightarrow> ('d, sqlite_error, nat) action"
  do_get :: "string \<Rightarrow> string \<Rightarrow> ('d, sqlite_error, document option) action"

definition sql_documents :: "'g host \<Rightarrow> json_text \<Rightarrow> conn document_ops" where
  "sql_documents H J = \<lparr>do_upsert = document_upsert H J, do_get = document_get H J\<rparr>"

section \<open>The contract of a document store\<close>

text \<open>What the document of a key becomes when another one is written.\<close>

fun newer :: "(revision \<times> json) option \<Rightarrow> revision \<times> json \<Rightarrow> revision \<times> json" where
  "newer None new = new"
| "newer (Some old) new = (if fst old < fst new then new else old)"

locale document_store =
  fixes documents :: "'d document_ops"
    and ok :: "'d \<Rightarrow> bool"
    and docs :: "'d \<Rightarrow> string \<times> string \<Rightarrow> (revision \<times> json) option"
    and good_revision :: "revision \<Rightarrow> bool"
    and good_value :: "json \<Rightarrow> bool"
  assumes upsert_result: "ok d \<Longrightarrow> good_revision r \<Longrightarrow> good_value v \<Longrightarrow>
      do_upsert documents c k r v d = (res, d') \<Longrightarrow>
      ok d' \<and> docs d' = (case res of Inl e \<Rightarrow> docs d
        | Inr n \<Rightarrow> (docs d)((c, k) \<mapsto> newer (docs d (c, k)) (r, v)))"
    and get_result: "ok d \<Longrightarrow> do_get documents c k d = (got, d') \<Longrightarrow>
      ok d' \<and> docs d' = docs d \<and>
      (\<forall>found. got = Inr found \<longrightarrow> found = map_option (\<lambda>(r, v).
         \<lparr>document_key = k, document_revision = r, document_data = v\<rparr>) (docs d (c, k)))"
begin

text \<open>
  After a batch of writes to one key the document is one of those offered, of the greatest revision.
\<close>

lemma upserts_newest:
  assumes "ok d" and "\<forall>(r, v)\<in>set ws. good_revision r \<and> good_value v"
    and "collect_actions (\<lambda>(r, v). do_upsert documents c k r v) ws d = (Inr ns, d')"
  shows "ok d' \<and> (\<forall>p. p \<noteq> (c, k) \<longrightarrow> docs d' p = docs d p) \<and>
    (if set_option (docs d (c, k)) \<union> set ws = {} then docs d' (c, k) = None
     else \<exists>r v. docs d' (c, k) = Some (r, v) \<and> (r, v) \<in> set_option (docs d (c, k)) \<union> set ws \<and>
       (\<forall>(q, w)\<in>set_option (docs d (c, k)) \<union> set ws. q \<le> r))"
  using assms
proof (induction ws arbitrary: d ns)
  case Nil
  then show ?case by (auto simp: give_iff split: option.splits)
next
  case (Cons x ws)
  obtain r v where x: "x = (r, v)" by fastforce
  from Cons.prems(3) obtain n d1 ns' where run: "do_upsert documents c k r v d = (Inr n, d1)"
    "collect_actions (\<lambda>(r, v). do_upsert documents c k r v) ws d1 = (Inr ns', d')"
    by (auto simp: x result_simps)
  from upsert_result [OF Cons.prems(1) _ _ run(1)] Cons.prems(2) have d1: "ok d1"
    "docs d1 = (docs d)((c, k) \<mapsto> newer (docs d (c, k)) (r, v))" by (auto simp: x)
  from Cons.IH [OF d1(1) _ run(2)] Cons.prems(2) d1(2) have rest: "ok d'"
    "\<forall>p. p \<noteq> (c, k) \<longrightarrow> docs d' p = docs d p"
    "\<exists>r' v'. docs d' (c, k) = Some (r', v') \<and>
       (r', v') \<in> insert (newer (docs d (c, k)) (r, v)) (set ws) \<and>
       (\<forall>(q, w)\<in>insert (newer (docs d (c, k)) (r, v)) (set ws). q \<le> r')" by auto
  let ?old = "set_option (docs d (c, k))" and ?new = "newer (docs d (c, k)) (r, v)"
  have new: "?new \<in> insert (r, v) ?old" "(q, w) \<in> insert (r, v) ?old \<Longrightarrow> q \<le> fst ?new" for q w
    by (cases "docs d (c, k)"; auto)+
  from rest(3) obtain r' v' where best: "docs d' (c, k) = Some (r', v')"
    "(r', v') \<in> insert ?new (set ws)" "\<And>q w. (q, w) \<in> insert ?new (set ws) \<Longrightarrow> q \<le> r'" by blast
  have "fst ?new \<le> r'" using best(3) [of "fst ?new" "snd ?new"] by simp
  then have "q \<le> r'" if "(q, w) \<in> ?old \<union> set (x # ws)" for q w
    using that new(2) [of q w] best(3) [of q w] by (auto simp: x)
  moreover have "(r', v') \<in> ?old \<union> set (x # ws)" using best(2) new(1) by (auto simp: x)
  ultimately show ?case using rest(1,2) best(1) by auto
qed

end

section \<open>The table keeps the contract\<close>

definition document_at :: "document_row list \<Rightarrow> string \<times> string \<Rightarrow> document_row option" where
  "document_at rows p = find (\<lambda>r. document_id r = p) rows"

definition parses :: "'g host \<Rightarrow> json_text \<Rightarrow> document_row \<Rightarrow> bool" where
  "parses H J r \<longleftrightarrow> revision_from_str (h_ulid H) (doc_revision r) = Inr (Revision (doc_revision r)) \<and>
     (\<exists>v. js_from_str J (doc_data r) = Inr v)"

definition docs_ok :: "'g host \<Rightarrow> json_text \<Rightarrow> 'x conn_scheme \<Rightarrow> bool" where
  "docs_ok H J c \<longleftrightarrow>
     (case tbl_documents (c_db c) of None \<Rightarrow> False
      | Some rows \<Rightarrow> distinct (map document_id rows) \<and> (\<forall>r\<in>set rows. parses H J r))"

definition stored_value :: "json_text \<Rightarrow> document_row \<Rightarrow> json" where
  "stored_value J r = (case js_from_str J (doc_data r) of Inl e \<Rightarrow> JNull | Inr v \<Rightarrow> v)"

definition docs_map :: "json_text \<Rightarrow> 'x conn_scheme \<Rightarrow> string \<times> string \<Rightarrow> (revision \<times> json) option" where
  "docs_map J c p =
     (case tbl_documents (c_db c) of None \<Rightarrow> None
      | Some rows \<Rightarrow> map_option (\<lambda>r. (Revision (doc_revision r), stored_value J r)) (document_at rows p))"

definition revision_reads :: "'g host \<Rightarrow> revision \<Rightarrow> bool" where
  "revision_reads H r \<longleftrightarrow> revision_from_str (h_ulid H) (revision_str r) = Inr r"

definition json_stable :: "json_text \<Rightarrow> json \<Rightarrow> bool" where
  "json_stable J v \<longleftrightarrow> (\<forall>t. js_to_string J v = Inr t \<longrightarrow> js_from_str J t = Inr v)"

lemma docs_cong:
  assumes "c_db c' = c_db c"
  shows "docs_map J c' = docs_map J c" "docs_ok H J c' = docs_ok H J c"
  using assms by (simp_all add: docs_map_def docs_ok_def fun_eq_iff)

lemma document_id_update [simp]:
  "document_id (r\<lparr>doc_revision := x, doc_data := y\<rparr>) = document_id r"
  by (simp add: document_id_def)

lemma document_at_in: "document_at rows p = Some r \<Longrightarrow> r \<in> set rows \<and> document_id r = p"
  by (auto simp: document_at_def find_Some_iff)

lemma document_at_None: "document_at rows p = None \<longleftrightarrow> p \<notin> document_id ` set rows"
  by (auto simp: document_at_def find_None_iff)

lemma document_at_snoc:
  "document_at (rows @ [r]) p =
     (case document_at rows p of Some q \<Rightarrow> Some q | None \<Rightarrow> if document_id r = p then Some r else None)"
  by (induction rows) (auto simp: document_at_def)

lemma document_at_update:
  "document_at (map (\<lambda>q. if document_id q = k then q\<lparr>doc_revision := x, doc_data := y\<rparr> else q) rows) p =
     (if p = k then map_option (\<lambda>q. q\<lparr>doc_revision := x, doc_data := y\<rparr>) (document_at rows p)
      else document_at rows p)"
  by (induction rows) (auto simp: document_at_def)

lemma document_at_filter:
  "document_at (filter (\<lambda>r. document_id r \<noteq> k) rows) p = (if p = k then None else document_at rows p)"
  by (induction rows) (auto simp: document_at_def)

lemma filter_document:
  "distinct (map document_id rows) \<Longrightarrow>
    filter (\<lambda>r. document_id r = p) rows = (case document_at rows p of None \<Rightarrow> [] | Some r \<Rightarrow> [r])"
proof (induction rows)
  case (Cons r rows)
  have "filter (\<lambda>r. document_id r = p) rows = []" if "document_id r = p"
  proof -
    from Cons.prems that have "p \<notin> document_id ` set rows" by simp
    then show ?thesis by (auto simp: filter_empty_conv)
  qed
  with Cons show ?case by (auto simp: document_at_def)
qed (simp add: document_at_def)

lemma document_at_iff:
  assumes "distinct (map document_id rows)"
  shows "document_at rows p = Some r \<longleftrightarrow> r \<in> set rows \<and> document_id r = p"
proof
  assume "r \<in> set rows \<and> document_id r = p"
  then have "r \<in> set (filter (\<lambda>r. document_id r = p) rows)" by simp
  then show "document_at rows p = Some r"
    unfolding filter_document [OF assms] by (cases "document_at rows p") auto
qed (simp add: document_at_in)

lemma document_of_row_parses:
  assumes "parses H J r"
  shows "document_of_row H J r = Inr \<lparr>document_key = doc_key r,
    document_revision = Revision (doc_revision r), document_data = stored_value J r\<rparr>"
  using assms by (auto simp: document_of_row_def parses_def stored_value_def)

lemma upsert_document_result:
  assumes "distinct (map document_id rows)" and "\<forall>q\<in>set rows. parses H J q" and "parses H J r"
    and "upsert_document J r rows = Inr (n, rows')"
  shows "distinct (map document_id rows') \<and> (\<forall>q\<in>set rows'. parses H J q) \<and>
    (\<forall>p. p \<noteq> document_id r \<longrightarrow> document_at rows' p = document_at rows p) \<and>
    (case document_at rows (document_id r) of
       None \<Rightarrow> n = 1 \<and> document_at rows' (document_id r) = Some r
     | Some old \<Rightarrow>
         if doc_revision old < doc_revision r
         then n = 1 \<and> document_at rows' (document_id r) =
           Some (old\<lparr>doc_revision := doc_revision r, doc_data := doc_data r\<rparr>)
         else n = 0 \<and> rows' = rows)"
proof -
  have ids: "map document_id (map (\<lambda>q. if document_id q = document_id r
      then q\<lparr>doc_revision := doc_revision r, doc_data := doc_data r\<rparr> else q) rows) = map document_id rows"
    by simp
  have reads: "parses H J (q\<lparr>doc_revision := doc_revision r, doc_data := doc_data r\<rparr>)" for q
    using assms(3) by (simp add: parses_def)
  from assms(4) consider
      (new) "document_at rows (document_id r) = None" "n = 1" "rows' = rows @ [r]"
    | (replace) old where "document_at rows (document_id r) = Some old" "doc_revision old < doc_revision r"
        "n = 1" "rows' = map (\<lambda>q. if document_id q = document_id r
          then q\<lparr>doc_revision := doc_revision r, doc_data := doc_data r\<rparr> else q) rows"
    | (stale) old where "document_at rows (document_id r) = Some old"
        "\<not> doc_revision old < doc_revision r" "n = 0" "rows' = rows"
    by (auto simp: upsert_document_def document_at_def split: if_splits option.splits)
  then show ?thesis
  proof cases
    case new
    then have "document_id r \<notin> document_id ` set rows" by (simp add: document_at_None)
    with new assms(1-3) show ?thesis by (auto simp: document_at_snoc split: option.splits)
  next
    case replace
    have "distinct (map document_id rows')" unfolding replace(4) ids by (rule assms(1))
    with replace assms(2) reads show ?thesis by (auto simp: document_at_update)
  next
    case stale
    with assms(1,2) show ?thesis by simp
  qed
qed

lemma document_upsert_cases:
  assumes ok: "docs_ok H J c" and r: "revision_reads H r" and v: "json_stable J v"
    and run: "document_upsert H J col key r v c = (res, c')"
  shows "docs_ok H J c' \<and> docs_map J c' = (case res of Inl e \<Rightarrow> docs_map J c
    | Inr n \<Rightarrow> (docs_map J c)((col, key) \<mapsto> newer (docs_map J c (col, key)) (r, v)))"
    and "res = Inr n \<Longrightarrow> n = (if docs_map J c (col, key) = None \<or>
      fst (the (docs_map J c (col, key))) < r then 1 else 0)"
proof -
  from ok obtain rows where rows: "tbl_documents (c_db c) = Some rows" "distinct (map document_id rows)"
    "\<forall>q\<in>set rows. parses H J q" by (auto simp: docs_ok_def split: option.splits)
  have "(docs_ok H J c' \<and> docs_map J c' = (case res of Inl e \<Rightarrow> docs_map J c
    | Inr n \<Rightarrow> (docs_map J c)((col, key) \<mapsto> newer (docs_map J c (col, key)) (r, v)))) \<and>
    (\<forall>n. res = Inr n \<longrightarrow> n = (if docs_map J c (col, key) = None \<or>
      fst (the (docs_map J c (col, key))) < r then 1 else 0))"
  proof (cases res)
    case (Inl e)
    with run have "c_db c' = c_db c"
      by (auto simp: document_upsert_def result_simps split: if_splits)
    from docs_cong(1) [OF this, of J] docs_cong(2) [OF this, of H J] ok Inl show ?thesis by simp
  next
    case (Inr n)
    with run rows(1) obtain js where js: "js_to_string J v = Inr js" and stmt:
      "statement H (\<lambda>d. case tbl_documents d of
           None \<Rightarrow> (Inl (no_such_table ''documents''), d)
         | Some rows \<Rightarrow>
             (case upsert_document J \<lparr>doc_collection = col, doc_key = key,
                doc_revision = revision_str r, doc_data = js\<rparr> rows of
                Inl e \<Rightarrow> (Inl e, d)
              | Inr (n, rows') \<Rightarrow> (Inr n, d\<lparr>tbl_documents := Some rows'\<rparr>))) c = (Inr n, c')"
      by (auto simp: document_upsert_def seq_result_Inr give_iff map_err_Inr)
    then obtain rows' where up: "upsert_document J \<lparr>doc_collection = col, doc_key = key,
        doc_revision = revision_str r, doc_data = js\<rparr> rows = Inr (n, rows')"
      and c': "tbl_documents (c_db c') = Some rows'"
      using rows(1) by (cases "upsert_document J \<lparr>doc_collection = col, doc_key = key,
        doc_revision = revision_str r, doc_data = js\<rparr> rows") (auto simp: statement_Inr split: prod.splits)
    let ?new = "\<lparr>doc_collection = col, doc_key = key, doc_revision = revision_str r, doc_data = js\<rparr>"
    have val: "js_from_str J js = Inr v" using v js by (simp add: json_stable_def)
    have new: "parses H J ?new" "document_id ?new = (col, key)"
      using r val by (simp_all add: parses_def revision_reads_def document_id_def)
    note U = upsert_document_result [OF rows(2,3) new(1) up, unfolded new(2)]
    have "docs_ok H J c'" using U c' by (simp add: docs_ok_def)
    moreover have "docs_map J c' p = docs_map J c p" if "p \<noteq> (col, key)" for p
    proof -
      from U that have "document_at rows' p = document_at rows p" by blast
      with c' rows(1) show ?thesis by (simp add: docs_map_def)
    qed
    moreover have "docs_map J c' (col, key) = Some (newer (docs_map J c (col, key)) (r, v)) \<and>
      n = (if docs_map J c (col, key) = None \<or> fst (the (docs_map J c (col, key))) < r then 1 else 0)"
    proof (cases "document_at rows (col, key)")
      case None
      with U c' rows(1) val show ?thesis by (simp add: docs_map_def stored_value_def)
    next
      case (Some old)
      with U c' rows(1) val show ?thesis
        by (auto simp: docs_map_def stored_value_def less_revision_def)
    qed
    ultimately show ?thesis using Inr by (auto simp: fun_eq_iff)
  qed
  then show "docs_ok H J c' \<and> docs_map J c' = (case res of Inl e \<Rightarrow> docs_map J c
    | Inr n \<Rightarrow> (docs_map J c)((col, key) \<mapsto> newer (docs_map J c (col, key)) (r, v)))"
    and "res = Inr n \<Longrightarrow> n = (if docs_map J c (col, key) = None \<or>
      fst (the (docs_map J c (col, key))) < r then 1 else 0)" by blast+
qed

lemma document_get_cases:
  assumes ok: "docs_ok H J c" and run: "document_get H J col key c = (res, c')"
  shows "docs_ok H J c' \<and> docs_map J c' = docs_map J c \<and>
    (\<forall>found. res = Inr found \<longrightarrow> found = map_option (\<lambda>(r, v).
       \<lparr>document_key = key, document_revision = r, document_data = v\<rparr>) (docs_map J c (col, key)))"
proof -
  from ok obtain rows where rows: "tbl_documents (c_db c) = Some rows" "distinct (map document_id rows)"
    "\<forall>q\<in>set rows. parses H J q" by (auto simp: docs_ok_def split: option.splits)
  have db: "c_db c' = c_db c"
    using run unfolding document_get_def
    by (cases rule: seq_result_cases) (auto simp: result_simps query_def give_iff split: list.splits)
  moreover have "found = map_option (\<lambda>(r, v).
      \<lparr>document_key = key, document_revision = r, document_data = v\<rparr>) (docs_map J c (col, key))"
    if "res = Inr found" for found
  proof (cases "document_at rows (col, key)")
    case None
    with run that rows show ?thesis
      by (auto simp: document_get_def result_simps filter_document docs_map_def)
  next
    case (Some r)
    from document_at_in [OF Some] rows(3) have r: "parses H J r" "doc_key r = key"
      by (auto simp: document_id_def)
    from run that rows Some document_of_row_parses [OF r(1)] r(2) show ?thesis
      by (auto simp: document_get_def result_simps filter_document docs_map_def)
  qed
  ultimately show ?thesis using ok docs_cong(1) [OF db, of J] docs_cong(2) [OF db, of H J] by simp
qed

interpretation sql_documents: document_store "sql_documents H J" "docs_ok H J" "docs_map J"
    "revision_reads H" "json_stable J" for H J
proof unfold_locales
  fix d r v c k res d'
  assume "docs_ok H J d" "revision_reads H r" "json_stable J v"
    and "do_upsert (sql_documents H J) c k r v d = (res, d')"
  then show "docs_ok H J d' \<and> docs_map J d' = (case res of Inl e \<Rightarrow> docs_map J d
      | Inr n \<Rightarrow> (docs_map J d)((c, k) \<mapsto> newer (docs_map J d (c, k)) (r, v)))"
    by (intro document_upsert_cases(1)) (simp_all add: sql_documents_def)
next
  fix d c k got d'
  assume "docs_ok H J d" and "do_get (sql_documents H J) c k d = (got, d')"
  then show "docs_ok H J d' \<and> docs_map J d' = docs_map J d \<and>
      (\<forall>found. got = Inr found \<longrightarrow> found = map_option (\<lambda>(r, v).
         \<lparr>document_key = k, document_revision = r, document_data = v\<rparr>) (docs_map J d (c, k)))"
    by (intro document_get_cases) (simp_all add: sql_documents_def)
qed

lemma document_list_cases:
  assumes ok: "docs_ok H J c" and run: "document_list H J col c = (Inr ds, c')"
  shows "docs_map J c' = docs_map J c \<and> distinct (map document_key ds) \<and>
    set ds = {\<lparr>document_key = k, document_revision = r, document_data = v\<rparr> |k r v.
      docs_map J c (col, k) = Some (r, v)}"
proof -
  from ok obtain rows where rows: "tbl_documents (c_db c) = Some rows" "distinct (map document_id rows)"
    "\<forall>q\<in>set rows. parses H J q" by (auto simp: docs_ok_def split: option.splits)
  let ?mine = "filter (\<lambda>r. doc_collection r = col) rows"
  let ?doc = "\<lambda>r. \<lparr>document_key = doc_key r, document_revision = Revision (doc_revision r),
      document_data = stored_value J r\<rparr>"
  have "map (document_of_row H J) ?mine = map Inr (map ?doc ?mine)"
    using rows(3) document_of_row_parses by auto
  then have "collect_results (map (document_of_row H J) ?mine) = Inr (map ?doc ?mine)"
    by (simp only: collect_results_map_Inr)
  with run rows(1) have ds: "ds = map ?doc ?mine" and db: "c_db c' = c_db c"
    by (auto simp: document_list_def result_simps query_def)
  have keys: "distinct (map doc_key ?mine)"
    using rows(2) by (auto simp: distinct_map inj_on_def document_id_def)
  have "docs_map J c (col, k) = Some (v, w) \<longleftrightarrow>
      (\<exists>r\<in>set ?mine. doc_key r = k \<and> v = Revision (doc_revision r) \<and> w = stored_value J r)" for k v w
    using rows(1) document_at_iff [OF rows(2)] by (auto simp: docs_map_def document_id_def)
  then have "set ds = {\<lparr>document_key = k, document_revision = r, document_data = v\<rparr> |k r v.
      docs_map J c (col, k) = Some (r, v)}"
    unfolding ds by auto
  with keys ds docs_cong(1) [OF db, of J] show ?thesis by (simp add: comp_def)
qed

lemma document_delete_cases:
  assumes ok: "docs_ok H J c" and run: "document_delete H col key c = (res, c')"
  shows "docs_ok H J c' \<and> (case res of Inl e \<Rightarrow> docs_map J c' = docs_map J c
    | Inr removed \<Rightarrow> removed = (docs_map J c (col, key) \<noteq> None) \<and>
        docs_map J c' = (docs_map J c)((col, key) := None))"
proof (cases res)
  case (Inl e)
  with run have db: "c_db c' = c_db c" by (auto simp: document_delete_def result_simps)
  from docs_cong(1) [OF db, of J] docs_cong(2) [OF db, of H J] ok Inl show ?thesis by simp
next
  case (Inr removed)
  from ok obtain rows where rows: "tbl_documents (c_db c) = Some rows" "distinct (map document_id rows)"
    "\<forall>q\<in>set rows. parses H J q" by (auto simp: docs_ok_def split: option.splits)
  from run Inr rows(1) have c': "tbl_documents (c_db c') =
      Some (filter (\<lambda>r. document_id r \<noteq> (col, key)) rows)"
    "removed = (filter (\<lambda>r. document_id r = (col, key)) rows \<noteq> [])"
    by (auto simp: document_delete_def result_simps)
  have "docs_ok H J c'" using c' rows by (simp add: docs_ok_def distinct_map_filter)
  moreover have "removed = (docs_map J c (col, key) \<noteq> None)"
    unfolding c'(2) filter_document [OF rows(2)] using rows(1)
    by (auto simp: docs_map_def split: option.splits)
  moreover have "docs_map J c' = (docs_map J c)((col, key) := None)"
    using c'(1) rows(1) by (simp add: docs_map_def document_at_filter fun_eq_iff)
  ultimately show ?thesis using Inr by simp
qed

lemma prepare_local_connection_documents:
  "prepare_local_connection H c = (Inr (), c') \<Longrightarrow> tbl_documents (c_db c') = tbl_documents (c_db c) \<and>
    tbl_schema_versions (c_db c') = tbl_schema_versions (c_db c) \<and> c_saved c' = c_saved c"
  by (auto simp: prepare_local_connection_def query_required_string_def result_simps Let_def split: if_splits)

text \<open>A store opened in memory is empty and ready.\<close>

lemma open_documents_in_memory_ok:
  assumes "open_documents_in_memory H = (Inr (), c)"
  shows "docs_ok H J c \<and> docs_map J c = (\<lambda>p. None) \<and> c_saved c = None"
proof -
  from assms obtain c1 where prep: "prepare_local_connection H (\<lparr>c_db = empty_db ''memory'', c_saved = None,
      c_busy_timeout_ms = 0, c_foreign_keys = False, c_calls = 1\<rparr>) = (Inr (), c1)"
    and mig: "migrate_document_store H c1 = (Inr (), c)"
    by (auto simp: open_documents_in_memory_def open_documents_def open_document_store_connection_def
        connect_def result_simps)
  from prepare_local_connection_documents [OF prep] mig
  have "tbl_documents (c_db c) = Some [] \<and> c_saved c = None"
    by (auto simp: migrate_document_store_def migrate_schema_def current_schema_version_def result_simps
        create_if_missing_def empty_db_def pending_ddl_def DOCUMENT_STORE_SCHEMA_VERSION_def
        upsert_version_def split: option.splits if_splits)
  then show ?thesis by (simp add: docs_ok_def docs_map_def document_at_def fun_eq_iff)
qed

section \<open>The guarantees\<close>

lemma document_upsert_refines:
  assumes "docs_ok H J c" and "revision_reads H r" and "json_stable J v"
  shows "case document_upsert H J col key r v c of
       (Inl e, c') \<Rightarrow> docs_ok H J c' \<and> docs_map J c' = docs_map J c
     | (Inr n, c') \<Rightarrow> docs_ok H J c' \<and>
         (if docs_map J c (col, key) = None \<or> fst (the (docs_map J c (col, key))) < r
          then n = 1 \<and> docs_map J c' = (docs_map J c)((col, key) \<mapsto> (r, v))
          else n = 0 \<and> docs_map J c' = docs_map J c)"
proof -
  obtain res c' where run: "document_upsert H J col key r v c = (res, c')" by fastforce
  show ?thesis using document_upsert_cases [OF assms run] unfolding run
    by (cases "docs_map J c (col, key)") (auto split: sum.splits simp: fun_upd_idem)
qed

lemma document_get_refines:
  assumes "docs_ok H J c"
  shows "case document_get H J col key c of
       (Inl e, c') \<Rightarrow> docs_ok H J c' \<and> docs_map J c' = docs_map J c
     | (Inr found, c') \<Rightarrow> docs_ok H J c' \<and> docs_map J c' = docs_map J c \<and>
         found = map_option (\<lambda>(r, v). \<lparr>document_key = key, document_revision = r, document_data = v\<rparr>)
           (docs_map J c (col, key))"
proof -
  obtain res c' where "document_get H J col key c = (res, c')" by fastforce
  with document_get_cases [OF assms this] show ?thesis by (simp split: sum.splits)
qed

lemma document_delete_refines:
  assumes "docs_ok H J c"
  shows "case document_delete H col key c of
       (Inl e, c') \<Rightarrow> docs_ok H J c' \<and> docs_map J c' = docs_map J c
     | (Inr removed, c') \<Rightarrow> docs_ok H J c' \<and> removed = (docs_map J c (col, key) \<noteq> None) \<and>
         docs_map J c' = (docs_map J c)((col, key) := None)"
proof -
  obtain res c' where "document_delete H col key c = (res, c')" by fastforce
  with document_delete_cases [OF assms this] show ?thesis by (simp split: sum.splits)
qed

lemma document_list_refines:
  assumes "docs_ok H J c"
  shows "case document_list H J col c of
       (Inl e, c') \<Rightarrow> docs_map J c' = docs_map J c
     | (Inr ds, c') \<Rightarrow> docs_map J c' = docs_map J c \<and> distinct (map document_key ds) \<and>
         set ds = {\<lparr>document_key = k, document_revision = q, document_data = w\<rparr> |k q w.
           docs_map J c (col, k) = Some (q, w)}"
proof -
  obtain res c' where run: "document_list H J col c = (res, c')" by fastforce
  then have "c_db c' = c_db c"
    by (cases res) (auto simp: document_list_def result_simps query_def)
  from docs_cong(1) [OF this, of J] document_list_cases [OF assms] run show ?thesis
    by (cases res) auto
qed

text \<open>
  C18: the document table implements a map from collection and key to a revision and a value. An
  upsert writes exactly if there is no document or an older one, and says so; a read returns the
  document; a delete reports whether it removed one; a listing returns the documents of its
  collection, each key once. A call that fails changes no document.
\<close>

theorem document_store_refines_map:
  assumes "docs_ok H J c" and "revision_reads H r" and "json_stable J v"
  shows "(case document_upsert H J col key r v c of
       (Inl e, c') \<Rightarrow> docs_ok H J c' \<and> docs_map J c' = docs_map J c
     | (Inr n, c') \<Rightarrow> docs_ok H J c' \<and>
         (if docs_map J c (col, key) = None \<or> fst (the (docs_map J c (col, key))) < r
          then n = 1 \<and> docs_map J c' = (docs_map J c)((col, key) \<mapsto> (r, v))
          else n = 0 \<and> docs_map J c' = docs_map J c)) \<and>
    (case document_get H J col key c of
       (Inl e, c') \<Rightarrow> docs_ok H J c' \<and> docs_map J c' = docs_map J c
     | (Inr found, c') \<Rightarrow> docs_ok H J c' \<and> docs_map J c' = docs_map J c \<and>
         found = map_option (\<lambda>(r, v). \<lparr>document_key = key, document_revision = r, document_data = v\<rparr>)
           (docs_map J c (col, key))) \<and>
    (case document_delete H col key c of
       (Inl e, c') \<Rightarrow> docs_ok H J c' \<and> docs_map J c' = docs_map J c
     | (Inr removed, c') \<Rightarrow> docs_ok H J c' \<and> removed = (docs_map J c (col, key) \<noteq> None) \<and>
         docs_map J c' = (docs_map J c)((col, key) := None)) \<and>
    (case document_list H J col c of
       (Inl e, c') \<Rightarrow> docs_map J c' = docs_map J c
     | (Inr ds, c') \<Rightarrow> docs_map J c' = docs_map J c \<and> distinct (map document_key ds) \<and>
         set ds = {\<lparr>document_key = k, document_revision = q, document_data = w\<rparr> |k q w.
           docs_map J c (col, k) = Some (q, w)})"
  by (intro conjI document_upsert_refines document_get_refines document_delete_refines
      document_list_refines assms)

text \<open>
  Writes of one document converge. Two stores with the same documents that are given the same
  writes for one key, in different orders and with different repetitions, end with the same
  documents, provided that no two of the writes carry different values under one revision.
\<close>

theorem document_writes_converge:
  fixes c d :: conn
  assumes "docs_ok H J c" and "docs_ok H J d" and "docs_map J d = docs_map J c" and "set us = set ws"
    and "\<forall>(r, v)\<in>set ws. revision_reads H r \<and> json_stable J v"
    and "\<forall>(r, v)\<in>set_option (docs_map J c (col, key)) \<union> set ws.
      \<forall>(q, w)\<in>set_option (docs_map J c (col, key)) \<union> set ws. q = r \<longrightarrow> w = v"
    and "collect_actions (\<lambda>(r, v). document_upsert H J col key r v) ws c = (Inr ns, c')"
    and "collect_actions (\<lambda>(r, v). document_upsert H J col key r v) us d = (Inr ms, d')"
  shows "docs_map J d' = docs_map J c'"
proof
  fix p
  let ?all = "set_option (docs_map J c (col, key)) \<union> set ws"
  have ops: "do_upsert (sql_documents H J) = document_upsert H J" by (simp add: sql_documents_def)
  note set = assms(4)
  note C = sql_documents.upserts_newest [OF assms(1,5) assms(7) [folded ops]]
  from assms(5) have "\<forall>(r, v)\<in>set us. revision_reads H r \<and> json_stable J v" unfolding set .
  note D = sql_documents.upserts_newest [OF assms(2) this assms(8) [folded ops], unfolded assms(3) set]
  show "docs_map J d' p = docs_map J c' p"
  proof (cases "p = (col, key)")
    case False
    with C have "docs_map J c' p = docs_map J c p" by blast
    moreover from D False have "docs_map J d' p = docs_map J c p" by blast
    ultimately show ?thesis by simp
  next
    case True
    show ?thesis
    proof (cases "?all = {}")
      case True
      with C D \<open>p = (col, key)\<close> show ?thesis by simp
    next
      case False
      from C False obtain r v where r: "docs_map J c' (col, key) = Some (r, v)" "(r, v) \<in> ?all"
        "\<forall>(q, w)\<in>?all. q \<le> r" by auto
      from D False obtain q w where q: "docs_map J d' (col, key) = Some (q, w)" "(q, w) \<in> ?all"
        "\<forall>(r, v)\<in>?all. r \<le> q" by auto
      from r(3) q(2) have "q \<le> r" by blast
      moreover from q(3) r(2) have "r \<le> q" by blast
      ultimately have "q = r" by (rule order.antisym)
      moreover from assms(6) r(2) q(2) this have "w = v" by blast
      ultimately show ?thesis using r(1) q(1) True by simp
    qed
  qed
qed

section \<open>Stores for the witnesses\<close>

definition demo_text :: json_text where
  "demo_text = \<lparr>js_to_string = (\<lambda>v. case v of JString t \<Rightarrow> Inr t | _ \<Rightarrow> Inl ''not a string''),
     js_from_str = (\<lambda>t. Inr (JString t)), js_valid = (\<lambda>t. True)\<rparr>"

definition demo_documents :: "document_row list \<Rightarrow> nat \<Rightarrow> conn" where
  "demo_documents rows n = \<lparr>c_db = (empty_db ''memory'')\<lparr>tbl_documents := Some rows\<rparr>, c_saved = None,
     c_busy_timeout_ms = 30000, c_foreign_keys = True, c_calls = n\<rparr>"

definition demo_document :: document_row where
  "demo_document = \<lparr>doc_collection = ''runs'', doc_key = ''1'',
     doc_revision = ''00000000000000000000000002'', doc_data = ''x''\<rparr>"

lemma demo_json_stable [simp]: "json_stable demo_text v"
  by (cases v) (simp_all add: json_stable_def demo_text_def)

lemma demo_documents_ok [simp]: "docs_ok H demo_text (demo_documents [] n)"
  by (simp add: docs_ok_def demo_documents_def)

lemma demo_docs_map [simp]: "docs_map demo_text (demo_documents [] n) = (\<lambda>p. None)"
  by (simp add: docs_map_def demo_documents_def document_at_def fun_eq_iff)

lemma demo_revision_reads: "revision_reads calm_host (revision_from_ulid crockford_codec u)"
  using revision_from_str_ulid [OF crockford_laws, of u] by (simp add: revision_reads_def calm_host_def)

lemma demo_upsert:
  "document_upsert calm_host demo_text ''runs'' ''1'' (revision_from_ulid crockford_codec 2) (JString ''x'')
     (demo_documents [] n) = (Inr 1, demo_documents [demo_document] (Suc n))"
  by (simp add: document_upsert_def sql_run calm_host_def demo_text_def demo_documents_def empty_db_def
      upsert_document_def demo_document_def revision_from_ulid_def crockford_small)

theorem document_store_refines_map_witness:
  "docs_map demo_text (demo_documents [demo_document] 1) (''runs'', ''1'') =
     Some (revision_from_ulid crockford_codec 2, JString ''x'')"
  using document_store_refines_map [where c = "demo_documents [] 0" and v = "JString ''x''" and
      r = "revision_from_ulid crockford_codec 2" and col = "''runs''" and key = "''1''",
      OF demo_documents_ok demo_revision_reads demo_json_stable]
  by (simp add: demo_upsert)

lemma demo_upsert_again:
  "document_upsert calm_host demo_text ''runs'' ''1'' (revision_from_ulid crockford_codec 1) (JString ''y'')
     (demo_documents [demo_document] n) = (Inr 0, demo_documents [demo_document] (Suc n))"
  by (simp add: document_upsert_def sql_run calm_host_def demo_text_def demo_documents_def empty_db_def
      upsert_document_def demo_document_def document_id_def revision_from_ulid_def crockford_small)

theorem document_writes_converge_witness:
  "docs_map demo_text (snd (collect_actions (\<lambda>(r, v). document_upsert calm_host demo_text ''runs'' ''1'' r v)
      [(revision_from_ulid crockford_codec 2, JString ''x''), (revision_from_ulid crockford_codec 1, JString ''y''),
       (revision_from_ulid crockford_codec 2, JString ''x'')]
      (demo_documents [] 0))) =
   docs_map demo_text (demo_documents [demo_document] 2)"
proof -
  let ?new = "(revision_from_ulid crockford_codec 2, JString ''x'')"
  let ?old = "(revision_from_ulid crockford_codec 1, JString ''y'')"
  let ?put = "\<lambda>(r, v). document_upsert calm_host demo_text ''runs'' ''1'' r v"
  have again: "document_upsert calm_host demo_text ''runs'' ''1'' (revision_from_ulid crockford_codec 2) (JString ''x'')
      (demo_documents [demo_document] n) = (Inr 0, demo_documents [demo_document] (Suc n))" for n
    by (simp add: document_upsert_def sql_run calm_host_def demo_text_def demo_documents_def empty_db_def
      upsert_document_def demo_document_def document_id_def revision_from_ulid_def crockford_small)
  have one: "collect_actions ?put [?new, ?old] (demo_documents [] 0) =
      (Inr [1, 0], demo_documents [demo_document] 2)"
    by (simp add: seq_result_def demo_upsert demo_upsert_again give_def numeral_2_eq_2)
  have three: "collect_actions ?put [?new, ?old, ?new] (demo_documents [] 0) =
      (Inr [1, 0, 0], demo_documents [demo_document] 3)"
    by (simp add: seq_result_def demo_upsert demo_upsert_again again give_def numeral_eq_Suc)
  have differ: "revision_from_ulid crockford_codec 1 \<noteq> revision_from_ulid crockford_codec 2"
    by (simp add: revision_from_ulid_def crockford_small)
  show ?thesis unfolding three snd_conv
    by (rule document_writes_converge [OF demo_documents_ok demo_documents_ok refl _ _ _ one three])
      (use differ in \<open>auto simp: demo_revision_reads\<close>)
qed

end
