(* ===== verification/Renderer.thy ===== *)
theory Renderer
  imports Events
begin

text \<open>
  \<^verbatim>\<open>crates/wee-events/src/renderer.rs\<close>: event patterns with the hand-written glob matcher,
  and the renderer that folds a stream through the first matching rule. A reducer works on
  \<open>&mut S\<close>; as its error aborts the rendering, it is a function from the state to an error or
  the new state.
\<close>

section \<open>Glob matching\<close>

text \<open>
  The loop of \<open>glob_matches\<close> over \<open>pattern_idx\<close>, \<open>text_idx\<close>, \<open>star_idx\<close> and
  \<open>star_text_idx\<close>; \<open>skip_stars\<close> is the second loop.
\<close>

fun skip_stars :: "string \<Rightarrow> string" where
  "skip_stars [] = []"
| "skip_stars (c # cs) = (if c = CHR ''*'' then skip_stars cs else c # cs)"

definition star_settled :: "nat \<Rightarrow> nat \<Rightarrow> nat option \<Rightarrow> nat \<Rightarrow> bool" where
  "star_settled pi ti star sti = (case star of None \<Rightarrow> True | Some s \<Rightarrow> s < pi \<and> sti \<le> ti)"

function glob_loop :: "string \<Rightarrow> string \<Rightarrow> nat \<Rightarrow> nat \<Rightarrow> nat option \<Rightarrow> nat \<Rightarrow> bool" where
  "glob_loop pattern txt pattern_idx text_idx star_idx star_text_idx =
     (if text_idx < length txt then
        if pattern_idx < length pattern \<and> pattern ! pattern_idx = txt ! text_idx then
          glob_loop pattern txt (pattern_idx + 1) (text_idx + 1) star_idx star_text_idx
        else if pattern_idx < length pattern \<and> pattern ! pattern_idx = CHR ''*'' then
          glob_loop pattern txt (pattern_idx + 1) text_idx (Some pattern_idx) text_idx
        else
          (case star_idx of
             Some star \<Rightarrow>
               glob_loop pattern txt (star + 1) (star_text_idx + 1) (Some star) (star_text_idx + 1)
           | None \<Rightarrow> False)
      else skip_stars (drop pattern_idx pattern) = [])"
  by pat_completeness auto
termination
  by (relation "measures
      [\<lambda>(p, t, pi, ti, star, sti). if star_settled pi ti star sti then 0 else 1,
       \<lambda>(p, t, pi, ti, star, sti). if star_settled pi ti star sti
          then (case star of None \<Rightarrow> length p + 1 | Some s \<Rightarrow> length p - s) else 0,
       \<lambda>(p, t, pi, ti, star, sti). if star_settled pi ti star sti then length t - sti else 0,
       \<lambda>(p, t, pi, ti, star, sti). length t - ti]")
    (auto simp: star_settled_def split: option.splits)

declare glob_loop.simps [simp del]

definition glob_matches :: "string \<Rightarrow> string \<Rightarrow> bool" where
  "glob_matches pattern txt = glob_loop pattern txt 0 0 None 0"

text \<open>What a glob means: \<open>*\<close> matches any run of characters, every other character itself.\<close>

fun wild :: "string \<Rightarrow> string \<Rightarrow> bool" where
  "wild [] t = (t = [])"
| "wild (a # p) [] = (a = CHR ''*'' \<and> wild p [])"
| "wild (a # p) (c # t) =
     (if a = CHR ''*'' then wild p (c # t) \<or> wild (a # p) t else a = c \<and> wild p t)"

lemma wild_star: "wild (CHR ''*'' # p) t \<longleftrightarrow> (\<exists>k\<le>length t. wild p (drop k t))"
proof (induction t)
  case (Cons c t)
  show ?case
  proof
    assume "wild (CHR ''*'' # p) (c # t)"
    then have "wild p (c # t) \<or> wild (CHR ''*'' # p) t" by simp
    then show "\<exists>k\<le>length (c # t). wild p (drop k (c # t))"
    proof
      assume "wild p (c # t)"
      then show ?thesis by (intro exI [of _ 0]) simp
    next
      assume "wild (CHR ''*'' # p) t"
      with Cons obtain k where "k \<le> length t" "wild p (drop k t)" by auto
      then show ?thesis by (intro exI [of _ "Suc k"]) simp
    qed
  next
    assume "\<exists>k\<le>length (c # t). wild p (drop k (c # t))"
    then obtain k where k: "k \<le> length (c # t)" "wild p (drop k (c # t))" by blast
    with Cons show "wild (CHR ''*'' # p) (c # t)" by (cases k) auto
  qed
qed simp

lemma wild_literal:
  "CHR ''*'' \<notin> set seg \<Longrightarrow> wild (seg @ p) t \<longleftrightarrow> (\<exists>u. t = seg @ u \<and> wild p u)"
proof (induction seg arbitrary: t)
  case (Cons a seg)
  then show ?case by (cases t) auto
qed simp

lemma skip_stars_wild: "skip_stars p = [] \<longleftrightarrow> wild p []"
  by (induction p) auto

text \<open>
  The invariant of the loop, for a text without stars: since the last star the pattern and the
  text advanced in step over literal characters.
\<close>

definition glob_inv :: "string \<Rightarrow> string \<Rightarrow> nat \<Rightarrow> nat \<Rightarrow> nat option \<Rightarrow> nat \<Rightarrow> bool" where
  "glob_inv p t pi ti star sti \<longleftrightarrow> pi \<le> length p \<and> ti \<le> length t \<and>
     (case star of
        None \<Rightarrow> True
      | Some s \<Rightarrow> s < pi \<and> ti = sti + (pi - Suc s) \<and>
          CHR ''*'' \<notin> set (take (pi - Suc s) (drop (Suc s) p)))"

definition glob_goal :: "string \<Rightarrow> string \<Rightarrow> nat \<Rightarrow> nat \<Rightarrow> nat option \<Rightarrow> nat \<Rightarrow> bool" where
  "glob_goal p t pi ti star sti \<longleftrightarrow>
     wild (drop pi p) (drop ti t) \<or>
     (\<exists>s k. star = Some s \<and> sti < k \<and> k \<le> length t \<and> wild (drop (Suc s) p) (drop k t))"

text \<open>Retrying the old star cannot help once the literals after it were matched.\<close>

lemma old_star_segment:
  assumes "glob_inv p t pi ti (Some s) sti" and "sti < k" and "k \<le> length t"
    and "wild (drop (Suc s) p) (drop k t)"
  shows "\<exists>j. ti < j \<and> j \<le> length t \<and> wild (drop pi p) (drop j t)"
proof -
  let ?n = "pi - Suc s"
  let ?seg = "take ?n (drop (Suc s) p)"
  from assms(1) have inv: "s < pi" "pi \<le> length p" "ti = sti + ?n" "CHR ''*'' \<notin> set ?seg"
    by (auto simp: glob_inv_def)
  have len: "length ?seg = ?n" using inv(1,2) by simp
  have "drop (Suc s) p = ?seg @ drop ?n (drop (Suc s) p)" by (rule append_take_drop_id [symmetric])
  moreover have "drop ?n (drop (Suc s) p) = drop pi p" using inv(1) by simp
  ultimately have "drop (Suc s) p = ?seg @ drop pi p" by metis
  with assms(4) wild_literal [OF inv(4)] obtain u where u: "drop k t = ?seg @ u" "wild (drop pi p) u"
    by metis
  then have "u = drop ?n (drop k t)" using len by (metis append_eq_conv_conj)
  then have "u = drop (k + ?n) t" by (simp add: add.commute)
  moreover have "k + ?n \<le> length t"
    using u(1) len assms(3) by (metis add_diff_inverse_nat add_le_cancel_left le_add1 length_append
        length_drop not_less)
  ultimately show ?thesis using u(2) inv(3) assms(2) by (intro exI [of _ "k + ?n"]) auto
qed

lemma take_drop_Suc:
  "s < pi \<Longrightarrow> pi < length p \<Longrightarrow>
     take (Suc pi - Suc s) (drop (Suc s) p) = take (pi - Suc s) (drop (Suc s) p) @ [p ! pi]"
  by (simp add: Suc_diff_Suc [symmetric] take_Suc_conv_app_nth del: drop_Suc)

lemma glob_loop_goal:
  assumes "CHR ''*'' \<notin> set t"
  shows "glob_inv p t pi ti star sti \<Longrightarrow> glob_loop p t pi ti star sti = glob_goal p t pi ti star sti"
  using assms
proof (induction p t pi ti star sti rule: glob_loop.induct)
  case (1 p t pi ti star sti)
  note inv = 1(4) and nostar = 1(5)
  show ?case
  proof (cases "ti < length t")
    case False
    with inv have ti: "ti = length t" by (simp add: glob_inv_def)
    have "\<not> (\<exists>s k. star = Some s \<and> sti < k \<and> k \<le> length t \<and> wild (drop (Suc s) p) (drop k t))"
      using old_star_segment [of p t pi ti _ sti] inv ti by force
    moreover have "glob_loop p t pi ti star sti \<longleftrightarrow> wild (drop pi p) []"
      using False by (simp add: glob_loop.simps [of p t pi ti] skip_stars_wild)
    ultimately show ?thesis using ti by (auto simp: glob_goal_def)
  next
    case ti: True
    then have dt: "drop ti t = t ! ti # drop (Suc ti) t" by (simp add: Cons_nth_drop_Suc)
    have tc: "t ! ti \<noteq> CHR ''*''" using nostar ti by (metis nth_mem)
    show ?thesis
    proof (cases "pi < length p \<and> p ! pi = t ! ti")
      case True
      then have dp: "drop pi p = t ! ti # drop (Suc pi) p" by (metis Cons_nth_drop_Suc)
      have "glob_inv p t (pi + 1) (ti + 1) star sti"
        using inv ti True tc take_drop_Suc [of _ pi p]
        by (auto simp: glob_inv_def split: option.splits)
      with 1(1) [OF ti True _ nostar] ti True dp dt tc show ?thesis
        by (simp add: glob_loop.simps [of p t pi ti] glob_goal_def)
    next
      case nomatch: False
      show ?thesis
      proof (cases "pi < length p \<and> p ! pi = CHR ''*''")
        case True
        then have dp: "drop pi p = CHR ''*'' # drop (Suc pi) p" by (metis Cons_nth_drop_Suc)
        have inv': "glob_inv p t (pi + 1) ti (Some pi) ti" using inv True by (auto simp: glob_inv_def)
        have star: "wild (drop pi p) (drop ti t) \<longleftrightarrow>
            (\<exists>k. ti \<le> k \<and> k \<le> length t \<and> wild (drop (Suc pi) p) (drop k t))" (is "_ \<longleftrightarrow> ?R")
        proof -
          have "wild (drop pi p) (drop ti t) \<longleftrightarrow>
              (\<exists>j\<le>length (drop ti t). wild (drop (Suc pi) p) (drop (ti + j) t))"
            by (simp add: dp wild_star add.commute)
          also have "\<dots> \<longleftrightarrow> ?R"
          proof
            assume "\<exists>j\<le>length (drop ti t). wild (drop (Suc pi) p) (drop (ti + j) t)"
            then obtain j where "j \<le> length t - ti" "wild (drop (Suc pi) p) (drop (ti + j) t)" by auto
            with ti show ?R by (intro exI [of _ "ti + j"]) simp
          next
            assume ?R
            then obtain k where "ti \<le> k" "k \<le> length t" "wild (drop (Suc pi) p) (drop k t)" by blast
            then show "\<exists>j\<le>length (drop ti t). wild (drop (Suc pi) p) (drop (ti + j) t)"
              by (intro exI [of _ "k - ti"]) simp
          qed
          finally show ?thesis .
        qed
        have old: "wild (drop pi p) (drop ti t)"
          if "star = Some s" "sti < k" "k \<le> length t" "wild (drop (Suc s) p) (drop k t)" for s k
        proof -
          from old_star_segment [of p t pi ti s sti k] inv that obtain j where
            j: "ti < j" "j \<le> length t" "wild (drop pi p) (drop j t)" by auto
          then obtain m where "m \<le> length (drop j t)" "wild (drop (Suc pi) p) (drop (m + j) t)"
            by (auto simp: dp wild_star)
          with j star show ?thesis by (auto intro!: exI [of _ "m + j"])
        qed
        from 1(2) [OF ti nomatch True inv' nostar] ti nomatch True
        have "glob_loop p t pi ti star sti = glob_goal p t (pi + 1) ti (Some pi) ti"
          by (simp add: glob_loop.simps [of p t pi ti])
        also have "\<dots> \<longleftrightarrow> wild (drop pi p) (drop ti t)"
          unfolding star glob_goal_def using ti by (auto simp: le_less)
        also have "\<dots> \<longleftrightarrow> glob_goal p t pi ti star sti"
          using old by (auto simp: glob_goal_def)
        finally show ?thesis .
      next
        case nostarp: False
        have first: "\<not> wild (drop pi p) (drop ti t)"
        proof (cases "pi < length p")
          case True
          with nomatch nostarp dt show ?thesis by (simp add: Cons_nth_drop_Suc [symmetric])
        qed (simp add: dt)
        show ?thesis
        proof (cases star)
          case None
          with first nomatch nostarp ti show ?thesis
            by (auto simp: glob_loop.simps [of p t pi ti] glob_goal_def)
        next
          case (Some s)
          have inv': "glob_inv p t (s + 1) (sti + 1) (Some s) (sti + 1)"
            using inv Some ti by (auto simp: glob_inv_def)
          have "glob_loop p t pi ti star sti = glob_loop p t (s + 1) (sti + 1) (Some s) (sti + 1)"
            using ti nomatch nostarp Some by (auto simp: glob_loop.simps [of p t pi ti])
          also have "\<dots> = glob_goal p t (s + 1) (sti + 1) (Some s) (sti + 1)"
            using 1(3) [OF ti nomatch nostarp Some inv' nostar] .
          also have "\<dots> \<longleftrightarrow> glob_goal p t pi ti star sti"
          proof -
            have "sti < length t" using inv Some ti by (auto simp: glob_inv_def)
            have split: "(\<exists>k. sti < k \<and> P k) \<longleftrightarrow> P (Suc sti) \<or> (\<exists>k. Suc sti < k \<and> P k)" for P
              by (metis Suc_lessI lessI less_trans)
            show ?thesis
              using split [of "\<lambda>k. k \<le> length t \<and> wild (drop (Suc s) p) (drop k t)"] first Some
                \<open>sti < length t\<close>
              by (simp add: glob_goal_def Suc_le_eq)
          qed
          finally show ?thesis .
        qed
      qed
    qed
  qed
qed

text \<open>
  C33: the hand-written matcher decides glob matching: for every pattern and every event type
  that contains no star itself, it terminates and agrees with the meaning of the pattern.
\<close>

theorem glob_matches_correct:
  assumes "CHR ''*'' \<notin> set t"
  shows "glob_matches p t = wild p t"
  using glob_loop_goal [OF assms, of p 0 0 None 0]
  by (simp add: glob_matches_def glob_inv_def glob_goal_def)

theorem glob_matches_correct_witness:
  "glob_matches ''counter:*:v*'' ''counter:a:b:v2''"
  by (subst glob_matches_correct) (simp_all add: eval_nat_numeral)

text \<open>
  On an event type that contains a star the matcher is wrong: the pattern \<open>*\<close>, which
  matches everything, does not match \<open>*a\<close>, because a star of the pattern is first compared
  literally.
\<close>

theorem glob_star_in_text: "\<not> glob_matches ''*'' ''*a'' \<and> wild ''*'' ''*a''"
  by (simp add: glob_matches_def glob_loop.simps)

section \<open>Patterns and rules\<close>

datatype event_pattern = Exact event_type | Glob string

datatype event_pattern_error = EmptyGlob

definition event_pattern_exact :: "event_type \<Rightarrow> event_pattern" where
  "event_pattern_exact t = Exact t"

definition event_pattern_glob :: "string \<Rightarrow> event_pattern_error + event_pattern" where
  "event_pattern_glob p = (if p = [] then Inl EmptyGlob else Inr (Glob p))"

text \<open>\<open>From\<close> a string or an event type, for the \<open>impl Into<EventPattern>\<close> of \<open>with\<close> and \<open>ignore\<close>.\<close>

definition event_pattern_from_str :: "string \<Rightarrow> event_pattern" where
  "event_pattern_from_str t = event_pattern_exact (EventType t)"

fun event_pattern_matches :: "event_pattern \<Rightarrow> event_type \<Rightarrow> bool" where
  "event_pattern_matches (Exact p) t = (p = t)"
| "event_pattern_matches (Glob p) t = glob_matches p (event_type_str t)"

type_synonym ('s, 'e) reduce_fn = "event_type \<Rightarrow> event_data \<Rightarrow> 's \<Rightarrow> 'e + 's"

datatype ('s, 'e) action_rule = Reduce "('s, 'e) reduce_fn" | Ignore

type_synonym ('s, 'e) renderer = "(event_pattern \<times> ('s, 'e) action_rule) list"

definition renderer_new :: "('s, 'e) renderer" where
  "renderer_new = []"

definition renderer_with ::
  "('s, 'e) renderer \<Rightarrow> event_pattern \<Rightarrow> ('s, 'e) reduce_fn \<Rightarrow> ('s, 'e) renderer" where
  "renderer_with R p f = R @ [(p, Reduce f)]"

definition renderer_ignore :: "('s, 'e) renderer \<Rightarrow> event_pattern \<Rightarrow> ('s, 'e) renderer" where
  "renderer_ignore R p = R @ [(p, Ignore)]"

record render_event_context =
  ctx_aggregate_id :: aggregate_id
  ctx_event_id :: event_id
  ctx_event_type :: event_type
  ctx_revision :: revision
  ctx_encoding :: string

definition render_event_context_new :: "aggregate_id \<Rightarrow> recorded_event \<Rightarrow> render_event_context" where
  "render_event_context_new i e =
     \<lparr>ctx_aggregate_id = i, ctx_event_id = re_event_id e, ctx_event_type = re_event_type e,
      ctx_revision = re_revision e, ctx_encoding = encoding_as_str (ed_encoding (re_data e))\<rparr>"

definition render_event_context_display :: "render_event_context \<Rightarrow> string" where
  "render_event_context_display c =
     event_type_str (ctx_event_type c) @ '' at revision '' @ revision_str (ctx_revision c) @
     '' in aggregate '' @ aggregate_id_display (ctx_aggregate_id c)"

datatype 'e render_error =
    UnhandledEvent render_event_context
  | ApplyFailed render_event_context 'e

text \<open>\<open>From<RenderError<E>> for wee_events::Error\<close>; \<open>box\<close> boxes the reducer's error.\<close>

fun error_from_render :: "('e \<Rightarrow> boxed) \<Rightarrow> 'e render_error \<Rightarrow> error" where
  "error_from_render box (UnhandledEvent c) = UnhandledEventType (event_type_str (ctx_event_type c))"
| "error_from_render box (ApplyFailed c source) = Custom (box source)"

section \<open>Rendering\<close>

text \<open>\<open>self.rules.iter().find(...).map(...)\<close>.\<close>

definition find_action :: "('s, 'e) renderer \<Rightarrow> event_type \<Rightarrow> ('s, 'e) action_rule option" where
  "find_action R t = map_option snd (find (\<lambda>(p, _). event_pattern_matches p t) R)"

fun render_events ::
  "('s, 'e) renderer \<Rightarrow> aggregate_id \<Rightarrow> recorded_event list \<Rightarrow> 's \<Rightarrow> 'e render_error + 's" where
  "render_events R i [] state = Inr state"
| "render_events R i (e # es) state =
     (case find_action R (re_event_type e) of
        Some (Reduce reducer) \<Rightarrow>
          and_then (map_err (ApplyFailed (render_event_context_new i e))
              (reducer (re_event_type e) (re_data e) state))
            (render_events R i es)
      | Some Ignore \<Rightarrow> render_events R i es state
      | None \<Rightarrow> Inl (UnhandledEvent (render_event_context_new i e)))"

definition render :: "('s, 'e) renderer \<Rightarrow> 's \<Rightarrow> aggregate \<Rightarrow> 'e render_error + 's entity" where
  "render R default_state a =
     (case into_parts a of (i, events, revision) \<Rightarrow>
        map_ok (\<lambda>state. \<lparr>ent_aggregate_id = i, ent_revision = revision, ent_state = state\<rparr>)
          (render_events R i events default_state))"

lemma render_events_append:
  "render_events R i (es @ fs) s = and_then (render_events R i es s) (render_events R i fs)"
proof (induction es arbitrary: s)
  case (Cons e es)
  show ?case
  proof (cases "find_action R (re_event_type e)")
    case (Some a)
    show ?thesis
    proof (cases a)
      case (Reduce f)
      with Some Cons show ?thesis by (cases "f (re_event_type e) (re_data e) s") simp_all
    qed (use Some Cons in simp)
  qed simp
qed simp

text \<open>
  Rendering is incremental: the entity of a longer stream is what the rules make of the new
  events from the state of the shorter stream, under the new revision; an error in the old part
  stays the error.
\<close>

theorem render_incremental:
  "render R s0 (from_shared_events i (es @ fs)) =
     and_then (render R s0 (from_shared_events i es)) (\<lambda>old.
       map_ok (\<lambda>state. \<lparr>ent_aggregate_id = i, ent_revision = stream_revision (es @ fs),
           ent_state = state\<rparr>)
         (render_events R i fs (ent_state old)))"
  by (cases "render_events R i es s0")
    (simp_all add: render_def into_parts_def render_events_append)

lemma find_action_prefix:
  "find_action R t = Some a \<Longrightarrow> find_action (R @ R') t = Some a"
  by (induction R) (auto simp: find_action_def split: if_splits prod.splits)

lemma render_events_more_rules:
  "render_events R i es s = Inr s' \<Longrightarrow> render_events (R @ R') i es s = Inr s'"
proof (induction es arbitrary: s)
  case (Cons e es)
  from Cons.prems obtain a where a: "find_action R (re_event_type e) = Some a"
    by (cases "find_action R (re_event_type e)") auto
  with Cons find_action_prefix [OF a, of R'] show ?case
    by (cases a) (auto simp: result_simps)
qed simp

text \<open>
  Precedence: rules registered later never change an entity that the earlier rules could
  already render; in particular the first matching rule fires.
\<close>

theorem later_rules_keep_entities:
  assumes "render R s0 a = Inr e"
  shows "render (renderer_ignore (renderer_with R p f) q) s0 a = Inr e"
  using assms render_events_more_rules [of R _ _ s0 _ "[(p, Reduce f), (q, Ignore)]"]
  by (auto simp: render_def into_parts_def result_simps renderer_with_def renderer_ignore_def)

lemma render_events_Cons:
  "render_events R i (e # es) s = and_then (render_events R i [e] s) (render_events R i es)"
  using render_events_append [of R i "[e]" es s] by simp

lemma render_one_Inl:
  "render_events R i [e] s = Inl err \<longleftrightarrow>
     (find_action R (re_event_type e) = None \<and> err = UnhandledEvent (render_event_context_new i e)) \<or>
     (\<exists>f cause. find_action R (re_event_type e) = Some (Reduce f) \<and>
        f (re_event_type e) (re_data e) s = Inl cause \<and>
        err = ApplyFailed (render_event_context_new i e) cause)"
  by (auto simp: result_simps split: option.splits action_rule.splits)

lemma render_events_Inl:
  "render_events R i es s0 = Inl err \<longleftrightarrow>
     (\<exists>old e new s. es = old @ e # new \<and> render_events R i old s0 = Inr s \<and>
        render_events R i [e] s = Inl err)"
proof
  assume "render_events R i es s0 = Inl err"
  then show "\<exists>old e new s. es = old @ e # new \<and> render_events R i old s0 = Inr s \<and>
      render_events R i [e] s = Inl err"
  proof (induction es arbitrary: s0)
    case (Cons e es)
    show ?case
    proof (cases "render_events R i [e] s0")
      case (Inl d)
      with Cons.prems have "d = err" unfolding render_events_Cons [of R i e es] by simp
      with Inl have "e # es = [] @ e # es \<and> render_events R i [] s0 = Inr s0 \<and>
          render_events R i [e] s0 = Inl err" by (simp del: render_events.simps(2))
      then show ?thesis by (intro exI)
    next
      case (Inr s1)
      with Cons.prems have "render_events R i es s1 = Inl err"
        unfolding render_events_Cons [of R i e es] by simp
      from Cons.IH [OF this] obtain old d new s where "es = old @ d # new"
        "render_events R i old s1 = Inr s" "render_events R i [d] s = Inl err" by blast
      moreover from this Inr have "render_events R i (e # old) s0 = Inr s"
        unfolding render_events_Cons [of R i e old] by simp
      ultimately have "e # es = (e # old) @ d # new \<and> render_events R i (e # old) s0 = Inr s \<and>
          render_events R i [d] s = Inl err" by (simp del: render_events.simps(2))
      then show ?thesis by (intro exI)
    qed
  qed simp
next
  assume "\<exists>old e new s. es = old @ e # new \<and> render_events R i old s0 = Inr s \<and>
      render_events R i [e] s = Inl err"
  then obtain old e new s where es: "es = old @ e # new" and old: "render_events R i old s0 = Inr s"
    and e: "render_events R i [e] s = Inl err" by blast
  show "render_events R i es s0 = Inl err"
    unfolding es render_events_append [of R i old] render_events_Cons [of R i e new] old
    using e by (simp del: render_events.simps(2))
qed

text \<open>
  C39: rendering is strict: it fails exactly at the first event that no rule matches or whose
  reducer fails, after all earlier events were applied, and the error names that event.
\<close>

theorem render_error_first:
  "render R s0 (from_shared_events i es) = Inl err \<longleftrightarrow>
     (\<exists>old e new s. es = old @ e # new \<and> render_events R i old s0 = Inr s \<and>
        ((find_action R (re_event_type e) = None \<and>
          err = UnhandledEvent (render_event_context_new i e)) \<or>
         (\<exists>f cause. find_action R (re_event_type e) = Some (Reduce f) \<and>
            f (re_event_type e) (re_data e) s = Inl cause \<and>
            err = ApplyFailed (render_event_context_new i e) cause)))"
proof -
  have "render R s0 (from_shared_events i es) = Inl err \<longleftrightarrow> render_events R i es s0 = Inl err"
    by (simp add: render_def into_parts_def result_simps)
  then show ?thesis unfolding render_events_Inl [of R i es] render_one_Inl .
qed

definition counted_event :: recorded_event where
  "counted_event = \<lparr>re_event_id = EventId ''1'', re_event_type = EventType ''counter:added'',
     re_revision = Revision ''2'', re_metadata = options_metadata default_options,
     re_data = \<lparr>ed_encoding = Json, ed_data = []\<rparr>\<rparr>"

definition counter_renderer :: "(nat, string) renderer" where
  "counter_renderer = renderer_with renderer_new (Exact (EventType ''counter:added''))
     (\<lambda>t d n. Inr (Suc n))"

theorem later_rules_keep_entities_witness:
  "render (renderer_ignore (renderer_with counter_renderer (Glob ''*'') (\<lambda>t d n. Inl ''no'')) (Glob ''x''))
     0 (from_shared_events (aggregate_id_new ''counter'' ''1'') [counted_event]) =
   Inr \<lparr>ent_aggregate_id = aggregate_id_new ''counter'' ''1'', ent_revision = Revision ''2'', ent_state = 1\<rparr>"
  by (rule later_rules_keep_entities)
    (simp add: render_def into_parts_def counter_renderer_def renderer_with_def renderer_new_def
      find_action_def counted_event_def stream_revision_def last_opt_def)

end
