(* ===== verification/Projections.thy ===== *)
theory Projections
  imports Documents SqliteContract Renderer
begin

text \<open>
  \<^verbatim>\<open>crates/wee-events-sqlite/src/projections.rs\<close>: the projection of an event store's
  aggregates into a document store, and what a projection promises when both stores keep their
  contracts.
\<close>

section \<open>Projections\<close>

text \<open>The event store and the document store that a projection works on.\<close>

type_synonym ('s, 'd, 'a) projection_action = "('s \<times> 'd, sqlite_error, 'a) action"

definition on_events :: "('s, 'e, 'a) action \<Rightarrow> ('s \<times> 'd, 'e, 'a) action" where
  "on_events f w = (case f (fst w) of (r, s) \<Rightarrow> (r, (s, snd w)))"

definition on_documents :: "('d, 'e, 'a) action \<Rightarrow> ('s \<times> 'd, 'e, 'a) action" where
  "on_documents f w = (case f (snd w) of (r, d) \<Rightarrow> (r, (fst w, d)))"

text \<open>
  What a projection renders with: \<open>pj_box\<close> boxes the reducers' errors, \<open>pj_initial\<close> is
  \<open>S::default()\<close> and \<open>pj_to_value\<close> is \<open>serde_json::to_value\<close> of the state.
\<close>

record ('st, 'e) projection =
  pj_renderer :: "('st, 'e) renderer"
  pj_box :: "'e \<Rightarrow> boxed"
  pj_initial :: 'st
  pj_to_value :: "'st \<Rightarrow> json_error + json"

definition render_document ::
  "('st, 'e) projection \<Rightarrow> aggregate \<Rightarrow> sqlite_error + revision \<times> json" where
  "render_document P a =
     and_then (map_err (\<lambda>e. WeeEvents (error_from_render (pj_box P) e))
        (render (pj_renderer P) (pj_initial P) a)) (\<lambda>entity.
     and_then (map_err Serialization (pj_to_value P (ent_state entity))) (\<lambda>document.
       Inr (ent_revision entity, document)))"

text \<open>The common end of both functions: render and upsert.\<close>

definition write_document ::
  "'d document_ops \<Rightarrow> ('st, 'e) projection \<Rightarrow> string \<Rightarrow> aggregate_id \<Rightarrow> aggregate \<Rightarrow>
    ('s, 'd, unit) projection_action" where
  "write_document D P collection i a =
     seq_result (give (render_document P a)) (\<lambda>(revision, document).
     seq_result (on_documents (do_upsert D collection (aggregate_key i) revision document)) (\<lambda>_.
       give (Inr ())))"

definition apply_projection ::
  "'s store_ops \<Rightarrow> 'd document_ops \<Rightarrow> ('st, 'e) projection \<Rightarrow> change_set \<Rightarrow> string \<Rightarrow>
    ('s, 'd, unit) projection_action" where
  "apply_projection E D P changeset collection =
     seq_result (seq_err WeeEvents (on_events (\<lambda>s. st_load E s (cs_aggregate_id changeset)))) (\<lambda>a.
       write_document D P collection (cs_aggregate_id changeset) a)"

text \<open>The body of the loop of \<open>rebuild_projection\<close>; documents at the current revision are kept.\<close>

definition rebuild_one ::
  "'s store_ops \<Rightarrow> 'd document_ops \<Rightarrow> ('st, 'e) projection \<Rightarrow> string \<Rightarrow> aggregate_id \<Rightarrow>
    ('s, 'd, unit) projection_action" where
  "rebuild_one E D P collection i =
     seq_result (seq_err WeeEvents (on_events (\<lambda>s. st_load E s i))) (\<lambda>a.
     seq_result (on_documents (do_get D collection (aggregate_key i))) (\<lambda>found.
       if (case found of None \<Rightarrow> False | Some document \<Rightarrow> document_revision document = agg_revision a)
       then give (Inr ())
       else write_document D P collection i a))"

definition rebuild_projection ::
  "'s store_ops \<Rightarrow> (aggregate_type \<Rightarrow> ('s, sqlite_error, aggregate_id list) action) \<Rightarrow>
    'd document_ops \<Rightarrow> ('st, 'e) projection \<Rightarrow> string \<Rightarrow> aggregate_type \<Rightarrow>
    ('s, 'd, unit) projection_action" where
  "rebuild_projection E enumerate_by_type D P collection t =
     seq_result (on_events (enumerate_by_type t)) (\<lambda>aggregate_ids.
     seq_result (collect_actions (rebuild_one E D P collection) aggregate_ids) (\<lambda>_.
       give (Inr ())))"

section \<open>The contract of a projection\<close>

text \<open>
  Every document of the collection renders some past or present state of the stream of an
  aggregate of type \<open>t\<close> with its key, and carries the revision of that state.
\<close>

definition faithful ::
  "('st, 'e) projection \<Rightarrow> string \<Rightarrow> aggregate_type \<Rightarrow> (aggregate_id \<Rightarrow> recorded_event list) \<Rightarrow>
    (string \<times> string \<Rightarrow> (revision \<times> json) option) \<Rightarrow> bool" where
  "faithful P c t streams docs \<longleftrightarrow>
     (\<forall>i r v. aggregate_type i = t \<longrightarrow> docs (c, aggregate_key i) = Some (r, v) \<longrightarrow>
        (\<exists>es. prefix es (streams i) \<and> stream_revision es = r \<and>
           render_document P (from_shared_events i es) = Inr (r, v)))"

lemma faithfulD:
  "faithful P c t streams docs \<Longrightarrow> aggregate_type i = t \<Longrightarrow> docs (c, aggregate_key i) = Some (r, v) \<Longrightarrow>
    \<exists>es. prefix es (streams i) \<and> stream_revision es = r \<and>
      render_document P (from_shared_events i es) = Inr (r, v)"
  by (simp add: faithful_def)

text \<open>The document of an aggregate renders its stream as it stands.\<close>

definition up_to_date ::
  "('st, 'e) projection \<Rightarrow> string \<Rightarrow> aggregate_id \<Rightarrow> (aggregate_id \<Rightarrow> recorded_event list) \<Rightarrow>
    (string \<times> string \<Rightarrow> (revision \<times> json) option) \<Rightarrow> bool" where
  "up_to_date P c i streams docs \<longleftrightarrow>
     (\<exists>v. docs (c, aggregate_key i) = Some (stream_revision (streams i), v) \<and>
        render_document P (from_shared_events i (streams i)) = Inr (stream_revision (streams i), v))"

text \<open>
  What a rebuild makes of the document of aggregate \<open>i\<close>, from the table \<open>D\<close> to \<open>D'\<close>: one that is
  at or beyond the stream's revision stays as it is, whatever it holds; otherwise (a document
  behind the stream, or none) there is now one that renders the stream as it stands.
\<close>

definition settled ::
  "('st, 'e) projection \<Rightarrow> string \<Rightarrow> aggregate_id \<Rightarrow> (aggregate_id \<Rightarrow> recorded_event list) \<Rightarrow>
    (string \<times> string \<Rightarrow> (revision \<times> json) option) \<Rightarrow>
    (string \<times> string \<Rightarrow> (revision \<times> json) option) \<Rightarrow> bool" where
  "settled P c i streams D D' \<longleftrightarrow>
     (case D (c, aggregate_key i) of
        None \<Rightarrow> up_to_date P c i streams D'
      | Some (r, v) \<Rightarrow>
          if stream_revision (streams i) \<le> r then D' (c, aggregate_key i) = Some (r, v)
          else up_to_date P c i streams D')"

lemma settled_frame:
  "settled P c i streams D D' \<Longrightarrow> D (c, aggregate_key i) = E (c, aggregate_key i) \<Longrightarrow>
    D' (c, aggregate_key i) = E' (c, aggregate_key i) \<Longrightarrow> settled P c i streams E E'"
  by (auto simp: settled_def up_to_date_def split: option.splits if_splits)

lemma settled_trans:
  "settled P c i streams D D' \<Longrightarrow> settled P c i streams D' D'' \<Longrightarrow> settled P c i streams D D''"
  by (auto simp: settled_def up_to_date_def split: option.splits if_splits)

lemma render_document_revision:
  "render_document P (from_shared_events i es) = Inr (r, v) \<Longrightarrow> r = stream_revision es"
  by (auto simp: render_document_def render_def into_parts_def result_simps)

lemma render_document_value:
  "render_document P a = Inr (r, v) \<Longrightarrow> \<exists>s. pj_to_value P s = Inr v"
  by (auto simp: render_document_def result_simps)

locale projecting =
  event_store events inv stream + document_store documents ok docs good_revision good_value
  for events :: "'s store_ops" and inv stream
    and documents :: "'d document_ops" and ok docs good_revision good_value +
  assumes revision_good: "inv s \<Longrightarrow> good_revision (stream_revision (stream s i))"
begin

lemma prefix_revision:
  assumes "inv s" and "prefix es (stream s i)"
  shows "stream_revision es \<le> stream_revision (stream s i)"
    and "stream_revision es = stream_revision (stream s i) \<Longrightarrow> es = stream s i"
proof -
  from assms(2) obtain fs where fs: "stream s i = es @ fs" by (auto simp: prefix_def)
  note advances = extension_advances [OF assms(1) fs]
  from fs have "fs = [] \<Longrightarrow> es = stream s i" by simp
  with advances show "stream_revision es \<le> stream_revision (stream s i)"
    "stream_revision es = stream_revision (stream s i) \<Longrightarrow> es = stream s i"
    by (metis less_imp_le order_refl, metis less_irrefl)
qed

lemma faithful_extend:
  assumes "faithful P c t streams D" and "\<And>i. prefix (streams i) (streams' i)"
  shows "faithful P c t streams' D"
  unfolding faithful_def
proof (intro allI impI)
  fix i r v
  assume "aggregate_type i = t" and "D (c, aggregate_key i) = Some (r, v)"
  with faithfulD [OF assms(1)] obtain es where "prefix es (streams i)" "stream_revision es = r"
    "render_document P (from_shared_events i es) = Inr (r, v)" by blast
  with prefix_order.order_trans [OF _ assms(2)] show "\<exists>es. prefix es (streams' i) \<and>
      stream_revision es = r \<and> render_document P (from_shared_events i es) = Inr (r, v)" by blast
qed

text \<open>
  A document that is not behind the stream renders the stream as it stands; one that is behind
  has a smaller revision.
\<close>

lemma faithful_current:
  assumes "inv s" and "faithful P c (aggregate_type i) (stream s) (docs d)"
    and "docs d (c, aggregate_key i) = Some (r, v)"
  shows "r \<le> stream_revision (stream s i)"
    and "r = stream_revision (stream s i) \<Longrightarrow> up_to_date P c i (stream s) (docs d)"
proof -
  from faithfulD [OF assms(2) refl assms(3)] obtain es where
    es: "prefix es (stream s i)" "stream_revision es = r"
    "render_document P (from_shared_events i es) = Inr (r, v)" by blast
  with prefix_revision(1) [OF assms(1) es(1)] show "r \<le> stream_revision (stream s i)" by simp
  show "up_to_date P c i (stream s) (docs d)" if "r = stream_revision (stream s i)"
    using prefix_revision(2) [OF assms(1) es(1)] es that assms(3) by (simp add: up_to_date_def)
qed

lemma up_to_date_faithful:
  assumes "faithful P c (aggregate_type i) streams D" and "up_to_date P c i streams D'"
    and "\<And>p. p \<noteq> (c, aggregate_key i) \<Longrightarrow> D' p = D p"
  shows "faithful P c (aggregate_type i) streams D'"
  unfolding faithful_def
proof (intro allI impI)
  fix j r v
  assume j: "aggregate_type j = aggregate_type i" "D' (c, aggregate_key j) = Some (r, v)"
  show "\<exists>es. prefix es (streams j) \<and> stream_revision es = r \<and>
      render_document P (from_shared_events j es) = Inr (r, v)"
  proof (cases "aggregate_key j = aggregate_key i")
    case True
    with j(1) have "j = i" by (cases j; cases i) simp
    with assms(2) j(2) show ?thesis by (intro exI [of _ "streams i"]) (auto simp: up_to_date_def)
  next
    case False
    with assms(1,3) j show ?thesis by (simp add: faithful_def)
  qed
qed

lemma settled_up_to_date:
  assumes "inv s" and "faithful P c (aggregate_type i) (stream s) (docs d)"
    and "settled P c i (stream s) (docs d) D'"
  shows "up_to_date P c i (stream s) D'"
proof (cases "docs d (c, aggregate_key i)")
  case None
  with assms(3) show ?thesis by (simp add: settled_def)
next
  case (Some old)
  obtain r v where old: "old = (r, v)" by fastforce
  note F = faithful_current [OF assms(1,2) Some [unfolded old]]
  show ?thesis
  proof (cases "stream_revision (stream s i) \<le> r")
    case True
    with F(1) have "r = stream_revision (stream s i)" by simp
    with F(2) True Some old assms(3) show ?thesis by (simp add: settled_def up_to_date_def)
  next
    case False
    with Some old assms(3) show ?thesis by (simp add: settled_def)
  qed
qed

lemma write_document_settles:
  assumes "inv s" and "ok d" and vals: "\<forall>x v. pj_to_value P x = Inr v \<longrightarrow> good_value v"
    and run: "write_document documents P c i (from_shared_events i (stream s i)) (s, d) = (res, (s', d'))"
  shows "s' = s \<and> ok d' \<and> (\<forall>p. p \<noteq> (c, aggregate_key i) \<longrightarrow> docs d' p = docs d p) \<and>
    (res = Inr () \<longrightarrow> settled P c i (stream s) (docs d) (docs d')) \<and>
    (\<forall>e. res = Inl e \<longrightarrow> docs d' = docs d)"
proof -
  let ?a = "from_shared_events i (stream s i)"
  show ?thesis
  proof (cases "render_document P ?a")
    case (Inl e)
    with run assms show ?thesis by (auto simp: write_document_def seq_result_def give_def)
  next
    case (Inr doc)
    then obtain v where v: "render_document P ?a = Inr (stream_revision (stream s i), v)"
      using render_document_revision by (cases doc) fastforce
    with render_document_value vals have good: "good_value v" by blast
    obtain q d1 where up: "do_upsert documents c (aggregate_key i) (stream_revision (stream s i)) v d = (q, d1)"
      by fastforce
    note U = upsert_result [OF assms(2) revision_good [OF assms(1)] good up]
    from run v up have "s' = s" "d' = d1" "res = map_ok (\<lambda>_. ()) q"
      by (cases q; auto simp: write_document_def seq_result_def give_def on_documents_def)+
    moreover have "settled P c i (stream s) (docs d) (docs d1)" if "q = Inr n" for n
      using U that v by (auto simp: settled_def up_to_date_def not_le split: option.splits)
    ultimately show ?thesis using U by (cases q) auto
  qed
qed

lemma write_document_result:
  assumes "inv s" and "ok d" and "faithful P c (aggregate_type i) (stream s) (docs d)"
    and vals: "\<forall>x v. pj_to_value P x = Inr v \<longrightarrow> good_value v"
    and run: "write_document documents P c i (from_shared_events i (stream s i)) (s, d) = (res, (s', d'))"
  shows "s' = s \<and> ok d' \<and> faithful P c (aggregate_type i) (stream s) (docs d') \<and>
    (\<forall>p. p \<noteq> (c, aggregate_key i) \<longrightarrow> docs d' p = docs d p) \<and>
    (res = Inr () \<longrightarrow> up_to_date P c i (stream s) (docs d')) \<and>
    (\<forall>e. res = Inl e \<longrightarrow> docs d' = docs d)"
proof (cases res)
  case (Inl e)
  with write_document_settles [OF assms(1,2) vals run] assms(3) show ?thesis by simp
next
  case (Inr u)
  note W = write_document_settles [OF assms(1,2) vals run]
  with Inr have up: "up_to_date P c i (stream s) (docs d')"
    using settled_up_to_date [OF assms(1,3)] by simp
  from up_to_date_faithful [OF assms(3) this] W up Inr show ?thesis by simp
qed

lemma load_current:
  assumes "inv s" and "seq_err WeeEvents (on_events (\<lambda>s. st_load events s i)) (s, d) = (res, (s', d'))"
  shows "inv s' \<and> stream s' = stream s \<and> d' = d \<and>
    (\<forall>a. res = Inr a \<longrightarrow> a = from_shared_events i (stream s' i))"
proof -
  obtain l t where run: "st_load events s i = (l, t)" by fastforce
  from assms(2) run have "s' = t" "d' = d" "res = map_err WeeEvents l"
    by (auto simp: seq_err_def on_events_def)
  with load_keeps [OF assms(1) run] load_reads [OF assms(1)] run show ?thesis by (cases l) auto
qed

text \<open>What one projection of an aggregate leaves behind.\<close>

definition projected ::
  "('st, 'e) projection \<Rightarrow> string \<Rightarrow> aggregate_id \<Rightarrow> 's \<times> 'd \<Rightarrow> sqlite_error + unit \<Rightarrow> 's \<times> 'd \<Rightarrow> bool" where
  "projected P c i w res w' \<longleftrightarrow>
     inv (fst w') \<and> stream (fst w') = stream (fst w) \<and> ok (snd w') \<and>
     faithful P c (aggregate_type i) (stream (fst w)) (docs (snd w')) \<and>
     (\<forall>p. p \<noteq> (c, aggregate_key i) \<longrightarrow> docs (snd w') p = docs (snd w) p) \<and>
     (res = Inr () \<longrightarrow> up_to_date P c i (stream (fst w)) (docs (snd w'))) \<and>
     (\<forall>e. res = Inl e \<longrightarrow> docs (snd w') = docs (snd w))"

lemma apply_result:
  assumes "inv s" and "ok d" and "faithful P c (aggregate_type (cs_aggregate_id cs)) (stream s) (docs d)"
    and vals: "\<forall>x v. pj_to_value P x = Inr v \<longrightarrow> good_value v"
    and run: "apply_projection events documents P cs c (s, d) = (res, w')"
  shows "projected P c (cs_aggregate_id cs) (s, d) res w'"
  using run unfolding apply_projection_def
proof (cases rule: seq_result_cases)
  case (stop e)
  obtain s' d' where w': "w' = (s', d')" by fastforce
  with load_current [OF assms(1) stop(1) [unfolded w']] assms stop show ?thesis
    by (simp add: projected_def)
next
  case (run a w1)
  obtain s' d' s1 d1 where w: "w' = (s', d')" "w1 = (s1, d1)" by fastforce
  note L = load_current [OF assms(1) run(1) [unfolded w]]
  from L assms(3) have f: "faithful P c (aggregate_type (cs_aggregate_id cs)) (stream s1) (docs d1)" by simp
  from L run(2) have "write_document documents P c (cs_aggregate_id cs)
      (from_shared_events (cs_aggregate_id cs) (stream s1 (cs_aggregate_id cs))) (s1, d1) = (res, (s', d'))"
    by (simp add: w)
  from write_document_result [OF _ _ f vals this] L assms(2) show ?thesis
    by (simp add: projected_def w)
qed

text \<open>What the loop body of a rebuild leaves behind, whatever the documents held before.\<close>

definition rebuilt ::
  "('st, 'e) projection \<Rightarrow> string \<Rightarrow> aggregate_id \<Rightarrow> 's \<times> 'd \<Rightarrow> sqlite_error + unit \<Rightarrow> 's \<times> 'd \<Rightarrow> bool" where
  "rebuilt P c i w res w' \<longleftrightarrow>
     inv (fst w') \<and> stream (fst w') = stream (fst w) \<and> ok (snd w') \<and>
     (\<forall>p. p \<noteq> (c, aggregate_key i) \<longrightarrow> docs (snd w') p = docs (snd w) p) \<and>
     (res = Inr () \<longrightarrow> settled P c i (stream (fst w)) (docs (snd w)) (docs (snd w')))"

lemma rebuild_one_settles:
  assumes "inv s" and "ok d" and vals: "\<forall>x v. pj_to_value P x = Inr v \<longrightarrow> good_value v"
    and run: "rebuild_one events documents P c i (s, d) = (res, w')"
  shows "rebuilt P c i (s, d) res w'"
  using run unfolding rebuild_one_def
proof (cases rule: seq_result_cases)
  case (stop e)
  obtain s' d' where w': "w' = (s', d')" by fastforce
  with load_current [OF assms(1) stop(1) [unfolded w']] assms stop show ?thesis
    by (simp add: rebuilt_def)
next
  case (run a w1)
  obtain s' d' s1 d1 where w: "w' = (s', d')" "w1 = (s1, d1)" by fastforce
  note L = load_current [OF assms(1) run(1) [unfolded w]]
  obtain got d2 where got: "do_get documents c (aggregate_key i) d1 = (got, d2)" by fastforce
  from L assms(2) have "ok d1" by simp
  note G = get_result [OF this got]
  show ?thesis
  proof (cases got)
    case (Inl e)
    with run(2) got w L G show ?thesis
      by (auto simp: seq_result_def on_documents_def rebuilt_def)
  next
    case (Inr found)
    show ?thesis
    proof (cases "case found of None \<Rightarrow> False | Some document \<Rightarrow> document_revision document = agg_revision a")
      case True
      with Inr G obtain r v where "docs d2 (c, aggregate_key i) = Some (r, v)"
        "r = stream_revision (stream s1 i)" using L by (auto split: option.splits)
      then have "settled P c i (stream s1) (docs d2) (docs d2)" by (simp add: settled_def)
      with True Inr run(2) got w L G show ?thesis
        by (auto simp: seq_result_def on_documents_def rebuilt_def give_iff)
    next
      case False
      with Inr run(2) got L have "write_document documents P c i
          (from_shared_events i (stream s1 i)) (s1, d2) = (res, (s', d'))"
        by (simp add: seq_result_def on_documents_def w)
      from write_document_settles [OF _ _ vals this] L G show ?thesis
        by (simp add: rebuilt_def w)
    qed
  qed
qed

text \<open>A document at the current revision is kept, whatever it says and however it would be rendered now.\<close>

lemma rebuild_one_current:
  assumes "inv s" and "ok d" and "docs d (c, aggregate_key i) = Some (stream_revision (stream s i), v)"
    and run: "rebuild_one events documents P c i (s, d) = (res, (s', d'))"
  shows "docs d' = docs d"
  using run unfolding rebuild_one_def
proof (cases rule: seq_result_cases)
  case (stop e)
  with load_current [OF assms(1) stop(1)] show ?thesis by simp
next
  case (run a w1)
  obtain s1 d1 where w1: "w1 = (s1, d1)" by fastforce
  note L = load_current [OF assms(1) run(1) [unfolded w1]]
  obtain got d2 where got: "do_get documents c (aggregate_key i) d1 = (got, d2)" by fastforce
  from L assms(2) have "ok d1" by simp
  note G = get_result [OF this got]
  show ?thesis
  proof (cases got)
    case (Inl e)
    with run(2) got w1 L G show ?thesis by (auto simp: seq_result_def on_documents_def)
  next
    case (Inr found)
    with G L assms(3) have found: "found = Some \<lparr>document_key = aggregate_key i,
        document_revision = agg_revision a, document_data = v\<rparr>" by simp
    from run(2) got have "d' = d2"
      by (simp add: Inr found w1 seq_result_def on_documents_def give_iff)
    with G L show ?thesis by simp
  qed
qed

lemma rebuild_all_settles:
  assumes "inv s" and "ok d" and vals: "\<forall>x v. pj_to_value P x = Inr v \<longrightarrow> good_value v"
    and "\<forall>i\<in>set ids. aggregate_type i = t"
    and "collect_actions (rebuild_one events documents P c) ids (s, d) = (res, (s', d'))"
  shows "inv s' \<and> stream s' = stream s \<and> ok d' \<and>
    (\<forall>p. p \<notin> (\<lambda>i. (c, aggregate_key i)) ` set ids \<longrightarrow> docs d' p = docs d p) \<and>
    (\<forall>us. res = Inr us \<longrightarrow> (\<forall>i\<in>set ids. settled P c i (stream s) (docs d) (docs d')))"
  using assms(1,2,4,5)
proof (induction ids arbitrary: s d res)
  case Nil
  then show ?case by (auto simp: give_iff)
next
  case (Cons i ids)
  obtain r s1 d1 where one: "rebuild_one events documents P c i (s, d) = (r, (s1, d1))"
    by (metis prod.exhaust)
  from rebuild_one_settles [OF Cons.prems(1,2) vals one]
  have R: "inv s1" "stream s1 = stream s" "ok d1"
    "\<And>p. p \<noteq> (c, aggregate_key i) \<Longrightarrow> docs d1 p = docs d p"
    "r = Inr () \<Longrightarrow> settled P c i (stream s) (docs d) (docs d1)"
    unfolding rebuilt_def fst_conv snd_conv by blast+
  show ?case
  proof (cases r)
    case (Inl e)
    with Cons.prems(4) one have out: "s' = s1" "d' = d1" "res = Inl e" by simp_all
    with R Inl show ?thesis by simp
  next
    case (Inr u)
    with Cons.prems(4) one have "seq_result (collect_actions (rebuild_one events documents P c) ids)
        (\<lambda>us. give (Inr (u # us))) (s1, d1) = (res, (s', d'))" by simp
    then obtain q where rest: "collect_actions (rebuild_one events documents P c) ids (s1, d1) = (q, (s', d'))"
      and res: "\<forall>us. res = Inr us \<longrightarrow> (\<exists>vs. q = Inr vs)"
      by (cases rule: seq_result_cases) (auto simp: give_iff)
    from Cons.prems(3) have "\<forall>i\<in>set ids. aggregate_type i = t" by simp
    note I = Cons.IH [OF R(1,3) this rest, unfolded R(2)]
    then have IH: "inv s'" "stream s' = stream s" "ok d'"
      "\<And>p. p \<notin> (\<lambda>i. (c, aggregate_key i)) ` set ids \<Longrightarrow> docs d' p = docs d1 p"
      "\<And>us j. q = Inr us \<Longrightarrow> j \<in> set ids \<Longrightarrow> settled P c j (stream s) (docs d1) (docs d')"
      by blast+
    have "settled P c j (stream s) (docs d) (docs d')"
      if ok: "q = Inr us" and j: "j = i \<or> j \<in> set ids" for us j
    proof (cases "j = i")
      case True
      note first = R(5) [OF Inr [unfolded unit_eq [of u]]]
      show ?thesis
      proof (cases "(c, aggregate_key i) \<in> (\<lambda>i. (c, aggregate_key i)) ` set ids")
        case True
        then obtain k where k: "k \<in> set ids" "aggregate_key k = aggregate_key i" by auto
        with Cons.prems(3) have "k = i" by (cases k; cases i) fastforce
        with settled_trans [OF first IH(5) [OF ok]] k \<open>j = i\<close> show ?thesis by simp
      next
        case False
        from settled_frame [OF first, of "docs d" "docs d'"] IH(4) [OF False] show ?thesis
          by (simp add: \<open>j = i\<close>)
      qed
    next
      case False
      with j have j: "j \<in> set ids" by simp
      from False j Cons.prems(3) have "(c, aggregate_key j) \<noteq> (c, aggregate_key i)"
        by (cases j; cases i) auto
      from settled_frame [OF IH(5) [OF ok j], of "docs d" "docs d'"] R(4) [OF this] show ?thesis by simp
    qed
    with IH R(4) res show ?thesis by auto
  qed
qed

end

text \<open>The document store may live on other calls to libsql than the event store.\<close>

lemma stored_revision_reads:
  assumes "store_ok H prev C tgt s"
  shows "revision_reads (H\<lparr>h_faults := F\<rparr>) (stream_revision (store_stream S tgt s i))"
proof (cases "store_stream S tgt s i = []")
  case True
  then show ?thesis by (simp add: revision_reads_def revision_from_str_def revision_zero_def)
next
  case False
  have laws: "ulid_laws (h_ulid H)" using assms by (simp add: store_ok_def)
  from stream_revision_in [OF False] obtain p where
    "stream_revision (store_stream S tgt s i) \<in> set (revisions (rows_stream (rows_at s (At (tgt p))) i))"
    by (auto simp: store_stream_def split: sum.splits)
  from stream_rev_ulid [OF rows_at_inv [OF assms] this] revision_from_str_ulid [OF laws] show ?thesis
    by (auto simp: revision_reads_def)
qed

interpretation sqlite_projecting: projecting "sqlite_ops H S C" "store_ok H prev C tgt" "store_stream S tgt"
    "sql_documents (H\<lparr>h_faults := F\<rparr>) J" "docs_ok (H\<lparr>h_faults := F\<rparr>) J" "docs_map J"
    "revision_reads (H\<lparr>h_faults := F\<rparr>)" "json_stable J"
  for H S C prev tgt F J
  by unfold_locales (rule stored_revision_reads)

section \<open>The guarantees\<close>

text \<open>
  C8: projections are faithful. A projection of an aggregate, whether it succeeds or fails, leaves
  every document of the collection a rendering of a state that its aggregate has been in, under
  that state's revision, and changes no event and no other document; after a success the
  aggregate's document renders its stream as it stands.
\<close>

theorem projection_faithful:
  assumes "store_ok H prev C tgt s" and "docs_ok (H\<lparr>h_faults := F\<rparr>) J d"
    and "faithful P col (aggregate_type (cs_aggregate_id cs)) (store_stream S tgt s) (docs_map J d)"
    and "\<forall>x v. pj_to_value P x = Inr v \<longrightarrow> json_stable J v"
    and "apply_projection (sqlite_ops H S C) (sql_documents (H\<lparr>h_faults := F\<rparr>) J) P cs col (s, d) =
      (res, (s', d'))"
  shows "store_ok H prev C tgt s' \<and> store_stream S tgt s' = store_stream S tgt s \<and>
    docs_ok (H\<lparr>h_faults := F\<rparr>) J d' \<and>
    faithful P col (aggregate_type (cs_aggregate_id cs)) (store_stream S tgt s') (docs_map J d') \<and>
    (\<forall>p. p \<noteq> (col, aggregate_key (cs_aggregate_id cs)) \<longrightarrow> docs_map J d' p = docs_map J d p) \<and>
    (case res of
       Inl e \<Rightarrow> docs_map J d' = docs_map J d
     | Inr u \<Rightarrow> up_to_date P col (cs_aggregate_id cs) (store_stream S tgt s') (docs_map J d'))"
  using assms(3) sqlite_projecting.apply_result [OF assms]
  unfolding sqlite_projecting.projected_def by (cases res) (simp_all del: split_paired_All)

text \<open>
  C14: rebuilding is complete, over a local store whose strategy scans its files by type and
  whatever the document store held before. After a successful rebuild, of every aggregate of the
  type that has an event in a known partition: a document at or beyond the stream's revision is
  kept as it was, even if the projection would render something else; where the document was
  behind the stream, or there was none, there is now one that renders the stream as it stands. So
  all of them render their streams as they stand if each document was, before, a rendering by
  this projection of some state its aggregate has been in. No other document and no event has
  changed.
\<close>

theorem rebuild_complete:
  assumes "store_ok H prev (local_catalog B ue F root S) (local_target B root S) s"
    and "docs_ok (H\<lparr>h_faults := G\<rparr>) J d"
    and vals: "\<forall>x v. pj_to_value P x = Inr v \<longrightarrow> json_stable J v"
    and plan: "\<forall>p. ps_read_plan_by_type S p t = ScanType t"
    and known: "all_known_partitions (local_catalog B ue F root S) s = (Inr ps, s1)"
    and run: "rebuild_projection (sqlite_ops H S (local_catalog B ue F root S))
      (sqlite_enumerate_aggregates_by_type H S (local_catalog B ue F root S))
      (sql_documents (H\<lparr>h_faults := G\<rparr>) J) P col t (s, d) = (Inr (), (s', d'))"
  defines "streams \<equiv> store_stream S (local_target B root S) s"
    and "ids \<equiv> \<Union>p\<in>set ps. listed (ScanType t) (rows_at s (At (local_target B root S p)))"
  shows "store_stream S (local_target B root S) s' = streams \<and>
    (\<forall>i\<in>ids. case docs_map J d (col, aggregate_key i) of
       None \<Rightarrow> up_to_date P col i streams (docs_map J d')
     | Some (r, v) \<Rightarrow>
         if stream_revision (streams i) \<le> r then docs_map J d' (col, aggregate_key i) = Some (r, v)
         else up_to_date P col i streams (docs_map J d')) \<and>
    (faithful P col t streams (docs_map J d) \<longrightarrow>
       (\<forall>i\<in>ids. up_to_date P col i streams (docs_map J d'))) \<and>
    (\<forall>q. q \<notin> (\<lambda>i. (col, aggregate_key i)) ` ids \<longrightarrow> docs_map J d' q = docs_map J d q)"
proof -
  let ?C = "local_catalog B ue F root S" and ?tgt = "local_target B root S"
  from run obtain xs s2 where
    enum: "sqlite_enumerate_aggregates_by_type H S ?C t s = (Inr xs, s2)" and
    loop: "\<exists>us. collect_actions (rebuild_one (sqlite_ops H S ?C) (sql_documents (H\<lparr>h_faults := G\<rparr>) J) P col)
      xs (s2, d) = (Inr us, (s', d'))"
    by (auto simp: rebuild_projection_def on_events_def seq_result_Inr give_iff split: prod.splits)
  from loop obtain us where loop: "collect_actions (rebuild_one (sqlite_ops H S ?C)
      (sql_documents (H\<lparr>h_faults := G\<rparr>) J) P col) xs (s2, d) = (Inr us, (s', d'))" ..
  from enumerate_with_plan_result [OF assms(1) local_partitions_silent known]
    enum [unfolded sqlite_enumerate_aggregates_by_type_def]
  have E: "store_ok H prev ?C ?tgt s2" "rows_at s2 = rows_at s" "set xs = ids"
    unfolding plan [rule_format] ids_def by blast+
  have streams: "store_stream S ?tgt s2 = streams" unfolding streams_def by (rule store_stream_cong [OF E(2)])
  have types: "\<forall>i\<in>set xs. aggregate_type i = t" unfolding E(3) ids_def by simp
  note R = sqlite_projecting.rebuild_all_settles [OF E(1) assms(2) vals types loop, unfolded streams E(3)]
  have "up_to_date P col i streams (docs_map J d')"
    if f: "faithful P col t streams (docs_map J d)" and i: "i \<in> ids" for i
    using sqlite_projecting.settled_up_to_date [OF E(1), of P col i S J d "docs_map J d'"]
      f i R types E(3) by (simp add: streams)
  with R show ?thesis unfolding settled_def by blast
qed

text \<open>
  A document at its aggregate's current revision survives a rebuild, whatever it holds: after a
  change of the rendering rules a rebuild does not bring it up to the new rules.
\<close>

theorem rebuild_keeps_current_documents:
  assumes "store_ok H prev C tgt s" and "docs_ok (H\<lparr>h_faults := F\<rparr>) J d"
    and "docs_map J d (col, aggregate_key i) = Some (stream_revision (store_stream S tgt s i), v)"
    and "rebuild_one (sqlite_ops H S C) (sql_documents (H\<lparr>h_faults := F\<rparr>) J) P col i (s, d) = (res, (s', d'))"
  shows "docs_map J d' = docs_map J d"
  by (rule sqlite_projecting.rebuild_one_current [OF assms])

section \<open>Stores for the witnesses\<close>

definition demo_view :: "(nat, string) projection" where
  "demo_view = \<lparr>pj_renderer = renderer_with renderer_new (Exact (EventType ''started'')) (\<lambda>t d n. Inr (Suc n)),
     pj_box = BoxReduce, pj_initial = 0, pj_to_value = (\<lambda>n. Inr (JString (replicate n CHR ''x'')))\<rparr>"

lemma demo_faithful: "faithful P col t streams (docs_map demo_text (demo_documents [] n))"
  by (simp add: faithful_def)

lemma demo_session_stream:
  assumes "c_db se = c_db demo_published"
  shows "session_stream se demo_id = cs_events demo_changes"
proof -
  have "session_stream demo_published demo_id = session_stream demo_session demo_id @ cs_events demo_changes"
    using publish_with_connection_outcome [OF demo_session_ok demo_publish] by (simp add: publish_outcome_def)
  then show ?thesis using assms by (simp add: session_stream_def demo_session_def empty_db_def)
qed

lemma demo_render:
  assumes "c_db se = c_db demo_published"
  shows "render_document demo_view (from_shared_events demo_id (session_stream se demo_id)) =
    Inr (revision_from_ulid crockford_codec 2, JString ''x'')"
  by (simp add: demo_session_stream [OF assms] render_document_def render_def into_parts_def demo_changes_def
      demo_view_def renderer_with_def renderer_new_def find_action_def stream_revision_def last_opt_def)

lemma demo_write:
  assumes "c_db se = c_db demo_published"
  shows "write_document (sql_documents calm_host demo_text) demo_view ''runs'' demo_id
      (from_shared_events demo_id (session_stream se demo_id)) (w, demo_documents [] n) =
    (Inr (), (w, demo_documents [demo_document] (Suc n)))"
proof -
  have "aggregate_key demo_id = ''1''" by (simp add: demo_id_def aggregate_id_new_def)
  then show ?thesis
    by (simp add: write_document_def demo_render [OF assms] give_def seq_result_def on_documents_def
        sql_documents_def demo_upsert)
qed

lemma demo_load_current:
  assumes "session_ok calm_host id se"
  shows "seq_err WeeEvents (on_events (\<lambda>s. st_load (sqlite_ops calm_host global_strategy demo_catalog) s demo_id))
      (demo_store se, d) =
    (Inr (from_shared_events demo_id (session_stream se demo_id)),
      (demo_store (se\<lparr>c_calls := Suc (c_calls se)\<rparr>), d))"
  by (simp add: seq_err_def on_events_def demo_store_load [OF assms])

lemma demo_calm: "calm_host\<lparr>h_faults := \<lambda>_. None\<rparr> = calm_host"
  by (simp add: calm_host_def)

lemma demo_published_store_ok: "store_ok calm_host id demo_catalog demo_target (demo_store demo_published)"
  by (rule demo_store_ok [OF demo_published_ok])
    (simp add: schema_ok_def schema_version_def demo_published_def demo_session_def empty_db_def)

theorem projection_faithful_witness:
  "\<exists>w. apply_projection (sqlite_ops calm_host global_strategy demo_catalog) (sql_documents calm_host demo_text)
      demo_view demo_changes ''runs'' (demo_store demo_published, demo_documents [] 0) = (Inr (), w) \<and>
    up_to_date demo_view ''runs'' demo_id (store_stream global_strategy demo_target (fst w)) (docs_map demo_text (snd w))"
proof -
  have id: "cs_aggregate_id demo_changes = demo_id" by (simp add: demo_changes_def)
  have run: "apply_projection (sqlite_ops calm_host global_strategy demo_catalog) (sql_documents calm_host demo_text)
      demo_view demo_changes ''runs'' (demo_store demo_published, demo_documents [] 0) =
    (Inr (), (demo_store (demo_published\<lparr>c_calls := Suc (c_calls demo_published)\<rparr>), demo_documents [demo_document] 1))"
    by (simp add: apply_projection_def id seq_result_def demo_load_current [OF demo_published_ok] demo_write)
  have vals: "\<forall>x v. pj_to_value demo_view x = Inr v \<longrightarrow> json_stable demo_text v" by simp
  from projection_faithful [where H = calm_host and F = "\<lambda>_. None", unfolded demo_calm, OF demo_published_store_ok
      demo_documents_ok demo_faithful vals run, unfolded sum.case id]
  have "up_to_date demo_view ''runs'' demo_id (store_stream global_strategy demo_target
      (demo_store (demo_published\<lparr>c_calls := Suc (c_calls demo_published)\<rparr>)))
      (docs_map demo_text (demo_documents [demo_document] 1))" by blast
  with run show ?thesis by (metis fst_conv snd_conv)
qed

lemma demo_known: "all_known_partitions demo_catalog (demo_store se) = (Inr [GlobalPartition], demo_store se)"
  by (simp add: all_known_partitions_def seq_result_def demo_catalog_def local_catalog_def give_def
      global_strategy_def Let_def demo_store_def)

lemma demo_enumerate:
  "sqlite_enumerate_aggregates_by_type calm_host global_strategy demo_catalog (AggregateType ''run'')
     (demo_store demo_published) = (Inr [demo_id], demo_store (demo_published\<lparr>c_calls := 4\<rparr>))"
proof -
  have "enumerate_by_type_from_connection calm_host (AggregateType ''run'') demo_published =
      (Inr [demo_id], demo_published\<lparr>c_calls := 4\<rparr>)"
    by (simp add: enumerate_by_type_from_connection_def seq_result_def query_def statement_def calm_host_def
        demo_published_def demo_session_def ok_or_def distinct_values_def demo_row_def demo_id_def give_def)
  from demo_on_connection [where f = "enumerate_by_type_from_connection calm_host (AggregateType ''run'')",
      OF demo_published_ok this]
  have "enumerate_partition calm_host demo_catalog (GlobalPartition, ScanType (AggregateType ''run''))
      (demo_store demo_published) = (Inr [demo_id], demo_store (demo_published\<lparr>c_calls := 4\<rparr>))"
    by (simp add: enumerate_partition_def seq_result_def open_partition_if_exists_def demo_store_def)
  then show ?thesis
    by (simp add: sqlite_enumerate_aggregates_by_type_def enumerate_with_plan_def seq_result_def demo_known
        give_def global_strategy_def Let_def sorted_unique_ids_def)
qed

lemma demo_rebuild:
  "rebuild_projection (sqlite_ops calm_host global_strategy demo_catalog)
     (sqlite_enumerate_aggregates_by_type calm_host global_strategy demo_catalog)
     (sql_documents calm_host demo_text) demo_view ''runs'' (AggregateType ''run'')
     (demo_store demo_published, demo_documents [] 0) =
   (Inr (), (demo_store (demo_published\<lparr>c_calls := 5\<rparr>), demo_documents [demo_document] 2))"
proof -
  let ?se = "demo_published\<lparr>c_calls := 4\<rparr>"
  have ok: "session_ok calm_host id ?se" using demo_published_ok by (simp add: session_ok_def)
  have get: "on_documents (do_get (sql_documents calm_host demo_text) ''runs'' (aggregate_key demo_id))
      (w, demo_documents [] 0) = (Inr None, (w, demo_documents [] 1))" for w :: "(global_partition, ulid) sqlite_store"
    by (simp add: on_documents_def sql_documents_def document_get_def sql_run calm_host_def demo_documents_def
        ok_or_def empty_db_def)
  have "rebuild_one (sqlite_ops calm_host global_strategy demo_catalog) (sql_documents calm_host demo_text)
      demo_view ''runs'' demo_id (demo_store ?se, demo_documents [] 0) =
    (Inr (), (demo_store (demo_published\<lparr>c_calls := 5\<rparr>), demo_documents [demo_document] 2))"
    using demo_load_current [OF ok, of "demo_documents [] 0"] demo_write [of ?se]
    by (simp add: rebuild_one_def seq_result_def get numeral_2_eq_2)
  then show ?thesis
    by (simp add: rebuild_projection_def seq_result_def on_events_def demo_enumerate give_def)
qed

theorem rebuild_complete_witness:
  "up_to_date demo_view ''runs'' demo_id
     (store_stream global_strategy demo_target (demo_store demo_published))
     (docs_map demo_text (demo_documents [demo_document] 2))"
proof -
  have plan: "\<forall>p. ps_read_plan_by_type global_strategy p (AggregateType ''run'') = ScanType (AggregateType ''run'')"
    by (simp add: global_strategy_def Let_def)
  have "demo_id \<in> listed (ScanType (AggregateType ''run''))
      (rows_at (demo_store demo_published) (At (demo_target GlobalPartition)))"
    by (simp add: rows_at_def demo_store_def demo_target demo_published_def demo_session_def demo_row_def
        row_aggregate_def demo_id_def empty_db_def aggregate_id_new_def)
  moreover have "\<forall>x v. pj_to_value demo_view x = Inr v \<longrightarrow> json_stable demo_text v" by simp
  moreover have "docs_map demo_text (demo_documents [] 0) (''runs'', aggregate_key demo_id) = None" by simp
  moreover note rebuild_complete [where H = calm_host and G = "\<lambda>_. None" and B = nibbles and
      ue = "\<lambda>_. ''invalid utf-8''" and F = demo_files and root = "''events.db''" and S = global_strategy,
      folded demo_catalog_def demo_target_def, unfolded demo_calm, OF demo_published_store_ok
      demo_documents_ok _ plan demo_known demo_rebuild]
  ultimately show ?thesis by fastforce
qed

end
