(* ===== verification/Service.thy ===== *)
theory Service
  imports Renderer MemoryStore SqlPublish
begin

text \<open>
  \<^verbatim>\<open>crates/wee-events/src/\<close>: \<^verbatim>\<open>service.rs\<close>, \<^verbatim>\<open>service_builder.rs\<close>, \<^verbatim>\<open>create.rs\<close>,
  \<^verbatim>\<open>handler_env.rs\<close>, \<^verbatim>\<open>publisher.rs\<close>, \<^verbatim>\<open>command.rs\<close> and \<^verbatim>\<open>spec.rs\<close>: how a command is
  executed. Futures run to completion in place; the world that they share (the store, the
  capabilities) is a state threaded through factory, loader and handlers. A command is a value
  of one type \<open>'c\<close>, and its Rust type is the function \<open>command_type\<close> of it.
\<close>

section \<open>Rejections and service errors\<close>

record rejection =
  rej_code :: string
  rej_message :: string
  rej_context :: json

definition default_context :: json where
  "default_context = JObject []"

definition rejection_new :: "string \<Rightarrow> string \<Rightarrow> rejection" where
  "rejection_new code msg = \<lparr>rej_code = code, rej_message = msg, rej_context = default_context\<rparr>"

definition rejection_with_context :: "string \<Rightarrow> string \<Rightarrow> json \<Rightarrow> rejection" where
  "rejection_with_context code msg c = \<lparr>rej_code = code, rej_message = msg, rej_context = c\<rparr>"

definition rejection_display :: "rejection \<Rightarrow> string" where
  "rejection_display r = rej_code r @ '': '' @ rej_message r"

datatype 'e service_error =
    Rejected rejection
  | StoreFailed 'e
  | CodecFailed codec_error

definition service_error_from_encode :: "encode_error \<Rightarrow> 'e service_error" where
  "service_error_from_encode e = CodecFailed (CodecEncode e)"

definition service_error_from_decode :: "decode_error \<Rightarrow> 'e service_error" where
  "service_error_from_decode e = CodecFailed (CodecDecode e)"

fun service_error_from_render ::
  "(error \<Rightarrow> 'e) \<Rightarrow> decode_error render_error \<Rightarrow> 'e service_error" where
  "service_error_from_render from (UnhandledEvent c) =
     StoreFailed (from (UnhandledEventType (event_type_str (ctx_event_type c))))"
| "service_error_from_render from (ApplyFailed c source) = CodecFailed (CodecDecode source)"

definition service_error_from_error :: "(error \<Rightarrow> 'e) \<Rightarrow> error \<Rightarrow> 'e service_error" where
  "service_error_from_error from e = StoreFailed (from e)"

section \<open>Handlers and their dispatch\<close>

datatype 's handler_outcome = OutcomeEntity "'s entity" | Reload

text \<open>The two impls of \<open>IntoHandlerOutcome\<close>.\<close>

definition outcome_of_entity :: "'e + 's entity \<Rightarrow> 'e + 's handler_outcome" where
  "outcome_of_entity r = map_ok OutcomeEntity r"

definition outcome_of_unit :: "'e + unit \<Rightarrow> 'e + 's handler_outcome" where
  "outcome_of_unit r = map_ok (\<lambda>_. Reload) r"

type_synonym ('w, 'ctx, 's, 'c, 'e) handler =
  "'ctx \<Rightarrow> 's entity \<Rightarrow> 'c \<Rightarrow> ('w, 'e, 's handler_outcome) action"

text \<open>The type-level list of handlers, each with the command type it was registered for.\<close>

datatype ('t, 'h) handler_list = EmptyHandlers | HandlerList 't 'h "('t, 'h) handler_list"

datatype selector = Here | There selector

text \<open>
  \<open>HandleCommand<C, Idx>\<close>: the impl that the compiler picks for a selector; \<open>None\<close> where it has
  none, that is where the program does not compile.
\<close>

fun handle_command :: "('t, 'h) handler_list \<Rightarrow> 't \<Rightarrow> selector \<Rightarrow> 'h option" where
  "handle_command (HandlerList t h tail) c Here = (if c = t then Some h else None)"
| "handle_command (HandlerList t h tail) c (There i) = handle_command tail c i"
| "handle_command EmptyHandlers c i = None"

fun command_types :: "('t, 'h) handler_list \<Rightarrow> 't list" where
  "command_types EmptyHandlers = []"
| "command_types (HandlerList t h tail) = t # command_types tail"

section \<open>The service builder\<close>

record ('l, 't, 'h) service_builder =
  sb_loader :: "'l option"
  sb_handlers :: "('t, 'h) handler_list"

definition service_builder_new :: "('l, 't, 'h) service_builder" where
  "service_builder_new = \<lparr>sb_loader = None, sb_handlers = EmptyHandlers\<rparr>"

definition with_loader :: "('l, 't, 'h) service_builder \<Rightarrow> 'l \<Rightarrow> ('l, 't, 'h) service_builder" where
  "with_loader b l = \<lparr>sb_loader = Some l, sb_handlers = sb_handlers b\<rparr>"

definition with_handler ::
  "('l, 't, 'h) service_builder \<Rightarrow> 't \<Rightarrow> 'h \<Rightarrow> ('l, 't, 'h) service_builder" where
  "with_handler b t h = \<lparr>sb_loader = sb_loader b, sb_handlers = HandlerList t h (sb_handlers b)\<rparr>"

text \<open>
  \<open>BuiltService\<close>: \<open>'el\<close> and \<open>'eh\<close> are the loader's and the handlers' error types with the two
  conversions \<open>EL: From<crate::Error>\<close> and \<open>EH: From<EL>\<close>.
\<close>

record ('w, 'ctx, 's, 'c, 't, 'el, 'eh) built_service =
  bs_factory :: "('w, error, 'ctx) action"
  bs_loader :: "'ctx \<Rightarrow> aggregate_id \<Rightarrow> ('w, 'el, 's entity) action"
  bs_handlers :: "('t, ('w, 'ctx, 's, 'c, 'eh) handler) handler_list"
  bs_from_error :: "error \<Rightarrow> 'el"
  bs_from_loader :: "'el \<Rightarrow> 'eh"

definition service_build ::
  "('ctx \<Rightarrow> aggregate_id \<Rightarrow> ('w, 'el, 's entity) action, 't, ('w, 'ctx, 's, 'c, 'eh) handler)
     service_builder \<Rightarrow> ('w, error, 'ctx) action \<Rightarrow> (error \<Rightarrow> 'el) \<Rightarrow> ('el \<Rightarrow> 'eh) \<Rightarrow>
   ('w, 'ctx, 's, 'c, 't, 'el, 'eh) built_service option" where
  "service_build b factory from_error from_loader =
     map_option (\<lambda>l. \<lparr>bs_factory = factory, bs_loader = l, bs_handlers = sb_handlers b,
       bs_from_error = from_error, bs_from_loader = from_loader\<rparr>) (sb_loader b)"

definition service_load ::
  "('w, 'ctx, 's, 'c, 't, 'el, 'eh) built_service \<Rightarrow> aggregate_id \<Rightarrow> ('w, 'el, 's entity) action" where
  "service_load B i =
     seq_result (seq_err (bs_from_error B) (bs_factory B)) (\<lambda>ctx. bs_loader B ctx i)"

definition service_execute ::
  "('w, 'ctx, 's, 'c, 't, 'el, 'eh) built_service \<Rightarrow> ('w, 'ctx, 's, 'c, 'eh) handler \<Rightarrow>
    aggregate_id \<Rightarrow> 'c \<Rightarrow> ('w, 'eh, 's entity) action" where
  "service_execute B handler i cmd =
     seq_result (seq_err (bs_from_loader B) (seq_err (bs_from_error B) (bs_factory B))) (\<lambda>ctx.
     seq_result (seq_err (bs_from_loader B) (bs_loader B ctx i)) (\<lambda>entity.
     seq_result (handler ctx entity cmd) (\<lambda>outcome.
       case outcome of
         OutcomeEntity e \<Rightarrow> give (Inr e)
       | Reload \<Rightarrow> seq_err (bs_from_loader B) (bs_loader B ctx i))))"

text \<open>\<open>BuiltService::execute::<C, Idx>\<close>, with the handler the compiler selects.\<close>

definition service_dispatch ::
  "('w, 'ctx, 's, 'c, 't, 'el, 'eh) built_service \<Rightarrow> ('c \<Rightarrow> 't) \<Rightarrow> selector \<Rightarrow> aggregate_id \<Rightarrow> 'c \<Rightarrow>
    ('w, 'eh, 's entity) action option" where
  "service_dispatch B command_type idx i cmd =
     map_option (\<lambda>h. service_execute B h i cmd)
       (handle_command (bs_handlers B) (command_type cmd) idx)"

section \<open>The create builder and the handler environment\<close>

record ('svc, 'st) create_store_builder =
  csb_service :: 'svc
  csb_store :: 'st

record ('svc, 'st, 'v) create_env_builder =
  ceb_service :: 'svc
  ceb_store :: 'st
  ceb_services :: 'v

definition create :: "'svc \<Rightarrow> 'svc" where
  "create service = service"

definition with_store :: "'svc \<Rightarrow> 'st \<Rightarrow> ('svc, 'st) create_store_builder" where
  "with_store b store = \<lparr>csb_service = b, csb_store = store\<rparr>"

definition with_env ::
  "('svc, 'st) create_store_builder \<Rightarrow> 'v \<Rightarrow> ('svc, 'st, 'v) create_env_builder" where
  "with_env b v = \<lparr>ceb_service = csb_service b, ceb_store = csb_store b, ceb_services = v\<rparr>"

definition create_build ::
  "('svc \<Rightarrow> 'st \<Rightarrow> 'v \<Rightarrow> 'built) \<Rightarrow> ('svc, 'st, 'v) create_env_builder \<Rightarrow> 'built" where
  "create_build build_in_process b =
     build_in_process (ceb_service b) (ceb_store b) (ceb_services b)"

record ('st, 'v) handler_env =
  env_store :: 'st
  env_services :: 'v

definition handler_env_new :: "'st \<Rightarrow> 'v \<Rightarrow> ('st, 'v) handler_env" where
  "handler_env_new st v = \<lparr>env_store = st, env_services = v\<rparr>"

section \<open>The publisher\<close>

text \<open>\<open>Publisher::publish\<close>: \<open>event_type_of\<close> and \<open>S\<close> are the \<open>DomainEvent\<close> impl of the events.\<close>

definition encode_events ::
  "encoding \<Rightarrow> ('e \<Rightarrow> event_type) \<Rightarrow> 'e serde \<Rightarrow> 'e list \<Rightarrow> encode_error + raw_event list" where
  "encode_events enc event_type_of S events =
     collect_results (map (\<lambda>e. map_ok (\<lambda>d. \<lparr>raw_event_type = event_type_of e, raw_data = d\<rparr>)
       (encode enc S e)) events)"

definition publisher_publish ::
  "'st store_ops \<Rightarrow> ('e \<Rightarrow> event_type) \<Rightarrow> 'e serde \<Rightarrow> 's entity \<Rightarrow> 'e list \<Rightarrow>
    ('st, error service_error, change_set) action" where
  "publisher_publish ops event_type_of S entity events st =
     seq_result
       (give (map_err service_error_from_encode
          (encode_events (st_encoding ops st) event_type_of S events)))
       (\<lambda>raws st. seq_err StoreFailed
          (\<lambda>st. st_publish ops st (ent_aggregate_id entity)
             (default_options\<lparr>expected_revision := Some (ent_revision entity)\<rparr>) raws) st)
       st"

section \<open>Dispatch is by command type\<close>

lemma handle_command_types:
  "handle_command H c i = Some h \<Longrightarrow> c \<in> set (command_types H)"
  by (induction H c i rule: handle_command.induct) (auto split: if_splits)

lemma handle_command_unique:
  "distinct (command_types H) \<Longrightarrow> handle_command H c i = Some h \<Longrightarrow>
    handle_command H c j = Some h' \<Longrightarrow> i = j \<and> h = h'"
proof (induction H c i arbitrary: j rule: handle_command.induct)
  case (1 t h tail c)
  then show ?case by (cases j) (auto split: if_splits dest: handle_command_types)
next
  case (2 t h tail c i)
  then show ?case by (cases j) (auto split: if_splits dest: handle_command_types)
qed simp

lemma handle_command_total:
  "c \<in> set (command_types H) \<Longrightarrow> \<exists>i h. handle_command H c i = Some h"
proof (induction H)
  case (HandlerList t h tail)
  then show ?case by (metis command_types.simps(2) handle_command.simps(1,2) set_ConsD)
qed simp

text \<open>
  Static dispatch is sound: in a service whose registered command types are distinct, a
  command runs exactly one handler: the selector exists if and only if the command's type was
  registered, and any two selectors that type-check choose the same handler.
\<close>

theorem dispatch_unique:
  assumes "distinct (command_types H)"
  shows "((\<exists>i h. handle_command H c i = Some h) \<longleftrightarrow> c \<in> set (command_types H)) \<and>
    (\<forall>i j h h'. handle_command H c i = Some h \<and> handle_command H c j = Some h' \<longrightarrow> i = j \<and> h = h')"
  using assms handle_command_types handle_command_total handle_command_unique by meson

theorem dispatch_unique_witness:
  "handle_command (HandlerList ''Add'' (1 :: nat) (HandlerList ''Sub'' 2 EmptyHandlers)) ''Sub''
     (There Here) = Some 2 \<and>
   (\<exists>i h. handle_command (HandlerList ''Add'' (1 :: nat) (HandlerList ''Sub'' 2 EmptyHandlers)) ''Sub'' i
     = Some h)"
  using dispatch_unique [of "HandlerList ''Add'' (1 :: nat) (HandlerList ''Sub'' 2 EmptyHandlers)" "''Sub''"]
  by simp

section \<open>Executing a command\<close>

text \<open>
  Executing a command goes through factory, loader and handler in this order and stops at
  the first failure, whose error is lifted through the loader's error type; a handler that
  returns an entity is the answer, and after \<open>Ok(())\<close> the loader runs a second time, on the
  world the handler left.
\<close>

theorem service_execute_paths:
  "service_execute B handler i cmd w0 =
     (case bs_factory B w0 of
        (Inl e, w1) \<Rightarrow> (Inl (bs_from_loader B (bs_from_error B e)), w1)
      | (Inr ctx, w1) \<Rightarrow>
          (case bs_loader B ctx i w1 of
             (Inl e, w2) \<Rightarrow> (Inl (bs_from_loader B e), w2)
           | (Inr entity, w2) \<Rightarrow>
               (case handler ctx entity cmd w2 of
                  (Inl e, w3) \<Rightarrow> (Inl e, w3)
                | (Inr (OutcomeEntity e), w3) \<Rightarrow> (Inr e, w3)
                | (Inr Reload, w3) \<Rightarrow> map_prod (map_err (bs_from_loader B)) id (bs_loader B ctx i w3))))"
  by (auto simp: service_execute_def seq_result_def seq_err_def give_def
      split: prod.splits sum.splits handler_outcome.splits)

section \<open>Publishing against the loaded entity\<close>

context event_store begin

lemma publisher_appends:
  assumes "inv s" and "publisher_publish ops et S entity events s = (Inr cs, s')" and "events \<noteq> []"
  shows "ent_revision entity = stream_revision (stream s (ent_aggregate_id entity)) \<and>
    (\<exists>raws. encode_events (st_encoding ops s) et S events = Inr raws \<and>
       list_all2 (records (default_options\<lparr>expected_revision := Some (ent_revision entity)\<rparr>))
         raws (cs_events cs)) \<and>
    stream s' = (stream s)(ent_aggregate_id entity :=
      stream s (ent_aggregate_id entity) @ cs_events cs)"
proof -
  from assms(2) obtain raws where enc: "encode_events (st_encoding ops s) et S events = Inr raws"
    and pub: "st_publish ops s (ent_aggregate_id entity)
      (default_options\<lparr>expected_revision := Some (ent_revision entity)\<rparr>) raws = (Inr cs, s')"
    by (auto simp: publisher_publish_def result_simps)
  from enc assms(3) have "raws \<noteq> []"
    by (cases events) (auto simp: encode_events_def collect_results_Inr)
  with publish_expected [OF assms(1) pub this] publish_appends [OF assms(1) pub] enc
  show ?thesis by simp
qed

lemma publisher_stale:
  assumes "inv s" and "publisher_publish ops et S entity events s = (r, s')" and "events \<noteq> []"
    and "ent_revision entity \<noteq> stream_revision (stream s (ent_aggregate_id entity))"
  shows "(\<exists>e. r = Inl e) \<and> stream s' = stream s"
proof (cases r)
  case (Inr cs)
  with publisher_appends [OF assms(1) _ assms(3)] assms(2,4) show ?thesis by blast
next
  case (Inl e)
  with assms(2) show ?thesis
    using publish_fails [OF assms(1)]
    by (auto simp: publisher_publish_def result_simps)
qed

end

text \<open>
  A handler that decided on a stale entity never writes to the in-memory store: publishing
  a non-empty batch against an entity whose revision is not the stream's current one fails and
  leaves every stream as it was.
\<close>

theorem memory_publisher_stale:
  assumes "memory_ok U gen prev s" and "events \<noteq> []"
    and "publisher_publish (memory_ops U gen) et S entity events s = (r, s')"
    and "ent_revision entity \<noteq> stream_revision (ms_stream s (ent_aggregate_id entity))"
  shows "(\<exists>e. r = Inl e) \<and> ms_stream s' = ms_stream s"
  by (rule memory.publisher_stale [OF assms(1,3,2,4)])

text \<open>
  Through the SQLite store a publisher writes only what was decided on the current state:
  success means that the entity stood at the stream's revision, that every event was encoded
  with the store's encoding, and that exactly those events were appended.
\<close>

theorem sqlite_publisher_appends:
  assumes "session_ok H prev s" and "events \<noteq> []"
    and "publisher_publish (connection_ops H e) et S entity events s = (Inr cs, s')"
  shows "ent_revision entity = stream_revision (session_stream s (ent_aggregate_id entity)) \<and>
    (\<exists>raws. encode_events e et S events = Inr raws \<and>
       list_all2 (records (default_options\<lparr>expected_revision := Some (ent_revision entity)\<rparr>))
         raws (cs_events cs)) \<and>
    session_stream s' = (session_stream s)(ent_aggregate_id entity :=
      session_stream s (ent_aggregate_id entity) @ cs_events cs)"
proof -
  have "st_encoding (connection_ops H e) s = e" by (simp add: connection_ops_def)
  with connection.publisher_appends [OF assms(1,3,2)] show ?thesis by metis
qed

section \<open>Witnesses\<close>

definition unit_serde :: "unit serde" where
  "unit_serde = \<lparr>to_json = (\<lambda>_. Inr []), from_json = (\<lambda>_. Inr ()),
     to_cbor = (\<lambda>_. Inr []), from_cbor = (\<lambda>_. Inr ())\<rparr>"

definition fresh_entity :: "aggregate_id \<Rightarrow> nat entity" where
  "fresh_entity i = \<lparr>ent_aggregate_id = i, ent_revision = revision_zero, ent_state = 0\<rparr>"

theorem memory_publisher_stale_witness:
  "\<exists>e. fst (publisher_publish (memory_ops crockford_codec counter_generator)
     (\<lambda>_. EventType ''started'') unit_serde (fresh_entity memory_demo_id) [()] memory_demo_store) = Inl e"
proof -
  have ok: "memory_ok crockford_codec counter_generator id memory_demo_store"
    using memory.publish_keeps [of crockford_codec counter_generator id] memory_demo_ok
      memory_demo_publish by (fastforce simp: memory_ops_def)
  have "revision_zero < revision_from_ulid crockford_codec 2"
    by (rule revision_zero_less [OF crockford_laws]) simp
  then have "ent_revision (fresh_entity memory_demo_id) \<noteq>
      stream_revision (ms_stream memory_demo_store (ent_aggregate_id (fresh_entity memory_demo_id)))"
    by (simp add: fresh_entity_def ms_stream_def memory_demo_store_def memory_demo_event_def
        stream_revision_def last_opt_def)
  from memory_publisher_stale [OF ok _ surjective_pairing this, of "[()]"] show ?thesis by blast
qed

lemma demo_publisher:
  "publisher_publish (connection_ops calm_host Json) (\<lambda>_. EventType ''started'') unit_serde
     (fresh_entity demo_id) [()] demo_session = (Inr demo_changes, demo_published)"
proof -
  have "default_options\<lparr>expected_revision := Some (ent_revision (fresh_entity demo_id))\<rparr> = demo_options"
    by (simp add: fresh_entity_def demo_options_def)
  moreover have "encode_events Json (\<lambda>_. EventType ''started'') unit_serde [()] = Inr [demo_raw]"
    by (simp add: encode_events_def json_serialize_def unit_serde_def demo_raw_def event_data_raw_def)
  moreover have "ent_aggregate_id (fresh_entity demo_id) = demo_id" by (simp add: fresh_entity_def)
  ultimately show ?thesis
    by (simp add: publisher_publish_def result_simps connection_ops_def demo_publish)
qed

theorem sqlite_publisher_appends_witness:
  "session_stream demo_published demo_id = session_stream demo_session demo_id @ cs_events demo_changes"
  using sqlite_publisher_appends [OF demo_session_ok _ demo_publisher]
  by (simp add: fresh_entity_def)

end
