(* ===== verification/RestateTypes.thy ===== *)
theory RestateTypes
  imports Service Wire
begin

text \<open>
  \<^verbatim>\<open>crates/wee-events-restate/src/\<close>: the names (\<^verbatim>\<open>names.rs\<close>), the request and response types with
  their JSON (\<^verbatim>\<open>types.rs\<close>), the correlation ids (\<^verbatim>\<open>correlation.rs\<close>) and the side effects'
  filters and router (\<^verbatim>\<open>effects.rs\<close>). A derived \<open>Serialize\<close> is a function to \<open>json\<close> in the order of
  the struct's fields, a derived \<open>Deserialize\<close> a partial function back.
\<close>

section \<open>Names\<close>

definition executor_name :: "string \<Rightarrow> string" where
  "executor_name base = base @ ''-side-effect-executor''"

definition loader_name :: "string \<Rightarrow> string" where
  "loader_name base = base @ ''-side-effect-loader''"

definition runner_name :: "string \<Rightarrow> string" where
  "runner_name base = base @ ''-side-effect-runner''"

lemma runtime_names_distinct:
  "executor_name a \<noteq> loader_name b" "executor_name a \<noteq> runner_name b" "loader_name a \<noteq> runner_name b"
  by (auto simp: executor_name_def loader_name_def runner_name_def dest: arg_cong [where f = rev])

text \<open>
  None of them is the name of the service itself, under which \<open>service!\<close> binds its virtual object.
\<close>

lemma runtime_names_not_base: "executor_name a \<noteq> a" "loader_name a \<noteq> a" "runner_name a \<noteq> a"
  by (simp_all add: executor_name_def loader_name_def runner_name_def)

section \<open>Types on the wire\<close>

definition aggregate_id_json :: "aggregate_id \<Rightarrow> json" where
  "aggregate_id_json i = JObject
     [(''aggregate_type'', JString (aggregate_type_str (aggregate_type i))),
      (''aggregate_key'', JString (aggregate_key i))]"

fun aggregate_id_of :: "json option \<Rightarrow> json option \<Rightarrow> aggregate_id option" where
  "aggregate_id_of t k =
     Option.bind (Option.bind t json_string) (\<lambda>t.
     Option.bind (Option.bind k json_string) (\<lambda>k.
       Some (AggregateId (AggregateType t) k)))"

fun aggregate_id_read :: "json \<Rightarrow> aggregate_id option" where
  "aggregate_id_read (JObject kvs) =
     aggregate_id_of (json_field ''aggregate_type'' kvs) (json_field ''aggregate_key'' kvs)"
| "aggregate_id_read (JArray [t, k]) = aggregate_id_of (Some t) (Some k)"
| "aggregate_id_read _ = None"

definition revision_json :: "revision \<Rightarrow> json" where
  "revision_json r = JString (revision_str r)"

definition revision_read :: "ulid_codec \<Rightarrow> json \<Rightarrow> revision option" where
  "revision_read U j = Option.bind (json_string j) (\<lambda>s.
     case revision_deserialize U (Inr s :: unit + string) of Inl e \<Rightarrow> None | Inr r \<Rightarrow> Some r)"

record metadata =
  rm_correlation_id :: string
  rm_causation_id :: "string option"
  rm_idempotency_key :: "string option"

text \<open>\<open>skip_serializing_if = "Option::is_none"\<close>.\<close>

definition optional_field :: "string \<Rightarrow> string option \<Rightarrow> (string \<times> json) list" where
  "optional_field name x = (case x of None \<Rightarrow> [] | Some s \<Rightarrow> [(name, JString s)])"

definition metadata_json :: "metadata \<Rightarrow> json" where
  "metadata_json m = JObject
     ((''correlation_id'', JString (rm_correlation_id m)) #
      optional_field ''causation_id'' (rm_causation_id m) @
      optional_field ''idempotency_key'' (rm_idempotency_key m))"

definition metadata_of ::
  "json option \<Rightarrow> string option option \<Rightarrow> string option option \<Rightarrow> metadata option" where
  "metadata_of c ca ik =
     Option.bind (Option.bind c json_string) (\<lambda>c. Option.bind ca (\<lambda>ca. Option.bind ik (\<lambda>ik.
       Some \<lparr>rm_correlation_id = c, rm_causation_id = ca, rm_idempotency_key = ik\<rparr>)))"

fun metadata_read :: "json \<Rightarrow> metadata option" where
  "metadata_read (JObject kvs) =
     metadata_of (json_field ''correlation_id'' kvs) (json_optional_string ''causation_id'' kvs)
       (json_optional_string ''idempotency_key'' kvs)"
| "metadata_read (JArray [c, ca, ik]) =
     metadata_of (Some c) (json_nullable_string ca) (json_nullable_string ik)"
| "metadata_read _ = None"

record command_request =
  cr_name :: command_name
  cr_target :: aggregate_id
  cr_command :: json

definition command_request_json :: "command_request \<Rightarrow> json" where
  "command_request_json c = JObject
     [(''name'', JString (command_name_str (cr_name c))), (''target'', aggregate_id_json (cr_target c)),
      (''command'', cr_command c)]"

definition command_request_of ::
  "json option \<Rightarrow> json option \<Rightarrow> json option \<Rightarrow> command_request option" where
  "command_request_of n t c =
     Option.bind (Option.bind n json_string) (\<lambda>n.
     Option.bind (Option.bind t aggregate_id_read) (\<lambda>t.
     Option.bind c (\<lambda>c.
       Some \<lparr>cr_name = CommandName n, cr_target = t, cr_command = json_value c\<rparr>)))"

fun command_request_read :: "json \<Rightarrow> command_request option" where
  "command_request_read (JObject kvs) =
     command_request_of (json_field ''name'' kvs) (json_field ''target'' kvs) (json_field ''command'' kvs)"
| "command_request_read (JArray [n, t, c]) = command_request_of (Some n) (Some t) (Some c)"
| "command_request_read _ = None"

record execute_request =
  xr_command :: command_request
  xr_metadata :: metadata

definition execute_request_json :: "execute_request \<Rightarrow> json" where
  "execute_request_json x = JObject
     [(''command'', command_request_json (xr_command x)), (''metadata'', metadata_json (xr_metadata x))]"

definition execute_request_of :: "json option \<Rightarrow> json option \<Rightarrow> execute_request option" where
  "execute_request_of c m =
     Option.bind (Option.bind c command_request_read) (\<lambda>c.
     Option.bind (Option.bind m metadata_read) (\<lambda>m.
       Some \<lparr>xr_command = c, xr_metadata = m\<rparr>))"

fun execute_request_read :: "json \<Rightarrow> execute_request option" where
  "execute_request_read (JObject kvs) =
     execute_request_of (json_field ''command'' kvs) (json_field ''metadata'' kvs)"
| "execute_request_read (JArray [c, m]) = execute_request_of (Some c) (Some m)"
| "execute_request_read _ = None"

record entity_response =
  er_aggregate :: aggregate_id
  er_revision :: revision
  er_state :: json

definition entity_response_json :: "entity_response \<Rightarrow> json" where
  "entity_response_json r = JObject
     [(''aggregate'', aggregate_id_json (er_aggregate r)), (''revision'', revision_json (er_revision r)),
      (''state'', er_state r)]"

definition entity_response_of ::
  "ulid_codec \<Rightarrow> json option \<Rightarrow> json option \<Rightarrow> json option \<Rightarrow> entity_response option" where
  "entity_response_of U a r s =
     Option.bind (Option.bind a aggregate_id_read) (\<lambda>a.
     Option.bind (Option.bind r (revision_read U)) (\<lambda>r.
     Option.bind s (\<lambda>s.
       Some \<lparr>er_aggregate = a, er_revision = r, er_state = json_value s\<rparr>)))"

fun entity_response_read :: "ulid_codec \<Rightarrow> json \<Rightarrow> entity_response option" where
  "entity_response_read U (JObject kvs) =
     entity_response_of U (json_field ''aggregate'' kvs) (json_field ''revision'' kvs)
       (json_field ''state'' kvs)"
| "entity_response_read U (JArray [a, r, s]) = entity_response_of U (Some a) (Some r) (Some s)"
| "entity_response_read U _ = None"

record execute_notification =
  en_command :: command_request
  en_response :: entity_response
  en_metadata :: metadata

definition execute_notification_json :: "execute_notification \<Rightarrow> json" where
  "execute_notification_json n = JObject
     [(''command'', command_request_json (en_command n)),
      (''response'', entity_response_json (en_response n)),
      (''metadata'', metadata_json (en_metadata n))]"

definition execute_notification_of ::
  "ulid_codec \<Rightarrow> json option \<Rightarrow> json option \<Rightarrow> json option \<Rightarrow> execute_notification option" where
  "execute_notification_of U c r m =
     Option.bind (Option.bind c command_request_read) (\<lambda>c.
     Option.bind (Option.bind r (entity_response_read U)) (\<lambda>r.
     Option.bind (Option.bind m metadata_read) (\<lambda>m.
       Some \<lparr>en_command = c, en_response = r, en_metadata = m\<rparr>)))"

fun execute_notification_read :: "ulid_codec \<Rightarrow> json \<Rightarrow> execute_notification option" where
  "execute_notification_read U (JObject kvs) =
     execute_notification_of U (json_field ''command'' kvs) (json_field ''response'' kvs)
       (json_field ''metadata'' kvs)"
| "execute_notification_read U (JArray [c, r, m]) =
     execute_notification_of U (Some c) (Some r) (Some m)"
| "execute_notification_read U _ = None"

text \<open>The \<open>restate_sdk::serde\<close> impls of the two types that the journal keeps.\<close>

definition entity_response_serialize :: "wire \<Rightarrow> entity_response \<Rightarrow> string" where
  "entity_response_serialize W r = wire_text W (entity_response_json r)"

definition entity_response_deserialize :: "wire \<Rightarrow> ulid_codec \<Rightarrow> string \<Rightarrow> json_error + entity_response" where
  "entity_response_deserialize W U s = wire_read W (entity_response_read U) s"

definition execute_notification_serialize :: "wire \<Rightarrow> execute_notification \<Rightarrow> string" where
  "execute_notification_serialize W n = wire_text W (execute_notification_json n)"

definition execute_notification_deserialize ::
  "wire \<Rightarrow> ulid_codec \<Rightarrow> string \<Rightarrow> json_error + execute_notification" where
  "execute_notification_deserialize W U s = wire_read W (execute_notification_read U) s"

section \<open>Rejections on the wire\<close>

definition rejection_of :: "json option \<Rightarrow> json option \<Rightarrow> json option \<Rightarrow> rejection option" where
  "rejection_of c m x =
     Option.bind (Option.bind c json_string) (\<lambda>c.
     Option.bind (Option.bind m json_string) (\<lambda>m.
     Option.bind x (\<lambda>x.
       Some \<lparr>rej_code = c, rej_message = m, rej_context = json_value x\<rparr>)))"

text \<open>\<open>context\<close> is \<open>serde(default = "default_context")\<close>.\<close>

fun rejection_read :: "json \<Rightarrow> rejection option" where
  "rejection_read (JObject kvs) =
     rejection_of (json_field ''code'' kvs) (json_field ''message'' kvs)
       (if ''context'' \<in> fst ` set kvs then json_field ''context'' kvs else Some default_context)"
| "rejection_read (JArray [c, m]) = rejection_of (Some c) (Some m) (Some default_context)"
| "rejection_read (JArray [c, m, x]) = rejection_of (Some c) (Some m) (Some x)"
| "rejection_read _ = None"

text \<open>The value that \<open>json!\<close> builds for a rejection: a map, hence in the order of the keys.\<close>

definition rejection_payload :: "rejection \<Rightarrow> json" where
  "rejection_payload r = JObject
     [(''code'', JString (rej_code r)), (''context'', rej_context r),
      (''message'', JString (rej_message r))]"

section \<open>Correlation ids\<close>

definition restate_correlation_id :: "ulid_codec \<Rightarrow> aggregate_id \<Rightarrow> command_name \<Rightarrow> ulid \<Rightarrow> string" where
  "restate_correlation_id U i command u =
     aggregate_id_display i @ ''-'' @ command_name_str command @ ''-'' @ ulid_to_string U u"

section \<open>Side effects\<close>

datatype side_effect_filter =
    FilterAll
  | FilterName command_name
  | FilterNames "command_name list"
  | FilterPredicate "execute_notification \<Rightarrow> bool"

fun filter_matches :: "side_effect_filter \<Rightarrow> execute_notification \<Rightarrow> bool" where
  "filter_matches FilterAll n = True"
| "filter_matches (FilterName name) n = (cr_name (en_command n) = name)"
| "filter_matches (FilterNames names) n = (cr_name (en_command n) \<in> set names)"
| "filter_matches (FilterPredicate f) n = f n"

record effect_trigger =
  et_workflow_name :: string
  et_filter :: side_effect_filter

definition effect_trigger_new :: "string \<Rightarrow> effect_trigger" where
  "effect_trigger_new w = \<lparr>et_workflow_name = w, et_filter = FilterAll\<rparr>"

definition effect_trigger_with_filter :: "string \<Rightarrow> side_effect_filter \<Rightarrow> effect_trigger" where
  "effect_trigger_with_filter w f = \<lparr>et_workflow_name = w, et_filter = f\<rparr>"

record effect_router =
  ef_effects :: "effect_trigger list"
  ef_service_name :: string

definition effect_router_new :: "string \<Rightarrow> effect_trigger list \<Rightarrow> effect_router" where
  "effect_router_new s effects = \<lparr>ef_effects = effects, ef_service_name = s\<rparr>"

definition matching_effects :: "effect_router \<Rightarrow> execute_notification \<Rightarrow> string list" where
  "matching_effects R n = map et_workflow_name (filter (\<lambda>e. filter_matches (et_filter e) n) (ef_effects R))"

definition effect_router_runner_name :: "effect_router \<Rightarrow> string" where
  "effect_router_runner_name R = runner_name (ef_service_name R)"

section \<open>Round trips\<close>

lemma json_optional_string_optional:
  "name \<notin> fst ` set kvs \<Longrightarrow> name \<notin> fst ` set kws \<Longrightarrow>
    json_optional_string name (kvs @ optional_field name x @ kws) = Some x"
proof -
  assume "name \<notin> fst ` set kvs" and "name \<notin> fst ` set kws"
  then have "filter (\<lambda>(k, _). k = name) kvs = []" and "filter (\<lambda>(k, _). k = name) kws = []"
    by (force simp: filter_empty_conv)+
  then show ?thesis
    using \<open>name \<notin> fst ` set kvs\<close> \<open>name \<notin> fst ` set kws\<close>
    by (auto simp: json_optional_string_def json_field_def optional_field_def split: option.splits)
qed

lemma in_optional_field [simp]:
  "(k, v) \<in> set (optional_field name x) \<longleftrightarrow> k = name \<and> (\<exists>s. x = Some s \<and> v = JString s)"
  by (auto simp: optional_field_def split: option.splits)

lemma aggregate_id_read_json [simp]: "aggregate_id_read (aggregate_id_json i) = Some i"
  by (cases i, rename_tac t k, case_tac t) (simp add: aggregate_id_json_def)

lemma revision_read_json [simp]:
  "ulid_laws U \<Longrightarrow> valid_revision U r \<Longrightarrow> revision_read U (revision_json r) = Some r"
  by (simp add: revision_read_def revision_json_def revision_deserialize_def revision_from_str_of_valid)

lemma metadata_read_json [simp]: "metadata_read (metadata_json m) = Some m"
proof -
  let ?c = "(''correlation_id'', JString (rm_correlation_id m))"
  let ?ca = "optional_field ''causation_id'' (rm_causation_id m)"
  let ?ik = "optional_field ''idempotency_key'' (rm_idempotency_key m)"
  have "json_optional_string ''causation_id'' ([?c] @ ?ca @ ?ik) = Some (rm_causation_id m)"
    by (intro json_optional_string_optional) auto
  moreover have "json_optional_string ''idempotency_key'' (([?c] @ ?ca) @ ?ik @ []) =
      Some (rm_idempotency_key m)"
    by (intro json_optional_string_optional) auto
  moreover have "json_field ''correlation_id'' (?c # ?ca @ ?ik) = Some (snd ?c)"
    by (intro trans [OF json_field_here]) auto
  ultimately show ?thesis by (simp add: metadata_json_def metadata_of_def)
qed

lemma command_request_read_json [simp]:
  "is_value (cr_command c) \<Longrightarrow> command_request_read (command_request_json c) = Some c"
  by (simp add: command_request_json_def command_request_of_def)

lemma entity_response_read_json [simp]:
  "ulid_laws U \<Longrightarrow> valid_revision U (er_revision r) \<Longrightarrow> is_value (er_state r) \<Longrightarrow>
    entity_response_read U (entity_response_json r) = Some r"
  by (simp add: entity_response_json_def entity_response_of_def)

lemma execute_request_read_json [simp]:
  "is_value (cr_command (xr_command x)) \<Longrightarrow> execute_request_read (execute_request_json x) = Some x"
  by (simp add: execute_request_json_def execute_request_of_def)

lemma execute_notification_read_json [simp]:
  "ulid_laws U \<Longrightarrow> valid_revision U (er_revision (en_response n)) \<Longrightarrow>
    is_value (er_state (en_response n)) \<Longrightarrow> is_value (cr_command (en_command n)) \<Longrightarrow>
    execute_notification_read U (execute_notification_json n) = Some n"
  by (simp add: execute_notification_json_def execute_notification_of_def)

lemma rejection_read_payload [simp]:
  "is_value (rej_context r) \<Longrightarrow> rejection_read (rejection_payload r) = Some r"
  by (simp add: rejection_payload_def rejection_of_def)

end
