(* ===== verification/RestateService.thy ===== *)
theory RestateService
  imports RestateTypes
begin

text \<open>
  The Restate adapter at work: the error types of \<^verbatim>\<open>crates/wee-events-restate/src/\<close>
  (\<^verbatim>\<open>error.rs\<close>, the private helpers of \<^verbatim>\<open>lib.rs\<close>), the two services that \<open>service!\<close> generates
  (the templates in \<^verbatim>\<open>crates/wee-events-macros/src/service_macro.rs\<close>: the in-process service and
  the virtual object bound to Restate), and the HTTP client (\<^verbatim>\<open>client.rs\<close>, \<^verbatim>\<open>generated.rs\<close>).
  The Restate SDK is a parameter: the record \<open>restate_ctx\<close> of the calls a handler makes on its
  context. \<open>reqwest\<close> is one function that posts a JSON body.
\<close>

section \<open>Handler errors\<close>

datatype handler_error = TerminalError string | RetryableError string

fun codec_error_display :: "codec_error \<Rightarrow> string" where
  "codec_error_display (CodecEncode e) = encode_error_display e"
| "codec_error_display (CodecDecode e) = decode_error_display e"

text \<open>
  The two impls of \<open>IntoHandlerError\<close>; \<open>display\<close> is the store error's \<open>Display\<close>.
\<close>

definition error_into_handler :: "(error \<Rightarrow> string) \<Rightarrow> error \<Rightarrow> handler_error" where
  "error_into_handler display e = TerminalError (display e)"

fun service_error_into_handler :: "wire \<Rightarrow> ('e \<Rightarrow> string) \<Rightarrow> 'e service_error \<Rightarrow> handler_error" where
  "service_error_into_handler W display (Rejected r) = TerminalError (wire_text W (rejection_payload r))"
| "service_error_into_handler W display (CodecFailed e) = TerminalError (codec_error_display e)"
| "service_error_into_handler W display (StoreFailed e) = TerminalError (display e)"

text \<open>\<open>serde_json::to_value\<close> and \<open>from_value\<close> at one Rust type.\<close>

record 'a value_serde =
  vs_to_value :: "'a \<Rightarrow> json_error + json"
  vs_from_value :: "json \<Rightarrow> json_error + 'a"

definition value_roundtrip :: "'a value_serde \<Rightarrow> bool" where
  "value_roundtrip V \<longleftrightarrow>
     (\<forall>a j. vs_to_value V a = Inr j \<longrightarrow> is_value j \<and> vs_from_value V j = Inr a)"

definition to_entity_response :: "'s value_serde \<Rightarrow> 's entity \<Rightarrow> handler_error + entity_response" where
  "to_entity_response V e =
     map_ok (\<lambda>j. \<lparr>er_aggregate = ent_aggregate_id e, er_revision = ent_revision e, er_state = j\<rparr>)
       (map_err TerminalError (vs_to_value V (ent_state e)))"

section \<open>The generated in-process service\<close>

type_synonym ('w, 'st, 's, 'e) loader = "'st \<Rightarrow> aggregate_id \<Rightarrow> ('w, 'e, 's entity) action"

record ('st, 'sv) core_service =
  cs_store :: 'st
  cs_services :: 'sv

definition build_in_process :: "'svc \<Rightarrow> 'st \<Rightarrow> 'sv \<Rightarrow> ('st, 'sv) core_service" where
  "build_in_process definition_name store services = \<lparr>cs_store = store, cs_services = services\<rparr>"

definition core_load ::
  "('w, 'st, 's, 'el) loader \<Rightarrow> ('st, 'sv) core_service \<Rightarrow> aggregate_id \<Rightarrow> ('w, 'el, 's entity) action" where
  "core_load L S i = L (cs_store S) i"

definition core_dispatch_command ::
  "('w, 'st, 's, 'el) loader \<Rightarrow> ('el \<Rightarrow> 'eh) \<Rightarrow> ('w, ('st, 'sv) handler_env, 's, 'c, 'eh) handler \<Rightarrow>
    ('st, 'sv) core_service \<Rightarrow> aggregate_id \<Rightarrow> 'c \<Rightarrow> ('w, 'eh, 's entity) action" where
  "core_dispatch_command L from H S i cmd =
     seq_result (seq_err from (L (cs_store S) i)) (\<lambda>entity.
     seq_result (H (handler_env_new (cs_store S) (cs_services S)) entity cmd) (\<lambda>outcome.
       case outcome of
         OutcomeEntity e \<Rightarrow> give (Inr e)
       | Reload \<Rightarrow> seq_err from (L (cs_store S) i)))"

section \<open>The Restate context\<close>

text \<open>
  What a handler calls on its context: the object's key, \<open>run\<close> on a closure whose result is
  journaled as text (it fails with the message of a terminal error), the SDK's error for
  journaled text that does not deserialise, and a one-way call of a workflow's \<open>run\<close> with its
  name, its key and its payload.
\<close>

record 'w restate_ctx =
  rc_key :: string
  rc_run :: "('w, handler_error, string) action \<Rightarrow> ('w, string, string) action"
  rc_undecodable :: "json_error \<Rightarrow> handler_error"
  rc_send :: "string \<Rightarrow> string \<Rightarrow> string \<Rightarrow> 'w \<Rightarrow> 'w"

definition journaled ::
  "'w restate_ctx \<Rightarrow> ('a \<Rightarrow> string) \<Rightarrow> (string \<Rightarrow> json_error + 'a) \<Rightarrow> ('w, handler_error, 'a) action \<Rightarrow>
    ('w, handler_error, 'a) action" where
  "journaled C serialize deserialize m =
     seq_result
       (seq_err TerminalError (rc_run C (seq_result m (\<lambda>a. give (Inr (serialize a))))))
       (\<lambda>s. give (map_err (rc_undecodable C) (deserialize s)))"

text \<open>
  Documented behaviour of \<open>run\<close>: on the first attempt the closure runs, and a terminal error is
  its result; when the journal holds the result of an earlier attempt, the closure does not run.
\<close>

definition runs_closure :: "'w restate_ctx \<Rightarrow> bool" where
  "runs_closure C \<longleftrightarrow>
     (\<forall>m w s w'. m w = (Inr s, w') \<longrightarrow> rc_run C m w = (Inr s, w')) \<and>
     (\<forall>m w t w'. m w = (Inl (TerminalError t), w') \<longrightarrow> rc_run C m w = (Inl t, w'))"

definition replays :: "'w restate_ctx \<Rightarrow> string \<Rightarrow> bool" where
  "replays C s \<longleftrightarrow> (\<forall>m w. rc_run C m w = (Inr s, w))"

section \<open>The generated binding\<close>

text \<open>\<open>key().parse::<AggregateId>()\<close>.\<close>

definition binding_key :: "'w restate_ctx \<Rightarrow> handler_error + aggregate_id" where
  "binding_key C =
     map_err (\<lambda>e. TerminalError (aggregate_id_parse_error_display e)) (aggregate_id_from_str (rc_key C))"

definition binding_load ::
  "wire \<Rightarrow> ulid_codec \<Rightarrow> 's value_serde \<Rightarrow> 'w restate_ctx \<Rightarrow> ('w, 'st, 's, 'el) loader \<Rightarrow>
    ('el \<Rightarrow> handler_error) \<Rightarrow> ('st, 'sv) core_service \<Rightarrow> ('w, handler_error, entity_response) action" where
  "binding_load W U V C L into_l S =
     seq_result (give (binding_key C)) (\<lambda>i.
       journaled C (entity_response_serialize W) (entity_response_deserialize W U)
         (seq_result (seq_err into_l (L (cs_store S) i)) (\<lambda>e. give (to_entity_response V e))))"

text \<open>The closure up to the entity, the same with and without effects.\<close>

definition handle_command_once ::
  "('w, 'st, 's, 'el) loader \<Rightarrow> ('el \<Rightarrow> handler_error) \<Rightarrow>
    ('w, ('st, 'sv) handler_env, 's, 'c, 'eh) handler \<Rightarrow> ('eh \<Rightarrow> handler_error) \<Rightarrow>
    ('st, 'sv) core_service \<Rightarrow> aggregate_id \<Rightarrow> 'c \<Rightarrow> ('w, handler_error, 's entity) action" where
  "handle_command_once L into_l H into_h S i cmd =
     seq_result (seq_err into_l (L (cs_store S) i)) (\<lambda>entity.
     seq_result (seq_err into_h (H (handler_env_new (cs_store S) (cs_services S)) entity cmd))
       (\<lambda>outcome.
         case outcome of
           OutcomeEntity e \<Rightarrow> give (Inr e)
         | Reload \<Rightarrow> seq_err into_l (L (cs_store S) i)))"

definition binding_execute ::
  "wire \<Rightarrow> ulid_codec \<Rightarrow> 's value_serde \<Rightarrow> 'w restate_ctx \<Rightarrow> ('w, 'st, 's, 'el) loader \<Rightarrow>
    ('el \<Rightarrow> handler_error) \<Rightarrow> ('w, ('st, 'sv) handler_env, 's, 'c, 'eh) handler \<Rightarrow>
    ('eh \<Rightarrow> handler_error) \<Rightarrow> ('st, 'sv) core_service \<Rightarrow> 'c \<Rightarrow>
    ('w, handler_error, entity_response) action" where
  "binding_execute W U V C L into_l H into_h S cmd =
     seq_result (give (binding_key C)) (\<lambda>i.
       journaled C (entity_response_serialize W) (entity_response_deserialize W U)
         (seq_result (handle_command_once L into_l H into_h S i cmd)
           (\<lambda>e. give (to_entity_response V e))))"

section \<open>The generated binding with effects\<close>

text \<open>An entry of the \<open>effects\<close> block: a workflow and \<open>on all\<close>, \<open>on [..]\<close> or \<open>on predicate(..)\<close>.\<close>

datatype effect_filter_spec =
    SpecAll
  | SpecCommands "string list"  \<comment> \<open>each command's \<open>NAME\<close>\<close>
  | SpecPredicate "execute_notification \<Rightarrow> bool"

record effect_entry =
  ee_workflow :: string
  ee_filter :: effect_filter_spec

fun effect_filter :: "effect_filter_spec \<Rightarrow> side_effect_filter" where
  "effect_filter SpecAll = FilterAll"
| "effect_filter (SpecCommands names) = FilterNames (map CommandName names)"
| "effect_filter (SpecPredicate p) = FilterPredicate p"

fun dispatch_effects ::
  "wire \<Rightarrow> 'w restate_ctx \<Rightarrow> effect_entry list \<Rightarrow> execute_notification \<Rightarrow> 'w \<Rightarrow> 'w" where
  "dispatch_effects W C [] n w = w"
| "dispatch_effects W C (e # es) n w =
     dispatch_effects W C es n
       (if filter_matches (effect_filter (ee_filter e)) n
        then rc_send C (ee_workflow e) (rm_correlation_id (en_metadata n))
          (execute_notification_serialize W n) w
        else w)"

text \<open>
  The command type of the handler: its \<open>NAME\<close> and its serialisation. \<open>new_ulid\<close> is \<open>Ulid::new()\<close>,
  which reads clock and randomness.
\<close>

record ('w, 'c) command_env =
  ce_name :: string
  ce_serde :: "'c value_serde"
  ce_new_ulid :: "'w \<Rightarrow> ulid \<times> 'w"

definition make_notification ::
  "ulid_codec \<Rightarrow> ('w, 'c) command_env \<Rightarrow> aggregate_id \<Rightarrow> 'c \<Rightarrow> entity_response \<Rightarrow>
    ('w, handler_error, execute_notification) action" where
  "make_notification U K i cmd response w =
     (let name = CommandName (ce_name K); (u, w') = ce_new_ulid K w
      in (map_ok (\<lambda>j. \<lparr>en_command = \<lparr>cr_name = name, cr_target = i, cr_command = j\<rparr>,
                       en_response = response,
                       en_metadata = \<lparr>rm_correlation_id = restate_correlation_id U i name u,
                         rm_causation_id = None, rm_idempotency_key = None\<rparr>\<rparr>)
            (map_err TerminalError (vs_to_value (ce_serde K) cmd)), w'))"

definition execute_with_notification ::
  "ulid_codec \<Rightarrow> 's value_serde \<Rightarrow> ('w, 'c) command_env \<Rightarrow> ('w, 'st, 's, 'el) loader \<Rightarrow>
    ('el \<Rightarrow> handler_error) \<Rightarrow> ('w, ('st, 'sv) handler_env, 's, 'c, 'eh) handler \<Rightarrow>
    ('eh \<Rightarrow> handler_error) \<Rightarrow> ('st, 'sv) core_service \<Rightarrow> aggregate_id \<Rightarrow> 'c \<Rightarrow>
    ('w, handler_error, execute_notification) action" where
  "execute_with_notification U V K L into_l H into_h S i cmd =
     seq_result (handle_command_once L into_l H into_h S i cmd) (\<lambda>e.
     seq_result (give (to_entity_response V e)) (\<lambda>response.
       make_notification U K i cmd response))"

definition binding_execute_effects ::
  "wire \<Rightarrow> ulid_codec \<Rightarrow> 's value_serde \<Rightarrow> effect_entry list \<Rightarrow> ('w, 'c) command_env \<Rightarrow>
    'w restate_ctx \<Rightarrow> ('w, 'st, 's, 'el) loader \<Rightarrow> ('el \<Rightarrow> handler_error) \<Rightarrow>
    ('w, ('st, 'sv) handler_env, 's, 'c, 'eh) handler \<Rightarrow> ('eh \<Rightarrow> handler_error) \<Rightarrow>
    ('st, 'sv) core_service \<Rightarrow> 'c \<Rightarrow> ('w, handler_error, entity_response) action" where
  "binding_execute_effects W U V effects K C L into_l H into_h S cmd =
     seq_result (give (binding_key C)) (\<lambda>i.
     seq_result
       (journaled C (execute_notification_serialize W) (execute_notification_deserialize W U)
         (execute_with_notification U V K L into_l H into_h S i cmd)) (\<lambda>n w.
       (Inr (en_response n), dispatch_effects W C effects n w)))"

section \<open>The client\<close>

datatype restate_error =
    RestateTransport string
  | RestateDecode decode_error
  | RestateEncode encode_error
  | RestateBackend string
  | RestateRejection rejection
  | RestateStore error

definition restate_error_from_json :: "json_error \<Rightarrow> restate_error" where
  "restate_error_from_json e = RestateDecode (DecodeJson e)"

fun restate_error_from_codec :: "codec_error \<Rightarrow> restate_error" where
  "restate_error_from_codec (CodecEncode e) = RestateEncode e"
| "restate_error_from_codec (CodecDecode e) = RestateDecode e"

fun restate_error_from_service :: "('e \<Rightarrow> string) \<Rightarrow> 'e service_error \<Rightarrow> restate_error" where
  "restate_error_from_service display (Rejected r) = RestateRejection r"
| "restate_error_from_service display (CodecFailed e) = restate_error_from_codec e"
| "restate_error_from_service display (StoreFailed e) = RestateBackend (display e)"

text \<open>
  The client's surroundings: posting a body to a URL, and \<open>nanoid!()\<close>, which draws randomness
  from the world.
\<close>

record 'w ingress =
  in_url :: string
  in_post :: "string \<Rightarrow> json \<Rightarrow> ('w, string, http_response) action"
  in_nanoid :: "'w \<Rightarrow> string \<times> 'w"

definition encode_key :: "aggregate_id \<Rightarrow> string" where
  "encode_key target = aggregate_type_str (aggregate_type target) @ '':'' @ aggregate_key target"

definition generate_correlation_id :: "aggregate_id \<Rightarrow> command_name \<Rightarrow> string \<Rightarrow> string" where
  "generate_correlation_id target name nano =
     encode_key target @ ''-'' @ command_name_str name @ ''-'' @ nano"

definition parse_entity_response :: "'s value_serde \<Rightarrow> entity_response \<Rightarrow> restate_error + 's entity" where
  "parse_entity_response V r =
     map_ok (\<lambda>s. \<lparr>ent_aggregate_id = er_aggregate r, ent_revision = er_revision r, ent_state = s\<rparr>)
       (map_err restate_error_from_json (vs_from_value V (er_state r)))"

text \<open>
  An error body is a rejection, or an envelope whose \<open>message\<close> is the text of one, or unknown.
\<close>

definition parse_error_response :: "wire \<Rightarrow> http_response \<Rightarrow> restate_error" where
  "parse_error_response W resp =
     (let body = (case rs_text resp of None \<Rightarrow> [] | Some t \<Rightarrow> t)
      in case wire_read W rejection_read body of
           Inr rejection \<Rightarrow> RestateRejection rejection
         | Inl _ \<Rightarrow>
             (case wire_read W (\<lambda>j. Some (json_value j)) body of
                Inl _ \<Rightarrow> RestateBackend body
              | Inr envelope \<Rightarrow>
                  (case Option.bind (value_get ''message'' envelope) json_string of
                     None \<Rightarrow> RestateBackend body
                   | Some message \<Rightarrow>
                       (case wire_read W rejection_read message of
                          Inr rejection \<Rightarrow> RestateRejection rejection
                        | Inl _ \<Rightarrow> RestateBackend body))))"

definition is_success :: "nat \<Rightarrow> bool" where
  "is_success status = (200 \<le> status \<and> status \<le> 299)"

text \<open>
  What \<open>load\<close>, \<open>execute\<close> and \<open>execute_idempotent\<close> do with the response. A body that is not an
  \<open>EntityResponse\<close> is an error of \<open>reqwest\<close>.
\<close>

definition entity_of_response ::
  "wire \<Rightarrow> ulid_codec \<Rightarrow> 's value_serde \<Rightarrow> http_response \<Rightarrow> restate_error + 's entity" where
  "entity_of_response W U V resp =
     (if \<not> is_success (rs_status resp) then Inl (parse_error_response W resp)
      else and_then
        (map_err RestateTransport
          (and_then (rs_json resp) (\<lambda>j. ok_or (wire_mismatch W j) (entity_response_read U j))))
        (parse_entity_response V))"

definition client_load ::
  "wire \<Rightarrow> ulid_codec \<Rightarrow> 's value_serde \<Rightarrow> 'w ingress \<Rightarrow> string \<Rightarrow> aggregate_id \<Rightarrow>
    ('w, restate_error, 's entity) action" where
  "client_load W U V I service i =
     seq_result
       (seq_err RestateTransport
         (in_post I (in_url I @ ''/'' @ loader_name service @ ''/load'') (aggregate_id_json i)))
       (\<lambda>resp. give (entity_of_response W U V resp))"

definition post_execute ::
  "wire \<Rightarrow> ulid_codec \<Rightarrow> 's value_serde \<Rightarrow> 'w ingress \<Rightarrow> string \<Rightarrow> string \<Rightarrow> execute_request \<Rightarrow>
    ('w, restate_error, 's entity) action" where
  "post_execute W U V I service workflow_id request =
     seq_result
       (seq_err RestateTransport
         (in_post I (in_url I @ ''/'' @ executor_name service @ ''/'' @ workflow_id @ ''/run'')
           (execute_request_json request)))
       (\<lambda>resp. give (entity_of_response W U V resp))"

definition client_execute ::
  "wire \<Rightarrow> ulid_codec \<Rightarrow> 's value_serde \<Rightarrow> 'w ingress \<Rightarrow> string \<Rightarrow> aggregate_id \<Rightarrow> command_name \<Rightarrow>
    json \<Rightarrow> ('w, restate_error, 's entity) action" where
  "client_execute W U V I service i name command w =
     (let (nano, w') = in_nanoid I w; correlation = generate_correlation_id i name nano
      in post_execute W U V I service correlation
           \<lparr>xr_command = \<lparr>cr_name = name, cr_target = i, cr_command = command\<rparr>,
            xr_metadata = \<lparr>rm_correlation_id = correlation, rm_causation_id = None,
              rm_idempotency_key = None\<rparr>\<rparr> w')"

definition client_execute_idempotent ::
  "wire \<Rightarrow> ulid_codec \<Rightarrow> 's value_serde \<Rightarrow> 'w ingress \<Rightarrow> string \<Rightarrow> command_name \<Rightarrow> aggregate_id \<Rightarrow>
    json \<Rightarrow> string \<Rightarrow> ('w, restate_error, 's entity) action" where
  "client_execute_idempotent W U V I service name target command key w =
     (let (nano, w') = in_nanoid I w; correlation = generate_correlation_id target name nano
      in post_execute W U V I service key
           \<lparr>xr_command = \<lparr>cr_name = name, cr_target = target, cr_command = command\<rparr>,
            xr_metadata = \<lparr>rm_correlation_id = correlation, rm_causation_id = None,
              rm_idempotency_key = Some key\<rparr>\<rparr> w')"

text \<open>\<open>DispatchCommand\<close> and \<open>TypedService::load\<close> of \<open>RestateClient\<close>.\<close>

definition client_dispatch_command ::
  "wire \<Rightarrow> ulid_codec \<Rightarrow> 's value_serde \<Rightarrow> 'w ingress \<Rightarrow> string \<Rightarrow> 'c value_serde \<Rightarrow> string \<Rightarrow>
    aggregate_id \<Rightarrow> 'c \<Rightarrow> ('w, restate_error, 's entity) action" where
  "client_dispatch_command W U V I service VC name i cmd =
     seq_result (give (map_err restate_error_from_json (vs_to_value VC cmd)))
       (client_execute W U V I service i (CommandName name))"

section \<open>The binding agrees with the in-process service\<close>

text \<open>
  \<open>From<EL> for EH\<close> does not change the error that Restate is told, and every error is terminal.
\<close>

definition lifts_errors ::
  "('el \<Rightarrow> handler_error) \<Rightarrow> ('el \<Rightarrow> 'eh) \<Rightarrow> ('eh \<Rightarrow> handler_error) \<Rightarrow> bool" where
  "lifts_errors into_l from into_h \<longleftrightarrow>
     (\<forall>e. into_h (from e) = into_l e) \<and> (\<forall>e. \<exists>t. into_h e = TerminalError t)"

lemma service_error_terminal: "\<exists>t. service_error_into_handler W display e = TerminalError t"
  by (cases e) simp_all

lemma lifts_service_errors:
  "lifts_errors (service_error_into_handler W display) (\<lambda>e. e) (service_error_into_handler W display)"
  by (simp add: lifts_errors_def service_error_terminal)

lemma handle_command_once_core:
  assumes "lifts_errors into_l from into_h"
  shows "handle_command_once L into_l H into_h S i cmd =
    seq_err into_h (core_dispatch_command L from H S i cmd)"
proof -
  have "(\<lambda>e. into_h (from e)) = into_l" using assms by (auto simp: lifts_errors_def)
  then show ?thesis
    by (simp add: handle_command_once_def core_dispatch_command_def seq_err_seq_result
        seq_err_seq_err seq_err_give handler_outcome.case_distrib [of "seq_err into_h"]
        cong: handler_outcome.case_cong)
qed

lemma binding_key_display [simp]:
  "rc_key C = aggregate_id_display i \<Longrightarrow> printable_id i \<Longrightarrow> binding_key C = Inr i"
  using aggregate_id_from_str_Inr [of "aggregate_id_display i" i] by (simp add: binding_key_def)

lemma journaled_ok:
  assumes "runs_closure C" and "m w = (Inr a, w')" and "deserialize (serialize a) = Inr a"
  shows "journaled C serialize deserialize m w = (Inr a, w')"
proof -
  have "seq_result m (\<lambda>a. give (Inr (serialize a))) w = (Inr (serialize a), w')"
    using assms(2) by (simp add: give_def)
  with assms(1) have "rc_run C (seq_result m (\<lambda>a. give (Inr (serialize a)))) w = (Inr (serialize a), w')"
    by (simp add: runs_closure_def)
  with assms(3) show ?thesis by (simp add: journaled_def result_simps)
qed

lemma journaled_terminal:
  assumes "runs_closure C" and "m w = (Inl (TerminalError t), w')"
  shows "journaled C serialize deserialize m w = (Inl (TerminalError t), w')"
proof -
  have "seq_result m (\<lambda>a. give (Inr (serialize a))) w = (Inl (TerminalError t), w')"
    using assms(2) by simp
  with assms(1) have "rc_run C (seq_result m (\<lambda>a. give (Inr (serialize a)))) w = (Inl t, w')"
    by (simp add: runs_closure_def)
  then show ?thesis by (simp add: journaled_def result_simps)
qed

lemma journaled_replay:
  assumes "replays C (serialize a)" and "deserialize (serialize a) = Inr a"
  shows "journaled C serialize deserialize m w = (Inr a, w)"
  using assms by (simp add: journaled_def replays_def result_simps)

lemma entity_response_deserialize_serialize:
  "ulid_laws U \<Longrightarrow> valid_revision U (er_revision r) \<Longrightarrow> is_value (er_state r) \<Longrightarrow>
    wire_stable W (entity_response_json r) \<Longrightarrow>
    entity_response_deserialize W U (entity_response_serialize W r) = Inr r"
  by (simp add: entity_response_deserialize_def entity_response_serialize_def)

lemma execute_notification_deserialize_serialize:
  "ulid_laws U \<Longrightarrow> valid_revision U (er_revision (en_response n)) \<Longrightarrow>
    is_value (er_state (en_response n)) \<Longrightarrow> is_value (cr_command (en_command n)) \<Longrightarrow>
    wire_stable W (execute_notification_json n) \<Longrightarrow>
    execute_notification_deserialize W U (execute_notification_serialize W n) = Inr n"
  by (simp add: execute_notification_deserialize_def execute_notification_serialize_def)

lemma to_entity_response_ok:
  "value_roundtrip V \<Longrightarrow> to_entity_response V e = Inr r \<Longrightarrow>
    er_revision r = ent_revision e \<and> er_aggregate r = ent_aggregate_id e \<and> is_value (er_state r) \<and>
    vs_from_value V (er_state r) = Inr (ent_state e)"
  by (auto simp: to_entity_response_def result_simps value_roundtrip_def)

lemma to_entity_response_terminal:
  "to_entity_response V e = Inl d \<Longrightarrow> \<exists>t. d = TerminalError t"
  by (auto simp: to_entity_response_def result_simps)

end
