(* ===== verification/RestateContract.thy ===== *)
theory RestateContract
  imports RestateService
begin

text \<open>
  What a caller of a service sees through Restate: the generated binding answers as the generated
  in-process service does, effects are sent after a success only, a retried invocation repeats the
  journaled notification, and the client reads the answers in the format the binding gives them.
\<close>

section \<open>What a binding answers\<close>

text \<open>The response for an entity survives the journal: serde_json reads it back.\<close>

definition response_wire :: "wire \<Rightarrow> ulid_codec \<Rightarrow> 's value_serde \<Rightarrow> 's entity \<Rightarrow> bool" where
  "response_wire W U V e \<longleftrightarrow>
     valid_revision U (ent_revision e) \<and>
     (\<forall>r. to_entity_response V e = Inr r \<longrightarrow> wire_stable W (entity_response_json r))"

lemma response_wire_reads:
  assumes "ulid_laws U" and "value_roundtrip V" and "response_wire W U V e"
    and "to_entity_response V e = Inr r"
  shows "entity_response_read U (entity_response_json r) = Some r"
    and "entity_response_deserialize W U (entity_response_serialize W r) = Inr r"
    and "parse_entity_response V r = Inr e"
  using assms to_entity_response_ok [OF assms(2,4)]
  by (simp_all add: response_wire_def entity_response_deserialize_serialize parse_entity_response_def)

lemma binding_execute_cases:
  assumes "runs_closure C" and "rc_key C = aggregate_id_display i" and "printable_id i"
    and "lifts_errors into_l from into_h" and "ulid_laws U" and "value_roundtrip V"
    and core: "core_dispatch_command L from H S i cmd w = (x, w')"
    and wires: "\<And>e. x = Inr e \<Longrightarrow> response_wire W U V e"
  shows "binding_execute W U V C L into_l H into_h S cmd w =
    (and_then (map_err into_h x) (to_entity_response V), w')"
proof -
  let ?m = "seq_result (handle_command_once L into_l H into_h S i cmd)
    (\<lambda>e. give (to_entity_response V e))"
  have m: "?m w = (and_then (map_err into_h x) (to_entity_response V), w')"
    using core by (cases x)
      (simp_all add: handle_command_once_core [OF assms(4)] seq_result_def seq_err_def give_def)
  have "journaled C (entity_response_serialize W) (entity_response_deserialize W U) ?m w =
      (and_then (map_err into_h x) (to_entity_response V), w')"
  proof (cases "and_then (map_err into_h x) (to_entity_response V)")
    case (Inl d)
    then have "\<exists>t. d = TerminalError t"
      using assms(4) to_entity_response_terminal
      by (auto simp: result_simps lifts_errors_def)
    with Inl m show ?thesis using journaled_terminal [OF assms(1)] by auto
  next
    case (Inr r)
    then obtain e where "x = Inr e" and r: "to_entity_response V e = Inr r"
      by (auto simp: result_simps)
    from response_wire_reads(2) [OF assms(5,6) wires [OF this(1)] r] m Inr
    show ?thesis using journaled_ok [OF assms(1)] by simp
  qed
  with assms(2,3) show ?thesis
    by (simp add: binding_execute_def seq_result_def give_def)
qed

text \<open>
  C19: the virtual object generated for Restate and the in-process service generated from the same
  declaration agree: on the key of an aggregate, with a journal that runs the closure, a command
  changes the world in the same way, its entity is answered as the response made from it, and its
  error as the handler error made from it.
\<close>

theorem restate_agrees_in_process:
  assumes "runs_closure C" and "rc_key C = aggregate_id_display i" and "printable_id i"
    and "lifts_errors into_l from into_h" and "ulid_laws U" and "value_roundtrip V"
    and "\<forall>e w'. core_dispatch_command L from H S i cmd w = (Inr e, w') \<longrightarrow> response_wire W U V e"
  shows "binding_execute W U V C L into_l H into_h S cmd w =
    (let (x, w') = core_dispatch_command L from H S i cmd w
     in (and_then (map_err into_h x) (to_entity_response V), w'))"
proof (cases "core_dispatch_command L from H S i cmd w")
  case (Pair x w')
  with assms(7) show ?thesis by (simp add: binding_execute_cases [OF assms(1-6) Pair])
qed

section \<open>Effects\<close>

lemma dispatch_effects_matching:
  "dispatch_effects W C effects n w =
     foldl (\<lambda>w e. rc_send C (ee_workflow e) (rm_correlation_id (en_metadata n))
         (execute_notification_serialize W n) w) w
       (filter (\<lambda>e. filter_matches (effect_filter (ee_filter e)) n) effects)"
  by (induction effects arbitrary: w) auto

lemma execute_with_notification_ok:
  assumes "execute_with_notification U V K L into_l H into_h S i cmd w = (Inr n, w')"
    and "lifts_errors into_l from into_h" and "value_roundtrip (ce_serde K)"
  obtains e w1 where "core_dispatch_command L from H S i cmd w = (Inr e, w1)"
    and "to_entity_response V e = Inr (en_response n)" and "w' = snd (ce_new_ulid K w1)"
    and "is_value (cr_command (en_command n))"
proof -
  from assms(1,2) obtain e w1 r where core: "core_dispatch_command L from H S i cmd w = (Inr e, w1)"
    and r: "to_entity_response V e = Inr r" and n: "make_notification U K i cmd r w1 = (Inr n, w')"
    by (auto simp: execute_with_notification_def handle_command_once_core result_simps)
  from n have "en_response n = r" and "w' = snd (ce_new_ulid K w1)"
    and "vs_to_value (ce_serde K) cmd = Inr (cr_command (en_command n))"
    by (auto simp: make_notification_def result_simps Let_def split: prod.splits)
  with that core r assms(3) show thesis by (metis value_roundtrip_def)
qed

definition notification_wire :: "wire \<Rightarrow> ulid_codec \<Rightarrow> execute_notification \<Rightarrow> bool" where
  "notification_wire W U n \<longleftrightarrow>
     valid_revision U (er_revision (en_response n)) \<and> wire_stable W (execute_notification_json n)"

lemma journaled_notification:
  assumes "ulid_laws U" and "value_roundtrip V" and "lifts_errors into_l from into_h"
    and "value_roundtrip (ce_serde K)"
    and "execute_with_notification U V K L into_l H into_h S i cmd w = (Inr n, w')"
    and "notification_wire W U n"
  shows "execute_notification_deserialize W U (execute_notification_serialize W n) = Inr n"
proof -
  from execute_with_notification_ok [OF assms(5,3,4)] obtain e w1
    where "to_entity_response V e = Inr (en_response n)" and "is_value (cr_command (en_command n))"
    by metis
  with to_entity_response_ok [OF assms(2)] assms(1,6) show ?thesis
    by (simp add: execute_notification_deserialize_serialize notification_wire_def)
qed

lemma binding_effects_ok:
  assumes "runs_closure C" and "rc_key C = aggregate_id_display i" and "printable_id i"
    and "execute_with_notification U V K L into_l H into_h S i cmd w = (Inr n, w')"
    and "execute_notification_deserialize W U (execute_notification_serialize W n) = Inr n"
  shows "binding_execute_effects W U V effects K C L into_l H into_h S cmd w =
    (Inr (en_response n), dispatch_effects W C effects n w')"
proof -
  have "journaled C (execute_notification_serialize W) (execute_notification_deserialize W U)
      (execute_with_notification U V K L into_l H into_h S i cmd) w = (Inr n, w')"
    by (rule journaled_ok) (rule assms)+
  with assms(2,3) show ?thesis
    by (simp add: binding_execute_effects_def seq_result_def give_def)
qed

lemma binding_effects_terminal:
  assumes "runs_closure C" and "rc_key C = aggregate_id_display i" and "printable_id i"
    and "execute_with_notification U V K L into_l H into_h S i cmd w = (Inl (TerminalError t), w')"
  shows "binding_execute_effects W U V effects K C L into_l H into_h S cmd w =
    (Inl (TerminalError t), w')"
proof -
  have "journaled C (execute_notification_serialize W) (execute_notification_deserialize W U)
      (execute_with_notification U V K L into_l H into_h S i cmd) w = (Inl (TerminalError t), w')"
    by (rule journaled_terminal) (rule assms)+
  with assms(2,3) show ?thesis
    by (simp add: binding_execute_effects_def seq_result_def give_def)
qed

text \<open>
  C20: effects follow success. A command that fails in-process fails here with the same error and
  sends nothing. One that yields an entity, when the entity and the command serialise, answers the
  entity's response and sends, in the order of the declaration and after the world has changed,
  one notification to exactly the workflows whose filter matches, each keyed by the invocation's
  correlation id. When the entity's state or the command itself does not serialise, the invocation
  ends in a terminal error and sends nothing, although the command has taken effect in the world.
\<close>

theorem effects_follow_success:
  assumes "runs_closure C" and "rc_key C = aggregate_id_display i" and "printable_id i"
    and "lifts_errors into_l from into_h" and "ulid_laws U" and "value_roundtrip V"
    and "value_roundtrip (ce_serde K)"
    and "\<forall>n w'. execute_with_notification U V K L into_l H into_h S i cmd w = (Inr n, w') \<longrightarrow>
      notification_wire W U n"
  shows "case core_dispatch_command L from H S i cmd w of
      (Inl e, w') \<Rightarrow>
        binding_execute_effects W U V effects K C L into_l H into_h S cmd w = (Inl (into_h e), w')
    | (Inr e, w') \<Rightarrow>
        (case to_entity_response V e of
           Inl h \<Rightarrow>
             (\<exists>m. vs_to_value V (ent_state e) = Inl m \<and> h = TerminalError m) \<and>
             binding_execute_effects W U V effects K C L into_l H into_h S cmd w = (Inl h, w')
         | Inr r \<Rightarrow>
             (case vs_to_value (ce_serde K) cmd of
                Inl m \<Rightarrow>
                  binding_execute_effects W U V effects K C L into_l H into_h S cmd w =
                    (Inl (TerminalError m), snd (ce_new_ulid K w'))
              | Inr j \<Rightarrow>
                  (\<exists>n. en_command n = \<lparr>cr_name = CommandName (ce_name K), cr_target = i, cr_command = j\<rparr> \<and>
                     en_response n = r \<and>
                     rm_correlation_id (en_metadata n) =
                       restate_correlation_id U i (CommandName (ce_name K)) (fst (ce_new_ulid K w')) \<and>
                     binding_execute_effects W U V effects K C L into_l H into_h S cmd w =
                       (Inr r, foldl (\<lambda>w x. rc_send C (ee_workflow x) (rm_correlation_id (en_metadata n))
                           (execute_notification_serialize W n) w) (snd (ce_new_ulid K w'))
                         (filter (\<lambda>x. filter_matches (effect_filter (ee_filter x)) n) effects)))))"
proof (cases "core_dispatch_command L from H S i cmd w")
  case (Pair x w')
  note run_defs = execute_with_notification_def seq_err_def give_def make_notification_def Let_def
    handle_command_once_core [OF assms(4)]
  note terminal = binding_effects_terminal [OF assms(1-3)]
  show ?thesis
  proof (cases x)
    case (Inl e)
    from assms(4) obtain t where t: "into_h e = TerminalError t" by (auto simp: lifts_errors_def)
    have "execute_with_notification U V K L into_l H into_h S i cmd w = (Inl (into_h e), w')"
      using Pair Inl by (simp add: run_defs)
    with terminal Pair Inl t show ?thesis by simp
  next
    case (Inr e)
    show ?thesis
    proof (cases "to_entity_response V e")
      case (Inl h)
      then obtain m where m: "vs_to_value V (ent_state e) = Inl m" "h = TerminalError m"
        by (auto simp: to_entity_response_def result_simps)
      have "execute_with_notification U V K L into_l H into_h S i cmd w = (Inl (TerminalError m), w')"
        using Pair \<open>x = Inr e\<close> Inl m by (simp add: run_defs)
      with terminal Pair \<open>x = Inr e\<close> Inl m show ?thesis by simp
    next
      case (Inr r)
      show ?thesis
      proof (cases "vs_to_value (ce_serde K) cmd")
        case (Inl m)
        have "execute_with_notification U V K L into_l H into_h S i cmd w =
            (Inl (TerminalError m), snd (ce_new_ulid K w'))"
          using Pair \<open>x = Inr e\<close> Inr Inl by (simp add: run_defs split: prod.split)
        with terminal Pair \<open>x = Inr e\<close> Inr Inl show ?thesis by simp
      next
        case j: (Inr j)
        define n where "n = \<lparr>en_command =
            \<lparr>cr_name = CommandName (ce_name K), cr_target = i, cr_command = j\<rparr>, en_response = r,
          en_metadata = \<lparr>rm_correlation_id =
              restate_correlation_id U i (CommandName (ce_name K)) (fst (ce_new_ulid K w')),
            rm_causation_id = None, rm_idempotency_key = None\<rparr>\<rparr>"
        have run: "execute_with_notification U V K L into_l H into_h S i cmd w =
            (Inr n, snd (ce_new_ulid K w'))"
          using Pair \<open>x = Inr e\<close> Inr j by (simp add: run_defs n_def split: prod.split)
        from binding_effects_ok [OF assms(1-3) run]
          journaled_notification [OF assms(5,6,4,7) run] assms(8) run
        show ?thesis using Pair \<open>x = Inr e\<close> Inr j
          by (simp add: dispatch_effects_matching) (rule exI [of _ n], simp add: n_def)
      qed
    qed
  qed
qed

section \<open>Retries\<close>

text \<open>
  C22: a retried invocation is harmless. Once an attempt has journaled its notification, any later
  attempt of the invocation gives the same answer without running loader or handler again,
  leaves the rest of the world alone, and sends the same notification under the same keys.
\<close>

theorem retry_repeats_notification:
  assumes "runs_closure C" and "rc_key C = aggregate_id_display i" and "printable_id i"
    and "lifts_errors into_l from into_h" and "ulid_laws U" and "value_roundtrip V"
    and "value_roundtrip (ce_serde K)"
    and "execute_with_notification U V K L into_l H into_h S i cmd w = (Inr n, w1)"
    and "notification_wire W U n"
    and "replays C' (execute_notification_serialize W n)" and "rc_key C' = rc_key C"
  shows "binding_execute_effects W U V effects K C L into_l H into_h S cmd w =
      (Inr (en_response n), dispatch_effects W C effects n w1) \<and>
    binding_execute_effects W U V effects K C' L' into_l' H' into_h' S' cmd' v =
      (Inr (en_response n), dispatch_effects W C' effects n v)"
proof -
  note reads = journaled_notification [OF assms(5,6,4,7,8,9)]
  from journaled_replay [of C' "execute_notification_serialize W" n "execute_notification_deserialize W U", OF assms(10) reads]
    assms(2,3,11)
  show ?thesis
    by (simp add: binding_effects_ok [OF assms(1-3,8) reads])
      (simp add: binding_execute_effects_def seq_result_def give_def)
qed

section \<open>Over HTTP\<close>









section \<open>A service for the witnesses\<close>

text \<open>
  A counter whose state and commands are numbers, written in unary; the command 0 is rejected. The
  world lists what was sent, and the text of the few values at hand is a table.
\<close>

definition table_wire :: "(string \<times> json) list \<Rightarrow> wire" where
  "table_wire tbl =
     \<lparr>wire_text = (\<lambda>j. case find (\<lambda>(_, v). v = j) tbl of Some (k, _) \<Rightarrow> k | None \<Rightarrow> ''?''),
      wire_parse = (\<lambda>s. ok_or ''syntax'' (map_of tbl s)), wire_mismatch = (\<lambda>_. ''mismatch'')\<rparr>"

definition unary :: "nat value_serde" where
  "unary = \<lparr>vs_to_value = (\<lambda>n. Inr (JString (replicate n CHR ''I''))),
     vs_from_value = (\<lambda>j. ok_or ''not a string'' (map_option length (json_string j)))\<rparr>"

type_synonym sends = "(string \<times> string \<times> string) list"

definition first_attempt :: "string \<Rightarrow> sends restate_ctx" where
  "first_attempt key =
     \<lparr>rc_key = key,
      rc_run = (\<lambda>m w. case m w of
          (Inr s, w') \<Rightarrow> (Inr s, w')
        | (Inl (TerminalError t), w') \<Rightarrow> (Inl t, w')
        | (Inl (RetryableError t), w') \<Rightarrow> (Inl t, w')),
      rc_undecodable = TerminalError,
      rc_send = (\<lambda>wf k p w. w @ [(wf, k, p)])\<rparr>"

definition later_attempt :: "string \<Rightarrow> string \<Rightarrow> sends restate_ctx" where
  "later_attempt key s = (first_attempt key)\<lparr>rc_run := (\<lambda>m w. (Inr s, w))\<rparr>"

definition counter_loader :: "(sends, nat, nat, error service_error) loader" where
  "counter_loader st i = give (Inr \<lparr>ent_aggregate_id = i, ent_revision = revision_zero, ent_state = st\<rparr>)"

definition counter_rejection :: rejection where
  "counter_rejection = rejection_new ''zero'' ''nothing to add''"

definition counter_handler ::
  "(sends, (nat, unit) handler_env, nat, nat, error service_error) handler" where
  "counter_handler ctx entity cmd =
     (if cmd = 0 then give (Inl (Rejected counter_rejection))
      else give (Inr (OutcomeEntity (entity\<lparr>ent_state := ent_state entity + cmd\<rparr>))))"

definition counter_env :: "(sends, nat) command_env" where
  "counter_env = \<lparr>ce_name = ''add'', ce_serde = unary, ce_new_ulid = (\<lambda>w. (0, w))\<rparr>"

definition counter_service :: "(nat, unit) core_service" where
  "counter_service = build_in_process () 2 ()"

definition counter_id :: aggregate_id where
  "counter_id = aggregate_id_new ''counter'' ''c1''"

definition counter_entity :: "nat entity" where
  "counter_entity = \<lparr>ent_aggregate_id = counter_id, ent_revision = revision_zero, ent_state = 5\<rparr>"

definition counter_response :: entity_response where
  "counter_response = \<lparr>er_aggregate = counter_id, er_revision = revision_zero,
     er_state = JString ''IIIII''\<rparr>"

definition counter_notification :: execute_notification where
  "counter_notification =
     \<lparr>en_command = \<lparr>cr_name = CommandName ''add'', cr_target = counter_id, cr_command = JString ''III''\<rparr>,
      en_response = counter_response,
      en_metadata = \<lparr>rm_correlation_id = ''counter:c1-add-'' @ ulid_to_string crockford_codec 0,
        rm_causation_id = None, rm_idempotency_key = None\<rparr>\<rparr>"

definition counter_envelope :: json where
  "counter_envelope = JObject [(''code'', JNumber ''500''), (''message'', JString ''rejection'')]"

definition counter_wire :: wire where
  "counter_wire = table_wire
     [(''response'', entity_response_json counter_response),
      (''notification'', execute_notification_json counter_notification),
      (''rejection'', rejection_payload counter_rejection), (''envelope'', counter_envelope)]"

lemma counter_wire_stable:
  "wire_stable counter_wire (entity_response_json counter_response)"
  "wire_stable counter_wire (execute_notification_json counter_notification)"
  "wire_stable counter_wire (rejection_payload counter_rejection)"
  "wire_text counter_wire (rejection_payload counter_rejection) = ''rejection''"
  "wire_parse counter_wire ''envelope'' = Inr counter_envelope"
  by (simp_all add: wire_stable_def counter_wire_def table_wire_def ok_or_def
      entity_response_json_def execute_notification_json_def rejection_payload_def)

lemma unary_roundtrip: "value_roundtrip unary"
  by (auto simp: value_roundtrip_def unary_def ok_or_def)

lemma first_attempt_runs: "runs_closure (first_attempt key)"
  by (simp add: runs_closure_def first_attempt_def)

lemma first_attempt_key [simp]: "rc_key (first_attempt key) = key"
  by (simp add: first_attempt_def)

lemma counter_id_printable: "printable_id counter_id"
  by (simp add: printable_id_def counter_id_def aggregate_id_new_def)

lemmas counter_defs = counter_loader_def counter_handler_def counter_service_def
  build_in_process_def give_def seq_err_def

lemma counter_core:
  "core_dispatch_command counter_loader (\<lambda>e. e) counter_handler counter_service counter_id 3 w =
     (Inr counter_entity, w)"
  "core_dispatch_command counter_loader (\<lambda>e. e) counter_handler counter_service counter_id 0 w =
     (Inl (Rejected counter_rejection), w)"
  by (simp_all add: core_dispatch_command_def counter_defs counter_entity_def)

lemma counter_to_response: "to_entity_response unary counter_entity = Inr counter_response"
  by (simp add: to_entity_response_def unary_def counter_entity_def counter_response_def
      eval_nat_numeral)

lemma counter_response_wire: "response_wire counter_wire crockford_codec unary counter_entity"
  using counter_to_response
  by (simp add: response_wire_def counter_wire_stable) (simp add: counter_entity_def)

abbreviation counter_into :: "error service_error \<Rightarrow> handler_error" where
  "counter_into \<equiv> service_error_into_handler counter_wire (\<lambda>_. ''store'')"

theorem restate_agrees_in_process_witness:
  "binding_execute counter_wire crockford_codec unary
     (first_attempt (aggregate_id_display counter_id)) counter_loader counter_into
     counter_handler counter_into counter_service 3 [] = (Inr counter_response, [])"
  using restate_agrees_in_process [OF first_attempt_runs first_attempt_key counter_id_printable
      lifts_service_errors crockford_laws unary_roundtrip,
      of counter_loader counter_handler counter_service 3 "[]" counter_wire]
    counter_response_wire
  by (simp add: counter_core counter_to_response)



lemma counter_run:
  "execute_with_notification crockford_codec unary counter_env counter_loader counter_into
     counter_handler counter_into counter_service counter_id 3 w = (Inr counter_notification, w)"
  by (simp add: execute_with_notification_def handle_command_once_core [OF lifts_service_errors]
      seq_err_def counter_core give_def counter_to_response make_notification_def counter_env_def)
    (simp add: counter_notification_def unary_def restate_correlation_id_def counter_id_def
      aggregate_id_display_def aggregate_id_new_def eval_nat_numeral)

lemma counter_notification_wire:
  "notification_wire counter_wire crockford_codec counter_notification"
  by (simp add: notification_wire_def counter_wire_stable)
    (simp add: counter_notification_def counter_response_def)

lemma counter_command:
  "ce_name counter_env = ''add''" "ce_new_ulid counter_env w = (0, w)"
  "vs_to_value (ce_serde counter_env) 3 = Inr (JString ''III'')"
  by (simp_all add: counter_env_def unary_def eval_nat_numeral)

lemma counter_send: "rc_send (first_attempt key) name k p w = w @ [(name, k, p)]"
  by (simp add: first_attempt_def)

theorem effects_follow_success_witness:
  "\<exists>n. binding_execute_effects counter_wire crockford_codec unary
     [\<lparr>ee_workflow = ''Audit'', ee_filter = SpecAll\<rparr>,
      \<lparr>ee_workflow = ''Mail'', ee_filter = SpecCommands [''sub'']\<rparr>] counter_env
     (first_attempt (aggregate_id_display counter_id)) counter_loader counter_into
     counter_handler counter_into counter_service 3 [] =
   (Inr counter_response, [(''Audit'', rm_correlation_id (en_metadata n),
     execute_notification_serialize counter_wire n)])"
proof -
  have serde: "value_roundtrip (ce_serde counter_env)" by (simp add: counter_env_def unary_roundtrip)
  have "\<forall>n w'. execute_with_notification crockford_codec unary counter_env counter_loader counter_into
      counter_handler counter_into counter_service counter_id 3 [] = (Inr n, w') \<longrightarrow>
      notification_wire counter_wire crockford_codec n"
    by (simp add: counter_run counter_notification_wire)
  note all = effects_follow_success [where effects = "[\<lparr>ee_workflow = ''Audit'', ee_filter = SpecAll\<rparr>,
      \<lparr>ee_workflow = ''Mail'', ee_filter = SpecCommands [''sub'']\<rparr>]",
      OF first_attempt_runs first_attempt_key counter_id_printable
      lifts_service_errors crockford_laws unary_roundtrip serde this]
  from all [unfolded counter_core prod.case sum.case counter_to_response counter_command counter_send
      fst_conv snd_conv]
  obtain n where name: "en_command n =
      \<lparr>cr_name = CommandName ''add'', cr_target = counter_id, cr_command = JString ''III''\<rparr>"
    and run: "binding_execute_effects counter_wire crockford_codec unary
      [\<lparr>ee_workflow = ''Audit'', ee_filter = SpecAll\<rparr>,
       \<lparr>ee_workflow = ''Mail'', ee_filter = SpecCommands [''sub'']\<rparr>] counter_env
      (first_attempt (aggregate_id_display counter_id)) counter_loader counter_into
      counter_handler counter_into counter_service 3 [] =
    (Inr counter_response, foldl (\<lambda>w x. w @ [(ee_workflow x, rm_correlation_id (en_metadata n),
        execute_notification_serialize counter_wire n)]) []
      (filter (\<lambda>x. filter_matches (effect_filter (ee_filter x)) n)
        [\<lparr>ee_workflow = ''Audit'', ee_filter = SpecAll\<rparr>,
         \<lparr>ee_workflow = ''Mail'', ee_filter = SpecCommands [''sub'']\<rparr>]))"
    by (elim exE conjE) (rule that, assumption+)
  then show ?thesis by (intro exI [of _ n]) (simp add: name)
qed

theorem retry_repeats_notification_witness:
  "binding_execute_effects counter_wire crockford_codec unary
     [\<lparr>ee_workflow = ''Audit'', ee_filter = SpecAll\<rparr>] counter_env
     (later_attempt (aggregate_id_display counter_id)
       (execute_notification_serialize counter_wire counter_notification))
     counter_loader counter_into counter_handler counter_into counter_service 0 [] =
   (Inr counter_response, [(''Audit'', rm_correlation_id (en_metadata counter_notification),
     execute_notification_serialize counter_wire counter_notification)])"
proof -
  have serde: "value_roundtrip (ce_serde counter_env)" by (simp add: counter_env_def unary_roundtrip)
  let ?later = "later_attempt (aggregate_id_display counter_id)
      (execute_notification_serialize counter_wire counter_notification)"
  have "replays ?later (execute_notification_serialize counter_wire counter_notification)"
    and "rc_key ?later = rc_key (first_attempt (aggregate_id_display counter_id))"
    by (simp_all add: later_attempt_def replays_def)
  from retry_repeats_notification [OF first_attempt_runs first_attempt_key counter_id_printable
      lifts_service_errors crockford_laws unary_roundtrip serde counter_run
      counter_notification_wire this, where effects = "[\<lparr>ee_workflow = ''Audit'', ee_filter = SpecAll\<rparr>]" and L' = counter_loader
        and into_l' = counter_into and H' = counter_handler and into_h' = counter_into
        and S' = counter_service and cmd' = 0 and v = "[]"]
  have "binding_execute_effects counter_wire crockford_codec unary
      [\<lparr>ee_workflow = ''Audit'', ee_filter = SpecAll\<rparr>] counter_env ?later counter_loader counter_into
      counter_handler counter_into counter_service 0 [] =
    (Inr (en_response counter_notification),
     rc_send ?later ''Audit'' (rm_correlation_id (en_metadata counter_notification))
       (execute_notification_serialize counter_wire counter_notification) [])"
    by simp
  then show ?thesis
    by (simp add: later_attempt_def first_attempt_def) (simp add: counter_notification_def)
qed

end
