(* ===== verification/MacroSyntax.thy ===== *)
theory MacroSyntax
  imports Prelude
begin

text \<open>
  What the macros of \<^verbatim>\<open>crates/wee-events-macros/\<close> see of Rust: the types and paths of \<open>syn\<close> as far
  as the macros look into them, and token streams with the parsing steps the macros are built
  from. A parser is an action on the remaining tokens. Parsing paths, visibilities and closures
  is \<open>syn\<close>'s own work and a parameter, as are its keywords and its error texts.
\<close>

section \<open>Types and paths\<close>

datatype rust_type =
    TypePath path
  | TypeReference rust_type
  | TypeTuple "rust_type list"
  | TypeOther string
and path = Path (path_segments: "segment list")
and segment = Segment (segment_ident: string) (segment_arguments: path_arguments)
and path_arguments =
    NoArguments
  | AngleBracketed "generic_argument list"
  | Parenthesized string
and generic_argument = ArgType rust_type | ArgOther string

text \<open>\<open>args.iter().find_map\<close> and \<open>filter_map\<close> on the type arguments.\<close>

fun type_argument :: "generic_argument \<Rightarrow> rust_type option" where
  "type_argument (ArgType t) = Some t"
| "type_argument (ArgOther s) = None"

definition type_arguments :: "generic_argument list \<Rightarrow> rust_type list" where
  "type_arguments args = List.map_filter type_argument args"

fun first_of :: "'a list \<Rightarrow> 'a option" where
  "first_of [] = None"
| "first_of (x # xs) = Some x"

fun rename_last :: "(string \<Rightarrow> string) \<Rightarrow> segment list \<Rightarrow> segment list" where
  "rename_last f [] = []"
| "rename_last f [Segment i a] = [Segment (f i) a]"
| "rename_last f (s # t # ss) = s # rename_last f (t # ss)"

section \<open>Tokens\<close>

datatype delimiter = Paren | Brace | Bracket

datatype token =
    TokIdent string
  | TokPunct char
  | TokLit string
  | TokGroup delimiter "token list"

type_synonym 'a parser = "(token list, string, 'a) action"

record ('v, 'c) syn =
  sy_keyword :: "string \<Rightarrow> bool"
  sy_expected :: "string \<Rightarrow> token list \<Rightarrow> string"
  sy_path :: "path parser"
  sy_visibility :: "'v parser"
  sy_closure :: "'c parser"

definition expect_token :: "('v, 'c) syn \<Rightarrow> string \<Rightarrow> (token \<Rightarrow> 'a option) \<Rightarrow> 'a parser" where
  "expect_token SY what f toks =
     (case toks of
        [] \<Rightarrow> (Inl (sy_expected SY what toks), toks)
      | t # ts \<Rightarrow>
          (case f t of
             None \<Rightarrow> (Inl (sy_expected SY what toks), toks)
           | Some a \<Rightarrow> (Inr a, ts)))"

definition token_ident :: "('v, 'c) syn \<Rightarrow> token \<Rightarrow> string option" where
  "token_ident SY t = (case t of TokIdent s \<Rightarrow> (if sy_keyword SY s then None else Some s) | _ \<Rightarrow> None)"

definition parse_ident :: "('v, 'c) syn \<Rightarrow> string parser" where
  "parse_ident SY = expect_token SY ''identifier'' (token_ident SY)"

definition parse_keyword :: "('v, 'c) syn \<Rightarrow> string \<Rightarrow> unit parser" where
  "parse_keyword SY k = expect_token SY k (\<lambda>t. if t = TokIdent k then Some () else None)"

definition parse_punct :: "('v, 'c) syn \<Rightarrow> char \<Rightarrow> unit parser" where
  "parse_punct SY c = expect_token SY [c] (\<lambda>t. if t = TokPunct c then Some () else None)"

definition parse_lit_str :: "('v, 'c) syn \<Rightarrow> string parser" where
  "parse_lit_str SY = expect_token SY ''string literal'' (\<lambda>t. case t of TokLit s \<Rightarrow> Some s | _ \<Rightarrow> None)"

definition parse_group :: "('v, 'c) syn \<Rightarrow> delimiter \<Rightarrow> token list parser" where
  "parse_group SY d = expect_token SY ''group''
     (\<lambda>t. case t of TokGroup e inner \<Rightarrow> (if e = d then Some inner else None) | _ \<Rightarrow> None)"

definition peek_ident :: "string \<Rightarrow> token list \<Rightarrow> bool" where
  "peek_ident k toks = (case toks of [] \<Rightarrow> False | t # _ \<Rightarrow> t = TokIdent k)"

definition peek_punct :: "char \<Rightarrow> token list \<Rightarrow> bool" where
  "peek_punct c toks = (case toks of [] \<Rightarrow> False | t # _ \<Rightarrow> t = TokPunct c)"

definition peek_group :: "delimiter \<Rightarrow> token list \<Rightarrow> bool" where
  "peek_group d toks = (case toks of TokGroup e _ # _ \<Rightarrow> e = d | _ \<Rightarrow> False)"

text \<open>
  Parsing the content of a group: all of it has to be consumed (\<open>syn\<close> reports what is left over
  as an unexpected token). \<open>parse_all\<close> is \<open>syn::parse\<close>.
\<close>

definition parse_all :: "('v, 'c) syn \<Rightarrow> 'a parser \<Rightarrow> token list \<Rightarrow> string + 'a" where
  "parse_all SY p toks =
     (case p toks of
        (Inl e, _) \<Rightarrow> Inl e
      | (Inr a, []) \<Rightarrow> Inr a
      | (Inr a, t # ts) \<Rightarrow> Inl (sy_expected SY ''end of input'' (t # ts)))"

definition parse_inside :: "('v, 'c) syn \<Rightarrow> delimiter \<Rightarrow> 'a parser \<Rightarrow> 'a parser" where
  "parse_inside SY d p = seq_result (parse_group SY d) (\<lambda>inner. give (parse_all SY p inner))"

text \<open>An optional comma: \<open>let _ = input.parse::<Token![,]>();\<close>.\<close>

definition skip_comma :: "unit parser" where
  "skip_comma toks = (Inr (), if peek_punct CHR '','' toks then tl toks else toks)"

text \<open>
  \<open>Punctuated::parse_terminated\<close> with commas. Every round but the last consumes a comma, so the
  number of tokens bounds the rounds.
\<close>

fun terminated_loop :: "('v, 'c) syn \<Rightarrow> nat \<Rightarrow> 'a parser \<Rightarrow> 'a list parser" where
  "terminated_loop SY 0 p toks = (Inr [], toks)"
| "terminated_loop SY (Suc n) p toks =
     (if toks = [] then (Inr [], toks)
      else seq_result p (\<lambda>a toks.
        if toks = [] then (Inr [a], toks)
        else seq_result (parse_punct SY CHR '','') (\<lambda>_.
          seq_result (terminated_loop SY n p) (\<lambda>as. give (Inr (a # as)))) toks) toks)"

definition parse_terminated :: "('v, 'c) syn \<Rightarrow> 'a parser \<Rightarrow> 'a list parser" where
  "parse_terminated SY p toks = terminated_loop SY (Suc (length toks)) p toks"

text \<open>The rounds are enough: with a parser that never returns more tokens, more fuel changes nothing.\<close>

lemma expect_token_length:
  "expect_token SY what f toks = (Inr a, rest) \<Longrightarrow> Suc (length rest) = length toks"
  by (auto simp: expect_token_def split: list.splits option.splits)

lemma parse_punct_length: "parse_punct SY c toks = (Inr (), rest) \<Longrightarrow> Suc (length rest) = length toks"
  unfolding parse_punct_def by (rule expect_token_length)

lemma terminated_loop_fuel:
  assumes "\<And>toks a rest. p toks = (Inr a, rest) \<Longrightarrow> length rest \<le> length toks"
    and "length toks < n" and "length toks < m"
  shows "terminated_loop SY n p toks = terminated_loop SY m p toks"
  using assms(2,3)
proof (induction n arbitrary: m toks)
  case (Suc n)
  then obtain k where m: "m = Suc k" by (cases m) auto
  show ?case
  proof (cases "p toks")
    case (Pair r rest)
    show ?thesis
    proof (cases r)
      case (Inr a)
      with Pair assms(1) have len: "length rest \<le> length toks" by simp
      have "terminated_loop SY n p u = terminated_loop SY k p u"
        if "parse_punct SY CHR '','' rest = (Inr (), u)" for u
        using Suc.prems len m parse_punct_length [OF that] by (intro Suc.IH) auto
      then show ?thesis
        using Pair Inr m by (auto simp: seq_result_def split: prod.splits sum.splits)
    qed (use Pair m in \<open>simp add: seq_result_def\<close>)
  qed
qed simp

section \<open>Running the steps\<close>

named_theorems parse_simps \<open>parsing steps on tokens that fit\<close>

lemma parse_ident_run [parse_simps]:
  "\<not> sy_keyword SY s \<Longrightarrow> parse_ident SY (TokIdent s # ts) = (Inr s, ts)"
  by (simp add: parse_ident_def expect_token_def token_ident_def)

lemma parse_keyword_run [parse_simps]: "parse_keyword SY k (TokIdent k # ts) = (Inr (), ts)"
  by (simp add: parse_keyword_def expect_token_def)

lemma parse_punct_run [parse_simps]: "parse_punct SY c (TokPunct c # ts) = (Inr (), ts)"
  by (simp add: parse_punct_def expect_token_def)

lemma parse_lit_str_run [parse_simps]: "parse_lit_str SY (TokLit s # ts) = (Inr s, ts)"
  by (simp add: parse_lit_str_def expect_token_def)

lemma parse_group_run [parse_simps]: "parse_group SY d (TokGroup d inner # ts) = (Inr inner, ts)"
  by (simp add: parse_group_def expect_token_def)

lemma parse_inside_run [parse_simps]:
  "p inner = (Inr a, []) \<Longrightarrow> parse_inside SY d p (TokGroup d inner # ts) = (Inr a, ts)"
  by (simp add: parse_inside_def parse_group_def expect_token_def seq_result_def parse_all_def give_def)

lemma peek_simps [parse_simps]:
  "peek_ident k [] = False" "peek_punct c [] = False" "peek_group d [] = False"
  "peek_ident k (TokIdent s # ts) = (s = k)" "peek_ident k (TokPunct c # ts) = False"
  "peek_ident k (TokLit s # ts) = False" "peek_ident k (TokGroup e inner # ts) = False"
  "peek_punct c (TokIdent s # ts) = False" "peek_punct c (TokPunct x # ts) = (x = c)"
  "peek_punct c (TokLit s # ts) = False" "peek_punct c (TokGroup e inner # ts) = False"
  "peek_group d (TokIdent s # ts) = False" "peek_group d (TokPunct c # ts) = False"
  "peek_group d (TokLit s # ts) = False" "peek_group d (TokGroup e inner # ts) = (e = d)"
  by (auto simp: peek_ident_def peek_punct_def peek_group_def)

text \<open>Items with commas between them.\<close>

fun comma_separated :: "('a \<Rightarrow> token list) \<Rightarrow> 'a list \<Rightarrow> token list" where
  "comma_separated f [] = []"
| "comma_separated f [x] = f x"
| "comma_separated f (x # y # xs) = f x @ TokPunct CHR '','' # comma_separated f (y # xs)"

lemma terminated_loop_items:
  assumes "\<And>x rest. x \<in> set xs \<Longrightarrow> rest = [] \<or> (\<exists>ts. rest = TokPunct CHR '','' # ts) \<Longrightarrow>
      f x \<noteq> [] \<and> p (f x @ rest) = (Inr x, rest)"
    and "length xs \<le> n"
  shows "terminated_loop SY (Suc n) p (comma_separated f xs) = (Inr xs, [])"
  using assms
proof (induction xs arbitrary: n)
  case (Cons x xs)
  show ?case
  proof (cases xs)
    case Nil
    with Cons.prems(1) [of x "[]"] show ?thesis by (simp add: seq_result_def)
  next
    case (Cons y ys)
    then obtain k where n: "n = Suc k" using \<open>length (x # xs) \<le> n\<close> by (cases n) auto
    let ?rest = "TokPunct CHR '','' # comma_separated f xs"
    from Cons.prems(1) [of x ?rest] have "f x \<noteq> []" and run: "p (f x @ ?rest) = (Inr x, ?rest)" by auto
    moreover have "terminated_loop SY n p (comma_separated f xs) = (Inr xs, [])"
      unfolding n using Cons.prems n by (intro Cons.IH) auto
    moreover have "comma_separated f (x # xs) = f x @ ?rest" using Cons by simp
    ultimately show ?thesis
      by (simp add: seq_result_def parse_simps give_def)
  qed
qed simp

lemma comma_separated_length:
  "\<forall>x\<in>set xs. f x \<noteq> [] \<Longrightarrow> length xs \<le> length (comma_separated f xs)"
proof (induction xs)
  case (Cons x xs)
  then have "Suc 0 \<le> length (f x)" and "length xs \<le> length (comma_separated f xs)"
    by (simp_all add: Suc_le_eq)
  then show ?case by (cases xs) auto
qed simp

lemma parse_terminated_items:
  assumes "\<And>x rest. x \<in> set xs \<Longrightarrow> rest = [] \<or> (\<exists>ts. rest = TokPunct CHR '','' # ts) \<Longrightarrow>
      f x \<noteq> [] \<and> p (f x @ rest) = (Inr x, rest)"
  shows "parse_terminated SY p (comma_separated f xs) = (Inr xs, [])"
  unfolding parse_terminated_def
  using assms by (intro terminated_loop_items comma_separated_length) blast+

section \<open>A small syntax for the witnesses\<close>

text \<open>Paths of one segment, \<open>pub\<close> or nothing as the visibility, any tokens as a closure.\<close>

definition plain_path :: "string \<Rightarrow> path" where
  "plain_path s = Path [Segment s NoArguments]"

definition plain_syn :: "(bool, token list) syn" where
  "plain_syn =
     \<lparr>sy_keyword = (\<lambda>s. s \<in> {''as'', ''for'', ''pub''}),
      sy_expected = (\<lambda>what _. ''expected '' @ what),
      sy_path = (\<lambda>toks. case toks of
          TokIdent s # ts \<Rightarrow> (Inr (plain_path s), ts)
        | _ \<Rightarrow> (Inl ''expected path'', toks)),
      sy_visibility = (\<lambda>toks. if peek_ident ''pub'' toks then (Inr True, tl toks) else (Inr False, toks)),
      sy_closure = (\<lambda>toks. (Inr toks, []))\<rparr>"

end
