(* ===== verification/MacroAttrs.thy ===== *)
theory MacroAttrs
  imports MacroSyntax
begin

text \<open>
  The attribute and derive macros of \<^verbatim>\<open>crates/wee-events-macros/src/\<close>: \<open>#[handler]\<close>
  (\<^verbatim>\<open>handler_attr.rs\<close>), \<open>#[loader]\<close> (\<^verbatim>\<open>loader_attr.rs\<close>), \<open>#[capability]\<close> (\<^verbatim>\<open>capability_attr.rs\<close>)
  and the two derives of \<^verbatim>\<open>lib.rs\<close>. An expansion is a record of the names and types that the emitted
  items are made from. The case conversions of the \<open>convert_case\<close> crate are parameters.
\<close>

section \<open>Attribute arguments\<close>

record handler_args =
  ha_command :: path
  ha_requires :: "path list"

text \<open>
  The loop of \<open>HandlerArgs::parse\<close>; every round consumes an identifier, so the number of tokens
  bounds the rounds. A repeated argument replaces the earlier one.
\<close>

fun handler_args_loop ::
  "('v, 'c) syn \<Rightarrow> nat \<Rightarrow> path option \<Rightarrow> path list \<Rightarrow> (path option \<times> path list) parser" where
  "handler_args_loop SY 0 command requires = give (Inr (command, requires))"
| "handler_args_loop SY (Suc n) command requires = (\<lambda>toks.
     if toks = [] then (Inr (command, requires), toks)
     else seq_result (parse_ident SY) (\<lambda>ident.
       if ident = ''command'' then
         seq_result (parse_punct SY CHR ''='') (\<lambda>_.
         seq_result (sy_path SY) (\<lambda>path.
         seq_result skip_comma (\<lambda>_. handler_args_loop SY n (Some path) requires)))
       else if ident = ''requires'' then
         seq_result (parse_inside SY Paren (parse_terminated SY (sy_path SY))) (\<lambda>paths.
         seq_result skip_comma (\<lambda>_. handler_args_loop SY n command paths))
       else give (Inl ''expected `command` or `requires`'')) toks)"

definition parse_handler_args :: "('v, 'c) syn \<Rightarrow> handler_args parser" where
  "parse_handler_args SY toks =
     seq_result (handler_args_loop SY (Suc (length toks)) None []) (\<lambda>(command, requires).
       give (case command of
           None \<Rightarrow> Inl ''`command = <Type>` is required for #[handler]''
         | Some c \<Rightarrow> Inr \<lparr>ha_command = c, ha_requires = requires\<rparr>)) toks"

record loader_args =
  la_requires :: "path list"

fun loader_args_loop :: "('v, 'c) syn \<Rightarrow> nat \<Rightarrow> path list \<Rightarrow> path list parser" where
  "loader_args_loop SY 0 requires = give (Inr requires)"
| "loader_args_loop SY (Suc n) requires = (\<lambda>toks.
     if toks = [] then (Inr requires, toks)
     else seq_result (parse_ident SY) (\<lambda>ident.
       if ident = ''requires'' then
         seq_result (parse_inside SY Paren (parse_terminated SY (sy_path SY))) (\<lambda>paths.
         seq_result skip_comma (\<lambda>_. loader_args_loop SY n paths))
       else give (Inl ''expected `requires`'')) toks)"

definition parse_loader_args :: "('v, 'c) syn \<Rightarrow> loader_args parser" where
  "parse_loader_args SY toks =
     seq_result (loader_args_loop SY (Suc (length toks)) [])
       (\<lambda>requires. give (Inr \<lparr>la_requires = requires\<rparr>)) toks"

section \<open>Signatures\<close>

text \<open>A return type, \<open>None\<close> where the function has none.\<close>

type_synonym return_type = "rust_type option"

datatype fn_arg =
    Receiver bool  \<comment> \<open>by reference?\<close>
  | Typed rust_type

record item_fn =
  fn_ident :: string
  fn_type_params :: "string list"
  fn_inputs :: "fn_arg list"
  fn_output :: return_type

text \<open>The last segment of a path type, where it has the wanted identifier, and its arguments.\<close>

definition path_type_arguments :: "string \<Rightarrow> rust_type \<Rightarrow> generic_argument list option" where
  "path_type_arguments name t =
     (case t of
        TypePath p \<Rightarrow>
          (case last_opt (path_segments p) of
             None \<Rightarrow> None
           | Some s \<Rightarrow>
               if segment_ident s \<noteq> name then None
               else (case segment_arguments s of AngleBracketed args \<Rightarrow> Some args | _ \<Rightarrow> None))
      | _ \<Rightarrow> None)"

definition handler_return_message :: string where
  "handler_return_message =
     ''handler must return `wee_events::Result<()>` or `wee_events::Result<Entity<State>>`''"

definition result_ok_type :: "return_type \<Rightarrow> string + rust_type" where
  "result_ok_type r =
     and_then (ok_or handler_return_message r) (\<lambda>t.
     and_then (ok_or handler_return_message (path_type_arguments ''Result'' t)) (\<lambda>args.
       ok_or handler_return_message (first_of (type_arguments args))))"

text \<open>\<open>parse_quote!(wee_events::Error)\<close>.\<close>

definition default_error_type :: rust_type where
  "default_error_type =
     TypePath (Path [Segment ''wee_events'' NoArguments, Segment ''Error'' NoArguments])"

definition error_type_of :: "string \<Rightarrow> return_type \<Rightarrow> string + rust_type" where
  "error_type_of message r =
     and_then (ok_or message r) (\<lambda>t.
     and_then (ok_or message (path_type_arguments ''Result'' t)) (\<lambda>args.
       case type_arguments args of
         [] \<Rightarrow> Inl message
       | [_] \<Rightarrow> Inr default_error_type
       | _ # e # _ \<Rightarrow> Inr e))"

definition result_error_type :: "return_type \<Rightarrow> string + rust_type" where
  "result_error_type =
     error_type_of ''handler must return `Result<T, Error>` or `wee_events::Result<T>`''"

definition extract_state_from_entity_type :: "rust_type \<Rightarrow> string + rust_type" where
  "extract_state_from_entity_type t =
     and_then (ok_or ''expected `Entity<State>`'' (path_type_arguments ''Entity'' t)) (\<lambda>args.
       ok_or ''expected `Entity<State>`'' (first_of (type_arguments args)))"

definition is_unit_type :: "rust_type \<Rightarrow> bool" where
  "is_unit_type t = (t = TypeTuple [])"

fun extract_entity_arg_state :: "fn_arg list \<Rightarrow> string + rust_type" where
  "extract_entity_arg_state [] =
     Inl ''handler returning `wee_events::Result<()>` must take an `&Entity<State>` argument''"
| "extract_entity_arg_state (Typed (TypeReference t) # inputs) =
     (case extract_state_from_entity_type t of
        Inr state \<Rightarrow> Inr state
      | Inl _ \<Rightarrow> extract_entity_arg_state inputs)"
| "extract_entity_arg_state (arg # inputs) = extract_entity_arg_state inputs"

definition extract_state_type :: "item_fn \<Rightarrow> string + rust_type" where
  "extract_state_type func =
     and_then (result_ok_type (fn_output func)) (\<lambda>ok.
       if is_unit_type ok then extract_entity_arg_state (fn_inputs func)
       else map_err (\<lambda>_. handler_return_message) (extract_state_from_entity_type ok))"

definition loader_return_message :: string where
  "loader_return_message = ''loader must return `wee_events::Result<Entity<State>>`''"

definition loader_state_type :: "return_type \<Rightarrow> string + rust_type" where
  "loader_state_type r =
     and_then (ok_or loader_return_message r) (\<lambda>t.
     and_then (ok_or loader_return_message (path_type_arguments ''Result'' t)) (\<lambda>args.
     and_then (ok_or loader_return_message (first_of (type_arguments args))) (\<lambda>entity.
     and_then (ok_or loader_return_message (path_type_arguments ''Entity'' entity)) (\<lambda>args.
       ok_or loader_return_message (first_of (type_arguments args))))))"

definition extract_error_type :: "return_type \<Rightarrow> string + rust_type" where
  "extract_error_type = error_type_of
     ''loader must return `Result<Entity<State>, Error>` or `wee_events::Result<Entity<State>>`''"

section \<open>Expansions\<close>

text \<open>
  The emitted spec struct with its types, and the \<open>__..._Requires\<close> trait with its supertraits
  (\<open>Send + Sync\<close> always among them).
\<close>

record spec_items =
  sp_spec_name :: string
  sp_command :: "path option"
  sp_state :: rust_type
  sp_error :: rust_type
  sp_context :: string
  sp_requires_name :: string
  sp_requires :: "path list"

definition spec_name :: "string \<Rightarrow> string" where
  "spec_name fn_name = fn_name @ ''_Spec''"

definition requires_name :: "string \<Rightarrow> string" where
  "requires_name fn_name = ''__'' @ fn_name @ ''_Requires''"

definition expand_handler :: "handler_args \<Rightarrow> item_fn \<Rightarrow> string + spec_items" where
  "expand_handler args func =
     (case fn_type_params func of
        [] \<Rightarrow> Inl ''#[handler] requires a generic type parameter for the context (e.g., `<R: MyTrait>`)''
      | ctx # _ \<Rightarrow>
          and_then (extract_state_type func) (\<lambda>state.
          and_then (result_error_type (fn_output func)) (\<lambda>error.
            Inr \<lparr>sp_spec_name = spec_name (fn_ident func), sp_command = Some (ha_command args),
                 sp_state = state, sp_error = error, sp_context = ctx,
                 sp_requires_name = requires_name (fn_ident func), sp_requires = ha_requires args\<rparr>)))"

definition expand_loader :: "loader_args \<Rightarrow> item_fn \<Rightarrow> string + spec_items" where
  "expand_loader args func =
     (case fn_type_params func of
        [] \<Rightarrow> Inl ''#[loader] requires a generic type parameter for the context (e.g., `<R: MyTrait>`)''
      | ctx # _ \<Rightarrow>
          and_then (loader_state_type (fn_output func)) (\<lambda>state.
          and_then (extract_error_type (fn_output func)) (\<lambda>error.
            Inr \<lparr>sp_spec_name = spec_name (fn_ident func), sp_command = None,
                 sp_state = state, sp_error = error, sp_context = ctx,
                 sp_requires_name = requires_name (fn_ident func), sp_requires = la_requires args\<rparr>)))"

section \<open>Capabilities\<close>

record trait_method =
  tm_ident :: string
  tm_async :: bool
  tm_inputs :: "fn_arg list"
  tm_output :: return_type

text \<open>A method's output after the expansion: as written, or a \<open>Send\<close> future of a type.\<close>

datatype method_output = Plain return_type | SendFuture rust_type

record capability_method =
  cm_ident :: string
  cm_async :: bool
  cm_inputs :: "fn_arg list"
  cm_output :: method_output

datatype trait_item = TraitMethod trait_method | TraitOther string

datatype capability_item = CapabilityMethod capability_method | CapabilityOther string

definition method_output_type :: "trait_method \<Rightarrow> string + rust_type" where
  "method_output_type m =
     ok_or ''#[wee_events::capability] async methods must return a value'' (tm_output m)"

definition add_send_bound :: "fn_arg list \<Rightarrow> string + unit" where
  "add_send_bound inputs =
     (case inputs of
        Receiver True # _ \<Rightarrow> Inr ()
      | _ \<Rightarrow> Inl ''#[wee_events::capability] methods must take &self'')"

fun expand_capability :: "trait_item list \<Rightarrow> string + capability_item list" where
  "expand_capability [] = Inr []"
| "expand_capability (TraitOther s # items) = map_ok ((#) (CapabilityOther s)) (expand_capability items)"
| "expand_capability (TraitMethod m # items) =
     and_then (method_output_type m) (\<lambda>t.
     and_then (add_send_bound (tm_inputs m)) (\<lambda>_.
       map_ok ((#) (CapabilityMethod \<lparr>cm_ident = tm_ident m, cm_async = False,
           cm_inputs = tm_inputs m, cm_output = SendFuture t\<rparr>)) (expand_capability items)))"

section \<open>Derives\<close>

datatype fields_kind = UnitFields | NamedFields | UnnamedFields

record variant =
  var_ident :: string
  var_fields :: fields_kind

datatype data_kind = DataEnum "variant list" | DataOther

text \<open>An attribute: its name where it is a plain identifier, and the tokens of its arguments.\<close>

record derive_input =
  di_ident :: string
  di_attrs :: "(string \<times> token list) list"
  di_data :: data_kind

definition parse_prefix_args :: "('v, 'c) syn \<Rightarrow> string parser" where
  "parse_prefix_args SY =
     seq_result (parse_ident SY) (\<lambda>ident.
       if ident \<noteq> ''prefix'' then give (Inl ''expected `prefix`'')
       else seq_result (parse_punct SY CHR ''='') (\<lambda>_.
         seq_result (parse_lit_str SY) (\<lambda>lit toks.
           (if toks \<noteq> [] then Inl ''unexpected tokens after prefix value'' else Inr lit, toks))))"

definition extract_prefix ::
  "('v, 'c) syn \<Rightarrow> (string \<Rightarrow> string) \<Rightarrow> derive_input \<Rightarrow> string \<Rightarrow> string + string" where
  "extract_prefix SY kebab inp attr_name =
     (let outer = (if attr_name = ''event'' then ''domain_event'' else attr_name)
      in case find (\<lambda>(name, _). name = outer) (di_attrs inp) of
           Some (_, args) \<Rightarrow>
             map_err (\<lambda>e. ''invalid '' @ outer @ '' attribute: '' @ e)
               (parse_all SY (parse_prefix_args SY) args)
         | None \<Rightarrow>
             let raw = kebab (di_ident inp)
             in Inr (case strip_suffix (CHR ''-'' # attr_name) raw of None \<Rightarrow> raw | Some s \<Rightarrow> s))"

text \<open>A match arm: the variant's pattern and the name it maps to.\<close>

datatype arm_pattern = UnitPattern string | RestPattern string | TuplePattern string

fun variant_pattern :: "variant \<Rightarrow> arm_pattern" where
  "variant_pattern v =
     (case var_fields v of
        UnitFields \<Rightarrow> UnitPattern (var_ident v)
      | NamedFields \<Rightarrow> RestPattern (var_ident v)
      | UnnamedFields \<Rightarrow> TuplePattern (var_ident v))"

definition variant_name :: "(string \<Rightarrow> string) \<Rightarrow> string \<Rightarrow> variant \<Rightarrow> string" where
  "variant_name kebab prefix v = prefix @ '':'' @ kebab (var_ident v)"

record command_impl =
  ci_NAME :: string
  ci_arms :: "(arm_pattern \<times> string) list"

definition derive_command ::
  "('v, 'c) syn \<Rightarrow> (string \<Rightarrow> string) \<Rightarrow> derive_input \<Rightarrow> string + command_impl" where
  "derive_command SY kebab inp =
     and_then (extract_prefix SY kebab inp ''command'') (\<lambda>prefix.
       case di_data inp of
         DataOther \<Rightarrow> Inl ''Command can only be derived for enums''
       | DataEnum variants \<Rightarrow>
           Inr \<lparr>ci_NAME = prefix,
                ci_arms = map (\<lambda>v. (variant_pattern v, variant_name kebab prefix v)) variants\<rparr>)"

record domain_event_impl =
  de_arms :: "(arm_pattern \<times> string) list"
  de_consts :: "(string \<times> string) list"

definition derive_domain_event ::
  "('v, 'c) syn \<Rightarrow> (string \<Rightarrow> string) \<Rightarrow> (string \<Rightarrow> string) \<Rightarrow> derive_input \<Rightarrow>
    string + domain_event_impl" where
  "derive_domain_event SY kebab upper_snake inp =
     and_then (extract_prefix SY kebab inp ''event'') (\<lambda>prefix.
       case di_data inp of
         DataOther \<Rightarrow> Inl ''DomainEvent can only be derived for enums''
       | DataEnum variants \<Rightarrow>
           Inr \<lparr>de_arms = map (\<lambda>v. (variant_pattern v, variant_name kebab prefix v)) variants,
                de_consts = map (\<lambda>v. (upper_snake (var_ident v), variant_name kebab prefix v)) variants\<rparr>)"

section \<open>What a handler's or loader's signature means\<close>

text \<open>The types \<open>..::Result<T, ..>\<close> and \<open>..::Entity<S, ..>\<close>, whatever stands before the name.\<close>

definition is_generic :: "string \<Rightarrow> rust_type \<Rightarrow> rust_type list \<Rightarrow> bool" where
  "is_generic name t ts \<longleftrightarrow>
     (\<exists>ss args. t = TypePath (Path (ss @ [Segment name (AngleBracketed args)])) \<and>
        ts = type_arguments args)"

lemma path_type_arguments_iff:
  "path_type_arguments name t = Some args \<longleftrightarrow>
     (\<exists>ss. t = TypePath (Path (ss @ [Segment name (AngleBracketed args)])))"
proof
  assume "path_type_arguments name t = Some args"
  then obtain p s where t: "t = TypePath p" and s: "last_opt (path_segments p) = Some s"
    and "segment_ident s = name" and "segment_arguments s = AngleBracketed args"
    by (auto simp: path_type_arguments_def split: rust_type.splits option.splits if_splits
        path_arguments.splits)
  then have "s = Segment name (AngleBracketed args)" by (cases s) simp
  with s have "path_segments p = butlast (path_segments p) @ [Segment name (AngleBracketed args)]"
    by (auto simp: last_opt_def split: if_splits) (metis append_butlast_last_id)
  with t show "\<exists>ss. t = TypePath (Path (ss @ [Segment name (AngleBracketed args)]))"
    by (cases p) auto
qed (auto simp: path_type_arguments_def)

lemma is_generic_iff:
  "is_generic name t ts \<longleftrightarrow>
     (\<exists>args. path_type_arguments name t = Some args \<and> type_arguments args = ts)"
  by (auto simp: is_generic_def path_type_arguments_iff)

lemma first_of_Some: "first_of xs = Some x \<longleftrightarrow> (\<exists>ys. xs = x # ys)"
  by (cases xs) auto

lemma entity_type_iff:
  "extract_state_from_entity_type t = Inr s \<longleftrightarrow> (\<exists>ts. is_generic ''Entity'' t (s # ts))"
  by (cases "path_type_arguments ''Entity'' t")
    (simp_all add: extract_state_from_entity_type_def result_simps is_generic_iff first_of_Some)

lemma result_ok_type_iff:
  "result_ok_type r = Inr t \<longleftrightarrow> (\<exists>u ts. r = Some u \<and> is_generic ''Result'' u (t # ts))"
proof (cases r)
  case (Some u)
  then show ?thesis
    by (cases "path_type_arguments ''Result'' u")
      (simp_all add: result_ok_type_def result_simps is_generic_iff first_of_Some)
qed (simp add: result_ok_type_def result_simps)

definition error_argument :: "rust_type list \<Rightarrow> rust_type" where
  "error_argument ts = (case ts of [] \<Rightarrow> default_error_type | e # _ \<Rightarrow> e)"

lemma error_type_iff:
  "error_type_of m r = Inr e \<longleftrightarrow>
     (\<exists>u t ts. r = Some u \<and> is_generic ''Result'' u (t # ts) \<and> e = error_argument ts)"
proof (cases r)
  case (Some u)
  show ?thesis
  proof (cases "path_type_arguments ''Result'' u")
    case (Some args)
    with \<open>r = Some u\<close> show ?thesis
      by (cases "type_arguments args"; cases "tl (type_arguments args)")
        (auto simp: error_type_of_def ok_or_def is_generic_iff error_argument_def)
  qed (simp add: \<open>r = Some u\<close> error_type_of_def ok_or_def is_generic_iff)
qed (simp add: error_type_of_def ok_or_def)

text \<open>The first by-reference parameter of type \<open>&Entity<S>\<close>.\<close>

definition entity_parameter :: "fn_arg list \<Rightarrow> rust_type \<Rightarrow> bool" where
  "entity_parameter inputs s \<longleftrightarrow>
     (\<exists>pre t ts post. inputs = pre @ Typed (TypeReference t) # post \<and> is_generic ''Entity'' t (s # ts) \<and>
        (\<forall>u us s'. Typed (TypeReference u) \<in> set pre \<longrightarrow> \<not> is_generic ''Entity'' u (s' # us)))"

lemma is_generic_functional: "is_generic name t ts \<Longrightarrow> is_generic name t us \<Longrightarrow> ts = us"
  by (auto simp: is_generic_def)

lemma entity_parameter_Cons:
  "entity_parameter (a # inputs) s \<longleftrightarrow>
     (\<exists>t ts. a = Typed (TypeReference t) \<and> is_generic ''Entity'' t (s # ts)) \<or>
     (\<forall>t ts s'. a = Typed (TypeReference t) \<longrightarrow> \<not> is_generic ''Entity'' t (s' # ts)) \<and>
       entity_parameter inputs s"
    (is "?L \<longleftrightarrow> ?H \<or> ?N \<and> ?T")
proof
  assume ?L
  then obtain pre t ts post where eq: "a # inputs = pre @ Typed (TypeReference t) # post"
    and g: "is_generic ''Entity'' t (s # ts)"
    and no: "\<forall>u us s'. Typed (TypeReference u) \<in> set pre \<longrightarrow> \<not> is_generic ''Entity'' u (s' # us)"
    unfolding entity_parameter_def by blast
  show "?H \<or> ?N \<and> ?T"
  proof (cases pre)
    case Nil
    with eq g show ?thesis by auto
  next
    case (Cons b bs)
    with eq no have "?N" and "\<forall>u us s'. Typed (TypeReference u) \<in> set bs \<longrightarrow>
        \<not> is_generic ''Entity'' u (s' # us)" by auto
    moreover from Cons eq have "inputs = bs @ Typed (TypeReference t) # post" by simp
    ultimately show ?thesis using g unfolding entity_parameter_def by blast
  qed
next
  assume "?H \<or> ?N \<and> ?T"
  then show ?L
  proof
    assume ?H
    then show ?L unfolding entity_parameter_def by (metis append_Nil empty_iff list.set(1))
  next
    assume "?N \<and> ?T"
    then obtain pre t ts post where "inputs = pre @ Typed (TypeReference t) # post"
      "is_generic ''Entity'' t (s # ts)"
      "\<forall>u us s'. Typed (TypeReference u) \<in> set (a # pre) \<longrightarrow> \<not> is_generic ''Entity'' u (s' # us)"
      unfolding entity_parameter_def by auto
    then show ?L unfolding entity_parameter_def by (intro exI [of _ "a # pre"]) auto
  qed
qed

lemma entity_arg_iff: "extract_entity_arg_state inputs = Inr s \<longleftrightarrow> entity_parameter inputs s"
proof (induction inputs rule: extract_entity_arg_state.induct)
  case 1
  show ?case by (simp add: entity_parameter_def)
next
  case (2 t inputs)
  show ?case
  proof (cases "extract_state_from_entity_type t")
    case (Inl e)
    then have "\<not> is_generic ''Entity'' t (s' # ts)" for s' ts
      using entity_type_iff [of t s'] by auto
    with Inl 2 show ?thesis by (simp add: entity_parameter_Cons)
  next
    case (Inr s')
    then obtain ts where "is_generic ''Entity'' t (s' # ts)" by (auto simp: entity_type_iff)
    with Inr show ?thesis
      by (auto simp: entity_parameter_Cons dest: is_generic_functional)
  qed
qed (simp_all add: entity_parameter_Cons)

text \<open>
  C38: \<open>#[handler]\<close> accepts exactly the documented signatures, and reads them right. It expands a
  function if and only if this has a type parameter and returns a \<open>Result\<close> of an \<open>Entity\<close>, or a
  \<open>Result\<close> of unit while it takes an \<open>&Entity\<close>; the spec's state is the argument of that
  \<open>Entity\<close>, its error the second argument of the \<open>Result\<close> or else \<open>wee_events::Error\<close>, its
  context the first type parameter, and command and requirements are the attribute's.
\<close>

theorem handler_signatures:
  "expand_handler args func = Inr items \<longleftrightarrow>
     (\<exists>ctx ctxs u ok ts state. fn_type_params func = ctx # ctxs \<and> fn_output func = Some u \<and>
        is_generic ''Result'' u (ok # ts) \<and>
        (if ok = TypeTuple [] then entity_parameter (fn_inputs func) state
         else \<exists>us. is_generic ''Entity'' ok (state # us)) \<and>
        items = \<lparr>sp_spec_name = fn_ident func @ ''_Spec'', sp_command = Some (ha_command args),
          sp_state = state, sp_error = error_argument ts, sp_context = ctx,
          sp_requires_name = ''__'' @ fn_ident func @ ''_Requires'', sp_requires = ha_requires args\<rparr>)"
proof -
  have none: "expand_handler args func \<noteq> Inr items"
    if "\<nexists>u ok ts. fn_output func = Some u \<and> is_generic ''Result'' u (ok # ts)"
  proof -
    from that have "\<nexists>ok. result_ok_type (fn_output func) = Inr ok" by (auto simp: result_ok_type_iff)
    then have "\<nexists>s. extract_state_type func = Inr s"
      by (auto simp: extract_state_type_def and_then_Inr)
    then show ?thesis by (auto simp: expand_handler_def and_then_Inr split: list.splits)
  qed
  show ?thesis
  proof (cases "\<exists>u ok ts. fn_output func = Some u \<and> is_generic ''Result'' u (ok # ts)")
    case True
    then obtain u ok ts where out: "fn_output func = Some u" and g: "is_generic ''Result'' u (ok # ts)"
      by blast
    then have uniq: "is_generic ''Result'' u (ok' # ts') \<longleftrightarrow> ok' = ok \<and> ts' = ts" for ok' ts'
      by (auto dest: is_generic_functional)
    have ok: "result_ok_type (fn_output func) = Inr ok"
      and error: "result_error_type (fn_output func) = Inr (error_argument ts)"
      using out g by (auto simp: result_ok_type_iff result_error_type_def error_type_iff)
    have state: "extract_state_type func = Inr s \<longleftrightarrow>
        (if ok = TypeTuple [] then entity_parameter (fn_inputs func) s
         else \<exists>us. is_generic ''Entity'' ok (s # us))" for s
      by (simp add: extract_state_type_def ok is_unit_type_def entity_arg_iff entity_type_iff
          map_err_Inr)
    show ?thesis
      by (cases "fn_type_params func")
        (auto simp: expand_handler_def and_then_Inr state error [unfolded out] out uniq
          spec_name_def requires_name_def)
  next
    case False
    with none show ?thesis by blast
  qed
qed

section \<open>What the derives promise\<close>

text \<open>
  The names a derive gives to an enum are unambiguous: every variant's command name is the
  prefix, a colon and the variant in kebab case, and names of different variants differ
  whenever their kebab-case forms do.
\<close>

theorem derived_command_names:
  assumes "derive_command SY kebab inp = Inr impl" and "di_data inp = DataEnum variants"
    and "inj_on kebab (var_ident ` set variants)" and "distinct (map var_ident variants)"
  shows "distinct (map snd (ci_arms impl)) \<and>
    map snd (ci_arms impl) = map (\<lambda>v. ci_NAME impl @ '':'' @ kebab (var_ident v)) variants"
proof -
  from assms(1,2) obtain prefix where impl: "impl = \<lparr>ci_NAME = prefix,
      ci_arms = map (\<lambda>v. (variant_pattern v, variant_name kebab prefix v)) variants\<rparr>"
    by (auto simp: derive_command_def result_simps)
  have "distinct (map kebab (map var_ident variants))"
    using assms(3,4) by (subst distinct_map) simp
  moreover have "map (\<lambda>v. prefix @ '':'' @ kebab (var_ident v)) variants =
      map (\<lambda>k. prefix @ '':'' @ k) (map kebab (map var_ident variants))"
    by simp
  ultimately have "distinct (map (\<lambda>v. prefix @ '':'' @ kebab (var_ident v)) variants)"
    by (simp only:) (rule distinct_map [THEN iffD2], simp add: inj_on_def)
  then show ?thesis by (simp add: impl comp_def variant_name_def)
qed

theorem derived_command_names_witness:
  "map snd (ci_arms \<lparr>ci_NAME = ''counter'',
      ci_arms = [(UnitPattern ''Inc'', ''counter:inc''), (TuplePattern ''Add'', ''counter:add'')]\<rparr>) =
    [''counter:inc'', ''counter:add'']"
proof -
  let ?vs = "[\<lparr>var_ident = ''Inc'', var_fields = UnitFields\<rparr>,
    \<lparr>var_ident = ''Add'', var_fields = UnnamedFields\<rparr>]"
  let ?impl = "\<lparr>ci_NAME = ''counter'',
      ci_arms = [(UnitPattern ''Inc'', ''counter:inc''), (TuplePattern ''Add'', ''counter:add'')]\<rparr>"
  have "derive_command plain_syn (map to_lower)
      \<lparr>di_ident = ''Counter-Command'', di_attrs = [], di_data = DataEnum ?vs\<rparr> = Inr ?impl"
    by code_simp
  moreover have "inj_on (map to_lower) (var_ident ` set ?vs)" by code_simp
  ultimately show ?thesis using derived_command_names by fastforce
qed

end
