(* ===== verification/Registration.thy ===== *)
theory Registration
  imports RestateService "HOL-Library.Multiset"
begin

unbundle bit_operations_syntax

text \<open>
  Registering a service with Restate: the builders of \<^verbatim>\<open>crates/wee-events-restate/src/lib.rs\<close> and the
  registration type that \<open>service!\<close> generates (\<^verbatim>\<open>crates/wee-events-macros/src/service_macro.rs\<close>). Its
  type parameter lists the effects still to be supplied; the generated \<open>WithEffect\<close> impls are the
  only ways to remove one from the list, and \<open>attach_to\<close> exists for the empty list alone. Here the
  type parameter is a value, and what does not compile is \<open>None\<close>.
\<close>

section \<open>Builders\<close>

record 'svc restate_service_builder =
  rsb_service :: 'svc

record ('svc, 'st) restate_store_builder =
  rstb_service :: 'svc
  rstb_store :: 'st

definition restate_create :: "'svc \<Rightarrow> 'svc restate_service_builder" where
  "restate_create service = \<lparr>rsb_service = service\<rparr>"

definition restate_with_store ::
  "'svc restate_service_builder \<Rightarrow> 'st \<Rightarrow> ('svc, 'st) restate_store_builder" where
  "restate_with_store b store = \<lparr>rstb_service = rsb_service b, rstb_store = store\<rparr>"

definition restate_with_env ::
  "('svc \<Rightarrow> 'sv \<Rightarrow> 'sv \<Rightarrow> 'reg) \<Rightarrow> 'svc restate_service_builder \<Rightarrow> 'sv \<Rightarrow> 'reg" where
  "restate_with_env register b services = register (rsb_service b) services services"

definition restate_store_with_env ::
  "('svc \<Rightarrow> 'st \<Rightarrow> 'sv \<Rightarrow> 'reg) \<Rightarrow> ('svc, 'st) restate_store_builder \<Rightarrow> 'sv \<Rightarrow> 'reg" where
  "restate_store_with_env register b services = register (rstb_service b) (rstb_store b) services"

section \<open>The effects still to be supplied\<close>

datatype remaining = Ready | Needs string remaining

text \<open>A set of effects is a bit set in a \<open>usize\<close>.\<close>

definition has_effect :: "u64 \<Rightarrow> nat \<Rightarrow> bool" where
  "has_effect s i = (s AND push_bit i 1 \<noteq> 0)"

definition without_effect :: "u64 \<Rightarrow> nat \<Rightarrow> u64" where
  "without_effect s i = s AND NOT (push_bit i 1)"

definition all_effects :: "nat \<Rightarrow> u64" where
  "all_effects n = push_bit n 1 - 1"

definition remaining_type_for_subset :: "string list \<Rightarrow> u64 \<Rightarrow> remaining" where
  "remaining_type_for_subset effect_markers chosen_set =
     foldl (\<lambda>tail (_, marker). Needs marker tail) Ready
       (filter (\<lambda>(idx, _). has_effect chosen_set idx) (rev (enumerate 0 effect_markers)))"

definition initial_remaining_effects :: "string list \<Rightarrow> remaining" where
  "initial_remaining_effects effect_markers = remaining_type_for_subset effect_markers
     (if effect_markers = [] then 0 else all_effects (length effect_markers))"

text \<open>The subsets \<open>1usize..=all_effects\<close>.\<close>

definition subsets :: "nat \<Rightarrow> u64 list" where
  "subsets n = map word_of_nat [1..<Suc (unat (all_effects n))]"

text \<open>The generated impls: for each input type and requirement the output type.\<close>

definition with_effect_impls :: "string list \<Rightarrow> ((remaining \<times> string) \<times> remaining) list" where
  "with_effect_impls effect_markers =
     concat (map (\<lambda>chosen_set.
       concat (map (\<lambda>effect_index.
         if \<not> has_effect chosen_set effect_index then []
         else [((remaining_type_for_subset effect_markers chosen_set, effect_markers ! effect_index),
                remaining_type_for_subset effect_markers (without_effect chosen_set effect_index))])
         [0..<length effect_markers]))
       (subsets (length effect_markers)))"

text \<open>
  \<open>Registration\<close>: an effect is kept as the function that binds it to the endpoint's builder.
\<close>

record ('b, 'bld) registration =
  reg_binding :: 'b
  reg_effects :: "('bld \<Rightarrow> 'bld) list"
  reg_remaining :: remaining

definition register :: "string list \<Rightarrow> 'b \<Rightarrow> ('b, 'bld) registration" where
  "register effect_markers binding = \<lparr>reg_binding = binding, reg_effects = [],
     reg_remaining = initial_remaining_effects effect_markers\<rparr>"

definition with_effect ::
  "string list \<Rightarrow> ('bld \<Rightarrow> 'b \<Rightarrow> 'bld) \<Rightarrow> string \<times> 'b \<Rightarrow> ('b, 'bld) registration \<Rightarrow>
    ('b, 'bld) registration option" where
  "with_effect effect_markers bind effect reg =
     map_option (\<lambda>out. \<lparr>reg_binding = reg_binding reg,
         reg_effects = reg_effects reg @ [\<lambda>builder. bind builder (snd effect)], reg_remaining = out\<rparr>)
       (map_of (with_effect_impls effect_markers) (reg_remaining reg, fst effect))"

definition attach_effects_to :: "'bld \<Rightarrow> ('bld \<Rightarrow> 'bld) list \<Rightarrow> 'bld" where
  "attach_effects_to builder effects = foldl (\<lambda>builder effect. effect builder) builder effects"

definition attach_to :: "('bld \<Rightarrow> 'b \<Rightarrow> 'bld) \<Rightarrow> ('b, 'bld) registration \<Rightarrow> 'bld \<Rightarrow> 'bld option" where
  "attach_to bind reg builder =
     (case reg_remaining reg of
        Ready \<Rightarrow> Some (attach_effects_to (bind builder (reg_binding reg)) (reg_effects reg))
      | Needs m r \<Rightarrow> None)"

text \<open>A program: one \<open>with_effect\<close> after the other, then \<open>attach_to\<close>.\<close>

fun with_effects ::
  "string list \<Rightarrow> ('bld \<Rightarrow> 'b \<Rightarrow> 'bld) \<Rightarrow> (string \<times> 'b) list \<Rightarrow> ('b, 'bld) registration \<Rightarrow>
    ('b, 'bld) registration option" where
  "with_effects markers bind [] reg = Some reg"
| "with_effects markers bind (e # es) reg =
     Option.bind (with_effect markers bind e reg) (with_effects markers bind es)"

section \<open>What the types enforce\<close>

lemma has_effect_bit [simp]: "has_effect s i \<longleftrightarrow> bit s i"
  by (simp add: has_effect_def bit_iff_and_push_bit_not_eq_0)

lemma bit_without_effect [simp]: "bit (without_effect s i) j \<longleftrightarrow> bit s j \<and> j \<noteq> i"
  by (auto simp: without_effect_def bit_simps dest: bit_imp_le_length)

definition needs_all :: "string list \<Rightarrow> remaining" where
  "needs_all ms = foldr Needs ms Ready"

lemma needs_all_eq [simp]: "needs_all ms = needs_all ns \<longleftrightarrow> ms = ns"
proof (induction ms arbitrary: ns)
  case Nil
  show ?case by (cases ns) (simp_all add: needs_all_def)
next
  case (Cons m ms)
  then show ?case by (cases ns) (simp_all add: needs_all_def)
qed

definition chosen :: "string list \<Rightarrow> u64 \<Rightarrow> string list" where
  "chosen ms s = map snd (filter (\<lambda>(i, _). bit s i) (enumerate 0 ms))"

lemma remaining_chosen: "remaining_type_for_subset ms s = needs_all (chosen ms s)"
proof -
  have "foldl (\<lambda>tail (_, m). Needs m tail) Ready xs = foldr Needs (map snd (rev xs)) Ready"
    for xs :: "(nat \<times> string) list"
    by (induction xs rule: rev_induct) auto
  then show ?thesis
    by (simp add: remaining_type_for_subset_def needs_all_def chosen_def rev_filter
        has_effect_bit)
qed

lemma set_chosen: "set (chosen ms s) = {ms ! i | i. i < length ms \<and> bit s i}"
  by (force simp: chosen_def in_set_enumerate_eq)

lemma bit_chosen:
  "distinct ms \<Longrightarrow> i < length ms \<Longrightarrow> ms ! i \<in> set (chosen ms s) \<longleftrightarrow> bit s i"
  by (auto simp: set_chosen nth_eq_iff_index_eq)

lemma chosen_inj:
  assumes "distinct ms" and "take_bit (length ms) s = s" and "take_bit (length ms) t = t"
    and "chosen ms s = chosen ms t"
  shows "s = t"
proof (rule bit_eqI)
  fix i
  have "bit s i \<longleftrightarrow> i < length ms \<and> bit s i" and "bit t i \<longleftrightarrow> i < length ms \<and> bit t i"
    using assms(2,3) bit_take_bit_iff [of "length ms"] by metis+
  with bit_chosen [OF assms(1)] assms(4) show "bit s i \<longleftrightarrow> bit t i" by metis
qed

lemma all_effects_mask: "n < 64 \<Longrightarrow> unat (all_effects n) = 2 ^ n - 1"
proof -
  assume "n < 64"
  then have "(2 :: nat) ^ n < 2 ^ 64" by (intro power_strict_increasing) simp_all
  then have "unat (word_of_nat (2 ^ n) :: u64) = 2 ^ n" by (simp only: unat_of_nat) (simp add: take_bit_nat_eq_self)
  then have two: "unat (2 ^ n :: u64) = 2 ^ n" by simp
  then have "(1 :: u64) \<le> 2 ^ n" by (simp add: word_le_nat_alt)
  with two show ?thesis by (simp add: all_effects_def unat_sub)
qed

lemma set_subsets:
  assumes "n < 64"
  shows "set (subsets n) = {s. take_bit n s = s \<and> s \<noteq> 0}"
proof -
  have small: "(2 :: nat) ^ n < 2 ^ 64" using assms by (intro power_strict_increasing) simp_all
  have range: "set (subsets n) = word_of_nat ` {1..<2 ^ n}"
    using assms by (auto simp: subsets_def all_effects_mask)
  show ?thesis
  proof (intro set_eqI iffI)
    fix s
    assume "s \<in> set (subsets n)"
    then obtain k where k: "s = word_of_nat k" "0 < k" "k < 2 ^ n" by (auto simp: range)
    with small have "unat s = k" by (simp add: unat_of_nat take_bit_nat_eq_self)
    with k show "s \<in> {s. take_bit n s = s \<and> s \<noteq> 0}"
      by (auto simp: take_bit_of_nat take_bit_nat_eq_self)
  next
    fix s :: u64
    assume s: "s \<in> {s. take_bit n s = s \<and> s \<noteq> 0}"
    have "unat (take_bit n s) = take_bit n (unat s)" by (rule unsigned_take_bit_eq)
    with s have "unat s = take_bit n (unat s)" by simp
    moreover have "take_bit n (unat s) < 2 ^ n" by simp
    ultimately have "unat s < 2 ^ n" by linarith
    moreover have "0 < unat s" using s by (simp add: unat_gt_0)
    ultimately show "s \<in> set (subsets n)"
      unfolding range by (intro image_eqI [of _ _ "unat s"]) auto
  qed
qed

lemma set_with_effect_impls:
  "set (with_effect_impls ms) =
     {((needs_all (chosen ms t), ms ! i), needs_all (chosen ms (without_effect t i))) | t i.
        t \<in> set (subsets (length ms)) \<and> i < length ms \<and> bit t i}"
proof -
  have "concat (map (\<lambda>i. if \<not> P i then [] else [f i]) is) = map f (filter P is)"
    for P and f :: "nat \<Rightarrow> (remaining \<times> string) \<times> remaining" and "is"
    by (induction "is") auto
  then have "set (with_effect_impls ms) = (\<Union>t\<in>set (subsets (length ms)).
      (\<lambda>i. ((needs_all (chosen ms t), ms ! i), needs_all (chosen ms (without_effect t i)))) `
        {i. i < length ms \<and> bit t i})"
    by (simp add: with_effect_impls_def remaining_chosen set_filter)
  then show ?thesis by blast
qed

lemma chosen_without:
  assumes "distinct ms" and "i < length ms"
  shows "chosen ms (without_effect s i) = remove1 (ms ! i) (chosen ms s)"
proof -
  have "distinct (map snd (enumerate 0 ms))" using assms(1) by simp
  then have "distinct (chosen ms s)" unfolding chosen_def by (rule distinct_map_filter)
  then have "remove1 (ms ! i) (chosen ms s) = filter (\<lambda>k. k \<noteq> ms ! i) (chosen ms s)"
    by (simp add: distinct_remove1_removeAll removeAll_filter_not_eq eq_commute)
  also have "\<dots> = map snd (filter (\<lambda>(j, k). bit s j \<and> k \<noteq> ms ! i) (enumerate 0 ms))"
    by (simp add: chosen_def filter_map filter_filter comp_def case_prod_beta' conj_commute)
  also have "filter (\<lambda>(j, k). bit s j \<and> k \<noteq> ms ! i) (enumerate 0 ms) =
      filter (\<lambda>(j, _). bit (without_effect s i) j) (enumerate 0 ms)"
    using assms by (intro filter_cong) (auto simp: in_set_enumerate_eq nth_eq_iff_index_eq)
  finally show ?thesis by (simp add: chosen_def)
qed

lemma with_effect_lookup:
  assumes "distinct ms" and "length ms < 64" and "take_bit (length ms) s = s"
  shows "map_of (with_effect_impls ms) (needs_all (chosen ms s), m) =
    (if m \<in> set (chosen ms s) then Some (needs_all (remove1 m (chosen ms s))) else None)"
proof (cases "map_of (with_effect_impls ms) (needs_all (chosen ms s), m)")
  case None
  have "m \<notin> set (chosen ms s)"
  proof
    assume "m \<in> set (chosen ms s)"
    then obtain i where i: "i < length ms" "bit s i" "m = ms ! i" by (auto simp: set_chosen)
    then have "s \<in> set (subsets (length ms))"
      using assms(3) by (auto simp: set_subsets [OF assms(2)])
    with i have "((needs_all (chosen ms s), m), needs_all (chosen ms (without_effect s i))) \<in>
        set (with_effect_impls ms)"
      unfolding set_with_effect_impls by blast
    with None show False by (metis map_of_eq_None_iff image_eqI fst_conv)
  qed
  with None show ?thesis by simp
next
  case (Some q)
  from map_of_SomeD [OF Some] obtain t i where t: "t \<in> set (subsets (length ms))"
    and i: "i < length ms" "bit t i" "m = ms ! i"
    and "chosen ms s = chosen ms t" and q: "q = needs_all (chosen ms (without_effect t i))"
    unfolding set_with_effect_impls by auto
  moreover from t have "take_bit (length ms) t = t" by (simp add: set_subsets [OF assms(2)])
  ultimately have "s = t" using chosen_inj [OF assms(1,3)] by metis
  with Some q i show ?thesis
    by (auto simp: chosen_without [OF assms(1)] set_chosen)
qed

lemma attach_effects_to_snoc [simp]:
  "attach_effects_to builder (effects @ [f]) = f (attach_effects_to builder effects)"
  by (simp add: attach_effects_to_def)

lemma take_bit_without_effect:
  "take_bit n s = s \<Longrightarrow> take_bit n (without_effect s i) = without_effect s i"
  by (rule bit_eqI) (metis bit_take_bit_iff bit_without_effect)

lemma attach_after_effects:
  assumes "distinct ms" and "length ms < 64" and "take_bit (length ms) s = s"
    and "reg_remaining reg = needs_all (chosen ms s)"
  shows "Option.bind (with_effects ms bind es reg) (\<lambda>r. attach_to bind r builder) =
    (if mset (map fst es) = mset (chosen ms s)
     then Some (foldl bind (attach_effects_to (bind builder (reg_binding reg)) (reg_effects reg))
       (map snd es))
     else None)"
  using assms(3,4)
proof (induction es arbitrary: reg s)
  case Nil
  then show ?case by (cases "chosen ms s") (simp_all add: attach_to_def needs_all_def)
next
  case (Cons e es)
  note lookup = with_effect_lookup [OF assms(1,2) Cons.prems(1), of "fst e"]
  show ?case
  proof (cases "fst e \<in> set (chosen ms s)")
    case True
    then obtain i where i: "i < length ms" "fst e = ms ! i" by (auto simp: set_chosen)
    let ?s = "without_effect s i"
    have rest: "remove1 (fst e) (chosen ms s) = chosen ms ?s"
      using i chosen_without [OF assms(1)] by simp
    have "mset (map fst es) = mset (chosen ms ?s) \<longleftrightarrow>
        mset (map fst (e # es)) = mset (chosen ms s)"
      using True unfolding rest [symmetric]
      by (metis insert_DiffM mset.simps(2) add_mset_add_single add_mset_remove_trivial list.simps(9) mset_remove1 set_mset_mset)
    with Cons.IH [OF take_bit_without_effect [OF Cons.prems(1)], of _ i] Cons.prems(2) True lookup rest
    show ?thesis by (simp add: with_effect_def)
  next
    case False
    then have "mset (map fst (e # es)) \<noteq> mset (chosen ms s)"
      by (metis list.set_intros(1) list.simps(9) set_mset_mset)
    with False Cons.prems(2) lookup show ?thesis by (simp add: with_effect_def)
  qed
qed

lemma all_effects_eq_mask: "all_effects n = mask n"
  by (simp add: all_effects_def mask_eq_exp_minus_1)

lemma bit_all_effects: "n < 64 \<Longrightarrow> bit (all_effects n) i \<longleftrightarrow> i < n"
  by (auto simp: all_effects_eq_mask bit_mask_iff)

lemma chosen_all: "length ms < 64 \<Longrightarrow> chosen ms (all_effects (length ms)) = ms"
proof -
  assume "length ms < 64"
  then have "filter (\<lambda>(i, _). bit (all_effects (length ms)) i) (enumerate 0 ms) = enumerate 0 ms"
    by (intro filter_True) (auto simp: bit_all_effects in_set_enumerate_eq)
  then show ?thesis by (simp add: chosen_def)
qed

text \<open>
  C23: the registration's type enforces the effects: for a service that declares distinct effects,
  a program that supplies some effects and attaches the registration compiles if and only if it
  supplies every declared effect exactly once, in any order; the endpoint then holds the service's
  binding followed by the supplied effects in the order of the calls.
\<close>

theorem attach_needs_each_effect_once:
  assumes "distinct markers" and "length markers < 64"
  shows "Option.bind (with_effects markers bind es (register markers binding))
      (\<lambda>reg. attach_to bind reg builder) =
    (if mset (map fst es) = mset markers then Some (foldl bind builder (binding # map snd es))
     else None)"
proof -
  let ?s = "if markers = [] then 0 else all_effects (length markers)"
  have "take_bit (length markers) ?s = ?s"
    by (auto simp: all_effects_eq_mask take_bit_eq_mask)
  moreover have "chosen markers ?s = markers"
    using chosen_all [OF assms(2)] by (auto simp: chosen_def)
  ultimately show ?thesis
    using attach_after_effects [OF assms, of ?s "register markers binding" bind es builder]
    by (simp add: register_def initial_remaining_effects_def remaining_chosen attach_effects_to_def)
qed

theorem attach_needs_each_effect_once_witness:
  "Option.bind (with_effects [''Mail'', ''Audit''] (\<lambda>b x. b @ [x]) [(''Audit'', 2), (''Mail'', 3)]
      (register [''Mail'', ''Audit''] (1 :: nat))) (\<lambda>reg. attach_to (\<lambda>b x. b @ [x]) reg []) =
    Some [1, 2, 3] \<and>
   Option.bind (with_effects [''Mail'', ''Audit''] (\<lambda>b x. b @ [x]) [(''Audit'', 2), (''Audit'', 3)]
      (register [''Mail'', ''Audit''] (1 :: nat))) (\<lambda>reg. attach_to (\<lambda>b x. b @ [x]) reg []) = None"
proof -
  have ms: "distinct [''Mail'', ''Audit'']" "length [''Mail'', ''Audit''] < 64" by simp_all
  show ?thesis unfolding attach_needs_each_effect_once [OF ms] by (simp add: add_mset_commute)
qed

end
