(* ===== verification/ServiceMacro.thy ===== *)
theory ServiceMacro
  imports MacroAttrs Registration
begin

text \<open>
  The \<open>service!\<close> macro of \<^verbatim>\<open>crates/wee-events-macros/src/service_macro.rs\<close>: the parser of a
  declaration and the generation of names, wire names and effect markers from it. The templates
  of the generated services are in \<open>RestateService\<close>, of the registration in \<open>Registration\<close>.
  Identifiers are ASCII here.
\<close>

section \<open>Names\<close>

fun snake_loop :: "bool \<Rightarrow> string \<Rightarrow> string" where
  "snake_loop prev_lower [] = []"
| "snake_loop prev_lower (ch # s) =
     (if is_upper ch
      then (if prev_lower then ''_'' else []) @ to_lower ch # snake_loop False s
      else ch # snake_loop (is_lower ch \<or> is_digit ch) s)"

definition to_snake_case :: "string \<Rightarrow> string" where
  "to_snake_case s = snake_loop False s"

definition spec_path :: "path \<Rightarrow> path" where
  "spec_path fn_path = Path (rename_last (\<lambda>i. i @ ''_Spec'') (path_segments fn_path))"

definition requires_path :: "path \<Rightarrow> path" where
  "requires_path fn_path = Path (rename_last (\<lambda>i. ''__'' @ i @ ''_Requires'') (path_segments fn_path))"

section \<open>Parsing a declaration\<close>

text \<open>\<open>HandlerEntry\<close>, and \<open>LoaderEntry\<close>, which mirrors it.\<close>

record handler_entry =
  he_fn_path :: path
  he_wire_name :: "string option"

definition parse_wire_name :: "('v, 'c) syn \<Rightarrow> string option parser" where
  "parse_wire_name SY toks =
     (if peek_ident ''as'' toks
      then seq_result (parse_keyword SY ''as'') (\<lambda>_.
        seq_result (parse_lit_str SY) (\<lambda>w. give (Inr (Some w)))) toks
      else (Inr None, toks))"

definition parse_handler_entry :: "('v, 'c) syn \<Rightarrow> handler_entry parser" where
  "parse_handler_entry SY =
     seq_result (sy_path SY) (\<lambda>p.
     seq_result (parse_wire_name SY) (\<lambda>w. give (Inr \<lparr>he_fn_path = p, he_wire_name = w\<rparr>)))"

datatype 'c effect_filter_syntax =
    OnAll
  | OnCommands "path list"
  | OnPredicate 'c

record 'c effect_declaration =
  ed_workflow :: string
  ed_filter :: "'c effect_filter_syntax"

definition parse_effect_filter :: "('v, 'c) syn \<Rightarrow> 'c effect_filter_syntax parser" where
  "parse_effect_filter SY toks =
     (if peek_ident ''all'' toks
      then seq_result (parse_keyword SY ''all'') (\<lambda>_. give (Inr OnAll)) toks
      else if peek_ident ''predicate'' toks
      then seq_result (parse_keyword SY ''predicate'') (\<lambda>_.
        seq_result (parse_group SY Paren) (\<lambda>inner. give
          (case sy_closure SY inner of
             (Inl e, _) \<Rightarrow> Inl e
           | (Inr c, []) \<Rightarrow> Inr (OnPredicate c)
           | (Inr c, t # ts) \<Rightarrow> Inl ''unexpected token in predicate filter''))) toks
      else if peek_group Bracket toks
      then seq_result (parse_inside SY Bracket (parse_terminated SY (sy_path SY)))
        (\<lambda>cmds. give (Inr (OnCommands cmds))) toks
      else (Inl ''expected `all`, `predicate(...)`, or `[Cmd, ...]` after `on`'', toks))"

definition parse_effect_entry :: "('v, 'c) syn \<Rightarrow> 'c effect_declaration parser" where
  "parse_effect_entry SY =
     seq_result (parse_ident SY) (\<lambda>workflow.
     seq_result (parse_ident SY) (\<lambda>on.
       if on \<noteq> ''on'' then give (Inl ''expected `on`'')
       else seq_result (parse_effect_filter SY) (\<lambda>f.
         give (Inr \<lparr>ed_workflow = workflow, ed_filter = f\<rparr>))))"

record 'v definition_only_input =
  do_vis :: 'v
  do_name :: string
  do_service_name :: string
  do_state_type :: path
  do_commands :: "path list"

record ('v, 'c) full_service_input =
  fs_vis :: 'v
  fs_name :: string
  fs_service_name :: string
  fs_state_type :: path
  fs_loader_entry :: handler_entry
  fs_handler_entries :: "handler_entry list"
  fs_effect_entries :: "'c effect_declaration list"

datatype ('v, 'c) service_input =
    DefinitionOnly "'v definition_only_input"
  | FullService "('v, 'c) full_service_input"

definition parse_logical_name :: "('v, 'c) syn \<Rightarrow> string option parser" where
  "parse_logical_name SY toks =
     (if peek_group Paren toks
      then seq_result (parse_inside SY Paren (parse_lit_str SY)) (\<lambda>s. give (Inr (Some s))) toks
      else (Inr None, toks))"

definition service_name_of :: "string \<Rightarrow> string option \<Rightarrow> string" where
  "service_name_of name logical = (case logical of Some lit \<Rightarrow> lit | None \<Rightarrow> to_snake_case name)"

definition parse_effects_block :: "('v, 'c) syn \<Rightarrow> 'c effect_declaration list parser" where
  "parse_effects_block SY toks =
     (if peek_ident ''effects'' toks
      then seq_result (parse_keyword SY ''effects'') (\<lambda>_.
        seq_result (parse_punct SY CHR '':'') (\<lambda>_.
        seq_result (parse_inside SY Bracket (parse_terminated SY (parse_effect_entry SY))) (\<lambda>es.
        seq_result skip_comma (\<lambda>_. give (Inr es))))) toks
      else (Inr [], toks))"

text \<open>The body between the braces: loader, handlers and effects.\<close>

definition parse_body ::
  "('v, 'c) syn \<Rightarrow> (handler_entry \<times> handler_entry list \<times> 'c effect_declaration list) parser" where
  "parse_body SY =
     seq_result (parse_keyword SY ''loader'') (\<lambda>_.
     seq_result (parse_punct SY CHR '':'') (\<lambda>_.
     seq_result (parse_handler_entry SY) (\<lambda>loader_entry.
     seq_result (parse_punct SY CHR '','') (\<lambda>_.
     seq_result (parse_keyword SY ''handlers'') (\<lambda>_.
     seq_result (parse_punct SY CHR '':'') (\<lambda>_.
     seq_result (parse_inside SY Bracket (parse_terminated SY (parse_handler_entry SY))) (\<lambda>entries.
     seq_result skip_comma (\<lambda>_.
     seq_result (parse_effects_block SY) (\<lambda>effects toks.
       (if toks \<noteq> [] then Inl ''unexpected token in service body''
        else Inr (loader_entry, entries, effects), toks))))))))))"

definition parse_service_input :: "('v, 'c) syn \<Rightarrow> ('v, 'c) service_input parser" where
  "parse_service_input SY =
     seq_result (sy_visibility SY) (\<lambda>vis.
     seq_result (parse_ident SY) (\<lambda>name.
     seq_result (parse_logical_name SY) (\<lambda>logical.
     seq_result (parse_keyword SY ''for'') (\<lambda>_.
     seq_result (sy_path SY) (\<lambda>state toks.
       if peek_group Bracket toks
       then seq_result (parse_inside SY Bracket (parse_terminated SY (sy_path SY))) (\<lambda>commands.
         give (Inr (DefinitionOnly \<lparr>do_vis = vis, do_name = name,
           do_service_name = service_name_of name logical, do_state_type = state,
           do_commands = commands\<rparr>))) toks
       else seq_result (parse_inside SY Brace (parse_body SY)) (\<lambda>(loader_entry, entries, effects).
         give (Inr (FullService \<lparr>fs_vis = vis, fs_name = name,
           fs_service_name = service_name_of name logical, fs_state_type = state,
           fs_loader_entry = loader_entry, fs_handler_entries = entries,
           fs_effect_entries = effects\<rparr>))) toks)))))"

section \<open>Generation\<close>

record generated_definition =
  gd_service_name :: string
  gd_state :: path
  gd_has_command :: "path list"

definition generate_definition_only :: "'v definition_only_input \<Rightarrow> generated_definition" where
  "generate_definition_only d =
     \<lparr>gd_service_name = do_service_name d, gd_state = do_state_type d, gd_has_command = do_commands d\<rparr>"

definition path_ident :: "path \<Rightarrow> string" where
  "path_ident p = (case last_opt (path_segments p) of None \<Rightarrow> [] | Some s \<Rightarrow> segment_ident s)"

definition loader_wire_name :: "handler_entry \<Rightarrow> string" where
  "loader_wire_name e = (case he_wire_name e of None \<Rightarrow> ''load'' | Some w \<Rightarrow> w)"

definition handler_wire_name :: "handler_entry \<Rightarrow> string" where
  "handler_wire_name e =
     (case he_wire_name e of
        Some w \<Rightarrow> w
      | None \<Rightarrow> to_snake_case (path_ident (he_fn_path e)))"

text \<open>The first handler whose wire name was seen before.\<close>

fun first_collision :: "string set \<Rightarrow> handler_entry list \<Rightarrow> handler_entry option" where
  "first_collision seen [] = None"
| "first_collision seen (e # es) =
     (if handler_wire_name e \<in> seen then Some e
      else first_collision (insert (handler_wire_name e) seen) es)"

definition collision_message :: "string \<Rightarrow> handler_entry \<Rightarrow> string" where
  "collision_message loader e =
     ''wire name `'' @ handler_wire_name e @
     ''` collides with another handler or with the reserved loader name `'' @ loader @
     ''`. Use `'' @ path_ident (he_fn_path e) @ '' as '' @
     [CHR 0x22, CHR 0xE2, CHR 0x80, CHR 0xA6, CHR 0x22] @ ''` to pick a different wire name.''"

text \<open>
  The names and lists the templates are filled with: the two env traits with the requirements they
  join, the modules, the binder's trait, struct and registration, the methods with their wire
  names, the specs whose commands the service handles, and the effects.
\<close>

record generated_service =
  gs_definition :: generated_definition
  gs_env_trait :: string
  gs_all_requires :: "path list"
  gs_handler_env_trait :: string
  gs_handler_requires :: "path list"
  gs_core_mod :: string
  gs_restate_mod :: string
  gs_binder_trait :: string
  gs_binding :: string
  gs_registration :: string
  gs_loader_method :: "string \<times> string"
  gs_handler_methods :: "(string \<times> string) list"
  gs_effect_markers :: "string list"
  gs_effect_filters :: "string list"
  gs_effect_clients :: "string list"
  gs_initial_remaining :: remaining

definition handler_method_ident :: "nat \<Rightarrow> string" where
  "handler_method_ident i = ''__wee_events_handler_'' @ decimal i"

definition effect_filter_ident :: "string \<Rightarrow> nat \<Rightarrow> string" where
  "effect_filter_ident name i =
     ''__wee_events_'' @ to_snake_case name @ ''_effect_filter_'' @ decimal i"

definition effect_marker_ident :: "string \<Rightarrow> 'c effect_declaration \<Rightarrow> string" where
  "effect_marker_ident name e = name @ ed_workflow e @ ''Effect''"

definition generate_full :: "('v, 'c) full_service_input \<Rightarrow> string + generated_service" where
  "generate_full d =
     (let loader = loader_wire_name (fs_loader_entry d);
          handlers = fs_handler_entries d;
          name = fs_name d;
          requires = map (\<lambda>e. requires_path (he_fn_path e)) handlers;
          markers = map (effect_marker_ident name) (fs_effect_entries d)
      in case first_collision {loader} handlers of
           Some e \<Rightarrow> Inl (collision_message loader e)
         | None \<Rightarrow> Inr
             \<lparr>gs_definition = \<lparr>gd_service_name = fs_service_name d, gd_state = fs_state_type d,
                gd_has_command = map (\<lambda>e. spec_path (he_fn_path e)) handlers\<rparr>,
              gs_env_trait = name @ ''Env'',
              gs_all_requires = requires_path (he_fn_path (fs_loader_entry d)) # requires,
              gs_handler_env_trait = name @ ''HandlerEnv'',
              gs_handler_requires = requires,
              gs_core_mod = ''__wee_events_'' @ to_snake_case name @ ''_core'',
              gs_restate_mod = ''__wee_events_'' @ to_snake_case name @ ''_restate'',
              gs_binder_trait = name @ ''Binder'',
              gs_binding = name @ ''Binding'',
              gs_registration = name @ ''Registration'',
              gs_loader_method = (''__wee_events_load'', loader),
              gs_handler_methods = zip (map handler_method_ident [0..<length handlers])
                (map handler_wire_name handlers),
              gs_effect_markers = markers,
              gs_effect_filters = map (effect_filter_ident name) [0..<length (fs_effect_entries d)],
              gs_effect_clients = map (\<lambda>e. ed_workflow e @ ''Client'') (fs_effect_entries d),
              gs_initial_remaining = initial_remaining_effects markers\<rparr>)"

definition expand_service ::
  "('v, 'c) syn \<Rightarrow> token list \<Rightarrow> string + (generated_definition + generated_service)" where
  "expand_service SY toks =
     and_then (parse_all SY (parse_service_input SY) toks) (\<lambda>inp.
       case inp of
         DefinitionOnly d \<Rightarrow> Inr (Inl (generate_definition_only d))
       | FullService d \<Rightarrow> map_ok Inr (generate_full d))"

section \<open>Snake case\<close>

lemma snake_loop_no_upper: "c \<in> set (snake_loop b s) \<Longrightarrow> \<not> is_upper c"
proof (induction b s rule: snake_loop.induct)
  case (2 prev_lower ch s)
  then show ?case
    by (auto split: if_splits dest: to_lower_is_lower is_lower_not_upper) (simp add: is_upper_def)
qed simp

lemma snake_loop_id: "(\<And>c. c \<in> set s \<Longrightarrow> \<not> is_upper c) \<Longrightarrow> snake_loop b s = s"
  by (induction b s rule: snake_loop.induct) auto

lemma to_snake_case_no_upper: "c \<in> set (to_snake_case s) \<Longrightarrow> \<not> is_upper c"
  by (simp add: to_snake_case_def snake_loop_no_upper)

lemma to_snake_case_idempotent [simp]: "to_snake_case (to_snake_case s) = to_snake_case s"
  unfolding to_snake_case_def by (rule snake_loop_id) (rule snake_loop_no_upper)

text \<open>
  The comment on \<open>to_snake_case\<close> gives \<open>h_t_t_p_service\<close> for \<open>HTTPService\<close>; an uppercase letter
  after another gets no underscore, and even the words run together.
\<close>

theorem snake_case_acronym:
  "to_snake_case ''CounterService'' = ''counter_service'' \<and>
   to_snake_case ''HTTPService'' = ''httpservice''"
  by code_simp

section \<open>Wire names\<close>

definition wire_names :: "('v, 'c) full_service_input \<Rightarrow> string list" where
  "wire_names d = loader_wire_name (fs_loader_entry d) # map handler_wire_name (fs_handler_entries d)"

lemma first_collision_None:
  "first_collision seen es = None \<longleftrightarrow>
     distinct (map handler_wire_name es) \<and> seen \<inter> handler_wire_name ` set es = {}"
  by (induction seen es rule: first_collision.induct) auto

lemma first_collision_Some:
  "first_collision seen es = Some e \<Longrightarrow>
     \<exists>pre post. es = pre @ e # post \<and> handler_wire_name e \<in> seen \<union> handler_wire_name ` set pre"
proof (induction seen es rule: first_collision.induct)
  case (2 seen x es)
  show ?case
  proof (cases "handler_wire_name x \<in> seen")
    case True
    with 2 show ?thesis by (intro exI [of _ "[]"] exI [of _ es]) auto
  next
    case False
    with 2 obtain pre post where "es = pre @ e # post"
      "handler_wire_name e \<in> insert (handler_wire_name x) seen \<union> handler_wire_name ` set pre"
      by auto
    then show ?thesis by (intro exI [of _ "x # pre"] exI [of _ post]) auto
  qed
qed simp

text \<open>
  C37: a generated service answers each wire name with one method: \<open>service!\<close> expands a full
  declaration if and only if the loader's wire name and those of the handlers are pairwise
  distinct, and then binds exactly these names; otherwise it reports a handler whose name was
  already taken by the loader or an earlier handler.
\<close>

theorem wire_names_distinct:
  "case generate_full d of
     Inr g \<Rightarrow> distinct (wire_names d) \<and>
       snd (gs_loader_method g) # map snd (gs_handler_methods g) = wire_names d
   | Inl message \<Rightarrow> \<not> distinct (wire_names d) \<and>
       (\<exists>pre e post. fs_handler_entries d = pre @ e # post \<and>
          handler_wire_name e \<in>
            insert (loader_wire_name (fs_loader_entry d)) (handler_wire_name ` set pre) \<and>
          message = collision_message (loader_wire_name (fs_loader_entry d)) e)"
proof (cases "first_collision {loader_wire_name (fs_loader_entry d)} (fs_handler_entries d)")
  case None
  from first_collision_None [THEN iffD1, OF this] None show ?thesis
    by (simp add: generate_full_def Let_def wire_names_def)
next
  case (Some e)
  from first_collision_Some [OF this] obtain pre post where
    "fs_handler_entries d = pre @ e # post"
    "handler_wire_name e \<in>
      insert (loader_wire_name (fs_loader_entry d)) (handler_wire_name ` set pre)"
    by auto
  with Some show ?thesis
    by (auto simp: generate_full_def Let_def wire_names_def)
qed

section \<open>Printing and parsing back\<close>

definition print_entry :: "(path \<Rightarrow> token list) \<Rightarrow> handler_entry \<Rightarrow> token list" where
  "print_entry pt e = pt (he_fn_path e) @
     (case he_wire_name e of None \<Rightarrow> [] | Some w \<Rightarrow> [TokIdent ''as'', TokLit w])"

definition print_effect ::
  "(path \<Rightarrow> token list) \<Rightarrow> ('c \<Rightarrow> token list) \<Rightarrow> 'c effect_declaration \<Rightarrow> token list" where
  "print_effect pt ct e = TokIdent (ed_workflow e) # TokIdent ''on'' #
     (case ed_filter e of
        OnAll \<Rightarrow> [TokIdent ''all'']
      | OnCommands cmds \<Rightarrow> [TokGroup Bracket (comma_separated pt cmds)]
      | OnPredicate c \<Rightarrow> [TokIdent ''predicate'', TokGroup Paren (ct c)])"

definition print_body ::
  "(path \<Rightarrow> token list) \<Rightarrow> ('c \<Rightarrow> token list) \<Rightarrow> handler_entry \<Rightarrow> handler_entry list \<Rightarrow>
    'c effect_declaration list \<Rightarrow> token list" where
  "print_body pt ct loader_entry entries effects =
     TokIdent ''loader'' # TokPunct CHR '':'' # print_entry pt loader_entry @
     [TokPunct CHR '','', TokIdent ''handlers'', TokPunct CHR '':'',
      TokGroup Bracket (comma_separated (print_entry pt) entries), TokPunct CHR '',''] @
     (if effects = [] then []
      else [TokIdent ''effects'', TokPunct CHR '':'',
        TokGroup Bracket (comma_separated (print_effect pt ct) effects), TokPunct CHR '',''])"

fun print_service ::
  "('v \<Rightarrow> token list) \<Rightarrow> (path \<Rightarrow> token list) \<Rightarrow> ('c \<Rightarrow> token list) \<Rightarrow> ('v, 'c) service_input \<Rightarrow>
    token list" where
  "print_service vt pt ct (DefinitionOnly d) =
     vt (do_vis d) @ TokIdent (do_name d) # TokGroup Paren [TokLit (do_service_name d)] #
     TokIdent ''for'' # pt (do_state_type d) @ [TokGroup Bracket (comma_separated pt (do_commands d))]"
| "print_service vt pt ct (FullService d) =
     vt (fs_vis d) @ TokIdent (fs_name d) # TokGroup Paren [TokLit (fs_service_name d)] #
     TokIdent ''for'' # pt (fs_state_type d) @
     [TokGroup Brace (print_body pt ct (fs_loader_entry d) (fs_handler_entries d) (fs_effect_entries d))]"

text \<open>
  \<open>syn\<close> reads back what is printed: a visibility before an identifier, a path before the tokens
  that can follow one in a declaration, a closure alone.
\<close>

definition path_stops :: "token list \<Rightarrow> bool" where
  "path_stops ts = (case ts of
       [] \<Rightarrow> True
     | TokIdent _ # _ \<Rightarrow> True
     | TokPunct c # _ \<Rightarrow> c = CHR '',''
     | TokGroup d _ # _ \<Rightarrow> d \<noteq> Paren
     | TokLit _ # _ \<Rightarrow> False)"

definition syn_reads ::
  "('v, 'c) syn \<Rightarrow> ('v \<Rightarrow> token list) \<Rightarrow> (path \<Rightarrow> token list) \<Rightarrow> ('c \<Rightarrow> token list) \<Rightarrow> path set \<Rightarrow> bool" where
  "syn_reads SY vt pt ct paths \<longleftrightarrow>
     (\<forall>v s ts. \<not> sy_keyword SY s \<longrightarrow> sy_visibility SY (vt v @ TokIdent s # ts) = (Inr v, TokIdent s # ts)) \<and>
     (\<forall>p\<in>paths. pt p \<noteq> [] \<and> (\<forall>ts. path_stops ts \<longrightarrow> sy_path SY (pt p @ ts) = (Inr p, ts))) \<and>
     (\<forall>c. sy_closure SY (ct c) = (Inr c, [])) \<and>
     \<not> sy_keyword SY ''on''"

fun effect_paths :: "'c effect_declaration \<Rightarrow> path set" where
  "effect_paths e = (case ed_filter e of OnCommands cmds \<Rightarrow> set cmds | _ \<Rightarrow> {})"

fun service_paths :: "('v, 'c) service_input \<Rightarrow> path set" where
  "service_paths (DefinitionOnly d) = insert (do_state_type d) (set (do_commands d))"
| "service_paths (FullService d) =
     {fs_state_type d, he_fn_path (fs_loader_entry d)} \<union> he_fn_path ` set (fs_handler_entries d) \<union>
     \<Union> (effect_paths ` set (fs_effect_entries d))"

fun service_idents :: "('v, 'c) service_input \<Rightarrow> string set" where
  "service_idents (DefinitionOnly d) = {do_name d}"
| "service_idents (FullService d) = insert (fs_name d) (ed_workflow ` set (fs_effect_entries d))"

lemma path_stops_simps [simp]:
  "path_stops []" "path_stops (TokIdent s # ts)" "path_stops (TokPunct CHR '','' # ts)"
  "path_stops (TokGroup Bracket inner # ts)" "path_stops (TokGroup Brace inner # ts)"
  by (simp_all add: path_stops_def)

lemma syn_readsD:
  assumes "syn_reads SY vt pt ct paths"
  shows "\<not> sy_keyword SY s \<Longrightarrow> sy_visibility SY (vt v @ TokIdent s # ts) = (Inr v, TokIdent s # ts)"
    and "p \<in> paths \<Longrightarrow> pt p \<noteq> []"
    and "p \<in> paths \<Longrightarrow> path_stops ts \<Longrightarrow> sy_path SY (pt p @ ts) = (Inr p, ts)"
    and "sy_closure SY (ct c) = (Inr c, [])"
    and "\<not> sy_keyword SY ''on''"
    and "p \<in> paths \<Longrightarrow> sy_path SY (pt p) = (Inr p, [])"
  using assms by (auto simp: syn_reads_def dest!: bspec) (metis append_Nil2 path_stops_simps(1))

lemma path_list_reads:
  assumes "syn_reads SY vt pt ct paths" and "set ps \<subseteq> paths"
  shows "parse_terminated SY (sy_path SY) (comma_separated pt ps) = (Inr ps, [])"
proof (rule parse_terminated_items)
  fix p rest
  assume "p \<in> set ps" and "rest = [] \<or> (\<exists>ts. rest = TokPunct CHR '','' # ts)"
  then show "pt p \<noteq> [] \<and> sy_path SY (pt p @ rest) = (Inr p, rest)"
    using assms(2) syn_readsD(2,3,6) [OF assms(1)] by auto
qed

lemma handler_entry_reads:
  assumes "syn_reads SY vt pt ct paths" and "he_fn_path e \<in> paths"
    and "rest = [] \<or> (\<exists>ts. rest = TokPunct CHR '','' # ts)"
  shows "print_entry pt e \<noteq> [] \<and> parse_handler_entry SY (print_entry pt e @ rest) = (Inr e, rest)"
proof -
  note path = syn_readsD(2,3,6) [OF assms(1,2)]
  show ?thesis
  proof (cases "he_wire_name e")
    case None
    with path assms(3) show ?thesis
      by (auto simp: print_entry_def parse_handler_entry_def parse_wire_name_def seq_result_def
          give_def parse_simps)
  next
    case (Some w)
    with path(1) path(2) [of "TokIdent ''as'' # TokLit w # rest"] show ?thesis
      by (simp add: print_entry_def parse_handler_entry_def parse_wire_name_def seq_result_def
          give_def parse_simps)
  qed
qed

lemma handler_entries_read:
  assumes "syn_reads SY vt pt ct paths" and "he_fn_path ` set es \<subseteq> paths"
  shows "parse_terminated SY (parse_handler_entry SY) (comma_separated (print_entry pt) es) = (Inr es, [])"
  using assms(2) by (intro parse_terminated_items handler_entry_reads [OF assms(1)]) auto

lemma effect_entry_reads:
  assumes "syn_reads SY vt pt ct paths" and "effect_paths e \<subseteq> paths"
    and "\<not> sy_keyword SY (ed_workflow e)"
  shows "print_effect pt ct e \<noteq> [] \<and> parse_effect_entry SY (print_effect pt ct e @ rest) = (Inr e, rest)"
proof -
  note run = print_effect_def parse_effect_entry_def parse_effect_filter_def seq_result_def give_def
    parse_simps assms(3) syn_readsD(5) [OF assms(1)]
  show ?thesis
  proof (cases "ed_filter e")
    case OnAll
    then show ?thesis by (simp add: run)
  next
    case (OnCommands cmds)
    with path_list_reads [OF assms(1), of cmds] assms(2) show ?thesis by (simp add: run)
  next
    case (OnPredicate c)
    with syn_readsD(4) [OF assms(1)] show ?thesis by (simp add: run)
  qed
qed

lemma effect_entries_read:
  assumes "syn_reads SY vt pt ct paths" and "\<Union> (effect_paths ` set es) \<subseteq> paths"
    and "\<forall>s\<in>ed_workflow ` set es. \<not> sy_keyword SY s"
  shows "parse_terminated SY (parse_effect_entry SY) (comma_separated (print_effect pt ct) es) = (Inr es, [])"
  using assms(2,3)
  by (intro parse_terminated_items effect_entry_reads [OF assms(1)]) (auto simp del: effect_paths.simps)

lemma body_reads:
  assumes "syn_reads SY vt pt ct paths"
    and "insert (he_fn_path l) (he_fn_path ` set es) \<union> \<Union> (effect_paths ` set fx) \<subseteq> paths"
    and "\<forall>s\<in>ed_workflow ` set fx. \<not> sy_keyword SY s"
  shows "parse_body SY (print_body pt ct l es fx) = (Inr (l, es, fx), [])"
proof -
  let ?rest = "TokIdent ''handlers'' # TokPunct CHR '':'' #
      TokGroup Bracket (comma_separated (print_entry pt) es) # TokPunct CHR '','' #
      (if fx = [] then [] else [TokIdent ''effects'', TokPunct CHR '':'',
        TokGroup Bracket (comma_separated (print_effect pt ct) fx), TokPunct CHR '',''])"
  have "parse_handler_entry SY (print_entry pt l @ TokPunct CHR '','' # ?rest) =
      (Inr l, TokPunct CHR '','' # ?rest)"
    using handler_entry_reads [OF assms(1), of l "TokPunct CHR '','' # ?rest"] assms(2) by simp
  moreover have "parse_terminated SY (parse_handler_entry SY) (comma_separated (print_entry pt) es) =
      (Inr es, [])"
    using assms(2) by (intro handler_entries_read [OF assms(1)]) auto
  moreover have "parse_terminated SY (parse_effect_entry SY)
      (comma_separated (print_effect pt ct) fx) = (Inr fx, [])"
    using assms(2,3) by (intro effect_entries_read [OF assms(1)]) auto
  ultimately show ?thesis
    by (simp add: parse_body_def print_body_def parse_effects_block_def skip_comma_def
        seq_result_def give_def parse_simps)
qed

text \<open>
  C36: the parser of \<open>service!\<close> reads a declaration as it was meant: for both forms, printing a
  declaration (with its logical name spelled out) and parsing the tokens gives the declaration
  back, whichever overrides, effects and filters it has.
\<close>

theorem service_declaration_roundtrip:
  assumes "syn_reads SY vt pt ct (service_paths d)" and "\<forall>s\<in>service_idents d. \<not> sy_keyword SY s"
  shows "parse_all SY (parse_service_input SY) (print_service vt pt ct d) = Inr d"
proof (cases d)
  case (DefinitionOnly x)
  note reads = syn_readsD [OF assms(1)]
  have "parse_terminated SY (sy_path SY) (comma_separated pt (do_commands x)) = (Inr (do_commands x), [])"
    using DefinitionOnly by (intro path_list_reads [OF assms(1)]) auto
  with reads(1,3) assms(2) DefinitionOnly show ?thesis
    by (simp add: parse_all_def parse_service_input_def parse_logical_name_def service_name_of_def
        seq_result_def give_def parse_simps)
next
  case (FullService x)
  note reads = syn_readsD [OF assms(1)]
  have "parse_body SY (print_body pt ct (fs_loader_entry x) (fs_handler_entries x) (fs_effect_entries x)) =
      (Inr (fs_loader_entry x, fs_handler_entries x, fs_effect_entries x), [])"
    using FullService assms(2) by (intro body_reads [OF assms(1)]) auto
  with reads(1,3) assms(2) FullService show ?thesis
    by (simp add: parse_all_def parse_service_input_def parse_logical_name_def service_name_of_def
        seq_result_def give_def parse_simps)
qed

definition plain_visibility :: "bool \<Rightarrow> token list" where
  "plain_visibility v = (if v then [TokIdent ''pub''] else [])"

definition plain_tokens :: "path \<Rightarrow> token list" where
  "plain_tokens p = [TokIdent (path_ident p)]"

lemma plain_syn_reads: "syn_reads plain_syn plain_visibility plain_tokens (\<lambda>c. c) (range plain_path)"
  by (auto simp: syn_reads_def plain_syn_def plain_visibility_def plain_tokens_def plain_path_def
      path_ident_def parse_simps last_opt_def)

definition counter_declaration :: "(bool, token list) service_input" where
  "counter_declaration = FullService
     \<lparr>fs_vis = True, fs_name = ''CounterService'', fs_service_name = ''counter'',
      fs_state_type = plain_path ''Counter'',
      fs_loader_entry = \<lparr>he_fn_path = plain_path ''fetch'', he_wire_name = Some ''state''\<rparr>,
      fs_handler_entries = [\<lparr>he_fn_path = plain_path ''inc'', he_wire_name = None\<rparr>,
        \<lparr>he_fn_path = plain_path ''adj'', he_wire_name = Some ''adjust''\<rparr>],
      fs_effect_entries = [\<lparr>ed_workflow = ''Mail'', ed_filter = OnCommands [plain_path ''Inc'']\<rparr>,
        \<lparr>ed_workflow = ''Audit'', ed_filter = OnAll\<rparr>]\<rparr>"

theorem service_declaration_roundtrip_witness:
  "parse_all plain_syn (parse_service_input plain_syn)
     (print_service plain_visibility plain_tokens (\<lambda>c. c) counter_declaration) = Inr counter_declaration"
proof (rule service_declaration_roundtrip)
  have "service_paths counter_declaration \<subseteq> range plain_path"
    by (auto simp: counter_declaration_def)
  with plain_syn_reads show "syn_reads plain_syn plain_visibility plain_tokens (\<lambda>c. c)
      (service_paths counter_declaration)"
    by (auto simp: syn_reads_def)
  show "\<forall>s\<in>service_idents counter_declaration. \<not> sy_keyword plain_syn s"
    by (simp add: counter_declaration_def plain_syn_def)
qed

end
