(* ===== verification/MacroBounds.thy ===== *)
theory MacroBounds
  imports ServiceMacro
begin

text \<open>
  The trait bounds that the macros emit: the impl headers of \<^verbatim>\<open>service_macro.rs\<close>,
  \<^verbatim>\<open>handler_attr.rs\<close> and \<^verbatim>\<open>loader_attr.rs\<close> as data, and trait resolution as an inductive relation over them
  and over the impls that exist elsewhere. It answers when a generated service can be attached to
  Restate, and when it handles a command in process. Names are resolved, a lifetime bound is a bound
  like the others, and a projection is not normalised. The bodies of methods are not checked here.
\<close>

section \<open>Types, bounds and impls\<close>

datatype rtype =
    TVar string
  | TPath path "rtype list"
  | TAssoc rtype path "rtype list" string  \<comment> \<open>\<open><T as Trait<..>>::Name\<close>\<close>

text \<open>\<open>T: Trait<..>\<close>.\<close>

datatype bound = Bound rtype path "rtype list"

fun subst_type :: "(string \<Rightarrow> rtype) \<Rightarrow> rtype \<Rightarrow> rtype" where
  "subst_type s (TVar v) = s v"
| "subst_type s (TPath p ts) = TPath p (map (subst_type s) ts)"
| "subst_type s (TAssoc t p ts a) = TAssoc (subst_type s t) p (map (subst_type s) ts) a"

fun subst_bound :: "(string \<Rightarrow> rtype) \<Rightarrow> bound \<Rightarrow> bound" where
  "subst_bound s (Bound t p ts) = Bound (subst_type s t) p (map (subst_type s) ts)"

text \<open>\<open>impl<..> Trait<..> for T where ..\<close>; the parameters are the type variables.\<close>

record impl_item =
  ii_trait :: path
  ii_args :: "rtype list"
  ii_for :: rtype
  ii_where :: "bound list"

text \<open>Resolution, over the generated impls \<open>P\<close> and the bounds \<open>F\<close> that hold otherwise.\<close>

inductive implements :: "impl_item list \<Rightarrow> (bound \<Rightarrow> bool) \<Rightarrow> bound \<Rightarrow> bool"
  for P :: "impl_item list" and F :: "bound \<Rightarrow> bool" where
  known: "F b \<Longrightarrow> implements P F b"
| by_impl: "im \<in> set P \<Longrightarrow> \<forall>w\<in>set (ii_where im). implements P F (subst_bound s w) \<Longrightarrow>
    implements P F (subst_bound s (Bound (ii_for im) (ii_trait im) (ii_args im)))"

section \<open>Names\<close>

definition resolved :: "string list \<Rightarrow> path" where
  "resolved names = Path (map (\<lambda>s. Segment s NoArguments) names)"

definition SEND :: path where "SEND = resolved [''std'', ''marker'', ''Send'']"
definition SYNC :: path where "SYNC = resolved [''std'', ''marker'', ''Sync'']"
definition CLONE :: path where "CLONE = resolved [''std'', ''clone'', ''Clone'']"
definition STATIC :: path where "STATIC = resolved [CHR 0x27 # ''static'']"
definition FROM :: path where "FROM = resolved [''std'', ''convert'', ''From'']"
definition SERIALIZE :: path where "SERIALIZE = resolved [''serde'', ''Serialize'']"

definition wee_events :: "string \<Rightarrow> path" where
  "wee_events s = resolved [''wee_events'', s]"

definition wee_private :: "string \<Rightarrow> path" where
  "wee_private s = resolved [''wee_events'', ''__private'', s]"

definition item_path :: "segment list \<Rightarrow> string \<Rightarrow> path" where
  "item_path m s = Path (m @ [Segment s NoArguments])"

definition bounds :: "rtype \<Rightarrow> path list \<Rightarrow> bound list" where
  "bounds t ps = map (\<lambda>p. Bound t p []) ps"

section \<open>What the attributes emit\<close>

text \<open>
  A function with \<open>#[handler]\<close> or \<open>#[loader]\<close>: its module and name, what the attribute made of it,
  and the bounds of its own generics, inline or in its \<open>where\<close> clause.
\<close>

record attr_fn =
  af_module :: "segment list"
  af_ident :: string
  af_items :: spec_items
  af_generics :: "bound list"

definition fn_path :: "attr_fn \<Rightarrow> path" where
  "fn_path a = item_path (af_module a) (af_ident a)"

definition spec_type :: "attr_fn \<Rightarrow> rtype" where
  "spec_type a = TPath (item_path (af_module a) (sp_spec_name (af_items a))) []"

definition requires_trait :: "attr_fn \<Rightarrow> path" where
  "requires_trait a = item_path (af_module a) (sp_requires_name (af_items a))"

text \<open>\<open>impl<T> #requires_trait_name for T where #requires_where\<close>.\<close>

definition requires_impl :: "attr_fn \<Rightarrow> impl_item" where
  "requires_impl a =
     \<lparr>ii_trait = requires_trait a, ii_args = [], ii_for = TVar ''T'',
      ii_where = bounds (TVar ''T'') (sp_requires (af_items a) @ [SEND, SYNC])\<rparr>"

definition handler_attr_impls :: "attr_fn \<Rightarrow> impl_item list" where
  "handler_attr_impls a =
     [\<lparr>ii_trait = wee_events ''HandlerSpec'', ii_args = [], ii_for = spec_type a, ii_where = []\<rparr>,
      \<lparr>ii_trait = wee_events ''HandlerRuntimeSpec'', ii_args = [TVar (sp_context (af_items a))],
       ii_for = spec_type a, ii_where = af_generics a\<rparr>,
      requires_impl a]"

definition loader_attr_impls :: "attr_fn \<Rightarrow> impl_item list" where
  "loader_attr_impls a =
     [\<lparr>ii_trait = wee_events ''LoaderSpec'', ii_args = [], ii_for = spec_type a, ii_where = []\<rparr>,
      \<lparr>ii_trait = wee_events ''LoaderRuntimeSpec'', ii_args = [TVar (sp_context (af_items a))],
       ii_for = spec_type a, ii_where = af_generics a\<rparr>,
      requires_impl a]"

text \<open>A handler or loader as its attribute expands it.\<close>

definition handler_fn ::
  "segment list \<Rightarrow> handler_args \<Rightarrow> item_fn \<Rightarrow> bound list \<Rightarrow> string + attr_fn" where
  "handler_fn m args func generics =
     map_ok (\<lambda>sp. \<lparr>af_module = m, af_ident = fn_ident func, af_items = sp, af_generics = generics\<rparr>)
       (expand_handler args func)"

definition loader_fn ::
  "segment list \<Rightarrow> loader_args \<Rightarrow> item_fn \<Rightarrow> bound list \<Rightarrow> string + attr_fn" where
  "loader_fn m args func generics =
     map_ok (\<lambda>sp. \<lparr>af_module = m, af_ident = fn_ident func, af_items = sp, af_generics = generics\<rparr>)
       (expand_loader args func)"

section \<open>What \<open>service!\<close> emits\<close>

definition STORE :: rtype where "STORE = TVar ''__Store''"
definition SERVICES :: rtype where "SERVICES = TVar ''__Services''"

definition handler_env :: "rtype \<Rightarrow> rtype \<Rightarrow> rtype" where
  "handler_env s v = TPath (wee_events ''HandlerEnv'') [s, v]"

definition named_type :: "path \<Rightarrow> rtype" where
  "named_type p = TPath p []"

definition command_type :: "path \<Rightarrow> rtype" where
  "command_type sp = TAssoc (named_type sp) (wee_events ''HandlerSpec'') [] ''Command''"

definition loader_error :: "path \<Rightarrow> rtype \<Rightarrow> rtype" where
  "loader_error sp store = TAssoc (named_type sp) (wee_events ''LoaderRuntimeSpec'') [store] ''Error''"

definition handler_error :: "path \<Rightarrow> rtype \<Rightarrow> rtype" where
  "handler_error sp env = TAssoc (named_type sp) (wee_events ''HandlerRuntimeSpec'') [env] ''Error''"

text \<open>A trait without items and its blanket impl, as \<open>{Name}Env\<close> and \<open>{Name}HandlerEnv\<close> are.\<close>

definition env_trait_impl :: "segment list \<Rightarrow> string \<Rightarrow> path list \<Rightarrow> impl_item" where
  "env_trait_impl m name requires =
     \<lparr>ii_trait = item_path m name, ii_args = [], ii_for = TVar ''__T'',
      ii_where = bounds (TVar ''__T'') (requires @ [SEND, SYNC])\<rparr>"

definition core_service :: "segment list \<Rightarrow> generated_service \<Rightarrow> rtype" where
  "core_service m g =
     TPath (item_path (m @ [Segment (gs_core_mod g) NoArguments]) ''Service'') [STORE, SERVICES]"

definition store_bounds :: "path \<Rightarrow> bound list" where
  "store_bounds loader_requires = bounds STORE [loader_requires, CLONE, SEND, SYNC, STATIC]"

definition services_bounds :: "bound list" where
  "services_bounds = bounds SERVICES [CLONE, SEND, SYNC, STATIC]"

text \<open>For each handler: \<open>DispatchCommand\<close> and \<open>Handles\<close> of its command, for the core service.\<close>

definition core_dispatch_impl ::
  "segment list \<Rightarrow> generated_service \<Rightarrow> path \<Rightarrow> path \<Rightarrow> path \<Rightarrow> path \<Rightarrow> path \<Rightarrow> impl_item" where
  "core_dispatch_impl m g state_type loader_spec loader_requires sp handler_requires =
     \<lparr>ii_trait = wee_private ''DispatchCommand'', ii_args = [command_type sp], ii_for = core_service m g,
      ii_where = store_bounds loader_requires @ services_bounds @
        bounds (handler_env STORE SERVICES) [handler_requires, SEND, SYNC, STATIC] @
        [Bound (named_type loader_spec) (wee_events ''LoaderRuntimeSpec'') [STORE],
         Bound (named_type sp) (wee_events ''HandlerRuntimeSpec'') [handler_env STORE SERVICES]] @
        bounds (loader_error loader_spec STORE) [SEND, SYNC, STATIC] @
        Bound (handler_error sp (handler_env STORE SERVICES)) FROM [loader_error loader_spec STORE] #
        bounds (handler_error sp (handler_env STORE SERVICES)) [SEND, SYNC, STATIC] @
        bounds (named_type state_type) [SEND, SYNC, STATIC]\<rparr>"

definition core_handles_impl :: "segment list \<Rightarrow> generated_service \<Rightarrow> path \<Rightarrow> impl_item" where
  "core_handles_impl m g sp =
     \<lparr>ii_trait = wee_events ''Handles'', ii_args = [command_type sp], ii_for = core_service m g,
      ii_where = [Bound (core_service m g) (wee_private ''DispatchCommand'') [command_type sp]]\<rparr>"

definition core_dispatch_impls ::
  "segment list \<Rightarrow> generated_service \<Rightarrow> path \<Rightarrow> path \<Rightarrow> path \<Rightarrow> path \<times> path \<Rightarrow> impl_item list" where
  "core_dispatch_impls m g state_type loader_spec loader_requires = (\<lambda>(sp, handler_requires).
     [core_dispatch_impl m g state_type loader_spec loader_requires sp handler_requires,
      core_handles_impl m g sp])"

definition core_service_impls ::
  "segment list \<Rightarrow> generated_service \<Rightarrow> path \<Rightarrow> path \<Rightarrow> path \<Rightarrow> impl_item list" where
  "core_service_impls m g state_type loader_spec loader_requires =
     [\<lparr>ii_trait = wee_private ''ServiceState'', ii_args = [], ii_for = core_service m g,
       ii_where = bounds (named_type state_type) [SEND, SYNC] @ bounds STORE [SEND, SYNC] @
         bounds SERVICES [SEND, SYNC]\<rparr>,
      \<lparr>ii_trait = wee_events ''TypedService'', ii_args = [named_type state_type], ii_for = core_service m g,
       ii_where = store_bounds loader_requires @ services_bounds @
         Bound (named_type loader_spec) (wee_events ''LoaderRuntimeSpec'') [STORE] #
         bounds (loader_error loader_spec STORE) [SEND, SYNC, STATIC] @
         bounds (named_type state_type) [SEND, SYNC, STATIC]\<rparr>]"

definition binder_trait :: "segment list \<Rightarrow> generated_service \<Rightarrow> path" where
  "binder_trait m g = item_path (m @ [Segment (gs_restate_mod g) NoArguments]) (gs_binder_trait g)"

definition binding :: "segment list \<Rightarrow> generated_service \<Rightarrow> rtype" where
  "binding m g =
     TPath (item_path (m @ [Segment (gs_restate_mod g) NoArguments]) (gs_binding g)) [STORE, SERVICES]"

definition effect_command_bounds :: "generated_service \<Rightarrow> bound list" where
  "effect_command_bounds g =
     (if gs_effect_markers g = [] then []
      else concat (map (\<lambda>sp. bounds (command_type sp) [CLONE, SERIALIZE]) (gd_has_command (gs_definition g))))"

definition binder_impl :: "segment list \<Rightarrow> generated_service \<Rightarrow> path \<Rightarrow> path \<Rightarrow> impl_item" where
  "binder_impl m g state_type loader_requires =
     \<lparr>ii_trait = binder_trait m g, ii_args = [], ii_for = binding m g,
      ii_where = store_bounds loader_requires @ services_bounds @
        bounds (handler_env STORE SERVICES) [item_path m (gs_handler_env_trait g)] @
        bounds (named_type state_type) [SERIALIZE] @ effect_command_bounds g\<rparr>"

text \<open>The \<open>where\<close> clause of \<open>attach_to\<close>.\<close>

definition attach_bounds :: "segment list \<Rightarrow> generated_service \<Rightarrow> bound list" where
  "attach_bounds m g =
     Bound (binding m g) (binder_trait m g) [] # bounds STORE [SEND, SYNC, STATIC] @
     bounds SERVICES [SEND, SYNC, STATIC]"

definition definition_impls :: "segment list \<Rightarrow> string \<Rightarrow> generated_service \<Rightarrow> impl_item list" where
  "definition_impls m name g =
     \<lparr>ii_trait = wee_events ''ServiceDefinition'', ii_args = [],
      ii_for = named_type (item_path m name), ii_where = []\<rparr> #
     map (\<lambda>sp. \<lparr>ii_trait = wee_events ''HasCommand'', ii_args = [command_type sp],
       ii_for = named_type (item_path m name), ii_where = []\<rparr>) (gd_has_command (gs_definition g)) @
     [\<lparr>ii_trait = wee_events ''InProcessServiceDefinition'', ii_args = [],
       ii_for = named_type (item_path m name), ii_where = []\<rparr>,
      \<lparr>ii_trait = resolved [''wee_events_restate'', ''RestateServiceDefinition''], ii_args = [],
       ii_for = named_type (item_path m name), ii_where = []\<rparr>]"

definition service_impls ::
  "segment list \<Rightarrow> ('v, 'c) full_service_input \<Rightarrow> generated_service \<Rightarrow> impl_item list" where
  "service_impls m d g =
     (let state_type = fs_state_type d;
          loader_spec = spec_path (he_fn_path (fs_loader_entry d));
          loader_requires = requires_path (he_fn_path (fs_loader_entry d))
      in [env_trait_impl m (gs_env_trait g) (gs_all_requires g),
          env_trait_impl m (gs_handler_env_trait g) (gs_handler_requires g)] @
         core_service_impls m g state_type loader_spec loader_requires @
         concat (map (core_dispatch_impls m g state_type loader_spec loader_requires)
           (zip (gd_has_command (gs_definition g)) (gs_handler_requires g))) @
         definition_impls m (fs_name d) g @ [binder_impl m g state_type loader_requires])"

text \<open>All that is generated for a service with its loader and handlers.\<close>

definition generated_impls ::
  "segment list \<Rightarrow> ('v, 'c) full_service_input \<Rightarrow> generated_service \<Rightarrow> attr_fn \<Rightarrow> attr_fn list \<Rightarrow>
    impl_item list" where
  "generated_impls m d g l hs =
     loader_attr_impls l @ concat (map handler_attr_impls hs) @ service_impls m d g"

section \<open>Which impl a bound resolves to\<close>

lemma implements_iff:
  "implements P F b \<longleftrightarrow> F b \<or> (\<exists>im\<in>set P. \<exists>s.
     b = subst_bound s (Bound (ii_for im) (ii_trait im) (ii_args im)) \<and>
     (\<forall>w\<in>set (ii_where im). implements P F (subst_bound s w)))"
  by (subst implements.simps) blast

definition only_impl :: "impl_item list \<Rightarrow> (bound \<Rightarrow> bool) \<Rightarrow> impl_item \<Rightarrow> bool" where
  "only_impl P F im \<longleftrightarrow> im \<in> set P \<and> (\<forall>im'\<in>set P. ii_trait im' = ii_trait im \<longrightarrow> im' = im) \<and>
     (\<forall>t ts. \<not> F (Bound t (ii_trait im) ts))"

lemma only_impl_iff:
  assumes "only_impl P F im"
  shows "implements P F (Bound t (ii_trait im) ts) \<longleftrightarrow> (\<exists>s. t = subst_type s (ii_for im) \<and>
    ts = map (subst_type s) (ii_args im) \<and> (\<forall>w\<in>set (ii_where im). implements P F (subst_bound s w)))"
  using assms by (subst implements_iff) (auto simp: only_impl_def)

lemma bounds_simps [simp]:
  "(\<forall>w\<in>set (bounds t ps). Q w) \<longleftrightarrow> (\<forall>p\<in>set ps. Q (Bound t p []))"
  by (auto simp: bounds_def)

text \<open>A blanket impl: the trait holds of the types that have all its bounds.\<close>

lemma blanket_iff:
  assumes "only_impl P F im" and "im = \<lparr>ii_trait = p, ii_args = [], ii_for = TVar x, ii_where = bounds (TVar x) ps\<rparr>"
  shows "implements P F (Bound t p []) \<longleftrightarrow> (\<forall>q\<in>set ps. implements P F (Bound t q []))"
proof
  assume "implements P F (Bound t p [])"
  with only_impl_iff [OF assms(1), of t "[]"] assms(2) show "\<forall>q\<in>set ps. implements P F (Bound t q [])" by auto
next
  assume "\<forall>q\<in>set ps. implements P F (Bound t q [])"
  then have "t = subst_type (\<lambda>_. t) (ii_for im) \<and> [] = map (subst_type (\<lambda>_. t)) (ii_args im) \<and>
      (\<forall>w\<in>set (ii_where im). implements P F (subst_bound (\<lambda>_. t) w))"
    using assms(2) by simp
  with only_impl_iff [OF assms(1), of t "[]"] assms(2) show "implements P F (Bound t p [])" by auto
qed

section \<open>The names of a generated service\<close>

lemma item_path_eq [simp]: "item_path m s = item_path m' s' \<longleftrightarrow> m = m' \<and> s = s'"
  by (simp add: item_path_def)

lemma path_ident_simps [simp]:
  "path_ident (item_path m s) = s" "path_ident (wee_events s) = s" "path_ident (wee_private s) = s"
  by (simp_all add: path_ident_def item_path_def wee_events_def wee_private_def resolved_def last_opt_def)

lemma rename_last_snoc [simp]: "rename_last f (ss @ [Segment i a]) = ss @ [Segment (f i) a]"
  by (induction f ss rule: rename_last.induct) auto

lemma item_path_renamed [simp]:
  "spec_path (item_path m s) = item_path m (spec_name s)"
  "requires_path (item_path m s) = item_path m (requires_name s)"
  by (simp_all add: spec_path_def requires_path_def item_path_def spec_name_def requires_name_def)

definition from_attr :: "attr_fn \<Rightarrow> bool" where
  "from_attr a \<longleftrightarrow> sp_spec_name (af_items a) = spec_name (af_ident a) \<and>
     sp_requires_name (af_items a) = requires_name (af_ident a)"

lemma attr_fn_from_attr:
  "handler_fn m args func generics = Inr a \<Longrightarrow> from_attr a"
  "loader_fn m largs func generics = Inr a \<Longrightarrow> from_attr a"
  by (auto simp: handler_fn_def loader_fn_def expand_handler_def expand_loader_def from_attr_def
      result_simps split: list.splits sum.splits)

lemma from_attr_paths:
  assumes "from_attr a"
  shows "spec_path (fn_path a) = item_path (af_module a) (spec_name (af_ident a))"
    and "requires_path (fn_path a) = requires_trait a"
    and "named_type (spec_path (fn_path a)) = spec_type a"
  using assms by (simp_all add: fn_path_def requires_trait_def from_attr_def spec_type_def named_type_def)

text \<open>The declaration names these functions, which are different items.\<close>

definition declares :: "('v, 'c) full_service_input \<Rightarrow> attr_fn \<Rightarrow> attr_fn list \<Rightarrow> bool" where
  "declares d l hs \<longleftrightarrow> he_fn_path (fs_loader_entry d) = fn_path l \<and>
     map he_fn_path (fs_handler_entries d) = map fn_path hs \<and> distinct (map fn_path (l # hs)) \<and>
     (\<forall>a\<in>set (l # hs). from_attr a)"

text \<open>Rust allows no other impl beside a blanket one, and the binder's trait is private.\<close>

definition coherent :: "segment list \<Rightarrow> generated_service \<Rightarrow> attr_fn list \<Rightarrow> (bound \<Rightarrow> bool) \<Rightarrow> bool" where
  "coherent m g fns F \<longleftrightarrow> (\<forall>t p ts. F (Bound t p ts) \<longrightarrow>
     p \<notin> requires_trait ` set fns \<union>
       {item_path m (gs_env_trait g), item_path m (gs_handler_env_trait g), binder_trait m g})"

lemma generated_names:
  assumes "generate_full d = Inr g"
  shows "gs_env_trait g = fs_name d @ ''Env''" "gs_handler_env_trait g = fs_name d @ ''HandlerEnv''"
    "gs_binder_trait g = fs_name d @ ''Binder''"
    "gs_handler_requires g = map (\<lambda>e. requires_path (he_fn_path e)) (fs_handler_entries d)"
    "gs_all_requires g = requires_path (he_fn_path (fs_loader_entry d)) # gs_handler_requires g"
    "gd_has_command (gs_definition g) = map (\<lambda>e. spec_path (he_fn_path e)) (fs_handler_entries d)"
    "gs_effect_markers g = [] \<longleftrightarrow> fs_effect_entries d = []"
  using assms by (auto simp: generate_full_def Let_def split: option.splits)

definition lib_traits :: "string set" where
  "lib_traits = {''HandlerSpec'', ''HandlerRuntimeSpec'', ''LoaderSpec'', ''LoaderRuntimeSpec'',
     ''ServiceState'', ''TypedService'', ''DispatchCommand'', ''Handles'', ''ServiceDefinition'',
     ''HasCommand'', ''InProcessServiceDefinition'', ''RestateServiceDefinition''}"

lemma resolved_ident [simp]: "path_ident (resolved [''wee_events_restate'', s]) = s"
  by (simp add: path_ident_def resolved_def last_opt_def)

lemma generated_cases:
  assumes "im \<in> set (generated_impls m d g l hs)"
  obtains (requires) a where "a \<in> set (l # hs)" "im = requires_impl a"
  | (env) "im = env_trait_impl m (gs_env_trait g) (gs_all_requires g)"
  | (handler_env) "im = env_trait_impl m (gs_handler_env_trait g) (gs_handler_requires g)"
  | (served) "im = binder_impl m g (fs_state_type d) (requires_path (he_fn_path (fs_loader_entry d)))"
  | (lib) "path_ident (ii_trait im) \<in> lib_traits"
  using assms
  by (auto simp: generated_impls_def loader_attr_impls_def handler_attr_impls_def service_impls_def Let_def
      core_service_impls_def core_dispatch_impls_def core_dispatch_impl_def core_handles_impl_def definition_impls_def lib_traits_def
      split: prod.splits)

text \<open>The last three letters tell the generated traits from the library's and from each other.\<close>

definition ending :: "path \<Rightarrow> string" where
  "ending p = take 3 (rev (path_ident p))"

lemma endings:
  "from_attr a \<Longrightarrow> ending (requires_trait a) = ''ser''"
  "generate_full d = Inr g \<Longrightarrow> ending (item_path m (gs_env_trait g)) = ''vnE''"
  "generate_full d = Inr g \<Longrightarrow> ending (item_path m (gs_handler_env_trait g)) = ''vnE''"
  "generate_full d = Inr g \<Longrightarrow> ending (binder_trait m g) = ''red''"
  "path_ident p \<in> lib_traits \<Longrightarrow> ending p \<notin> {''ser'', ''vnE'', ''red''}"
  by (auto simp: ending_def requires_trait_def from_attr_def requires_name_def generated_names
      binder_trait_def lib_traits_def)

lemma impl_traits [simp]:
  "ii_trait (requires_impl a) = requires_trait a" "ii_trait (env_trait_impl m n qs) = item_path m n"
  "ii_trait (binder_impl m g st lr) = binder_trait m g"
  by (simp_all add: requires_impl_def env_trait_impl_def binder_impl_def)

lemma generated_by_ending:
  assumes "im \<in> set (generated_impls m d g l hs)" and g: "generate_full d = Inr g"
    and attr: "\<forall>a\<in>set (l # hs). from_attr a"
  shows "ending (ii_trait im) = ''ser'' \<Longrightarrow> im \<in> requires_impl ` set (l # hs)"
    and "ending (ii_trait im) = ''vnE'' \<Longrightarrow> im = env_trait_impl m (gs_env_trait g) (gs_all_requires g) \<or>
      im = env_trait_impl m (gs_handler_env_trait g) (gs_handler_requires g)"
    and "ending (ii_trait im) = ''red'' \<Longrightarrow>
      im = binder_impl m g (fs_state_type d) (requires_path (he_fn_path (fs_loader_entry d)))"
proof -
  note ends = endings(2-4) [OF g]
  have "(ending (ii_trait im) = ''ser'' \<longrightarrow> im \<in> requires_impl ` set (l # hs)) \<and>
    (ending (ii_trait im) = ''vnE'' \<longrightarrow> im = env_trait_impl m (gs_env_trait g) (gs_all_requires g) \<or>
      im = env_trait_impl m (gs_handler_env_trait g) (gs_handler_requires g)) \<and>
    (ending (ii_trait im) = ''red'' \<longrightarrow>
      im = binder_impl m g (fs_state_type d) (requires_path (he_fn_path (fs_loader_entry d))))"
    using assms(1)
  proof (cases rule: generated_cases)
    case (requires a)
    with attr have "from_attr a" by blast
    from endings(1) [OF this] requires show ?thesis by auto
  next
    case lib
    from endings(5) [OF this] show ?thesis by simp
  qed (simp_all add: ends)
  then show "ending (ii_trait im) = ''ser'' \<Longrightarrow> im \<in> requires_impl ` set (l # hs)"
    and "ending (ii_trait im) = ''vnE'' \<Longrightarrow> im = env_trait_impl m (gs_env_trait g) (gs_all_requires g) \<or>
      im = env_trait_impl m (gs_handler_env_trait g) (gs_handler_requires g)"
    and "ending (ii_trait im) = ''red'' \<Longrightarrow>
      im = binder_impl m g (fs_state_type d) (requires_path (he_fn_path (fs_loader_entry d)))"
    by blast+
qed

lemma generated_once:
  assumes g: "generate_full d = Inr g" and decl: "declares d l hs" and F: "coherent m g (l # hs) F"
  shows "a \<in> set (l # hs) \<Longrightarrow> only_impl (generated_impls m d g l hs) F (requires_impl a)"
    and "only_impl (generated_impls m d g l hs) F (env_trait_impl m (gs_env_trait g) (gs_all_requires g))"
    and "only_impl (generated_impls m d g l hs) F (env_trait_impl m (gs_handler_env_trait g) (gs_handler_requires g))"
    and "only_impl (generated_impls m d g l hs) F
      (binder_impl m g (fs_state_type d) (requires_path (he_fn_path (fs_loader_entry d))))"
proof -
  let ?P = "generated_impls m d g l hs"
  have attr: "\<forall>a\<in>set (l # hs). from_attr a" using decl by (simp add: declares_def)
  have names: "gs_env_trait g \<noteq> gs_handler_env_trait g" by (simp add: generated_names [OF g])
  have member: "env_trait_impl m (gs_env_trait g) (gs_all_requires g) \<in> set ?P"
    "env_trait_impl m (gs_handler_env_trait g) (gs_handler_requires g) \<in> set ?P"
    "binder_impl m g (fs_state_type d) (requires_path (he_fn_path (fs_loader_entry d))) \<in> set ?P"
    by (simp_all add: generated_impls_def service_impls_def Let_def)
  have other: "\<not> F (Bound t (requires_trait a) ts)" if "a \<in> set (l # hs)" for a t ts
    using F that unfolding coherent_def by blast
  have other': "\<not> F (Bound t (item_path m (gs_env_trait g)) ts)"
    "\<not> F (Bound t (item_path m (gs_handler_env_trait g)) ts)" "\<not> F (Bound t (binder_trait m g) ts)" for t ts
    using F unfolding coherent_def by blast+
  show "only_impl ?P F (requires_impl a)" if a: "a \<in> set (l # hs)"
  proof -
    have "im = requires_impl a" if im: "im \<in> set ?P" and trait: "ii_trait im = requires_trait a" for im
    proof -
      from attr a have "from_attr a" by blast
      with trait endings(1) have "ending (ii_trait im) = ''ser''" by simp
      from generated_by_ending(1) [OF im g attr this] obtain b where
        b: "b \<in> set (l # hs)" "im = requires_impl b" by blast
      with trait have "requires_trait b = requires_trait a" by simp
      moreover have "from_attr a" "from_attr b" using attr a b(1) by blast+
      ultimately have "fn_path b = fn_path a"
        by (auto simp: requires_trait_def from_attr_def requires_name_def fn_path_def)
      moreover from decl have "inj_on fn_path (set (l # hs))" by (simp only: declares_def distinct_map)
      ultimately have "b = a" using a b(1) by (blast dest: inj_onD)
      with b(2) show ?thesis by simp
    qed
    moreover have "requires_impl a \<in> set ?P"
      using a by (auto simp: generated_impls_def loader_attr_impls_def handler_attr_impls_def)
    ultimately show ?thesis using other [OF a] unfolding only_impl_def impl_traits by blast
  qed
  show "only_impl ?P F (env_trait_impl m (gs_env_trait g) (gs_all_requires g))"
    unfolding only_impl_def impl_traits
    using member(1) other'(1) generated_by_ending(2) [OF _ g attr] endings(2) [OF g, of m] names
    by (metis impl_traits(2) item_path_eq)
  show "only_impl ?P F (env_trait_impl m (gs_handler_env_trait g) (gs_handler_requires g))"
    unfolding only_impl_def impl_traits
    using member(2) other'(2) generated_by_ending(2) [OF _ g attr] endings(3) [OF g, of m] names
    by (metis impl_traits(2) item_path_eq)
  show "only_impl ?P F (binder_impl m g (fs_state_type d) (requires_path (he_fn_path (fs_loader_entry d))))"
    unfolding only_impl_def impl_traits
    using member(3) other'(3) generated_by_ending(3) [OF _ g attr] endings(4) [OF g, of m] by metis
qed

section \<open>When a generated service can be used\<close>

text \<open>The capabilities that a function's attribute lists, with \<open>Send\<close> and \<open>Sync\<close>.\<close>

definition provides :: "(bound \<Rightarrow> bool) \<Rightarrow> rtype \<Rightarrow> attr_fn \<Rightarrow> bool" where
  "provides ok t a \<longleftrightarrow> (\<forall>c\<in>set (sp_requires (af_items a)). ok (Bound t c [])) \<and>
     ok (Bound t SEND []) \<and> ok (Bound t SYNC [])"

lemma provides_threads: "provides ok t a \<Longrightarrow> ok (Bound t SEND []) \<and> ok (Bound t SYNC [])"
  by (simp add: provides_def)

lemma requires_trait_iff:
  assumes "generate_full d = Inr g" and "declares d l hs" and "coherent m g (l # hs) F" and "a \<in> set (l # hs)"
  shows "implements (generated_impls m d g l hs) F (Bound t (requires_trait a) []) \<longleftrightarrow>
    provides (implements (generated_impls m d g l hs) F) t a"
  using blanket_iff [OF generated_once(1) [OF assms] requires_impl_def]
  by (auto simp: provides_def)

lemma declared_requires:
  assumes "generate_full d = Inr g" and "declares d l hs"
  shows "gs_handler_requires g = map requires_trait hs"
    and "requires_path (he_fn_path (fs_loader_entry d)) = requires_trait l"
proof -
  have "map requires_path (map he_fn_path (fs_handler_entries d)) = map requires_path (map fn_path hs)"
    using assms(2) by (simp only: declares_def)
  also have "\<dots> = map requires_trait hs"
    using assms(2) by (simp add: declares_def from_attr_paths(2))
  finally show "gs_handler_requires g = map requires_trait hs"
    by (simp add: generated_names(4) [OF assms(1)] comp_def)
  from assms(2) show "requires_path (he_fn_path (fs_loader_entry d)) = requires_trait l"
    by (simp add: declares_def from_attr_paths(2))
qed

text \<open>
  A type implements the generated trait \<open>{Name}Env\<close> exactly when it has every capability that
  the loader or a handler of the service lists, and is \<open>Send\<close> and \<open>Sync\<close>.
\<close>

lemma env_trait_is_union:
  assumes "generate_full d = Inr g" and "declares d l hs" and "coherent m g (l # hs) F"
  shows "implements (generated_impls m d g l hs) F (Bound t (item_path m (gs_env_trait g)) []) \<longleftrightarrow>
    (\<forall>a\<in>set (l # hs). provides (implements (generated_impls m d g l hs) F) t a)"
proof -
  let ?ok = "implements (generated_impls m d g l hs) F"
  have "?ok (Bound t (item_path m (gs_env_trait g)) []) \<longleftrightarrow>
      (\<forall>q\<in>set (gs_all_requires g @ [SEND, SYNC]). ?ok (Bound t q []))"
    by (rule blanket_iff [OF generated_once(2) [OF assms] env_trait_impl_def])
  also have "\<dots> \<longleftrightarrow> (\<forall>a\<in>set (l # hs). ?ok (Bound t (requires_trait a) [])) \<and> ?ok (Bound t SEND []) \<and> ?ok (Bound t SYNC [])"
    by (auto simp: generated_names(5) [OF assms(1)] declared_requires [OF assms(1,2)])
  also have "\<dots> \<longleftrightarrow> (\<forall>a\<in>set (l # hs). provides ?ok t a)"
    using requires_trait_iff [OF assms] by (auto simp: provides_def)
  finally show ?thesis .
qed

lemma handler_env_trait_iff:
  assumes "generate_full d = Inr g" and "declares d l hs" and "coherent m g (l # hs) F"
  shows "implements (generated_impls m d g l hs) F (Bound t (item_path m (gs_handler_env_trait g)) []) \<longleftrightarrow>
    (\<forall>h\<in>set hs. provides (implements (generated_impls m d g l hs) F) t h) \<and>
    implements (generated_impls m d g l hs) F (Bound t SEND []) \<and>
    implements (generated_impls m d g l hs) F (Bound t SYNC [])"
proof -
  let ?ok = "implements (generated_impls m d g l hs) F"
  have "?ok (Bound t (item_path m (gs_handler_env_trait g)) []) \<longleftrightarrow>
      (\<forall>q\<in>set (gs_handler_requires g @ [SEND, SYNC]). ?ok (Bound t q []))"
    by (rule blanket_iff [OF generated_once(3) [OF assms] env_trait_impl_def])
  also have "\<dots> \<longleftrightarrow> (\<forall>h\<in>set hs. ?ok (Bound t (requires_trait h) [])) \<and> ?ok (Bound t SEND []) \<and> ?ok (Bound t SYNC [])"
    by (auto simp: declared_requires [OF assms(1,2)])
  also have "\<dots> \<longleftrightarrow> (\<forall>h\<in>set hs. provides ?ok t h) \<and> ?ok (Bound t SEND []) \<and> ?ok (Bound t SYNC [])"
    using requires_trait_iff [OF assms] by simp
  finally show ?thesis .
qed

text \<open>The types that \<open>attach_to\<close> is called at.\<close>

definition at_types :: "rtype \<Rightarrow> rtype \<Rightarrow> string \<Rightarrow> rtype" where
  "at_types store services v = (if v = ''__Store'' then store else services)"

definition attachable :: "impl_item list \<Rightarrow> (bound \<Rightarrow> bool) \<Rightarrow> segment list \<Rightarrow> generated_service \<Rightarrow> rtype \<Rightarrow> rtype \<Rightarrow> bool" where
  "attachable P F m g store services \<longleftrightarrow>
     (\<forall>b\<in>set (attach_bounds m g). implements P F (subst_bound (at_types store services) b))"

lemma subst_named [simp]: "subst_type s (named_type p) = named_type p"
  by (simp add: named_type_def)

lemma subst_command [simp]: "subst_type s (command_type p) = command_type p"
  by (simp add: command_type_def)

lemma subst_handler_env [simp]:
  "subst_type s (handler_env STORE SERVICES) = handler_env (s ''__Store'') (s ''__Services'')"
  by (simp add: handler_env_def STORE_def SERVICES_def)

lemma subst_vars [simp]: "subst_type s STORE = s ''__Store''" "subst_type s SERVICES = s ''__Services''"
  by (simp_all add: STORE_def SERVICES_def)

lemma subst_binding:
  "subst_type s (binding m g) = subst_type r (binding m g) \<longleftrightarrow>
     s ''__Store'' = r ''__Store'' \<and> s ''__Services'' = r ''__Services''"
  by (simp add: binding_def)

lemma attachable_iff:
  assumes "generate_full d = Inr g" and "declares d l hs" and "coherent m g (l # hs) F"
  shows "attachable (generated_impls m d g l hs) F m g store services \<longleftrightarrow>
    (let ok = implements (generated_impls m d g l hs) F;
         has = (\<lambda>t c. ok (Bound t c []))
     in provides ok store l \<and> has store CLONE \<and> has store STATIC \<and>
        has services CLONE \<and> has services SEND \<and> has services SYNC \<and> has services STATIC \<and>
        (\<forall>h\<in>set hs. provides ok (handler_env store services) h) \<and>
        has (handler_env store services) SEND \<and> has (handler_env store services) SYNC \<and>
        has (named_type (fs_state_type d)) SERIALIZE \<and>
        (fs_effect_entries d \<noteq> [] \<longrightarrow>
          (\<forall>h\<in>set hs. has (command_type (spec_path (fn_path h))) CLONE \<and>
             has (command_type (spec_path (fn_path h))) SERIALIZE)))"
proof -
  let ?P = "generated_impls m d g l hs" and ?s = "at_types store services"
  let ?ok = "implements ?P F"
  let ?im = "binder_impl m g (fs_state_type d) (requires_path (he_fn_path (fs_loader_entry d)))"
  have im: "ii_trait ?im = binder_trait m g" "ii_args ?im = []" "ii_for ?im = binding m g"
    "ii_where ?im = store_bounds (requires_trait l) @ services_bounds @
      bounds (handler_env STORE SERVICES) [item_path m (gs_handler_env_trait g)] @
      bounds (named_type (fs_state_type d)) [SERIALIZE] @ effect_command_bounds g"
    by (simp_all add: binder_impl_def declared_requires [OF assms(1,2)])
  have commands: "gd_has_command (gs_definition g) = map (\<lambda>h. spec_path (fn_path h)) hs"
  proof -
    have "map spec_path (map he_fn_path (fs_handler_entries d)) = map spec_path (map fn_path hs)"
      using assms(2) by (simp only: declares_def)
    then show ?thesis by (simp add: generated_names(6) [OF assms(1)] comp_def)
  qed
  have effects: "(\<forall>w\<in>set (effect_command_bounds g). Q (subst_bound s w)) \<longleftrightarrow> (fs_effect_entries d \<noteq> [] \<longrightarrow>
      (\<forall>h\<in>set hs. Q (Bound (command_type (spec_path (fn_path h))) CLONE []) \<and>
        Q (Bound (command_type (spec_path (fn_path h))) SERIALIZE [])))" for s Q
    by (simp add: effect_command_bounds_def generated_names(7) [OF assms(1)] commands ball_UN)
  have "?ok (subst_bound ?s (Bound (binding m g) (binder_trait m g) [])) \<longleftrightarrow>
      (\<exists>s. subst_type ?s (binding m g) = subst_type s (binding m g) \<and>
        (\<forall>w\<in>set (ii_where ?im). ?ok (subst_bound s w)))"
    using only_impl_iff [OF generated_once(4) [OF assms], of "subst_type ?s (binding m g)" "[]"]
    by (simp add: im)
  also have "\<dots> \<longleftrightarrow> (\<forall>w\<in>set (ii_where ?im). ?ok (subst_bound ?s w))"
  proof -
    have "(\<forall>w\<in>set (ii_where ?im). ?ok (subst_bound s w)) \<longleftrightarrow> (\<forall>w\<in>set (ii_where ?im). ?ok (subst_bound r w))"
      if "s ''__Store'' = r ''__Store''" "s ''__Services'' = r ''__Services''" for s r
      unfolding im(4) using that by (simp add: ball_Un store_bounds_def services_bounds_def effects)
    then show ?thesis unfolding subst_binding by blast
  qed
  also have "\<dots> \<longleftrightarrow> provides ?ok store l \<and> ?ok (Bound store CLONE []) \<and> ?ok (Bound store STATIC []) \<and>
      ?ok (Bound services CLONE []) \<and> ?ok (Bound services SEND []) \<and> ?ok (Bound services SYNC []) \<and>
      ?ok (Bound services STATIC []) \<and> (\<forall>h\<in>set hs. provides ?ok (handler_env store services) h) \<and>
      ?ok (Bound (handler_env store services) SEND []) \<and> ?ok (Bound (handler_env store services) SYNC []) \<and>
      ?ok (Bound (named_type (fs_state_type d)) SERIALIZE []) \<and>
      (fs_effect_entries d \<noteq> [] \<longrightarrow> (\<forall>h\<in>set hs.
        ?ok (Bound (command_type (spec_path (fn_path h))) CLONE []) \<and>
        ?ok (Bound (command_type (spec_path (fn_path h))) SERIALIZE [])))"
    unfolding im(4)
    by (simp add: ball_Un store_bounds_def services_bounds_def effects at_types_def
        requires_trait_iff [OF assms] handler_env_trait_iff [OF assms])
      (blast dest: provides_threads)
  finally have served: "?ok (subst_bound ?s (Bound (binding m g) (binder_trait m g) [])) \<longleftrightarrow> \<dots>" .
  show ?thesis
    unfolding attachable_def attach_bounds_def list.set ball_simps set_append ball_Un served Let_def
    by (simp add: at_types_def) (blast dest: provides_threads)
qed

text \<open>
  C24: a generated Restate service can be attached exactly when its surroundings give what was
  declared: the store has the loader's capabilities, the environment made of the store and the
  services has those of every handler, both parts can be cloned and shared between threads, the
  state can be serialised, and, if there are effects, so can every command. No capability of a
  handler is asked of the store, and none of the loader of the environment.
\<close>

theorem attach_needs_declared:
  assumes "generate_full d = Inr g" and "declares d l hs" and "coherent m g (l # hs) F"
  shows "attachable (generated_impls m d g l hs) F m g store services \<longleftrightarrow>
    (let ok = implements (generated_impls m d g l hs) F;
         has = (\<lambda>t c. ok (Bound t c []))
     in provides ok store l \<and> has store CLONE \<and> has store STATIC \<and>
        has services CLONE \<and> has services SEND \<and> has services SYNC \<and> has services STATIC \<and>
        (\<forall>h\<in>set hs. provides ok (handler_env store services) h) \<and>
        has (handler_env store services) SEND \<and> has (handler_env store services) SYNC \<and>
        has (named_type (fs_state_type d)) SERIALIZE \<and>
        (fs_effect_entries d \<noteq> [] \<longrightarrow>
          (\<forall>h\<in>set hs. has (command_type (spec_path (fn_path h))) CLONE \<and>
             has (command_type (spec_path (fn_path h))) SERIALIZE)))"
  by (rule attachable_iff [OF assms])

section \<open>The in-process service\<close>

text \<open>
  A function that asks no more of its context than its attribute lists: then its spec runs on
  every environment with the listed capabilities.
\<close>

definition modest :: "attr_fn \<Rightarrow> bool" where
  "modest a \<longleftrightarrow> (\<forall>b\<in>set (af_generics a). \<exists>p\<in>set (sp_requires (af_items a)) \<union> {SEND, SYNC, STATIC}.
     b = Bound (TVar (sp_context (af_items a))) p [])"

lemma modest_runs:
  assumes "modest a" and "provides (implements P F) t a" and "implements P F (Bound t STATIC [])"
    and "im \<in> set P" and "ii_args im = [TVar (sp_context (af_items a))]" and "ii_for im = spec_type a"
    and "ii_where im = af_generics a"
  shows "implements P F (Bound (spec_type a) (ii_trait im) [t])"
proof -
  have "\<forall>w\<in>set (ii_where im). implements P F (subst_bound (\<lambda>_. t) w)"
    using assms(1-3,7) by (fastforce simp: modest_def provides_def)
  from implements.by_impl [of im P F, OF assms(4) this] show ?thesis
    by (simp add: assms(5,6) spec_type_def)
qed

lemma spec_runs:
  assumes "modest a" and "provides (implements (generated_impls m d g l hs) F) t a"
    and "implements (generated_impls m d g l hs) F (Bound t STATIC [])"
  shows "a \<in> set hs \<Longrightarrow> implements (generated_impls m d g l hs) F
      (Bound (spec_type a) (wee_events ''HandlerRuntimeSpec'') [t])"
    and "a = l \<Longrightarrow> implements (generated_impls m d g l hs) F
      (Bound (spec_type a) (wee_events ''LoaderRuntimeSpec'') [t])"
proof -
  have "\<lparr>ii_trait = wee_events ''HandlerRuntimeSpec'', ii_args = [TVar (sp_context (af_items a))],
       ii_for = spec_type a, ii_where = af_generics a\<rparr> \<in> set (generated_impls m d g l hs)" if "a \<in> set hs"
    using that by (auto simp: generated_impls_def handler_attr_impls_def)
  from modest_runs [OF assms this] show "a \<in> set hs \<Longrightarrow> implements (generated_impls m d g l hs) F
      (Bound (spec_type a) (wee_events ''HandlerRuntimeSpec'') [t])" by simp
  have "\<lparr>ii_trait = wee_events ''LoaderRuntimeSpec'', ii_args = [TVar (sp_context (af_items a))],
       ii_for = spec_type a, ii_where = af_generics a\<rparr> \<in> set (generated_impls m d g l hs)" if "a = l"
    using that by (auto simp: generated_impls_def loader_attr_impls_def)
  from modest_runs [OF assms this] show "a = l \<Longrightarrow> implements (generated_impls m d g l hs) F
      (Bound (spec_type a) (wee_events ''LoaderRuntimeSpec'') [t])" by simp
qed

text \<open>The error types and the state are what the tasks of a service need them to be.\<close>

definition sendable :: "(bound \<Rightarrow> bool) \<Rightarrow> rtype \<Rightarrow> bool" where
  "sendable ok t \<longleftrightarrow> ok (Bound t SEND []) \<and> ok (Bound t SYNC []) \<and> ok (Bound t STATIC [])"

definition core_at :: "segment list \<Rightarrow> generated_service \<Rightarrow> rtype \<Rightarrow> rtype \<Rightarrow> rtype" where
  "core_at m g store services = subst_type (at_types store services) (core_service m g)"

lemma dispatch_impl_in:
  assumes "generate_full d = Inr g" and "declares d l hs" and "h \<in> set hs"
  shows "set (core_dispatch_impls m g (fs_state_type d) (spec_path (fn_path l)) (requires_trait l)
    (spec_path (fn_path h), requires_trait h)) \<subseteq> set (generated_impls m d g l hs)"
proof -
  have "gd_has_command (gs_definition g) = map (\<lambda>h. spec_path (fn_path h)) hs"
  proof -
    have "map spec_path (map he_fn_path (fs_handler_entries d)) = map spec_path (map fn_path hs)"
      using assms(2) by (simp only: declares_def)
    then show ?thesis by (simp add: generated_names(6) [OF assms(1)] comp_def)
  qed
  then have "(spec_path (fn_path h), requires_trait h) \<in>
      set (zip (gd_has_command (gs_definition g)) (gs_handler_requires g))"
    using assms(3) by (auto simp: declared_requires [OF assms(1,2)] zip_map_map zip_same_conv_map)
  moreover have "he_fn_path (fs_loader_entry d) = fn_path l" using assms(2) by (simp add: declares_def)
  ultimately show ?thesis
    using declared_requires(2) [OF assms(1,2)]
    by (force simp: generated_impls_def service_impls_def Let_def)
qed

lemma subst_spec [simp]: "subst_type s (spec_type a) = spec_type a"
  by (simp add: spec_type_def)

lemma subst_errors [simp]:
  "subst_type s (loader_error sp t) = loader_error sp (subst_type s t)"
  "subst_type s (handler_error sp t) = handler_error sp (subst_type s t)"
  by (simp_all add: loader_error_def handler_error_def named_type_def)

text \<open>
  C25: what can be attached to Restate also runs in process. If a service can be attached at a store
  and services, and its functions ask no more of their context than their attributes list, then the
  service that \<open>create\<close> builds from the same parts handles the command of every handler, as far as
  the errors can be converted and shared between threads.
\<close>

theorem attached_runs_in_process:
  assumes "generate_full d = Inr g" and "declares d l hs" and "coherent m g (l # hs) F"
    and "ok = implements (generated_impls m d g l hs) F"
    and "attachable (generated_impls m d g l hs) F m g store services"
    and "h \<in> set hs" and "modest l" and "modest h"
    and "ok (Bound (handler_env store services) STATIC [])" and "sendable ok (named_type (fs_state_type d))"
    and "sendable ok (loader_error (spec_path (fn_path l)) store)"
    and "sendable ok (handler_error (spec_path (fn_path h)) (handler_env store services))"
    and "ok (Bound (handler_error (spec_path (fn_path h)) (handler_env store services)) FROM
      [loader_error (spec_path (fn_path l)) store])"
  shows "ok (Bound (core_at m g store services) (wee_events ''Handles'') [command_type (spec_path (fn_path h))])"
proof -
  let ?P = "generated_impls m d g l hs" and ?s = "at_types store services"
  let ?sp = "spec_path (fn_path h)"
  let ?impls = "core_dispatch_impls m g (fs_state_type d) (spec_path (fn_path l)) (requires_trait l)
      (?sp, requires_trait h)"
  obtain dispatch handles where both: "?impls = [dispatch, handles]" by (simp add: core_dispatch_impls_def)
  then have dispatch: "dispatch = hd ?impls" and handles: "handles = hd (tl ?impls)" by simp_all
  from both have members: "dispatch \<in> set ?P" "handles \<in> set ?P"
    using dispatch_impl_in [OF assms(1,2,6), of m] by simp_all
  from assms(2,6) have attr: "from_attr l" "from_attr h" by (auto simp: declares_def)
  from assms(5) have att: "provides ok store l" "ok (Bound store CLONE [])" "ok (Bound store STATIC [])"
    "ok (Bound services CLONE [])" "ok (Bound services SEND [])" "ok (Bound services SYNC [])"
    "ok (Bound services STATIC [])" "provides ok (handler_env store services) h"
    using assms(6) unfolding attachable_iff [OF assms(1-3)] assms(4) Let_def by blast+
  have requires: "ok (Bound store (requires_trait l) [])"
    "ok (Bound (handler_env store services) (requires_trait h) [])"
    using att(1,8) assms(4,6) requires_trait_iff [OF assms(1-3)] by auto
  have runs: "ok (Bound (spec_type l) (wee_events ''LoaderRuntimeSpec'') [store])"
    "ok (Bound (spec_type h) (wee_events ''HandlerRuntimeSpec'') [handler_env store services])"
    using spec_runs [of l m d g l hs F store] spec_runs [of h m d g l hs F "handler_env store services"]
      assms(4,6-9) att(1,3,8) by auto
  have "\<forall>w\<in>set (ii_where dispatch). implements ?P F (subst_bound ?s w)"
    using att requires runs assms(9-13) provides_threads [OF att(1)] provides_threads [OF att(8)]
    unfolding dispatch
    by (simp add: core_dispatch_impls_def core_dispatch_impl_def ball_Un store_bounds_def services_bounds_def at_types_def
        sendable_def assms(4) from_attr_paths(3) [OF attr(1)] from_attr_paths(3) [OF attr(2)])
  from implements.by_impl [OF members(1) this]
  have "implements ?P F (Bound (core_at m g store services) (wee_private ''DispatchCommand'') [command_type ?sp])"
    unfolding dispatch by (simp add: core_dispatch_impls_def core_dispatch_impl_def core_at_def)
  then have "\<forall>w\<in>set (ii_where handles). implements ?P F (subst_bound ?s w)"
    unfolding handles by (simp add: core_dispatch_impls_def core_handles_impl_def core_at_def)
  from implements.by_impl [OF members(2) this] show ?thesis
    unfolding handles by (simp add: core_dispatch_impls_def core_handles_impl_def core_at_def assms(4))
qed

section \<open>A counter with an audit log\<close>

definition demo_load :: attr_fn where
  "demo_load = \<lparr>af_module = [], af_ident = ''load'', af_items =
     \<lparr>sp_spec_name = ''load_Spec'', sp_command = None, sp_state = TypePath (resolved [''Counter'']),
      sp_error = default_error_type, sp_context = ''R'', sp_requires_name = ''__load_Requires'',
      sp_requires = [resolved [''CanLoad'']]\<rparr>,
     af_generics = [Bound (TVar ''R'') (resolved [''CanLoad'']) []]\<rparr>"

definition demo_inc :: attr_fn where
  "demo_inc = \<lparr>af_module = [], af_ident = ''inc'', af_items =
     \<lparr>sp_spec_name = ''inc_Spec'', sp_command = Some (resolved [''Inc'']),
      sp_state = TypePath (resolved [''Counter'']), sp_error = default_error_type, sp_context = ''R'',
      sp_requires_name = ''__inc_Requires'', sp_requires = [resolved [''CanCount'']]\<rparr>,
     af_generics = [Bound (TVar ''R'') (resolved [''CanCount'']) [], Bound (TVar ''R'') STATIC []]\<rparr>"

definition demo_service :: "(unit, unit) full_service_input" where
  "demo_service = \<lparr>fs_vis = (), fs_name = ''Counter'', fs_service_name = ''counter'',
     fs_state_type = resolved [''State''],
     fs_loader_entry = \<lparr>he_fn_path = fn_path demo_load, he_wire_name = None\<rparr>,
     fs_handler_entries = [\<lparr>he_fn_path = fn_path demo_inc, he_wire_name = Some ''inc''\<rparr>],
     fs_effect_entries = [\<lparr>ed_workflow = ''AuditLog'', ed_filter = OnAll\<rparr>]\<rparr>"

definition demo_generated :: generated_service where
  "demo_generated = (case generate_full demo_service of Inr g \<Rightarrow> g)"

lemma demo_generates: "generate_full demo_service = Inr demo_generated"
proof -
  have "first_collision {loader_wire_name (fs_loader_entry demo_service)} (fs_handler_entries demo_service) = None"
    by (simp add: demo_service_def loader_wire_name_def handler_wire_name_def)
  then show ?thesis by (simp add: demo_generated_def generate_full_def Let_def)
qed

lemma demo_declares: "declares demo_service demo_load [demo_inc]"
  by (simp add: declares_def demo_service_def fn_path_def from_attr_def demo_load_def demo_inc_def
      spec_name_def requires_name_def)

definition demo_store :: rtype where "demo_store = named_type (resolved [''Store''])"
definition demo_payments :: rtype where "demo_payments = named_type (resolved [''Payments''])"

fun demo_bounds :: "bound \<Rightarrow> bool" where
  "demo_bounds (Bound t p ts) \<longleftrightarrow> p \<in> {SEND, SYNC, CLONE, STATIC, SERIALIZE, FROM} \<or>
     p = resolved [''CanLoad''] \<and> t = demo_store \<or>
     p = resolved [''CanCount''] \<and> t = handler_env demo_store demo_payments"

lemma demo_coherent: "coherent [] demo_generated [demo_load, demo_inc] demo_bounds"
  by (auto simp: coherent_def generated_names [OF demo_generates] demo_service_def requires_trait_def
      demo_load_def demo_inc_def item_path_def binder_trait_def resolved_def SEND_def SYNC_def CLONE_def
      STATIC_def SERIALIZE_def FROM_def)

lemma demo_bounds_known [simp]:
  "p \<in> {SEND, SYNC, CLONE, STATIC, SERIALIZE, FROM} \<Longrightarrow> implements P demo_bounds (Bound t p ts)"
  by (rule implements.known) simp

lemma demo_provides:
  "provides (implements P demo_bounds) demo_store demo_load"
  "provides (implements P demo_bounds) (handler_env demo_store demo_payments) demo_inc"
  by (auto simp: provides_def demo_load_def demo_inc_def intro: implements.known)

theorem attach_needs_declared_witness:
  "attachable (generated_impls [] demo_service demo_generated demo_load [demo_inc]) demo_bounds []
     demo_generated demo_store demo_payments"
  unfolding attach_needs_declared [OF demo_generates demo_declares demo_coherent] Let_def
  by (simp add: demo_provides)

theorem attached_runs_in_process_witness:
  "implements (generated_impls [] demo_service demo_generated demo_load [demo_inc]) demo_bounds
     (Bound (core_at [] demo_generated demo_store demo_payments) (wee_events ''Handles'')
       [command_type (spec_path (fn_path demo_inc))])"
proof (rule attached_runs_in_process [OF demo_generates demo_declares demo_coherent refl])
  show "attachable (generated_impls [] demo_service demo_generated demo_load [demo_inc]) demo_bounds []
      demo_generated demo_store demo_payments"
    unfolding attachable_iff [OF demo_generates demo_declares demo_coherent] Let_def
    by (simp add: demo_provides)
qed (simp_all add: modest_def sendable_def demo_load_def demo_inc_def)

end
