(* ===== verification/Conformance.thy ===== *)
theory Conformance
  imports StoreContract UlidInstance
begin

text \<open>
  \<^verbatim>\<open>crates/wee-events/src/test_suite.rs\<close>: the conformance suite that every \<open>EventStore\<close> must
  pass, as functions over \<open>store_ops\<close>. A test is an action that ends with a panic or without
  one. What a test draws at random (\<open>Ulid::new()\<close>) is in its environment; \<open>serde\<close> on the test
  event is a parameter. The locale \<open>dependable_store\<close> says when the calls of a store succeed,
  and inside it every test is shown to end without a failed assertion.
\<close>

section \<open>Tests and their outcomes\<close>

text \<open>\<open>.expect(message)\<close> on an \<open>Err\<close>, a failed \<open>assert!\<close>, and the suite's one \<open>panic!\<close>.\<close>

datatype panic =
    ExpectFailed string error
  | AssertFailed string
  | WrongError error

type_synonym ('st, 'a) test = "('st, panic, 'a) action"

definition call_load :: "'st store_ops \<Rightarrow> aggregate_id \<Rightarrow> ('st, error, aggregate) action" where
  "call_load ops i s = st_load ops s i"

definition call_publish ::
  "'st store_ops \<Rightarrow> aggregate_id \<Rightarrow> publish_options \<Rightarrow> raw_event list \<Rightarrow>
    ('st, error, change_set) action" where
  "call_publish ops i opts raws s = st_publish ops s i opts raws"

definition expect :: "string \<Rightarrow> ('st, error, 'a) action \<Rightarrow> ('st, 'a) test" where
  "expect message f = seq_err (ExpectFailed message) f"

definition assert_that :: "string \<Rightarrow> bool \<Rightarrow> ('st, unit) test" where
  "assert_that message b = give (if b then Inr () else Inl (AssertFailed message))"

text \<open>A call whose \<open>Result\<close> is kept and inspected.\<close>

definition kept :: "('st, error, 'a) action \<Rightarrow> ('st, error + 'a) test" where
  "kept f s = (case f s of (r, t) \<Rightarrow> (Inr r, t))"

definition passed :: "('st, unit) test" where
  "passed = give (Inr ())"

section \<open>Test data\<close>

record store_validation_event =
  test_string_value :: string
  test_int_value :: "64 word"  \<comment> \<open>\<open>i64\<close>\<close>

definition TEST_EVENT_TYPE :: string where
  "TEST_EVENT_TYPE = ''test:store-validation-event''"

definition make_test_aggregate_id :: "ulid_codec \<Rightarrow> ulid \<Rightarrow> aggregate_id" where
  "make_test_aggregate_id U drawn = aggregate_id_new ''test'' (ulid_to_string U drawn)"

definition make_test_event :: "ulid_codec \<Rightarrow> ulid \<Rightarrow> nat \<Rightarrow> store_validation_event" where
  "make_test_event U drawn index =
     \<lparr>test_string_value = ''test-value-'' @ decimal index @ ''-'' @ ulid_to_string U drawn,
      test_int_value = (if index < 2 ^ 63 then word_of_nat index else 2 ^ 63 - 1) * 17 + 42\<rparr>"

definition make_raw_event ::
  "store_validation_event serde \<Rightarrow> store_validation_event \<Rightarrow> panic + raw_event" where
  "make_raw_event S event =
     map_ok (\<lambda>d. \<lparr>raw_event_type = EventType TEST_EVENT_TYPE, raw_data = d\<rparr>)
       (map_err (\<lambda>e. ExpectFailed ''StoreValidationEvent always serializes'' (error_from_encode e))
         (event_data_json S event))"

definition make_raw_events ::
  "ulid_codec \<Rightarrow> store_validation_event serde \<Rightarrow> (nat \<Rightarrow> ulid) \<Rightarrow> nat \<Rightarrow>
    panic + store_validation_event list \<times> raw_event list" where
  "make_raw_events U S draw count =
     (let events = map (\<lambda>index. make_test_event U (draw index) index) [0..<count]
      in map_ok (Pair events) (collect_results (map (make_raw_event S) events)))"

text \<open>
  The surroundings of one test: the two crates, the ULID drawn for the aggregate, and those drawn
  for the events of the test's n-th batch.
\<close>

record test_env =
  te_ulid :: ulid_codec
  te_serde :: "store_validation_event serde"
  te_key :: ulid
  te_draw :: "nat \<Rightarrow> nat \<Rightarrow> ulid"

definition test_id :: "test_env \<Rightarrow> aggregate_id" where
  "test_id T = make_test_aggregate_id (te_ulid T) (te_key T)"

definition batch ::
  "test_env \<Rightarrow> nat \<Rightarrow> nat \<Rightarrow> ('st, store_validation_event list \<times> raw_event list) test" where
  "batch T n count = give (make_raw_events (te_ulid T) (te_serde T) (te_draw T n) count)"

definition expecting :: "revision \<Rightarrow> publish_options" where
  "expecting r = default_options\<lparr>expected_revision := Some r\<rparr>"

text \<open>\<open>assert!(result.is_err())\<close> and the match on the error.\<close>

fun must_conflict :: "string \<Rightarrow> error + 'a \<Rightarrow> panic + unit" where
  "must_conflict message (Inr _) = Inl (AssertFailed message)"
| "must_conflict message (Inl (RevisionConflict _ _)) = Inr ()"
| "must_conflict message (Inl e) = Inl (WrongError e)"

definition last_event :: "'st store_ops \<Rightarrow> aggregate_id \<Rightarrow> ('st, recorded_event) test" where
  "last_event ops i =
     seq_result (expect ''load must succeed in test helper'' (call_load ops i)) (\<lambda>agg.
     seq_result (assert_that ''expected events but aggregate was empty'' (\<not> aggregate_is_empty agg)) (\<lambda>_.
       give (ok_or (AssertFailed ''into_events is non-empty: is_empty() was false'')
         (last_opt (agg_events agg)))))"

section \<open>The conformance tests\<close>

definition load_initial :: "test_env \<Rightarrow> 'st store_ops \<Rightarrow> ('st, unit) test" where
  "load_initial T ops =
     seq_result (expect ''load must succeed'' (call_load ops (test_id T))) (\<lambda>aggregate.
     seq_result (assert_that ''aggregate.is_empty()'' (aggregate_is_empty aggregate)) (\<lambda>_.
     seq_result (assert_that ''revision is zero'' (agg_revision aggregate = revision_zero)) (\<lambda>_.
     seq_result (assert_that ''aggregate.id is id'' (agg_id aggregate = test_id T)) (\<lambda>_. passed))))"

definition loads_revision_with_events :: "test_env \<Rightarrow> 'st store_ops \<Rightarrow> ('st, unit) test" where
  "loads_revision_with_events T ops =
     seq_result (batch T 0 1) (\<lambda>(_, raw).
     seq_result (expect ''publish must succeed'' (call_publish ops (test_id T) default_options raw)) (\<lambda>_.
     seq_result (expect ''load must succeed'' (call_load ops (test_id T))) (\<lambda>aggregate.
     seq_result (assert_that ''not empty'' (\<not> aggregate_is_empty aggregate)) (\<lambda>_.
     seq_result (assert_that ''aggregate.id is id'' (agg_id aggregate = test_id T)) (\<lambda>_.
     seq_result (assert_that ''revision is not zero'' (agg_revision aggregate \<noteq> revision_zero)) (\<lambda>_.
       passed))))))"

definition publishes_single_event :: "test_env \<Rightarrow> 'st store_ops \<Rightarrow> ('st, unit) test" where
  "publishes_single_event T ops =
     seq_result (batch T 0 1) (\<lambda>(_, raw).
     seq_result (expect ''publish must succeed'' (call_publish ops (test_id T) default_options raw)) (\<lambda>_.
     seq_result (expect ''load must succeed'' (call_load ops (test_id T))) (\<lambda>aggregate.
     seq_result (assert_that ''len is 1'' (aggregate_len aggregate = 1)) (\<lambda>_. passed))))"

definition publishes_multiple_events :: "test_env \<Rightarrow> 'st store_ops \<Rightarrow> ('st, unit) test" where
  "publishes_multiple_events T ops =
     seq_result (batch T 0 17) (\<lambda>(_, raw).
     seq_result (expect ''publish must succeed'' (call_publish ops (test_id T) default_options raw)) (\<lambda>_.
     seq_result (expect ''load must succeed'' (call_load ops (test_id T))) (\<lambda>aggregate.
     seq_result (assert_that ''len is 17'' (aggregate_len aggregate = 17)) (\<lambda>_. passed))))"

text \<open>The loop over the loaded events, each against the event it was made from.\<close>

fun check_content ::
  "store_validation_event serde \<Rightarrow> store_validation_event list \<Rightarrow> recorded_event list \<Rightarrow>
    panic + unit" where
  "check_content S events [] = Inr ()"
| "check_content S events (recorded # rest) =
     (if re_event_type recorded \<noteq> EventType TEST_EVENT_TYPE then Inl (AssertFailed ''event type'')
      else if \<not> is_json (re_data recorded) then Inl (AssertFailed ''expected JSON encoding'')
      else
        (case deserialize_json S (re_data recorded) of
           Inl e \<Rightarrow> Inl (ExpectFailed ''deserialization must succeed'' (error_from_decode e))
         | Inr deserialized \<Rightarrow>
             (case events of
                [] \<Rightarrow> Inl (AssertFailed ''index out of bounds'')
              | event # later \<Rightarrow>
                  if event \<noteq> deserialized then Inl (AssertFailed ''event content mismatch'')
                  else check_content S later rest)))"

definition validate_event_content :: "test_env \<Rightarrow> 'st store_ops \<Rightarrow> ('st, unit) test" where
  "validate_event_content T ops =
     seq_result (batch T 0 17) (\<lambda>(events, raw).
     seq_result (expect ''publish must succeed'' (call_publish ops (test_id T) default_options raw)) (\<lambda>_.
     seq_result (expect ''load must succeed'' (call_load ops (test_id T))) (\<lambda>aggregate.
     seq_result (assert_that ''as many events'' (length events = aggregate_len aggregate)) (\<lambda>_.
     seq_result (give (check_content (te_serde T) events (agg_events aggregate))) (\<lambda>_. passed)))))"

definition publishes_with_expected_initial_revision ::
  "test_env \<Rightarrow> 'st store_ops \<Rightarrow> ('st, unit) test" where
  "publishes_with_expected_initial_revision T ops =
     seq_result (batch T 0 1) (\<lambda>(_, raw).
     seq_result (expect ''publish with zero revision must succeed''
       (call_publish ops (test_id T) (expecting revision_zero) raw)) (\<lambda>_.
     seq_result (expect ''load must succeed'' (call_load ops (test_id T))) (\<lambda>aggregate.
     seq_result (assert_that ''len is 1'' (aggregate_len aggregate = 1)) (\<lambda>_. passed))))"

definition publishes_with_expected_revision :: "test_env \<Rightarrow> 'st store_ops \<Rightarrow> ('st, unit) test" where
  "publishes_with_expected_revision T ops =
     seq_result (batch T 0 1) (\<lambda>(_, raw1).
     seq_result (expect ''first publish must succeed''
       (call_publish ops (test_id T) default_options raw1)) (\<lambda>_.
     seq_result (expect ''load must succeed'' (call_load ops (test_id T))) (\<lambda>first.
     seq_result (batch T 1 1) (\<lambda>(_, raw2).
     seq_result (expect ''second publish with expected revision must succeed''
       (call_publish ops (test_id T) (expecting (agg_revision first)) raw2)) (\<lambda>_.
     seq_result (expect ''load must succeed'' (call_load ops (test_id T))) (\<lambda>aggregate.
     seq_result (assert_that ''len is 2'' (aggregate_len aggregate = 2)) (\<lambda>_. passed)))))))"

definition revision_conflict_on_initial_revision ::
  "test_env \<Rightarrow> 'st store_ops \<Rightarrow> ('st, unit) test" where
  "revision_conflict_on_initial_revision T ops =
     seq_result (batch T 0 1) (\<lambda>(_, raw1).
     seq_result (expect ''first publish must succeed''
       (call_publish ops (test_id T) default_options raw1)) (\<lambda>_.
     seq_result (batch T 1 1) (\<lambda>(_, raw2).
     seq_result (kept (call_publish ops (test_id T) (expecting revision_zero) raw2)) (\<lambda>result.
     seq_result (give (must_conflict ''result.is_err()'' result)) (\<lambda>_. passed)))))"

definition revision_conflict_on_subsequent_revision ::
  "test_env \<Rightarrow> 'st store_ops \<Rightarrow> ('st, unit) test" where
  "revision_conflict_on_subsequent_revision T ops =
     seq_result (batch T 0 1) (\<lambda>(_, raw1).
     seq_result (expect ''first publish must succeed''
       (call_publish ops (test_id T) default_options raw1)) (\<lambda>_.
     seq_result (expect ''load must succeed'' (call_load ops (test_id T))) (\<lambda>first.
     seq_result (batch T 1 1) (\<lambda>(_, raw2).
     seq_result (expect ''second publish must succeed''
       (call_publish ops (test_id T) default_options raw2)) (\<lambda>_.
     seq_result (batch T 2 1) (\<lambda>(_, raw3).
     seq_result (kept (call_publish ops (test_id T) (expecting (agg_revision first)) raw3)) (\<lambda>result.
     seq_result (give (must_conflict ''result.is_err()'' result)) (\<lambda>_. passed))))))))"

definition causation :: "test_env \<Rightarrow> 'st store_ops \<Rightarrow> ('st, unit) test" where
  "causation T ops =
     seq_result (batch T 0 1) (\<lambda>(_, raw1).
     seq_result (expect ''first publish must succeed''
       (call_publish ops (test_id T) default_options raw1)) (\<lambda>_.
     seq_result (last_event ops (test_id T)) (\<lambda>first.
     seq_result (batch T 1 1) (\<lambda>(_, raw2).
       let correlation = CorrelationId (''event/'' @ event_id_str (re_event_id first)) in
     seq_result (expect ''second publish must succeed''
       (call_publish ops (test_id T) (default_options\<lparr>opt_causation_id := Some (re_event_id first),
          opt_correlation_id := Some correlation\<rparr>) raw2)) (\<lambda>_.
     seq_result (last_event ops (test_id T)) (\<lambda>second.
     seq_result (assert_that ''correlation id''
       (md_correlation_id (re_metadata second) = Some correlation)) (\<lambda>_.
     seq_result (assert_that ''causation id''
       (md_causation_id (re_metadata second) = Some (re_event_id first))) (\<lambda>_. passed))))))))"

definition stale_revision_detected_and_retry_succeeds ::
  "test_env \<Rightarrow> 'st store_ops \<Rightarrow> ('st, unit) test" where
  "stale_revision_detected_and_retry_succeeds T ops =
     seq_result (batch T 0 1) (\<lambda>(_, raw1).
     seq_result (expect ''initial publish must succeed''
       (call_publish ops (test_id T) default_options raw1)) (\<lambda>_.
     seq_result (expect ''load must succeed'' (call_load ops (test_id T))) (\<lambda>snapshot.
     seq_result (batch T 1 1) (\<lambda>(_, raw2).
     seq_result (expect ''concurrent publish must succeed''
       (call_publish ops (test_id T) default_options raw2)) (\<lambda>_.
     seq_result (batch T 2 1) (\<lambda>(_, raw3).
     seq_result (kept (call_publish ops (test_id T) (expecting (agg_revision snapshot)) raw3)) (\<lambda>result.
     seq_result (give (must_conflict ''stale revision should be rejected'' result)) (\<lambda>_.
     seq_result (expect ''reload must succeed'' (call_load ops (test_id T))) (\<lambda>fresh.
     seq_result (batch T 3 1) (\<lambda>(_, raw4).
     seq_result (expect ''retry with fresh revision must succeed''
       (call_publish ops (test_id T) (expecting (agg_revision fresh)) raw4)) (\<lambda>_.
     seq_result (expect ''final load must succeed'' (call_load ops (test_id T))) (\<lambda>final_agg.
     seq_result (assert_that ''len is 3'' (aggregate_len final_agg = 3)) (\<lambda>_. passed)))))))))))))"

definition empty_publish_returns_current_revision ::
  "test_env \<Rightarrow> 'st store_ops \<Rightarrow> ('st, unit) test" where
  "empty_publish_returns_current_revision T ops =
     seq_result (batch T 0 2) (\<lambda>(_, raw).
     seq_result (expect ''publish must succeed''
       (call_publish ops (test_id T) default_options raw)) (\<lambda>changeset.
     seq_result (expect ''empty publish must succeed''
       (call_publish ops (test_id T) default_options [])) (\<lambda>empty_changeset.
     seq_result (assert_that ''revision unchanged''
       (cs_revision empty_changeset = cs_revision changeset)) (\<lambda>_.
     seq_result (assert_that ''no events'' (cs_events empty_changeset = [])) (\<lambda>_. passed)))))"

text \<open>\<open>revisions.windows(2)\<close>.\<close>

fun windows_ascend :: "revision list \<Rightarrow> bool" where
  "windows_ascend (a # b # rest) = (a < b \<and> windows_ascend (b # rest))"
| "windows_ascend rest = True"

definition event_ordering_preserved :: "test_env \<Rightarrow> 'st store_ops \<Rightarrow> ('st, unit) test" where
  "event_ordering_preserved T ops =
     seq_result (batch T 0 2) (\<lambda>(_, batch1).
     seq_result (batch T 1 3) (\<lambda>(_, batch2).
     seq_result (expect ''first batch publish must succeed''
       (call_publish ops (test_id T) default_options batch1)) (\<lambda>_.
     seq_result (expect ''second batch publish must succeed''
       (call_publish ops (test_id T) default_options batch2)) (\<lambda>_.
     seq_result (expect ''load must succeed'' (call_load ops (test_id T))) (\<lambda>aggregate.
     seq_result (assert_that ''len is 5'' (aggregate_len aggregate = 5)) (\<lambda>_.
     seq_result (assert_that ''revisions ascend''
       (windows_ascend (map re_revision (agg_events aggregate)))) (\<lambda>_. passed)))))))"

text \<open>\<open>store_test_suite!\<close>: each test on a store of its own.\<close>

definition store_test_suite :: "test_env \<Rightarrow> 'st store_ops \<Rightarrow> ('st, unit) test list" where
  "store_test_suite T ops =
     map (\<lambda>test. test T ops)
       [load_initial, loads_revision_with_events, publishes_single_event, publishes_multiple_events,
        validate_event_content, publishes_with_expected_initial_revision,
        publishes_with_expected_revision, revision_conflict_on_initial_revision,
        revision_conflict_on_subsequent_revision, causation,
        stale_revision_detected_and_retry_succeeds, empty_publish_returns_current_revision,
        event_ordering_preserved]"

section \<open>Two instances of a store on one backing store\<close>

definition blind_appends_succeed_across_store_instances ::
  "test_env \<Rightarrow> 'st store_ops \<Rightarrow> 'st store_ops \<Rightarrow> ('st, unit) test" where
  "blind_appends_succeed_across_store_instances T ops_a ops_b =
     seq_result (batch T 0 1) (\<lambda>(_, raw1).
     seq_result (expect ''first publish must succeed''
       (call_publish ops_a (test_id T) default_options raw1)) (\<lambda>_.
     seq_result (expect ''second store should observe first commit'' (call_load ops_b (test_id T)))
       (\<lambda>snapshot_from_b.
     seq_result (assert_that ''len is 1'' (aggregate_len snapshot_from_b = 1)) (\<lambda>_.
     seq_result (batch T 1 1) (\<lambda>(_, raw2).
     seq_result (expect ''second publish should succeed''
       (call_publish ops_b (test_id T) default_options raw2)) (\<lambda>_.
     seq_result (expect ''first store should observe second commit'' (call_load ops_a (test_id T)))
       (\<lambda>snapshot_from_a.
     seq_result (assert_that ''len is 2'' (aggregate_len snapshot_from_a = 2)) (\<lambda>_. passed))))))))"

definition stale_revision_conflicts_across_store_instances ::
  "test_env \<Rightarrow> 'st store_ops \<Rightarrow> 'st store_ops \<Rightarrow> ('st, unit) test" where
  "stale_revision_conflicts_across_store_instances T ops_a ops_b =
     seq_result (batch T 0 1) (\<lambda>(_, raw1).
     seq_result (expect ''initial publish must succeed''
       (call_publish ops_a (test_id T) default_options raw1)) (\<lambda>_.
     seq_result (expect ''first store should load current state'' (call_load ops_a (test_id T)))
       (\<lambda>loaded.
     seq_result (batch T 1 1) (\<lambda>(_, raw2).
     seq_result (expect ''concurrent publish should succeed''
       (call_publish ops_b (test_id T) default_options raw2)) (\<lambda>_.
     seq_result (batch T 2 1) (\<lambda>(_, raw3).
     seq_result (kept (call_publish ops_a (test_id T) (expecting (agg_revision loaded)) raw3)) (\<lambda>result.
     seq_result (give (must_conflict ''stale revision should be rejected'' result)) (\<lambda>_. passed))))))))"

definition shared_store_test_suite ::
  "test_env \<Rightarrow> 'st store_ops \<Rightarrow> 'st store_ops \<Rightarrow> ('st, unit) test list" where
  "shared_store_test_suite T ops_a ops_b =
     [blind_appends_succeed_across_store_instances T ops_a ops_b,
      stale_revision_conflicts_across_store_instances T ops_a ops_b]"

section \<open>A logic of tests\<close>

text \<open>
  \<open>upholds ok P m Q\<close>: from a state with \<open>P\<close>, the action panics only in a way that \<open>ok\<close> allows, and
  otherwise leaves a state with \<open>Q\<close>. With \<open>ok\<close> nowhere true this is total correctness.
\<close>

definition upholds ::
  "('p \<Rightarrow> bool) \<Rightarrow> ('s \<Rightarrow> bool) \<Rightarrow> ('s, 'p, 'a) action \<Rightarrow> ('a \<Rightarrow> 's \<Rightarrow> bool) \<Rightarrow> bool" where
  "upholds ok P m Q \<longleftrightarrow>
     (\<forall>s. P s \<longrightarrow> (case m s of (Inl p, _) \<Rightarrow> ok p | (Inr a, t) \<Rightarrow> Q a t))"

named_theorems test_rules \<open>how a test goes on after one of its calls\<close>

lemma upholdsI:
  assumes "\<And>s p t. P s \<Longrightarrow> m s = (Inl p, t) \<Longrightarrow> ok p"
    and "\<And>s a t. P s \<Longrightarrow> m s = (Inr a, t) \<Longrightarrow> Q a t"
  shows "upholds ok P m Q"
  using assms by (auto simp: upholds_def split: prod.splits sum.splits)

lemma upholdsD:
  assumes "upholds ok P m Q" and "P s"
  shows "m s = (Inl p, t) \<Longrightarrow> ok p" and "m s = (Inr a, t) \<Longrightarrow> Q a t"
  using assms by (auto simp: upholds_def)

lemma upholds_seq:
  assumes "upholds ok P m R" and "\<And>a. upholds ok (R a) (f a) Q"
  shows "upholds ok P (seq_result m f) Q"
  by (rule upholdsI) (auto simp: result_simps dest: upholdsD [OF assms(1)] upholdsD [OF assms(2)])

lemma upholds_given:
  assumes "upholds ok P (f a) Q"
  shows "upholds ok P (seq_result (give (Inr a)) f) Q"
  using assms by (simp add: upholds_def give_def)

lemma upholds_knowing:
  assumes "\<And>s. P s \<Longrightarrow> \<phi>" and "\<phi> \<Longrightarrow> upholds ok P m Q"
  shows "upholds ok P m Q"
  using assms by (auto simp: upholds_def)

lemma upholds_strengthen:
  assumes "upholds ok P m Q" and "\<And>s. P' s \<Longrightarrow> P s" and "\<And>a s. Q a s \<Longrightarrow> Q' a s"
  shows "upholds ok P' m Q'"
  by (rule upholdsI) (auto dest: assms(2,3) upholdsD [OF assms(1)])

lemma upholds_outcome:
  assumes "upholds ok P m (\<lambda>_ _. True)" and "P s"
  shows "case fst (m s) of Inl p \<Rightarrow> ok p | Inr _ \<Rightarrow> True"
  using upholdsD(1) [OF assms] by (cases "m s") (auto split: sum.splits)

lemma passed_upholds [test_rules]: "upholds ok P passed (\<lambda>_ _. True)"
  by (simp add: upholds_def passed_def give_def)

lemma assert_then [test_rules]:
  assumes "\<And>s. P s \<Longrightarrow> b" and "upholds ok P (f ()) Q"
  shows "upholds ok P (seq_result (assert_that message b) f) Q"
  by (rule upholds_knowing [OF assms(1)]) (use assms(2) in \<open>auto simp: assert_that_def upholds_given\<close>)

text \<open>The panics a test may end with when its store excuses some errors.\<close>

fun tolerated :: "(error \<Rightarrow> bool) \<Rightarrow> panic \<Rightarrow> bool" where
  "tolerated excused (ExpectFailed message e) = excused e"
| "tolerated excused (WrongError e) = excused e"
| "tolerated excused (AssertFailed message) = False"

section \<open>The events a test makes\<close>

text \<open>The serialiser writes every test event, and reads back what it wrote.\<close>

definition env_ok :: "test_env \<Rightarrow> bool" where
  "env_ok T \<longleftrightarrow> serde_roundtrip (te_serde T) \<and> (\<forall>v. is_ok (to_json (te_serde T) v))"

definition encodes :: "test_env \<Rightarrow> store_validation_event \<Rightarrow> raw_event \<Rightarrow> bool" where
  "encodes T event raw \<longleftrightarrow>
     raw_event_type raw = EventType TEST_EVENT_TYPE \<and> is_json (raw_data raw) \<and>
     deserialize_json (te_serde T) (raw_data raw) = Inr event"

lemma make_raw_event_ok:
  assumes "env_ok T"
  shows "\<exists>raw. make_raw_event (te_serde T) event = Inr raw \<and> encodes T event raw"
proof -
  from assms obtain b where b: "to_json (te_serde T) event = Inr b"
    by (metis env_ok_def is_ok.simps(1) sum.exhaust)
  with assms show ?thesis
    by (simp add: make_raw_event_def event_data_json_def encodes_def is_json_def deserialize_json_def
        json_deserialize_def env_ok_def serde_roundtrip_def)
qed

lemma make_raw_events_ok:
  assumes "env_ok T"
  shows "\<exists>events raws. make_raw_events U (te_serde T) draw count = Inr (events, raws) \<and>
    list_all2 (encodes T) events raws \<and> length raws = count"
proof -
  let ?events = "map (\<lambda>index. make_test_event U (draw index) index) [0..<count]"
  have "\<exists>raws. collect_results (map (make_raw_event (te_serde T)) es) = Inr raws \<and>
      list_all2 (encodes T) es raws" for es
  proof (induction es)
    case (Cons e es)
    with make_raw_event_ok [OF assms, of e] show ?case by auto
  qed simp
  from this [of ?events] obtain raws where
    raws: "collect_results (map (make_raw_event (te_serde T)) ?events) = Inr raws"
      "list_all2 (encodes T) ?events raws" by blast
  from list_all2_lengthD [OF raws(2)] raws show ?thesis
    by (auto simp: make_raw_events_def Let_def simp del: map_map)
qed

lemma batch_then [test_rules]:
  assumes "env_ok T"
    and "\<And>events raws. list_all2 (encodes T) events raws \<Longrightarrow> length events = count \<Longrightarrow>
      length raws = count \<Longrightarrow> upholds ok P (f events raws) Q"
  shows "upholds ok P (seq_result (batch T n count) (\<lambda>(events, raws). f events raws)) Q"
proof -
  from make_raw_events_ok [OF assms(1)] obtain events raws where
    made: "make_raw_events (te_ulid T) (te_serde T) (te_draw T n) count = Inr (events, raws)"
    and facts: "list_all2 (encodes T) events raws" "length raws = count" by blast
  then have "length events = count" by (auto dest: list_all2_lengthD)
  from assms(2) [OF facts(1) this facts(2)] show ?thesis
    unfolding batch_def made by (intro upholds_given) simp
qed

text \<open>The conformance event's integer does not overflow in any batch that fits into memory.\<close>

lemma make_test_event_value:
  assumes "index < 2 ^ 58"
  shows "sint (test_int_value (make_test_event U drawn index)) = 17 * int index + 42"
proof -
  have "test_int_value (make_test_event U drawn index) = word_of_int (17 * int index + 42)"
    using assms by (simp add: make_test_event_def mult.commute)
  moreover have "signed_take_bit 63 (17 * int index + 42) = 17 * int index + 42"
    using assms by (intro signed_take_bit_int_eq_self) simp_all
  ultimately show ?thesis by (simp only: sint_sbintrunc') simp
qed

lemma check_content_ok:
  "list_all2 (encodes T) events raws \<Longrightarrow> list_all2 (records opts) raws es \<Longrightarrow>
    check_content (te_serde T) events es = Inr ()"
proof (induction es arbitrary: events raws)
  case (Cons e es)
  then obtain event later raw rest where
    "events = event # later" "raws = raw # rest" "encodes T event raw" "records opts raw e"
    "list_all2 (encodes T) later rest" "list_all2 (records opts) rest es"
    by (auto simp: list_all2_Cons1 list_all2_Cons2)
  from this(1-4) Cons.IH [OF this(5,6)] show ?case by (simp add: encodes_def records_def)
qed simp

lemma content_then [test_rules]:
  assumes "list_all2 (encodes T) events raws" and "list_all2 (records opts) raws es"
    and "upholds ok P (f ()) Q"
  shows "upholds ok P (seq_result (give (check_content (te_serde T) events es)) f) Q"
  using assms(3) by (simp add: check_content_ok [OF assms(1,2)] upholds_given)

lemma records_last:
  "list_all2 (records opts) raws es \<Longrightarrow> es \<noteq> [] \<Longrightarrow> re_metadata (last es) = options_metadata opts"
  by (induction es arbitrary: raws) (auto simp: list_all2_Cons2 records_def)

lemma windows_ascend_iff: "windows_ascend (map re_revision es) \<longleftrightarrow> strictly_increasing (revisions es)"
proof -
  have "windows_ascend rs \<longleftrightarrow> strictly_increasing rs" for rs
  proof (induction rs rule: windows_ascend.induct)
    case (1 a b rest)
    then show ?case by (auto intro: less_trans)
  qed auto
  then show ?thesis by (simp add: revisions_def)
qed

section \<open>Stores whose calls succeed\<close>

text \<open>
  An event store together with a measure of what it can still do, \<open>live n\<close> for \<open>n\<close> more events,
  and the errors that are excused. A call fails only with an excused error, or with the conflict
  that a stale expected revision deserves.
\<close>

locale dependable_store = event_store ops inv stream
  for ops :: "'st store_ops" and inv :: "'st \<Rightarrow> bool"
    and stream :: "'st \<Rightarrow> aggregate_id \<Rightarrow> recorded_event list" +
  fixes live :: "nat \<Rightarrow> 'st \<Rightarrow> bool" and excused :: "error \<Rightarrow> bool"
  assumes load_live: "inv s \<Longrightarrow> live n s \<Longrightarrow> st_load ops s i = (l, s') \<Longrightarrow> live n s'"
    and load_excused: "inv s \<Longrightarrow> live n s \<Longrightarrow> st_load ops s i = (Inl e, s') \<Longrightarrow> excused e"
    and publish_live: "inv s \<Longrightarrow> live (length raws + n) s \<Longrightarrow>
      st_publish ops s i opts raws = (r, s') \<Longrightarrow> live n s'"
    and publish_excused: "inv s \<Longrightarrow> live (length raws + n) s \<Longrightarrow>
      st_publish ops s i opts raws = (Inl e, s') \<Longrightarrow>
      excused e \<or> (\<exists>x. raws \<noteq> [] \<and> expected_revision opts = Some x \<and>
        x \<noteq> stream_revision (stream s i) \<and> e = RevisionConflict x (stream_revision (stream s i)))"
begin

text \<open>What a test may assert of a publish to the stream \<open>es\<close>.\<close>

definition published :: "publish_options \<Rightarrow> recorded_event list \<Rightarrow> raw_event list \<Rightarrow> change_set \<Rightarrow> bool" where
  "published opts es raws cs \<longleftrightarrow>
     length (cs_events cs) = length raws \<and> strictly_increasing (revisions (es @ cs_events cs)) \<and>
     (0 < length raws \<longrightarrow> revision_zero < stream_revision (es @ cs_events cs) \<and>
       stream_revision es < stream_revision (es @ cs_events cs) \<and>
       re_metadata (last (es @ cs_events cs)) = options_metadata opts)"

text \<open>The state of a test between two calls: the stream it has built so far.\<close>

definition standing :: "nat \<Rightarrow> aggregate_id \<Rightarrow> recorded_event list \<Rightarrow> 'st \<Rightarrow> bool" where
  "standing n i es s \<longleftrightarrow> inv s \<and> live n s \<and> stream s i = es"

lemma standing_facts:
  assumes "standing n i es s"
  shows "strictly_increasing (revisions es)" and "stream_revision es = revision_zero \<longleftrightarrow> es = []"
  using assms stream_increasing [of s i] revision_zero_iff_empty [of s i]
  by (auto simp: standing_def)

lemma standing_published:
  assumes "standing n i (es @ cs_events cs) s" and "list_all2 (records opts) raws (cs_events cs)"
  shows "published opts es raws cs"
proof (cases "raws = []")
  case True
  with assms standing_facts(1) [OF assms(1)] show ?thesis by (simp add: published_def)
next
  case False
  from assms(2) have len: "length (cs_events cs) = length raws" by (simp add: list_all2_lengthD)
  with False have ne: "cs_events cs \<noteq> []" by auto
  from assms(1) have s: "inv s" "stream s i = es @ cs_events cs" by (auto simp: standing_def)
  have "stream_revision es < stream_revision (es @ cs_events cs)"
    using extension_advances [OF s ne] s(2) by simp
  moreover have "revision_zero < stream_revision (es @ cs_events cs)"
    using stream_nonzero [OF s(1), of "stream_revision (es @ cs_events cs)" i] s(2) ne
      stream_revision_in [of "es @ cs_events cs"] by simp
  ultimately show ?thesis
    using len ne standing_facts(1) [OF assms(1)] records_last [OF assms(2) ne] by (simp add: published_def)
qed

lemma load_then:
  assumes "upholds (tolerated excused) (standing n i es) (f (from_shared_events i es)) Q"
  shows "upholds (tolerated excused) (standing n i es) (seq_result (expect m (call_load ops i)) f) Q"
proof (rule upholds_seq)
  show "upholds (tolerated excused) (standing n i es) (expect m (call_load ops i))
      (\<lambda>a s. a = from_shared_events i es \<and> standing n i es s)"
  proof (rule upholdsI)
    fix s p t
    assume s: "standing n i es s" and "expect m (call_load ops i) s = (Inl p, t)"
    then obtain e where "st_load ops s i = (Inl e, t)" "p = ExpectFailed m e"
      by (auto simp: expect_def call_load_def result_simps)
    with s load_excused [of s n i e t] show "tolerated excused p" by (simp add: standing_def)
  next
    fix s a t
    assume s: "standing n i es s" and "expect m (call_load ops i) s = (Inr a, t)"
    then have run: "st_load ops s i = (Inr a, t)" by (simp add: expect_def call_load_def result_simps)
    from s load_reads [OF _ run] load_keeps [OF _ run] load_live [OF _ _ run]
    show "a = from_shared_events i es \<and> standing n i es t" by (simp add: standing_def)
  qed
  show "upholds (tolerated excused) (\<lambda>s. a = from_shared_events i es \<and> standing n i es s) (f a) Q" for a
    by (rule upholds_knowing [where \<phi> = "a = from_shared_events i es"], blast)
      (auto intro: upholds_strengthen [OF assms])
qed

lemma publish_then:
  assumes "expected_revision opts \<in> {None, Some (stream_revision es)}" and "length raws \<le> n"
    and "\<And>cs. list_all2 (records opts) raws (cs_events cs) \<Longrightarrow>
      cs_revision cs = stream_revision (es @ cs_events cs) \<Longrightarrow> published opts es raws cs \<Longrightarrow>
      upholds (tolerated excused) (standing (n - length raws) i (es @ cs_events cs)) (f cs) Q"
  shows "upholds (tolerated excused) (standing n i es) (seq_result (expect m (call_publish ops i opts raws)) f) Q"
proof (rule upholds_seq)
  let ?R = "\<lambda>cs s. list_all2 (records opts) raws (cs_events cs) \<and>
      cs_revision cs = stream_revision (es @ cs_events cs) \<and>
      standing (n - length raws) i (es @ cs_events cs) s"
  have n: "n = length raws + (n - length raws)" using assms(2) by simp
  show "upholds (tolerated excused) (standing n i es) (expect m (call_publish ops i opts raws)) ?R"
  proof (rule upholdsI)
    fix s p t
    assume s: "standing n i es s" and "expect m (call_publish ops i opts raws) s = (Inl p, t)"
    then obtain e where e: "st_publish ops s i opts raws = (Inl e, t)" "p = ExpectFailed m e"
      by (auto simp: expect_def call_publish_def result_simps)
    from s n have "inv s" "live (length raws + (n - length raws)) s" "stream s i = es"
      by (auto simp: standing_def)
    from publish_excused [OF this(1,2) e(1)] this(3) assms(1) e(2) show "tolerated excused p" by auto
  next
    fix s cs t
    assume s: "standing n i es s" and "expect m (call_publish ops i opts raws) s = (Inr cs, t)"
    then have run: "st_publish ops s i opts raws = (Inr cs, t)"
      by (auto simp: expect_def call_publish_def result_simps)
    from s n have "inv s" "live (length raws + (n - length raws)) s" "stream s i = es"
      by (auto simp: standing_def)
    with publish_appends [OF this(1) run] publish_keeps [OF this(1) run] publish_live [OF this(1,2) run]
    show "?R cs t" by (simp add: standing_def)
  qed
  show "upholds (tolerated excused) (?R cs) (f cs) Q" for cs
  proof (rule upholds_knowing)
    show "list_all2 (records opts) raws (cs_events cs) \<and>
        cs_revision cs = stream_revision (es @ cs_events cs) \<and> published opts es raws cs"
      if "?R cs s" for s
      using that standing_published [of "n - length raws" i es cs s opts raws] by blast
    show "upholds (tolerated excused) (?R cs) (f cs) Q"
      if "list_all2 (records opts) raws (cs_events cs) \<and>
        cs_revision cs = stream_revision (es @ cs_events cs) \<and> published opts es raws cs"
      using assms(3) [of cs] that by (auto intro: upholds_strengthen)
  qed
qed

lemma conflict_then:
  assumes "raws \<noteq> []" and "length raws \<le> n"
    and "expected_revision opts = Some x" and "x \<noteq> stream_revision es"
    and "upholds (tolerated excused) (standing (n - length raws) i es) (g ()) Q"
  shows "upholds (tolerated excused) (standing n i es)
    (seq_result (kept (call_publish ops i opts raws)) (\<lambda>r. seq_result (give (must_conflict m r)) g)) Q"
proof (rule upholdsI)
  have n: "n = length raws + (n - length raws)" using assms(2) by simp
  fix s
  assume s: "standing n i es s"
  then have s': "inv s" "live (length raws + (n - length raws)) s" "stream s i = es"
    using n by (auto simp: standing_def)
  obtain r t where run: "st_publish ops s i opts raws = (r, t)" by fastforce
  from publish_expected [OF s'(1) _ assms(1,3)] run s'(3) assms(4) obtain e where e: "r = Inl e"
    by (cases r) auto
  with publish_fails [OF s'(1)] publish_keeps [OF s'(1) run] publish_live [OF s'(1,2) run] run s'(3)
  have t: "standing (n - length raws) i es t" by (simp add: standing_def)
  have kept: "kept (call_publish ops i opts raws) s = (Inr (Inl e), t)"
    by (simp add: kept_def call_publish_def run e)
  have ok: "excused e \<or> (\<exists>x a. e = RevisionConflict x a)"
    using publish_excused [OF s'(1,2)] run e by blast
  let ?e = "Inl e :: error + change_set"
  have must: "must_conflict m ?e = Inr () \<or> must_conflict m ?e = Inl (WrongError e) \<and> excused e"
    using ok by (cases e) auto
  let ?run = "seq_result (kept (call_publish ops i opts raws)) (\<lambda>r. seq_result (give (must_conflict m r)) g) s"
  have step: "?run = seq_result (give (must_conflict m ?e)) g t"
    using kept by simp
  show "tolerated excused p" if "?run = (Inl p, u)" for p u
    using that must upholdsD [OF assms(5) t] by (auto simp: step result_simps)
  show "Q a u" if "?run = (Inr a, u)" for a u
    using that must upholdsD [OF assms(5) t] by (auto simp: step result_simps)
qed

lemma last_event_then:
  assumes "es \<noteq> []" and "upholds (tolerated excused) (standing n i es) (f (last es)) Q"
  shows "upholds (tolerated excused) (standing n i es) (seq_result (last_event ops i) f) Q"
proof -
  have "seq_result (last_event ops i) f =
      seq_result (expect ''load must succeed in test helper'' (call_load ops i)) (\<lambda>agg.
      seq_result (assert_that ''expected events but aggregate was empty'' (\<not> aggregate_is_empty agg)) (\<lambda>_.
      seq_result (give (ok_or (AssertFailed ''into_events is non-empty: is_empty() was false'')
        (last_opt (agg_events agg)))) f))"
    by (rule ext) (simp add: last_event_def seq_result_def split: prod.split sum.split)
  moreover have "ok_or q (last_opt es) = Inr (last es)" for q :: panic
    using assms(1) by (simp add: ok_or_def last_opt_def)
  ultimately show ?thesis
    using assms by (auto intro!: load_then assert_then upholds_given simp: aggregate_is_empty_def)
qed

lemmas call_rules = load_then publish_then conflict_then last_event_then test_rules

text \<open>Publishing what a test has just made, with no or the current expected revision.\<close>

lemma option_facts [simp]:
  "expected_revision default_options = None" "expected_revision (expecting r) = Some r"
  "expected_revision (default_options\<lparr>opt_causation_id := c, opt_correlation_id := d\<rparr>) = None"
  by (simp_all add: default_options_def expecting_def)

lemma load_initial_passes:
  "upholds (tolerated excused) (standing 17 (test_id T) []) (load_initial T ops) (\<lambda>_ _. True)"
  unfolding load_initial_def
  by (intro call_rules) (auto simp: aggregate_is_empty_def)

lemma loads_revision_with_events_passes:
  assumes "env_ok T"
  shows "upholds (tolerated excused) (standing 17 (test_id T) []) (loads_revision_with_events T ops) (\<lambda>_ _. True)"
  unfolding loads_revision_with_events_def
  by (intro call_rules assms) (auto simp: aggregate_is_empty_def standing_facts published_def)

lemma publishes_single_event_passes:
  assumes "env_ok T"
  shows "upholds (tolerated excused) (standing 17 (test_id T) []) (publishes_single_event T ops) (\<lambda>_ _. True)"
  unfolding publishes_single_event_def
  by (intro call_rules assms) (auto simp: aggregate_len_def published_def)

lemma publishes_multiple_events_passes:
  assumes "env_ok T"
  shows "upholds (tolerated excused) (standing 17 (test_id T) []) (publishes_multiple_events T ops) (\<lambda>_ _. True)"
  unfolding publishes_multiple_events_def
  by (intro call_rules assms) (auto simp: aggregate_len_def published_def)

lemma validate_event_content_passes:
  assumes "env_ok T"
  shows "upholds (tolerated excused) (standing 17 (test_id T) []) (validate_event_content T ops) (\<lambda>_ _. True)"
  unfolding validate_event_content_def
  by (intro call_rules assms) (auto simp: aggregate_len_def published_def intro: test_rules)

lemma publishes_with_expected_initial_revision_passes:
  assumes "env_ok T"
  shows "upholds (tolerated excused) (standing 17 (test_id T) []) (publishes_with_expected_initial_revision T ops) (\<lambda>_ _. True)"
  unfolding publishes_with_expected_initial_revision_def
  by (intro call_rules assms) (auto simp: aggregate_len_def published_def)

lemma publishes_with_expected_revision_passes:
  assumes "env_ok T"
  shows "upholds (tolerated excused) (standing 17 (test_id T) []) (publishes_with_expected_revision T ops) (\<lambda>_ _. True)"
  unfolding publishes_with_expected_revision_def
  by (intro call_rules assms) (auto simp: aggregate_len_def published_def)

lemma revision_conflict_on_initial_revision_passes:
  assumes "env_ok T"
  shows "upholds (tolerated excused) (standing 17 (test_id T) []) (revision_conflict_on_initial_revision T ops) (\<lambda>_ _. True)"
  unfolding revision_conflict_on_initial_revision_def
  by (intro call_rules assms) (auto simp: published_def)

lemma revision_conflict_on_subsequent_revision_passes:
  assumes "env_ok T"
  shows "upholds (tolerated excused) (standing 17 (test_id T) []) (revision_conflict_on_subsequent_revision T ops) (\<lambda>_ _. True)"
  unfolding revision_conflict_on_subsequent_revision_def
  by (intro call_rules assms) (auto simp: published_def)

lemma causation_passes:
  assumes "env_ok T"
  shows "upholds (tolerated excused) (standing 17 (test_id T) []) (causation T ops) (\<lambda>_ _. True)"
  unfolding causation_def Let_def
  by (intro call_rules assms) (auto simp: published_def options_metadata_def)

lemma stale_revision_detected_and_retry_succeeds_passes:
  assumes "env_ok T"
  shows "upholds (tolerated excused) (standing 17 (test_id T) []) (stale_revision_detected_and_retry_succeeds T ops) (\<lambda>_ _. True)"
  unfolding stale_revision_detected_and_retry_succeeds_def
  by (intro call_rules assms) (auto simp: aggregate_len_def published_def)

lemma empty_publish_returns_current_revision_passes:
  assumes "env_ok T"
  shows "upholds (tolerated excused) (standing 17 (test_id T) []) (empty_publish_returns_current_revision T ops) (\<lambda>_ _. True)"
  unfolding empty_publish_returns_current_revision_def
  by (intro call_rules assms) (auto simp: published_def)

lemma event_ordering_preserved_passes:
  assumes "env_ok T"
  shows "upholds (tolerated excused) (standing 17 (test_id T) []) (event_ordering_preserved T ops) (\<lambda>_ _. True)"
  unfolding event_ordering_preserved_def
  by (intro call_rules assms) (auto simp: aggregate_len_def windows_ascend_iff published_def simp del: map_append)

lemmas test_passes =
  load_initial_passes loads_revision_with_events_passes publishes_single_event_passes
  publishes_multiple_events_passes validate_event_content_passes
  publishes_with_expected_initial_revision_passes publishes_with_expected_revision_passes
  revision_conflict_on_initial_revision_passes revision_conflict_on_subsequent_revision_passes
  causation_passes stale_revision_detected_and_retry_succeeds_passes
  empty_publish_returns_current_revision_passes event_ordering_preserved_passes

text \<open>The whole suite, on any state in which the drawn aggregate is new.\<close>

lemma suite_passes:
  assumes "env_ok T" and "test \<in> set (store_test_suite T ops)"
    and "inv s" and "live 17 s" and "stream s (test_id T) = []"
  shows "case fst (test s) of Inl p \<Rightarrow> tolerated excused p | Inr _ \<Rightarrow> True"
proof -
  have "upholds (tolerated excused) (standing 17 (test_id T) []) test (\<lambda>_ _. True)"
    using assms(2) test_passes [of T] assms(1) by (auto simp: store_test_suite_def)
  from upholds_outcome [OF this, of s] assms(3-5) show ?thesis by (simp add: standing_def)
qed

end

text \<open>A store whose calls run on a part of a bigger state is dependable when that part is.\<close>

context dependable_store
begin

lemma on_part:
  fixes ops' :: "'big store_ops" and part :: "'big \<Rightarrow> 'st"
  assumes part: "\<And>S. inv' S \<Longrightarrow> inv (part S) \<and> stream' S = stream (part S)"
    and load: "\<And>S i l S'. st_load ops' S i = (l, S') \<Longrightarrow> st_load ops (part S) i = (l, part S')"
    and publish: "\<And>S i opts raws r S'. st_publish ops' S i opts raws = (r, S') \<Longrightarrow>
      st_publish ops (part S) i opts raws = (r, part S')"
    and load_inv: "\<And>S i l S'. inv' S \<Longrightarrow> st_load ops' S i = (l, S') \<Longrightarrow> inv' S'"
    and publish_inv: "\<And>S i opts raws r S'. inv' S \<Longrightarrow> st_publish ops' S i opts raws = (r, S') \<Longrightarrow> inv' S'"
  shows "dependable_store ops' inv' stream' (\<lambda>n S. live n (part S)) excused"
proof unfold_locales
  fix S i l S'
  assume S: "inv' S" and run: "st_load ops' S i = (l, S')"
  from load_inv [OF this] have "inv' S'" .
  with part [OF this] part [OF S] load_keeps [OF _ load [OF run]] show "inv' S' \<and> stream' S' = stream' S"
    by simp
next
  fix S i a S'
  assume S: "inv' S" and run: "st_load ops' S i = (Inr a, S')"
  with part [OF S] load_reads [OF _ load [OF run]] show "a = from_shared_events i (stream' S i)" by simp
next
  fix S i opts raws e S'
  assume S: "inv' S" and run: "st_publish ops' S i opts raws = (Inl e, S')"
  with part [OF S] part [OF publish_inv [OF S run]] publish_fails [OF _ publish [OF run]]
  show "stream' S' = stream' S" by simp
next
  fix S i opts raws cs S'
  assume S: "inv' S" and run: "st_publish ops' S i opts raws = (Inr cs, S')"
  with part [OF S] part [OF publish_inv [OF S run]] publish_appends [OF _ publish [OF run]]
  show "stream' S' = (stream' S)(i := stream' S i @ cs_events cs) \<and>
      list_all2 (records opts) raws (cs_events cs) \<and> cs_aggregate_id cs = i \<and>
      cs_revision cs = stream_revision (stream' S' i)" by simp
next
  fix S i opts raws cs S' x
  assume S: "inv' S" and run: "st_publish ops' S i opts raws = (Inr cs, S')"
    and "raws \<noteq> []" "expected_revision opts = Some x"
  with part [OF S] publish_expected [OF _ publish [OF run]] show "x = stream_revision (stream' S i)" by simp
next
  fix S raws n i opts e S'
  assume S: "inv' S" and "live (length raws + n) (part S)" and run: "st_publish ops' S i opts raws = (Inl e, S')"
  with part [OF S] publish_excused [OF _ _ publish [OF run]]
  show "excused e \<or> (\<exists>x. raws \<noteq> [] \<and> expected_revision opts = Some x \<and>
      x \<noteq> stream_revision (stream' S i) \<and> e = RevisionConflict x (stream_revision (stream' S i)))" by simp
next
  fix S i
  assume "inv' S"
  with part [OF this] stream_increasing [of "part S" i]
  show "strictly_increasing (revisions (stream' S i))" by simp
next
  fix S i v
  assume "inv' S" and "v \<in> set (revisions (stream' S i))"
  with part [OF this(1)] stream_nonzero [of "part S" v i] show "revision_zero < v" by simp
next
  fix S i opts raws r S'
  assume "inv' S" and "st_publish ops' S i opts raws = (r, S')"
  then show "inv' S'" by (rule publish_inv)
next
  fix S n i l S'
  assume "inv' S" and live: "live n (part S)" and run: "st_load ops' S i = (l, S')"
  with part have "inv (part S)" by blast
  from load_live [OF this live load [OF run]] show "live n (part S')" .
next
  fix S n i e S'
  assume "inv' S" and live: "live n (part S)" and run: "st_load ops' S i = (Inl e, S')"
  with part have "inv (part S)" by blast
  from load_excused [OF this live load [OF run]] show "excused e" .
next
  fix S raws n i opts r S'
  assume "inv' S" and live: "live (length raws + n) (part S)"
    and run: "st_publish ops' S i opts raws = (r, S')"
  with part have "inv (part S)" by blast
  from publish_live [OF this live publish [OF run]] show "live n (part S')" .
qed

end

text \<open>Two dependable instances over one state, abstracted alike.\<close>

locale shared_stores =
  a: dependable_store ops_a inv stream live excused +
  b: dependable_store ops_b inv stream live excused
  for ops_a :: "'st store_ops" and ops_b :: "'st store_ops" and inv :: "'st \<Rightarrow> bool"
    and stream :: "'st \<Rightarrow> aggregate_id \<Rightarrow> recorded_event list"
    and live :: "nat \<Rightarrow> 'st \<Rightarrow> bool" and excused :: "error \<Rightarrow> bool"
begin

lemma blind_appends_pass:
  assumes "env_ok T"
  shows "upholds (tolerated excused) (a.standing 3 (test_id T) [])
    (blind_appends_succeed_across_store_instances T ops_a ops_b) (\<lambda>_ _. True)"
  unfolding blind_appends_succeed_across_store_instances_def
  by (intro a.call_rules b.call_rules assms) (auto simp: aggregate_len_def a.published_def)

lemma stale_revision_passes:
  assumes "env_ok T"
  shows "upholds (tolerated excused) (a.standing 3 (test_id T) [])
    (stale_revision_conflicts_across_store_instances T ops_a ops_b) (\<lambda>_ _. True)"
  unfolding stale_revision_conflicts_across_store_instances_def
  by (intro a.call_rules b.call_rules assms) (auto simp: a.published_def)

lemma shared_suite_passes:
  assumes "env_ok T" and "test \<in> set (shared_store_test_suite T ops_a ops_b)"
    and "inv s" and "live 3 s" and "stream s (test_id T) = []"
  shows "case fst (test s) of Inl p \<Rightarrow> tolerated excused p | Inr _ \<Rightarrow> True"
proof -
  have "upholds (tolerated excused) (a.standing 3 (test_id T) []) test (\<lambda>_ _. True)"
    using assms(2) blind_appends_pass [OF assms(1)] stale_revision_passes [OF assms(1)]
    by (auto simp: shared_store_test_suite_def)
  from upholds_outcome [OF this, of s] assms(3-5) show ?thesis by (simp add: a.standing_def)
qed

end

end
