(* ===== verification/Benchmarks.thy ===== *)
theory Benchmarks
  imports Conformance
begin

text \<open>
  \<^verbatim>\<open>crates/wee-events/src/bench_suite.rs\<close>: what the benchmarks do to a store. Criterion is a
  parameter: for each benchmark id the list of its samples (of its batches, where it sets inputs
  up), each a number of iterations. Time is not modelled. Here the tasks of a
  \<open>JoinSet\<close> run one after the other, in an order that is a parameter too, and the barrier in front
  of them only makes sure that all have been spawned: that is enough to count the events that each
  benchmark publishes, in the second half. The contention benchmark with its writers, the barrier
  and the connection's mutex interleaved is \<^verbatim>\<open>BenchmarkConcurrent\<close>.
\<close>

section \<open>Ids and events\<close>

record 'st bench_state =
  bs_store :: 'st
  bs_counter :: u64  \<comment> \<open>\<open>BENCH_COUNTER\<close>\<close>
  bs_built :: nat  \<comment> \<open>how many templates of events have been built\<close>

type_synonym ('st, 'a) bench = "('st bench_state, panic, 'a) action"

definition hex_char :: "nat \<Rightarrow> char" where
  "hex_char d = (if d < 10 then char_of (48 + d) else char_of (87 + d))"

fun hex_digits :: "nat \<Rightarrow> nat \<Rightarrow> string" where
  "hex_digits 0 v = []"
| "hex_digits (Suc n) v = hex_digits n (v div 16) @ [hex_char (v mod 16)]"

definition next_unique :: "('st, string) bench" where
  "next_unique s = (Inr (hex_digits 16 (unat (bs_counter s))), s\<lparr>bs_counter := bs_counter s + 1\<rparr>)"

definition make_spread_id :: "nat \<Rightarrow> ('st, aggregate_id) bench" where
  "make_spread_id index =
     seq_result next_unique (\<lambda>u. give (Inr (aggregate_id_new (''spread-'' @ decimal index) u)))"

definition make_concentrated_id :: "('st, aggregate_id) bench" where
  "make_concentrated_id = seq_result next_unique (\<lambda>u. give (Inr (aggregate_id_new ''concentrated'' u)))"

definition make_test_id :: "('st, aggregate_id) bench" where
  "make_test_id = seq_result next_unique (\<lambda>u. give (Inr (aggregate_id_new ''bench'' u)))"

text \<open>
  The surroundings: the two crates, the ULIDs drawn for the events of the n-th template,
  Criterion's samples by benchmark id, and the order in which \<open>n\<close> tasks run.
\<close>

record bench_env =
  be_ulid :: ulid_codec
  be_serde :: "store_validation_event serde"
  be_draw :: "nat \<Rightarrow> nat \<Rightarrow> ulid"
  be_samples :: "string \<Rightarrow> nat list"
  be_order :: "nat \<Rightarrow> nat list"

definition prebuilt_raw_events :: "bench_env \<Rightarrow> nat \<Rightarrow> ('st, raw_event list) bench" where
  "prebuilt_raw_events B n s =
     (map_ok snd (make_raw_events (be_ulid B) (be_serde B) (be_draw B (bs_built s)) n),
      s\<lparr>bs_built := Suc (bs_built s)\<rparr>)"

section \<open>Calls, loops and tasks\<close>

definition on_store :: "('st, 'a) test \<Rightarrow> ('st, 'a) bench" where
  "on_store f s = (case f (bs_store s) of (r, t) \<Rightarrow> (r, s\<lparr>bs_store := t\<rparr>))"

definition bench_publish ::
  "string \<Rightarrow> 'st store_ops \<Rightarrow> aggregate_id \<Rightarrow> publish_options \<Rightarrow> raw_event list \<Rightarrow> ('st, unit) bench" where
  "bench_publish message ops i opts raw =
     seq_result (on_store (expect message (call_publish ops i opts raw))) (\<lambda>_. give (Inr ()))"

definition bench_load :: "string \<Rightarrow> 'st store_ops \<Rightarrow> aggregate_id \<Rightarrow> ('st, unit) bench" where
  "bench_load message ops i =
     seq_result (on_store (expect message (call_load ops i))) (\<lambda>_. give (Inr ()))"

definition UNWRAP :: string where
  "UNWRAP = ''called Result::unwrap() on an Err value''"

definition SEEDED :: string where "SEEDED = ''seed should succeed in bench''"
definition PUBLISHED :: string where "PUBLISHED = ''publish should succeed in bench''"
definition LOADED :: string where "LOADED = ''load should succeed in bench''"

text \<open>A \<open>for\<close> loop, and the same body a number of times.\<close>

fun each :: "('a \<Rightarrow> ('s, 'e, unit) action) \<Rightarrow> 'a list \<Rightarrow> ('s, 'e, unit) action" where
  "each f [] = give (Inr ())"
| "each f (x # xs) = seq_result (f x) (\<lambda>_. each f xs)"

definition repeated :: "nat \<Rightarrow> ('s, 'e, unit) action \<Rightarrow> ('s, 'e, unit) action" where
  "repeated n f = each (\<lambda>_. f) (replicate n ())"

text \<open>Criterion's three loops: set up a batch and run it, an own loop per sample, a plain loop.\<close>

definition iter_batched ::
  "nat list \<Rightarrow> ('s, 'e, 'i) action \<Rightarrow> ('i \<Rightarrow> ('s, 'e, unit) action) \<Rightarrow> ('s, 'e, unit) action" where
  "iter_batched samples setup routine =
     each (\<lambda>n. seq_result (collect_actions (\<lambda>_. setup) (replicate n ())) (each routine)) samples"

definition iter_custom :: "nat list \<Rightarrow> ('s, 'e, unit) action \<Rightarrow> ('s, 'e, unit) action" where
  "iter_custom samples body = each (\<lambda>n. repeated n body) samples"

definition drain :: "bench_env \<Rightarrow> ('s, 'e, unit) action list \<Rightarrow> ('s, 'e, unit) action" where
  "drain B tasks = each (\<lambda>k. tasks ! k) (be_order B (length tasks))"

definition seed_aggregate ::
  "bench_env \<Rightarrow> 'st store_ops \<Rightarrow> aggregate_id \<Rightarrow> nat \<Rightarrow> ('st, unit) bench" where
  "seed_aggregate B ops i event_count =
     (if event_count = 0 then give (Inr ())
      else seq_result (prebuilt_raw_events B event_count) (\<lambda>raw.
        bench_publish UNWRAP ops i default_options raw))"

section \<open>Creation\<close>

definition bench_create_aggregate :: "bench_env \<Rightarrow> 'st store_ops \<Rightarrow> string \<Rightarrow> ('st, unit) bench" where
  "bench_create_aggregate B ops name =
     seq_result (prebuilt_raw_events B 1) (\<lambda>raw_template.
       iter_batched (be_samples B (name @ ''/creation/single''))
         (seq_result make_test_id (\<lambda>i. give (Inr (i, raw_template))))
         (\<lambda>(i, raw). bench_publish UNWRAP ops i default_options raw))"

definition bench_create_spread ::
  "bench_env \<Rightarrow> 'st store_ops \<Rightarrow> string \<Rightarrow> nat list \<Rightarrow> ('st, unit) bench" where
  "bench_create_spread B ops name levels =
     seq_result (prebuilt_raw_events B 1) (\<lambda>raw_template.
       each (\<lambda>n.
         iter_batched (be_samples B (name @ ''/creation/spread/'' @ decimal n))
           (collect_actions (\<lambda>k. seq_result (make_spread_id k) (\<lambda>i. give (Inr (i, raw_template)))) [0..<n])
           (\<lambda>inputs. drain B
             (map (\<lambda>(i, raw). bench_publish PUBLISHED ops i default_options raw) inputs)))
         levels)"

definition bench_create_concentrated ::
  "bench_env \<Rightarrow> 'st store_ops \<Rightarrow> string \<Rightarrow> nat list \<Rightarrow> ('st, unit) bench" where
  "bench_create_concentrated B ops name levels =
     seq_result (prebuilt_raw_events B 1) (\<lambda>raw_template.
       each (\<lambda>n.
         iter_batched (be_samples B (name @ ''/creation/concentrated/'' @ decimal n))
           (collect_actions (\<lambda>k. seq_result make_concentrated_id (\<lambda>i. give (Inr (i, raw_template)))) [0..<n])
           (\<lambda>inputs. drain B
             (map (\<lambda>(i, raw). bench_publish PUBLISHED ops i default_options raw) inputs)))
         levels)"

section \<open>Steady state\<close>

definition BATCH_SIZES :: "nat list" where "BATCH_SIZES = [1, 10, 50]"

definition bench_publish_batch :: "bench_env \<Rightarrow> 'st store_ops \<Rightarrow> string \<Rightarrow> ('st, unit) bench" where
  "bench_publish_batch B ops name =
     seq_result (prebuilt_raw_events B 1) (\<lambda>seed_template.
       each (\<lambda>batch_size.
         seq_result (prebuilt_raw_events B batch_size) (\<lambda>raw_template.
           iter_custom (be_samples B (name @ ''/steady_state/publish_batch/'' @ decimal batch_size))
             (seq_result make_test_id (\<lambda>i.
              seq_result (bench_publish SEEDED ops i default_options seed_template) (\<lambda>_.
              bench_publish PUBLISHED ops i default_options raw_template)))))
         BATCH_SIZES)"

definition bench_publish_with_revision :: "bench_env \<Rightarrow> 'st store_ops \<Rightarrow> string \<Rightarrow> ('st, unit) bench" where
  "bench_publish_with_revision B ops name =
     seq_result (prebuilt_raw_events B 1) (\<lambda>seed_template.
     seq_result (prebuilt_raw_events B 1) (\<lambda>raw_template.
       iter_custom (be_samples B (name @ ''/steady_state/publish_with_revision''))
         (seq_result make_test_id (\<lambda>i.
          seq_result (bench_publish SEEDED ops i default_options seed_template) (\<lambda>_.
          seq_result (on_store (expect LOADED (call_load ops i))) (\<lambda>agg.
            bench_publish PUBLISHED ops i (expecting (agg_revision agg)) raw_template))))))"

definition bench_publish_append :: "bench_env \<Rightarrow> 'st store_ops \<Rightarrow> string \<Rightarrow> ('st, unit) bench" where
  "bench_publish_append B ops name =
     seq_result (prebuilt_raw_events B 1) (\<lambda>seed_template.
     seq_result (prebuilt_raw_events B 1) (\<lambda>raw_template.
       iter_custom (be_samples B (name @ ''/steady_state/append''))
         (seq_result make_test_id (\<lambda>i.
          seq_result (bench_publish SEEDED ops i default_options seed_template) (\<lambda>_.
          bench_publish PUBLISHED ops i default_options raw_template)))))"

section \<open>Load scaling\<close>

definition LOAD_EVENT_COUNTS :: "nat list" where "LOAD_EVENT_COUNTS = [1, 10, 50, 100, 500]"

definition bench_load_scaling :: "bench_env \<Rightarrow> 'st store_ops \<Rightarrow> string \<Rightarrow> ('st, unit) bench" where
  "bench_load_scaling B ops name =
     seq_result (iter_batched (be_samples B (name @ ''/load_scaling/0'')) make_test_id
       (bench_load UNWRAP ops)) (\<lambda>_.
     each (\<lambda>count.
       seq_result make_test_id (\<lambda>i.
       seq_result (seed_aggregate B ops i count) (\<lambda>_.
         iter_custom (be_samples B (name @ ''/load_scaling/'' @ decimal count))
           (bench_load UNWRAP ops i))))
       LOAD_EVENT_COUNTS)"

section \<open>Partition writes\<close>

text \<open>The body that the two partition-write benchmarks share, after making their ids.\<close>

definition write_to_all ::
  "bench_env \<Rightarrow> 'st store_ops \<Rightarrow> raw_event list \<Rightarrow> raw_event list \<Rightarrow> aggregate_id list \<Rightarrow>
    ('st, unit) bench" where
  "write_to_all B ops seed_template raw_template ids =
     seq_result (each (\<lambda>i. bench_publish SEEDED ops i default_options seed_template) ids) (\<lambda>_.
       drain B (map (\<lambda>i. bench_publish PUBLISHED ops i default_options raw_template) ids))"

definition bench_write_spread ::
  "bench_env \<Rightarrow> 'st store_ops \<Rightarrow> string \<Rightarrow> nat list \<Rightarrow> ('st, unit) bench" where
  "bench_write_spread B ops name levels =
     seq_result (prebuilt_raw_events B 10) (\<lambda>seed_template.
     seq_result (prebuilt_raw_events B 1) (\<lambda>raw_template.
       each (\<lambda>n.
         iter_custom (be_samples B (name @ ''/partition_write/spread/'' @ decimal n))
           (seq_result (collect_actions make_spread_id [0..<n])
             (write_to_all B ops seed_template raw_template)))
         levels))"

definition bench_write_concentrated ::
  "bench_env \<Rightarrow> 'st store_ops \<Rightarrow> string \<Rightarrow> nat list \<Rightarrow> ('st, unit) bench" where
  "bench_write_concentrated B ops name levels =
     seq_result (prebuilt_raw_events B 10) (\<lambda>seed_template.
     seq_result (prebuilt_raw_events B 1) (\<lambda>raw_template.
       each (\<lambda>n.
         iter_custom (be_samples B (name @ ''/partition_write/concentrated/'' @ decimal n))
           (seq_result (collect_actions (\<lambda>k. make_concentrated_id) [0..<n])
             (write_to_all B ops seed_template raw_template)))
         levels))"

definition contend ::
  "bench_env \<Rightarrow> 'st store_ops \<Rightarrow> nat \<Rightarrow> raw_event list \<Rightarrow> aggregate_id \<Rightarrow> ('st, unit) bench" where
  "contend B ops n raw_template i =
     drain B (replicate n (bench_publish PUBLISHED ops i default_options raw_template))"

definition bench_write_contention ::
  "bench_env \<Rightarrow> 'st store_ops \<Rightarrow> string \<Rightarrow> nat list \<Rightarrow> ('st, unit) bench" where
  "bench_write_contention B ops name levels =
     seq_result (prebuilt_raw_events B 1) (\<lambda>seed_template.
     seq_result (prebuilt_raw_events B 1) (\<lambda>raw_template.
       each (\<lambda>n.
         iter_custom (be_samples B (name @ ''/partition_write/contention/'' @ decimal n))
           (seq_result make_test_id (\<lambda>i.
            seq_result (bench_publish SEEDED ops i default_options seed_template) (\<lambda>_.
            contend B ops n raw_template i))))
         levels))"

section \<open>Partition reads\<close>

definition read_all :: "bench_env \<Rightarrow> 'st store_ops \<Rightarrow> aggregate_id list \<Rightarrow> ('st, unit) bench" where
  "read_all B ops ids = drain B (map (bench_load LOADED ops) ids)"

definition bench_read_spread ::
  "bench_env \<Rightarrow> 'st store_ops \<Rightarrow> string \<Rightarrow> nat list \<Rightarrow> ('st, unit) bench" where
  "bench_read_spread B ops name levels =
     each (\<lambda>n.
       seq_result (collect_actions make_spread_id [0..<n]) (\<lambda>ids.
       seq_result (each (\<lambda>i. seed_aggregate B ops i 50) ids) (\<lambda>_.
         iter_custom (be_samples B (name @ ''/partition_read/spread/'' @ decimal n))
           (read_all B ops ids))))
       levels"

definition bench_read_concentrated ::
  "bench_env \<Rightarrow> 'st store_ops \<Rightarrow> string \<Rightarrow> nat list \<Rightarrow> ('st, unit) bench" where
  "bench_read_concentrated B ops name levels =
     each (\<lambda>n.
       seq_result (collect_actions (\<lambda>k. make_concentrated_id) [0..<n]) (\<lambda>ids.
       seq_result (each (\<lambda>i. seed_aggregate B ops i 50) ids) (\<lambda>_.
         iter_custom (be_samples B (name @ ''/partition_read/concentrated/'' @ decimal n))
           (read_all B ops ids))))
       levels"

section \<open>Mixed\<close>

text \<open>Even positions read, odd ones write, each writer with the next of the prepared events.\<close>

fun mixed_tasks ::
  "'st store_ops \<Rightarrow> nat \<Rightarrow> aggregate_id list \<Rightarrow> raw_event list list \<Rightarrow> panic + ('st, unit) bench list" where
  "mixed_tasks ops k [] raws = Inr []"
| "mixed_tasks ops k (i # ids) raws =
     (if k mod 2 = 0 then map_ok ((#) (bench_load LOADED ops i)) (mixed_tasks ops (Suc k) ids raws)
      else case raws of
          [] \<Rightarrow> Inl (AssertFailed ''one raw per writer'')
        | raw # rest \<Rightarrow> map_ok ((#) (bench_publish PUBLISHED ops i default_options raw))
            (mixed_tasks ops (Suc k) ids rest))"

definition bench_mixed_read_write ::
  "bench_env \<Rightarrow> 'st store_ops \<Rightarrow> string \<Rightarrow> nat list \<Rightarrow> ('st, unit) bench" where
  "bench_mixed_read_write B ops name levels =
     seq_result (prebuilt_raw_events B 50) (\<lambda>seed_template.
     seq_result (prebuilt_raw_events B 1) (\<lambda>raw_template.
       each (\<lambda>n.
         iter_custom (be_samples B (name @ ''/mixed/read_write_spread/'' @ decimal n @ ''r_'' @ decimal n @ ''w''))
           (seq_result (collect_actions make_spread_id [0..<2 * n]) (\<lambda>all_ids.
            seq_result (each (\<lambda>i. bench_publish SEEDED ops i default_options seed_template) all_ids) (\<lambda>_.
            seq_result (give (mixed_tasks ops 0 all_ids (replicate n raw_template))) (drain B)))))
         levels))"

section \<open>The suite\<close>

definition CONCURRENCY_LEVELS :: "nat list" where "CONCURRENCY_LEVELS = [2, 4, 8, 16, 32]"

text \<open>\<open>store_bench_suite!\<close>: each group of benchmarks on a store of its own, made by the factory.\<close>

definition on_fresh_store :: "'st \<Rightarrow> ('st, unit) bench list \<Rightarrow> ('st, unit) bench" where
  "on_fresh_store factory benches s = each (\<lambda>f. f) benches (s\<lparr>bs_store := factory\<rparr>)"

definition store_bench_suite ::
  "bench_env \<Rightarrow> 'st store_ops \<Rightarrow> 'st \<Rightarrow> string \<Rightarrow> nat list \<Rightarrow> ('st, unit) bench" where
  "store_bench_suite B ops factory name levels =
     each (on_fresh_store factory)
       [[bench_create_aggregate B ops name, bench_create_spread B ops name levels,
         bench_create_concentrated B ops name levels],
        [bench_publish_batch B ops name, bench_publish_with_revision B ops name,
         bench_publish_append B ops name],
        [bench_load_scaling B ops name],
        [bench_write_spread B ops name levels, bench_write_concentrated B ops name levels,
         bench_write_contention B ops name levels],
        [bench_read_spread B ops name levels, bench_read_concentrated B ops name levels],
        [bench_mixed_read_write B ops name levels]]"

section \<open>What the benchmarks cost\<close>

text \<open>
  How many events a benchmark publishes, as a function of the samples that Criterion asks for. A
  store that is live for that many events lets the benchmark run to its end.
\<close>

definition iterations :: "bench_env \<Rightarrow> string \<Rightarrow> nat" where
  "iterations B i = sum_list (be_samples B i)"

definition creation_events :: "bench_env \<Rightarrow> string \<Rightarrow> nat list \<Rightarrow> nat" where
  "creation_events B name levels =
     iterations B (name @ ''/creation/single'') +
     sum_list (map (\<lambda>n. iterations B (name @ ''/creation/spread/'' @ decimal n) * n) levels) +
     sum_list (map (\<lambda>n. iterations B (name @ ''/creation/concentrated/'' @ decimal n) * n) levels)"

definition steady_events :: "bench_env \<Rightarrow> string \<Rightarrow> nat" where
  "steady_events B name =
     sum_list (map (\<lambda>k. iterations B (name @ ''/steady_state/publish_batch/'' @ decimal k) * (1 + k)) BATCH_SIZES) +
     iterations B (name @ ''/steady_state/publish_with_revision'') * 2 +
     iterations B (name @ ''/steady_state/append'') * 2"

definition partition_write_events :: "bench_env \<Rightarrow> string \<Rightarrow> nat list \<Rightarrow> nat" where
  "partition_write_events B name levels =
     sum_list (map (\<lambda>n. iterations B (name @ ''/partition_write/spread/'' @ decimal n) * (n * 11)) levels) +
     sum_list (map (\<lambda>n. iterations B (name @ ''/partition_write/concentrated/'' @ decimal n) * (n * 11)) levels) +
     sum_list (map (\<lambda>n. iterations B (name @ ''/partition_write/contention/'' @ decimal n) * (1 + n)) levels)"

definition mixed_events :: "bench_env \<Rightarrow> string \<Rightarrow> nat list \<Rightarrow> nat" where
  "mixed_events B name levels =
     sum_list (map (\<lambda>n. iterations B
       (name @ ''/mixed/read_write_spread/'' @ decimal n @ ''r_'' @ decimal n @ ''w'') * (2 * n * 50 + n)) levels)"

text \<open>One entry for each group, in the order in which the suite runs them.\<close>

definition suite_events :: "bench_env \<Rightarrow> string \<Rightarrow> nat list \<Rightarrow> nat list" where
  "suite_events B name levels =
     [creation_events B name levels, steady_events B name, sum_list LOAD_EVENT_COUNTS,
      partition_write_events B name levels, 2 * sum_list (map (\<lambda>n. n * 50) levels),
      mixed_events B name levels]"

text \<open>The serialiser writes every event, and every spawned task is joined exactly once.\<close>

definition bench_ok :: "bench_env \<Rightarrow> bool" where
  "bench_ok B \<longleftrightarrow> (\<forall>v. is_ok (to_json (be_serde B) v)) \<and> (\<forall>n. distinct (be_order B n) \<and> set (be_order B n) = {0..<n})"

lemma make_raw_events_total:
  assumes "\<forall>v. is_ok (to_json S v)"
  shows "\<exists>events raws. make_raw_events U S draw n = Inr (events, raws) \<and> length raws = n"
proof -
  have one: "\<exists>raw. make_raw_event S v = Inr raw" for v
  proof -
    from assms obtain b where "to_json S v = Inr b" by (metis is_ok.simps(1) sum.exhaust)
    then show ?thesis by (simp add: make_raw_event_def event_data_json_def)
  qed
  have "\<exists>raws. collect_results (map (make_raw_event S) es) = Inr raws \<and> length raws = length es" for es
  proof (induction es)
    case (Cons e es)
    with one [of e] show ?case by auto
  qed simp
  from this [of "map (\<lambda>index. make_test_event U (draw index) index) [0..<n]"]
  show ?thesis by (auto simp: make_raw_events_def Let_def simp del: map_map)
qed

lemma sum_list_times [simp]: "sum_list (map (\<lambda>n. n * c) ns) = sum_list ns * (c :: nat)"
  by (induction ns) (simp_all add: distrib_right)

context dependable_store
begin

definition ready :: "nat \<Rightarrow> 'st bench_state \<Rightarrow> bool" where
  "ready n s \<longleftrightarrow> inv (bs_store s) \<and> live n (bs_store s)"

text \<open>The action publishes \<open>c\<close> events and its result satisfies \<open>R\<close>.\<close>

definition costs :: "nat \<Rightarrow> ('st, 'a) bench \<Rightarrow> ('a \<Rightarrow> bool) \<Rightarrow> bool" where
  "costs c m R \<longleftrightarrow>
     (\<forall>n. upholds (tolerated excused) (ready (c + n)) m (\<lambda>a s. R a \<and> ready n s))"

lemma costsI:
  assumes "\<And>n s p t. ready (c + n) s \<Longrightarrow> m s = (Inl p, t) \<Longrightarrow> tolerated excused p"
    and "\<And>n s a t. ready (c + n) s \<Longrightarrow> m s = (Inr a, t) \<Longrightarrow> R a \<and> ready n t"
  shows "costs c m R"
  unfolding costs_def by (intro allI upholdsI) (use assms in blast)+

lemma costsD:
  assumes "costs c m R" and "ready (c + n) s"
  shows "m s = (Inl p, t) \<Longrightarrow> tolerated excused p" and "m s = (Inr a, t) \<Longrightarrow> R a \<and> ready n t"
  using assms upholdsD [of "tolerated excused" "ready (c + n)" m "\<lambda>a s. R a \<and> ready n s" s]
  unfolding costs_def by blast+

lemma costs_eq: "costs c m R \<Longrightarrow> c = d \<Longrightarrow> costs d m R"
  by simp

lemma costs_weaken: "costs c m R \<Longrightarrow> (\<And>a. R a \<Longrightarrow> Q a) \<Longrightarrow> costs c m Q"
  unfolding costs_def by (auto intro: upholds_strengthen)

lemma costs_give: "R a \<Longrightarrow> costs 0 (give (Inr a)) R"
  by (rule costsI) (simp_all add: give_def)

lemma costs_done: "costs 0 (give (Inr ())) (\<lambda>_. True)"
  by (rule costs_give) simp

lemma costs_seq:
  assumes "costs c m R" and "\<And>a. R a \<Longrightarrow> costs d (f a) Q"
  shows "costs (c + d) (seq_result m f) Q"
proof (rule costsI)
  fix n s p t
  assume s: "ready (c + d + n) s" and run: "seq_result m f s = (Inl p, t)"
  from s have s': "ready (c + (d + n)) s" by (simp add: add.assoc)
  from run costsD [OF assms(1) s'] costsD(1) [OF assms(2)] show "tolerated excused p"
    by (auto simp: result_simps)
next
  fix n s b u
  assume s: "ready (c + d + n) s" and run: "seq_result m f s = (Inr b, u)"
  from s have s': "ready (c + (d + n)) s" by (simp add: add.assoc)
  from run obtain a t where "m s = (Inr a, t)" "f a t = (Inr b, u)" by (auto simp: result_simps)
  with costsD(2) [OF assms(1) s' this(1)] costsD(2) [OF assms(2)] show "Q b \<and> ready n u" by blast
qed

lemma costs_each:
  assumes "\<And>x. x \<in> set xs \<Longrightarrow> costs (c x) (f x) (\<lambda>_. True)"
  shows "costs (sum_list (map c xs)) (each f xs) (\<lambda>_. True)"
  using assms by (induction xs) (auto intro!: costs_done costs_seq)

lemma costs_each_uniform:
  assumes "\<And>x. x \<in> set xs \<Longrightarrow> costs c (f x) (\<lambda>_. True)"
  shows "costs (length xs * c) (each f xs) (\<lambda>_. True)"
  using costs_each [of xs "\<lambda>_. c" f] assms by (simp add: sum_list_triv)

lemma costs_collect:
  assumes "\<And>x. x \<in> set xs \<Longrightarrow> costs 0 (f x) R"
  shows "costs 0 (collect_actions f xs) (\<lambda>ys. length ys = length xs \<and> (\<forall>y\<in>set ys. R y))"
  using assms
proof (induction xs)
  case Nil
  then show ?case by (auto intro: costs_give)
next
  case (Cons x xs)
  have "costs (0 + (0 + 0)) (collect_actions f (x # xs))
      (\<lambda>ys. length ys = length (x # xs) \<and> (\<forall>y\<in>set ys. R y))"
    unfolding collect_actions.simps
    by (intro costs_seq [where R = R] costs_seq [OF Cons.IH] costs_give) (auto intro: Cons.prems)
  then show ?case by simp
qed

lemma costs_repeated:
  assumes "costs c f (\<lambda>_. True)"
  shows "costs (n * c) (repeated n f) (\<lambda>_. True)"
  using costs_each_uniform [of "replicate n ()" c "\<lambda>_. f"] assms by (simp add: repeated_def)

lemma costs_iter_custom:
  assumes "costs c body (\<lambda>_. True)"
  shows "costs (sum_list samples * c) (iter_custom samples body) (\<lambda>_. True)"
  unfolding iter_custom_def
  by (rule costs_eq [OF costs_each [where c = "\<lambda>n. n * c"]])
    (simp_all add: costs_repeated [OF assms])

lemma costs_iter_batched:
  assumes "costs 0 setup R" and "\<And>i. R i \<Longrightarrow> costs c (routine i) (\<lambda>_. True)"
  shows "costs (sum_list samples * c) (iter_batched samples setup routine) (\<lambda>_. True)"
proof -
  have "costs (n * c) (seq_result (collect_actions (\<lambda>_. setup) (replicate n ())) (each routine)) (\<lambda>_. True)" for n
  proof (rule costs_eq [OF costs_seq [OF costs_collect [where R = R]]])
    show "costs (n * c) (each routine ys) (\<lambda>_. True)"
      if "length ys = length (replicate n ()) \<and> (\<forall>y\<in>set ys. R y)" for ys
      using costs_each_uniform [of ys c routine] assms(2) that by simp
  qed (simp_all add: assms(1))
  then show ?thesis unfolding iter_batched_def
    by (intro costs_eq [OF costs_each [where c = "\<lambda>n. n * c"]]) simp_all
qed

lemma costs_drain:
  assumes "bench_ok B" and "\<And>k. k < length tasks \<Longrightarrow> costs (c k) (tasks ! k) (\<lambda>_. True)"
  shows "costs (sum_list (map c [0..<length tasks])) (drain B tasks) (\<lambda>_. True)"
proof -
  let ?order = "be_order B (length tasks)"
  from assms(1) have order: "distinct ?order" "set ?order = {0..<length tasks}"
    by (simp_all add: bench_ok_def)
  from order(2) assms(2) have "costs (sum_list (map c ?order)) (drain B tasks) (\<lambda>_. True)"
    unfolding drain_def by (intro costs_each) auto
  moreover have "sum_list (map c ?order) = sum_list (map c [0..<length tasks])"
    by (simp only: sum_list_distinct_conv_sum_set order distinct_upt set_upt)
  ultimately show ?thesis by simp
qed

lemma costs_drain_uniform:
  assumes "bench_ok B" and "\<And>t. t \<in> set tasks \<Longrightarrow> costs c t (\<lambda>_. True)"
  shows "costs (length tasks * c) (drain B tasks) (\<lambda>_. True)"
  using costs_drain [of B tasks "\<lambda>_. c"] assms by (simp add: sum_list_triv)

text \<open>The calls.\<close>

lemma costs_prebuilt: "bench_ok B \<Longrightarrow> costs 0 (prebuilt_raw_events B n) (\<lambda>raw. length raw = n)"
proof (rule costsI)
  fix k and s :: "'st bench_state"
  assume B: "bench_ok B"
  obtain events raws where made: "length raws = n"
    "make_raw_events (be_ulid B) (be_serde B) (be_draw B (bs_built s)) n = Inr (events, raws)"
    using make_raw_events_total [of "be_serde B" "be_ulid B" _ n] B unfolding bench_ok_def by metis
  show "tolerated excused p" if "prebuilt_raw_events B n s = (Inl p, t)" for p t
    using that made by (simp add: prebuilt_raw_events_def)
  show "length raw = n \<and> ready k t" if "ready (0 + k) s" "prebuilt_raw_events B n s = (Inr raw, t)" for raw and t :: "'st bench_state"
    using that made by (auto simp: prebuilt_raw_events_def ready_def)
qed

lemma costs_unique: "costs 0 next_unique (\<lambda>_. True)"
  by (rule costsI) (auto simp: next_unique_def ready_def)

lemma costs_make_id:
  "costs 0 make_test_id (\<lambda>_. True)" "costs 0 make_concentrated_id (\<lambda>_. True)"
  "costs 0 (make_spread_id k) (\<lambda>_. True)"
  unfolding make_test_id_def make_concentrated_id_def make_spread_id_def
  by (rule costs_eq, rule costs_seq, rule costs_unique, rule costs_give, simp_all)+

lemma costs_publish:
  assumes "length raws = c"
  shows "costs c (bench_publish m ops i default_options raws) (\<lambda>_. True)"
proof (rule costsI)
  fix n s p t
  assume s: "ready (c + n) s" and "bench_publish m ops i default_options raws s = (Inl p, t)"
  then obtain e u where e: "st_publish ops (bs_store s) i default_options raws = (Inl e, u)"
    "p = ExpectFailed m e"
    by (auto simp: bench_publish_def on_store_def expect_def call_publish_def give_def result_simps
        split: prod.splits)
  from s assms publish_excused [OF _ _ e(1), of n] e(2) show "tolerated excused p"
    by (auto simp: ready_def)
next
  fix n s a t
  assume s: "ready (c + n) s" and "bench_publish m ops i default_options raws s = (Inr a, t)"
  then obtain cs where run: "st_publish ops (bs_store s) i default_options raws = (Inr cs, bs_store t)"
    by (auto simp: bench_publish_def on_store_def expect_def call_publish_def give_def result_simps
        split: prod.splits)
  from s assms publish_keeps [OF _ run] publish_live [OF _ _ run, of n] show "True \<and> ready n t"
    by (auto simp: ready_def)
qed

lemma costs_load: "costs 0 (bench_load m ops i) (\<lambda>_. True)"
proof (rule costsI)
  fix n s p t
  assume s: "ready (0 + n) s" and "bench_load m ops i s = (Inl p, t)"
  then obtain e u where e: "st_load ops (bs_store s) i = (Inl e, u)" "p = ExpectFailed m e"
    by (auto simp: bench_load_def on_store_def expect_def call_load_def give_def result_simps
        split: prod.splits)
  from s load_excused [OF _ _ e(1), of n] e(2) show "tolerated excused p" by (auto simp: ready_def)
next
  fix n s a t
  assume s: "ready (0 + n) s" and "bench_load m ops i s = (Inr a, t)"
  then obtain l where run: "st_load ops (bs_store s) i = (Inr l, bs_store t)"
    by (auto simp: bench_load_def on_store_def expect_def call_load_def give_def result_simps
        split: prod.splits)
  from s load_keeps [OF _ run] load_live [OF _ _ run, of n] show "True \<and> ready n t"
    by (auto simp: ready_def)
qed

text \<open>Nobody writes between the load and the publish with the loaded revision.\<close>

lemma costs_publish_current:
  assumes "length raws = c"
  shows "costs c (seq_result (on_store (expect m (call_load ops i)))
    (\<lambda>agg. bench_publish k ops i (expecting (agg_revision agg)) raws)) (\<lambda>_. True)"
    (is "costs c ?m _")
proof -
  have load: "(case r of Inl p \<Rightarrow> tolerated excused p
      | Inr agg \<Rightarrow> ready n u \<and> agg_revision agg = stream_revision (stream (bs_store u) i))"
    if "ready n s" and "on_store (expect m (call_load ops i)) s = (r, u)" for n s r u
  proof -
    from that(2) obtain l where run: "st_load ops (bs_store s) i = (l, bs_store u)"
      "r = map_err (ExpectFailed m) l"
      by (cases "st_load ops (bs_store s) i") (auto simp: on_store_def expect_def call_load_def seq_err_def)
    show ?thesis
    proof (cases l)
      case (Inl e)
      with run that(1) load_excused [of "bs_store s" n i e] show ?thesis by (simp add: ready_def)
    next
      case (Inr agg)
      with run(1) have run': "st_load ops (bs_store s) i = (Inr agg, bs_store u)" by simp
      from that(1) load_reads [OF _ run'] load_keeps [OF _ run'] load_live [OF _ _ run', of n]
      show ?thesis by (simp add: ready_def run(2) Inr)
    qed
  qed
  have publish: "(case r of Inl p \<Rightarrow> tolerated excused p | Inr _ \<Rightarrow> ready n t)"
    if u: "ready (c + n) u" and v: "v = stream_revision (stream (bs_store u) i)"
      and "bench_publish k ops i (expecting v) raws u = (r, t)" for n u v r t
  proof -
    from that(3) obtain q where run: "st_publish ops (bs_store u) i (expecting v) raws = (q, bs_store t)"
      "r = map_ok (\<lambda>_. ()) (map_err (ExpectFailed k) q)"
      by (cases "st_publish ops (bs_store u) i (expecting v) raws")
        (auto simp: bench_publish_def on_store_def expect_def call_publish_def seq_err_def
          seq_result_def give_def split: sum.splits)
    show ?thesis
    proof (cases q)
      case (Inl e)
      with u v assms run publish_excused [of "bs_store u" raws n i "expecting v" e]
      show ?thesis by (auto simp: ready_def)
    next
      case (Inr cs)
      with u assms run publish_keeps [OF _ run(1)] publish_live [OF _ _ run(1), of n]
      show ?thesis by (simp add: ready_def)
    qed
  qed
  show ?thesis
  proof (rule costsI)
    fix n s p t
    assume s: "ready (c + n) s" and "?m s = (Inl p, t)"
    with load [OF s] publish show "tolerated excused p" by (fastforce simp: result_simps)
  next
    fix n s a t
    assume s: "ready (c + n) s" and "?m s = (Inr a, t)"
    with load [OF s] publish show "True \<and> ready n t" by (fastforce simp: result_simps)
  qed
qed

lemma costs_seed:
  assumes "bench_ok B"
  shows "costs n (seed_aggregate B ops i n) (\<lambda>_. True)"
proof -
  have "costs (0 + n) (seq_result (prebuilt_raw_events B n) (bench_publish UNWRAP ops i default_options)) (\<lambda>_. True)"
    by (rule costs_seq [OF costs_prebuilt [OF assms] costs_publish])
  then show ?thesis by (auto simp: seed_aggregate_def costs_done)
qed

text \<open>The benchmarks.\<close>

lemma costs_make_input:
  assumes "costs 0 mk (\<lambda>_. True)" and "length raw = c"
  shows "costs 0 (seq_result mk (\<lambda>i. give (Inr (i, raw)))) (\<lambda>(i, raw). length raw = c)"
  by (rule costs_eq [OF costs_seq [OF assms(1) costs_give]]) (simp_all add: assms(2))

lemma costs_create_aggregate:
  assumes "bench_ok B"
  shows "costs (iterations B (name @ ''/creation/single'')) (bench_create_aggregate B ops name) (\<lambda>_. True)"
  unfolding bench_create_aggregate_def iterations_def
  by (rule costs_eq, rule costs_seq [OF costs_prebuilt [OF assms]],
      rule costs_iter_batched [OF costs_make_input [OF costs_make_id(1)]])
    (auto intro: costs_publish)

lemma costs_create_all:
  assumes "bench_ok B" and "\<And>k. costs 0 (mk k) (\<lambda>_. True)" and "length raw = 1"
  shows "costs (sum_list samples * n)
    (iter_batched samples
      (collect_actions (\<lambda>k. seq_result (mk k) (\<lambda>i. give (Inr (i, raw)))) [0..<n])
      (\<lambda>inputs. drain B (map (\<lambda>(i, raw). bench_publish m ops i default_options raw) inputs)))
    (\<lambda>_. True)"
proof (rule costs_iter_batched [OF costs_collect [OF costs_make_input [OF assms(2,3)]]])
  fix inputs :: "(aggregate_id \<times> raw_event list) list"
  assume "length inputs = length [0..<n] \<and> (\<forall>y\<in>set inputs. case y of (i, raw) \<Rightarrow> length raw = 1)"
  then show "costs n (drain B (map (\<lambda>(i, raw). bench_publish m ops i default_options raw) inputs)) (\<lambda>_. True)"
    by (intro costs_eq [OF costs_drain_uniform [OF assms(1), where c = 1]]) (auto intro!: costs_publish)
qed

lemma costs_create_spread:
  assumes "bench_ok B"
  shows "costs (sum_list (map (\<lambda>n. iterations B (name @ ''/creation/spread/'' @ decimal n) * n) levels))
    (bench_create_spread B ops name levels) (\<lambda>_. True)"
  unfolding bench_create_spread_def iterations_def
  by (rule costs_eq, rule costs_seq [OF costs_prebuilt [OF assms]], rule costs_each,
      rule costs_create_all [OF assms costs_make_id(3)]) simp_all

lemma costs_create_concentrated:
  assumes "bench_ok B"
  shows "costs (sum_list (map (\<lambda>n. iterations B (name @ ''/creation/concentrated/'' @ decimal n) * n) levels))
    (bench_create_concentrated B ops name levels) (\<lambda>_. True)"
  unfolding bench_create_concentrated_def iterations_def
  by (rule costs_eq, rule costs_seq [OF costs_prebuilt [OF assms]], rule costs_each,
      rule costs_create_all [OF assms costs_make_id(2)]) simp_all

lemma costs_seeded:
  assumes "length seed = c" and "\<And>i. costs d (f i) (\<lambda>_. True)"
  shows "costs (c + d) (seq_result make_test_id (\<lambda>i.
    seq_result (bench_publish m ops i default_options seed) (\<lambda>_. f i))) (\<lambda>_. True)"
  by (rule costs_eq, rule costs_seq [OF costs_make_id(1)],
      rule costs_seq [OF costs_publish [OF assms(1)] assms(2)]) simp

lemma costs_publish_batch:
  assumes "bench_ok B"
  shows "costs (sum_list (map (\<lambda>k. iterations B (name @ ''/steady_state/publish_batch/'' @ decimal k) * (1 + k)) BATCH_SIZES))
    (bench_publish_batch B ops name) (\<lambda>_. True)"
  unfolding bench_publish_batch_def iterations_def
proof (rule costs_eq, rule costs_seq [OF costs_prebuilt [OF assms]], rule costs_each)
  fix seed :: "raw_event list" and k
  assume "length seed = 1"
  then show "costs (0 + sum_list (be_samples B (name @ ''/steady_state/publish_batch/'' @ decimal k)) * (1 + k))
      (seq_result (prebuilt_raw_events B k) (\<lambda>raw_template.
        iter_custom (be_samples B (name @ ''/steady_state/publish_batch/'' @ decimal k))
          (seq_result make_test_id (\<lambda>i.
            seq_result (bench_publish SEEDED ops i default_options seed) (\<lambda>_.
              bench_publish PUBLISHED ops i default_options raw_template))))) (\<lambda>_. True)"
    by (intro costs_seq [OF costs_prebuilt [OF assms]] costs_iter_custom costs_seeded costs_publish)
qed simp

lemma costs_with_revision:
  assumes "bench_ok B"
  shows "costs (iterations B (name @ ''/steady_state/publish_with_revision'') * 2)
    (bench_publish_with_revision B ops name) (\<lambda>_. True)"
  unfolding bench_publish_with_revision_def iterations_def
  by (rule costs_eq, (rule costs_seq [OF costs_prebuilt [OF assms]])+, rule costs_iter_custom,
      rule costs_seeded, assumption, rule costs_publish_current, assumption) simp

lemma costs_append:
  assumes "bench_ok B"
  shows "costs (iterations B (name @ ''/steady_state/append'') * 2)
    (bench_publish_append B ops name) (\<lambda>_. True)"
  unfolding bench_publish_append_def iterations_def
  by (rule costs_eq, (rule costs_seq [OF costs_prebuilt [OF assms]])+, rule costs_iter_custom,
      rule costs_seeded, assumption, rule costs_publish, assumption) simp

lemma costs_load_scaling:
  assumes "bench_ok B"
  shows "costs (sum_list LOAD_EVENT_COUNTS) (bench_load_scaling B ops name) (\<lambda>_. True)"
proof -
  have batched: "costs (sum_list samples * 0) (iter_batched samples make_test_id (bench_load m ops)) (\<lambda>_. True)" for samples m
    by (rule costs_iter_batched [OF costs_make_id(1) costs_load])
  have body: "costs (0 + (n + sum_list samples * 0)) (seq_result make_test_id (\<lambda>i.
      seq_result (seed_aggregate B ops i n) (\<lambda>_. iter_custom samples (bench_load m ops i)))) (\<lambda>_. True)"
    for n samples m
    by (intro costs_seq [OF costs_make_id(1)] costs_seq [OF costs_seed [OF assms]] costs_iter_custom costs_load)
  show ?thesis unfolding bench_load_scaling_def
    by (rule costs_eq, rule costs_seq [OF batched], rule costs_each, rule body) simp
qed

lemma costs_write_to_all:
  assumes "bench_ok B" and "length seed = 10" and "length raw = 1" and "length ids = n"
  shows "costs (n * 11) (write_to_all B ops seed raw ids) (\<lambda>_. True)"
  unfolding write_to_all_def
  by (rule costs_eq, rule costs_seq, rule costs_each_uniform, rule costs_publish [OF assms(2)],
      rule costs_drain_uniform [OF assms(1)])
    (auto intro!: costs_publish assms(3) simp: assms(4))

lemma costs_write_ids:
  assumes "bench_ok B" and "\<And>k. costs 0 (mk k) (\<lambda>_. True)"
    and "length seed = 10" and "length raw = 1"
  shows "costs (sum_list samples * (n * 11)) (iter_custom samples
    (seq_result (collect_actions mk [0..<n]) (write_to_all B ops seed raw))) (\<lambda>_. True)"
proof (rule costs_iter_custom)
  show "costs (n * 11) (seq_result (collect_actions mk [0..<n]) (write_to_all B ops seed raw)) (\<lambda>_. True)"
    by (rule costs_eq, rule costs_seq [OF costs_collect [OF assms(2)]],
        rule costs_write_to_all [OF assms(1,3,4)]) auto
qed

lemma costs_write_spread:
  assumes "bench_ok B"
  shows "costs (sum_list (map (\<lambda>n. iterations B (name @ ''/partition_write/spread/'' @ decimal n) * (n * 11)) levels))
    (bench_write_spread B ops name levels) (\<lambda>_. True)"
  unfolding bench_write_spread_def iterations_def
  by (rule costs_eq, (rule costs_seq [OF costs_prebuilt [OF assms]])+, rule costs_each,
      rule costs_write_ids [OF assms costs_make_id(3)]) simp_all

lemma costs_write_concentrated:
  assumes "bench_ok B"
  shows "costs (sum_list (map (\<lambda>n. iterations B (name @ ''/partition_write/concentrated/'' @ decimal n) * (n * 11)) levels))
    (bench_write_concentrated B ops name levels) (\<lambda>_. True)"
  unfolding bench_write_concentrated_def iterations_def
  by (rule costs_eq, (rule costs_seq [OF costs_prebuilt [OF assms]])+, rule costs_each,
      rule costs_write_ids [OF assms costs_make_id(2)]) simp_all

lemma costs_contend:
  assumes "bench_ok B" and "length raw = c"
  shows "costs (n * c) (contend B ops n raw i) (\<lambda>_. True)"
  unfolding contend_def
  by (rule costs_eq [OF costs_drain_uniform [OF assms(1)]]) (auto intro: costs_publish assms(2))

lemma costs_write_contention:
  assumes "bench_ok B"
  shows "costs (sum_list (map (\<lambda>n. iterations B (name @ ''/partition_write/contention/'' @ decimal n) * (1 + n)) levels))
    (bench_write_contention B ops name levels) (\<lambda>_. True)"
  unfolding bench_write_contention_def iterations_def
  by (rule costs_eq, (rule costs_seq [OF costs_prebuilt [OF assms]])+, rule costs_each,
      rule costs_iter_custom, rule costs_seeded, assumption, rule costs_contend [OF assms], assumption) simp

lemma costs_read_ids:
  assumes "bench_ok B" and "\<And>k. costs 0 (mk k) (\<lambda>_. True)"
  shows "costs (n * 50) (seq_result (collect_actions mk [0..<n]) (\<lambda>ids.
    seq_result (each (\<lambda>i. seed_aggregate B ops i 50) ids) (\<lambda>_.
      iter_custom samples (read_all B ops ids)))) (\<lambda>_. True)"
proof (rule costs_eq, rule costs_seq [OF costs_collect [OF assms(2)]])
  fix ids :: "aggregate_id list"
  assume ids: "length ids = length [0..<n] \<and> (\<forall>y\<in>set ids. True)"
  have "costs 0 (read_all B ops ids) (\<lambda>_. True)"
    unfolding read_all_def
    by (rule costs_eq [OF costs_drain_uniform [OF assms(1), where c = 0]]) (auto intro: costs_load)
  from costs_iter_custom [OF this, of samples] ids
  show "costs (n * 50) (seq_result (each (\<lambda>i. seed_aggregate B ops i 50) ids) (\<lambda>_.
      iter_custom samples (read_all B ops ids))) (\<lambda>_. True)"
    by (intro costs_eq [OF costs_seq [OF costs_each_uniform [OF costs_seed [OF assms(1)]]]]) auto
qed simp

lemma costs_read_spread:
  assumes "bench_ok B"
  shows "costs (sum_list (map (\<lambda>n. n * 50) levels)) (bench_read_spread B ops name levels) (\<lambda>_. True)"
  unfolding bench_read_spread_def by (intro costs_each costs_read_ids assms costs_make_id)

lemma costs_read_concentrated:
  assumes "bench_ok B"
  shows "costs (sum_list (map (\<lambda>n. n * 50) levels)) (bench_read_concentrated B ops name levels) (\<lambda>_. True)"
  unfolding bench_read_concentrated_def by (intro costs_each costs_read_ids assms costs_make_id)

text \<open>Of the 2n tasks of the mixed benchmark, the n at the odd positions write; none is left without events.\<close>

lemma mixed_tasks_ok:
  assumes "\<forall>raw\<in>set raws. length raw = 1" and "(length ids + k mod 2) div 2 \<le> length raws"
  shows "\<exists>tasks. mixed_tasks ops k ids raws = Inr tasks \<and> length tasks = length ids \<and>
    (\<forall>j<length tasks. costs ((k + j) mod 2) (tasks ! j) (\<lambda>_. True))"
  using assms
proof (induction ids arbitrary: k raws)
  case (Cons i ids)
  have ahead: "\<forall>j<length (t # tasks). costs ((k + j) mod 2) ((t # tasks) ! j) (\<lambda>_. True)"
    if "costs (k mod 2) t (\<lambda>_. True)"
      and "\<forall>j<length tasks. costs ((Suc k + j) mod 2) (tasks ! j) (\<lambda>_. True)" for t tasks
    using that by (auto simp: nth_Cons split: nat.split)
  show ?case
  proof (cases "k mod 2 = 0")
    case True
    then have "(length ids + Suc k mod 2) div 2 \<le> length raws"
      using Cons.prems(2) by (simp add: mod_Suc)
    from Cons.IH [OF Cons.prems(1) this] True ahead [OF costs_load [folded True]] show ?thesis by force
  next
    case False
    with Cons.prems obtain raw rest where raws: "raws = raw # rest" by (cases raws) auto
    from False have "(length ids + Suc k mod 2) div 2 \<le> length rest"
      using Cons.prems(2) by (simp add: raws mod_Suc)
    with Cons.IH [of rest "Suc k"] Cons.prems(1) False raws
      ahead [of "bench_publish PUBLISHED ops i default_options raw"] costs_publish [of raw "k mod 2"]
    show ?thesis by force
  qed
qed simp

lemma sum_odd: "sum_list (map (\<lambda>j. j mod 2) [0..<2 * n]) = n"
proof (induction n)
  case (Suc n)
  have "[0..<2 * Suc n] = [0..<2 * n] @ [2 * n, Suc (2 * n)]" by simp
  with Suc show ?case by (simp del: upt_Suc)
qed simp

lemma costs_mixed:
  assumes "bench_ok B"
  shows "costs (mixed_events B name levels) (bench_mixed_read_write B ops name levels) (\<lambda>_. True)"
  unfolding bench_mixed_read_write_def mixed_events_def iterations_def
proof (rule costs_eq, rule costs_seq [OF costs_prebuilt [OF assms]],
    rule costs_seq [OF costs_prebuilt [OF assms]], rule costs_each, rule costs_iter_custom)
  fix seed raw :: "raw_event list" and n
  assume seed: "length seed = 50" and raw: "length raw = 1"
  have tasks: "costs n (seq_result (give (mixed_tasks ops 0 ids (replicate n raw))) (drain B)) (\<lambda>_. True)"
    if "length ids = 2 * n" for ids
  proof -
    from mixed_tasks_ok [of "replicate n raw" ids 0] that raw obtain tasks where
      tasks: "mixed_tasks ops 0 ids (replicate n raw) = Inr tasks" "length tasks = 2 * n"
        "\<forall>j<length tasks. costs (j mod 2) (tasks ! j) (\<lambda>_. True)" by auto
    have "costs (0 + n) (seq_result (give (Inr tasks)) (drain B)) (\<lambda>_. True)"
    proof (rule costs_seq [OF costs_give [where R = "(=) tasks"]])
      show "costs n (drain B ts) (\<lambda>_. True)" if "tasks = ts" for ts
        using costs_drain [OF assms, of tasks "\<lambda>j. j mod 2"] tasks(2,3) that
        by (simp add: sum_odd)
    qed simp
    with tasks(1) show ?thesis by simp
  qed
  show "costs (2 * n * 50 + n) (seq_result (collect_actions make_spread_id [0..<2 * n]) (\<lambda>all_ids.
      seq_result (each (\<lambda>i. bench_publish SEEDED ops i default_options seed) all_ids) (\<lambda>_.
      seq_result (give (mixed_tasks ops 0 all_ids (replicate n raw))) (drain B)))) (\<lambda>_. True)"
  proof (rule costs_eq, rule costs_seq [OF costs_collect [OF costs_make_id(3)]])
    fix ids :: "aggregate_id list"
    assume "length ids = length [0..<2 * n] \<and> (\<forall>i\<in>set ids. True)"
    then have ids: "length ids = 2 * n" by simp
    from costs_each_uniform [of ids 50 "\<lambda>i. bench_publish SEEDED ops i default_options seed"]
    have "costs (2 * n * 50) (each (\<lambda>i. bench_publish SEEDED ops i default_options seed) ids) (\<lambda>_. True)"
      by (simp add: costs_publish seed ids)
    then show "costs (2 * n * 50 + n) (seq_result
        (each (\<lambda>i. bench_publish SEEDED ops i default_options seed) ids) (\<lambda>_.
        seq_result (give (mixed_tasks ops 0 ids (replicate n raw))) (drain B))) (\<lambda>_. True)"
      by (rule costs_seq [OF _ tasks [OF ids]])
  qed simp
qed simp

text \<open>The suite.\<close>

lemma costs_list: "costs c f (\<lambda>_. True) \<Longrightarrow> costs d (each (\<lambda>f. f) fs) (\<lambda>_. True) \<Longrightarrow>
    costs (c + d) (each (\<lambda>f. f) (f # fs)) (\<lambda>_. True)"
  "costs 0 (each (\<lambda>f. f) []) (\<lambda>_. True)"
  by (auto intro: costs_seq costs_done)

lemma fresh_runs:
  assumes "costs c (each (\<lambda>f. f) fs) (\<lambda>_. True)" and "inv factory" and "live c factory"
  shows "upholds (tolerated excused) (\<lambda>_. True) (on_fresh_store factory fs) (\<lambda>_ _. True)"
proof (rule upholdsI)
  fix s :: "'st bench_state" and p t
  assume "on_fresh_store factory fs s = (Inl p, t)"
  with costsD(1) [OF assms(1), of 0 "s\<lparr>bs_store := factory\<rparr>"] assms(2,3) show "tolerated excused p"
    by (simp add: ready_def on_fresh_store_def)
qed simp

lemma each_upholds:
  assumes "\<And>x. x \<in> set xs \<Longrightarrow> upholds ok P (f x) (\<lambda>_. P)"
  shows "upholds ok P (each f xs) (\<lambda>_. P)"
  using assms
proof (induction xs)
  case Nil
  then show ?case by (simp add: upholds_def give_def)
next
  case (Cons x xs)
  then show ?case unfolding each.simps by (intro upholds_seq [where R = "\<lambda>_. P"]) simp_all
qed

lemma bench_suite_runs:
  assumes B: "bench_ok B" and "inv factory" and "\<forall>c\<in>set (suite_events B name levels). live c factory"
  shows "case fst (store_bench_suite B ops factory name levels s) of
    Inl p \<Rightarrow> tolerated excused p | Inr _ \<Rightarrow> True"
proof -
  let ?all = "each (\<lambda>f. f) :: ('st, unit) bench list \<Rightarrow> ('st, unit) bench"
  note grouped = costs_eq [OF costs_list(1) [OF _ costs_list(1) [OF _ costs_list(1) [OF _ costs_list(2)]]]]
    costs_eq [OF costs_list(1) [OF _ costs_list(1) [OF _ costs_list(2)]]]
    costs_eq [OF costs_list(1) [OF _ costs_list(2)]]
  have "costs (creation_events B name levels) (?all
      [bench_create_aggregate B ops name, bench_create_spread B ops name levels,
       bench_create_concentrated B ops name levels]) (\<lambda>_. True)"
    by (rule grouped(1) [OF costs_create_aggregate [OF B] costs_create_spread [OF B] costs_create_concentrated [OF B]])
      (simp add: creation_events_def)
  moreover have "costs (steady_events B name) (?all
      [bench_publish_batch B ops name, bench_publish_with_revision B ops name,
       bench_publish_append B ops name]) (\<lambda>_. True)"
    by (rule grouped(1) [OF costs_publish_batch [OF B] costs_with_revision [OF B] costs_append [OF B]])
      (simp add: steady_events_def)
  moreover have "costs (sum_list LOAD_EVENT_COUNTS) (?all [bench_load_scaling B ops name]) (\<lambda>_. True)"
    by (rule grouped(3) [OF costs_load_scaling [OF B]]) simp
  moreover have "costs (partition_write_events B name levels) (?all
      [bench_write_spread B ops name levels, bench_write_concentrated B ops name levels,
       bench_write_contention B ops name levels]) (\<lambda>_. True)"
    by (rule grouped(1) [OF costs_write_spread [OF B] costs_write_concentrated [OF B] costs_write_contention [OF B]])
      (simp add: partition_write_events_def)
  moreover have "costs (2 * sum_list (map (\<lambda>n. n * 50) levels)) (?all
      [bench_read_spread B ops name levels, bench_read_concentrated B ops name levels]) (\<lambda>_. True)"
    by (rule grouped(2) [OF costs_read_spread [OF B] costs_read_concentrated [OF B]]) simp
  moreover have "costs (mixed_events B name levels) (?all [bench_mixed_read_write B ops name levels]) (\<lambda>_. True)"
    by (rule grouped(3) [OF costs_mixed [OF B]]) simp
  ultimately have "upholds (tolerated excused) (\<lambda>_. True) (store_bench_suite B ops factory name levels) (\<lambda>_ _. True)"
    using assms(2,3) unfolding store_bench_suite_def suite_events_def
    by (intro each_upholds) (auto intro: fresh_runs)
  from upholds_outcome [OF this] show ?thesis by simp
qed

end

end
