(* ===== verification/ConformanceStores.thy ===== *)
theory ConformanceStores
  imports Benchmarks MemoryStore SqliteContract
begin

text \<open>
  The stores of the library against the conformance suite of \<^verbatim>\<open>Conformance\<close>: the in-memory store
  and an exclusively used SQLite database pass every test. The partitioned SQLite store, alone or as
  two instances on one set of databases that outlive their connections, is shown to be a
  \<open>dependable_store\<close> whatever its host does; \<^verbatim>\<open>MemoryDatabases\<close> adds the store opened in memory.
\<close>

section \<open>Generators with ids left\<close>

text \<open>The generator can still mint \<open>n\<close> ULIDs: the values of 128 bits run out.\<close>

fun generates :: "'g generator \<Rightarrow> nat \<Rightarrow> 'g \<Rightarrow> bool" where
  "generates gen 0 g = True"
| "generates gen (Suc n) g =
     (case gen g of (None, _) \<Rightarrow> False | (Some _, g') \<Rightarrow> generates gen n g')"

lemma generates_SucD: "generates gen (Suc n) g \<Longrightarrow> generates gen n g"
proof (induction n arbitrary: g)
  case (Suc n)
  then show ?case by (auto split: prod.splits option.splits)
qed simp

lemma generates_mono: "generates gen (m + n) g \<Longrightarrow> generates gen n g"
  by (induction m) (auto simp del: generates.simps dest: generates_SucD)

lemma generates_Suc:
  assumes "generates gen (Suc n) g"
  obtains u g' where "gen g = (Some u, g')" and "generates gen n g'"
  using assms by (auto split: prod.splits option.splits)

section \<open>The in-memory store\<close>

lemma mint_event_ids_live:
  "generates gen (2 * n + m) g \<Longrightarrow>
    \<exists>minted g'. mint_event_ids U gen n g = (Inr minted, g') \<and> generates gen m g'"
proof (induction n arbitrary: g)
  case (Suc n)
  from Suc.prems have "generates gen (Suc (Suc (2 * n + m))) g" by simp
  then obtain u g1 where 1: "gen g = (Some u, g1)" "generates gen (Suc (2 * n + m)) g1"
    by (rule generates_Suc)
  from 1(2) obtain v g2 where 2: "gen g1 = (Some v, g2)" "generates gen (2 * n + m) g2"
    by (rule generates_Suc)
  from Suc.IH [OF 2(2)] 1 2 show ?case by auto
qed simp

definition memory_live :: "'g generator \<Rightarrow> nat \<Rightarrow> 'g memory_store \<Rightarrow> bool" where
  "memory_live gen n s = generates gen (2 * n) (ms_generator s)"

lemma memory_live_mono: "memory_live gen (m + n) s \<Longrightarrow> memory_live gen n s"
  using generates_mono [of gen "2 * m" "2 * n"] by (simp add: memory_live_def)

lemma append_locked_live:
  assumes "append_locked U gen s i opts raws = (r, s')" and "memory_live gen (length raws + n) s"
  shows "memory_live gen n s' \<and> r \<noteq> Inl (Custom MonotonicError)"
proof (cases "check_expected (ms_stream s i) opts")
  case (Some e)
  with assms have "s' = s" "r = Inl e"
    by (simp_all add: append_locked_def flip: ms_stream_def)
  with Some memory_live_mono [OF assms(2)] show ?thesis
    by (auto simp: check_expected_eq split: option.splits if_splits)
next
  case None
  from assms(2) have "generates gen (2 * length raws + 2 * n) (ms_generator s)"
    by (simp add: memory_live_def)
  from mint_event_ids_live [OF this, of U] obtain minted g where
    "mint_event_ids U gen (length raws) (ms_generator s) = (Inr minted, g)" "generates gen (2 * n) g"
    by blast
  with assms(1) None show ?thesis
    by (auto simp: append_locked_def Let_def memory_live_def simp flip: ms_stream_def
        split: option.splits)
qed

lemma memory_publish_live:
  assumes "memory_publish U gen s i opts raws = (r, s')" and "memory_live gen (length raws + n) s"
  shows "memory_live gen n s' \<and> r \<noteq> Inl (Custom MonotonicError)"
proof (cases "raws = []")
  case True
  with assms show ?thesis by (auto simp: memory_publish_def)
next
  case False
  show ?thesis
  proof (cases "resolve_stream s i opts")
    case (Inl e)
    with False assms have "s' = s" "r = Inl e" by (simp_all add: memory_publish_def publish_sync_def)
    with resolve_stream_err [OF Inl] memory_live_mono [OF assms(2)] show ?thesis by auto
  next
    case (Inr s1)
    with False assms(1) have run: "append_locked U gen s1 i opts raws = (r, s')"
      by (simp add: memory_publish_def publish_sync_def)
    from resolve_stream_cases [OF Inr] assms(2) have "memory_live gen (length raws + n) s1"
      by (auto simp: memory_live_def)
    from append_locked_live [OF run this] show ?thesis .
  qed
qed

interpretation memory_dependable:
  dependable_store "memory_ops U gen" "memory_ok U gen prev" ms_stream "memory_live gen" "\<lambda>_. False"
  for U gen prev
proof unfold_locales
  fix s :: "'a memory_store" and n i l s'
  assume "memory_live gen n s" and "st_load (memory_ops U gen) s i = (l, s')"
  then show "memory_live gen n s'" by (auto simp: memory_ops_def memory_load_def)
next
  fix s :: "'a memory_store" and i e s'
  assume "st_load (memory_ops U gen) s i = (Inl e, s')"
  then show False by (simp add: memory_ops_def memory_load_def)
next
  fix s :: "'a memory_store" and raws n i opts r s'
  assume "memory_live gen (length raws + n) s" and "st_publish (memory_ops U gen) s i opts raws = (r, s')"
  with memory_publish_live show "memory_live gen n s'" by (simp add: memory_ops_def) blast
next
  fix s :: "'a memory_store" and raws n i opts e s'
  assume ok: "memory_ok U gen prev s" and live: "memory_live gen (length raws + n) s"
    and "st_publish (memory_ops U gen) s i opts raws = (Inl e, s')"
  then have run: "memory_publish U gen s i opts raws = (Inl e, s')" by (simp add: memory_ops_def)
  from ok run memory_publish_live [OF run live]
  show "False \<or> (\<exists>x. raws \<noteq> [] \<and> expected_revision opts = Some x \<and>
      x \<noteq> stream_revision (ms_stream s i) \<and> e = RevisionConflict x (stream_revision (ms_stream s i)))"
    by (elim memory_publish_cases) auto
qed

lemma nothing_tolerated:
  "case r of Inl p \<Rightarrow> tolerated (\<lambda>_. False) p | Inr _ \<Rightarrow> True \<Longrightarrow> r = Inr ()"
  by (cases r, rename_tac p, case_tac p) auto

text \<open>
  C10: the in-memory store passes its conformance suite. From any state of the store in which the
  aggregate the test drew is new, and while the ULID generator has 34 values left, every test
  runs to its end: no call fails, no assertion does, and stale revisions are refused with a
  revision conflict.
\<close>

theorem memory_store_conforms:
  assumes "memory_ok U gen prev s" and "generates gen 34 (ms_generator s)" and "env_ok T"
    and "ms_stream s (test_id T) = []" and "test \<in> set (store_test_suite T (memory_ops U gen))"
  shows "fst (test s) = Inr ()"
proof -
  from assms(2) have "memory_live gen 17 s" by (simp add: memory_live_def)
  from memory_dependable.suite_passes [OF assms(3,5,1) this assms(4)]
  have "case fst (test s) of Inl p \<Rightarrow> tolerated (\<lambda>_. False) p | Inr _ \<Rightarrow> True" .
  then show ?thesis by (rule nothing_tolerated)
qed

section \<open>A SQLite connection, whatever its host does\<close>

text \<open>
  Every error but the conflict of a stale expected revision. A conflict of a revision with itself
  is what a publisher sees whose clock is behind; it is excused.
\<close>

definition not_stale :: "error \<Rightarrow> bool" where
  "not_stale e \<longleftrightarrow> (\<forall>x a. e = RevisionConflict x a \<longrightarrow> x = a)"

lemma not_stale_simps [simp]:
  "not_stale (RevisionConflict x a) \<longleftrightarrow> x = a" "not_stale (Custom b)" "not_stale (EncodingMismatch t u)"
  "not_stale (UnhandledEventType t)"
  by (simp_all add: not_stale_def)

lemma attempt_failure_not_stale: "attempt_failure H e \<Longrightarrow> not_stale (error_from_sqlite e)"
  by (auto simp: attempt_failure_def)

lemma publish_with_connection_stale:
  assumes ok: "session_ok H prev s" and run: "publish_with_connection H i opts raws s = (Inl e, s')"
  shows "not_stale (error_from_sqlite e) \<or>
    (\<exists>x. raws \<noteq> [] \<and> expected_revision opts = Some x \<and> x \<noteq> stream_revision (session_stream s i) \<and>
       error_from_sqlite e = RevisionConflict x (stream_revision (session_stream s i)))"
proof (cases "raws = []")
  case True
  with run have "load_from_connection H i s = (Inl e, s')"
    by (auto simp: publish_with_connection_def result_simps)
  from load_from_connection_outcome [OF ok this] show ?thesis by auto
next
  case False
  from publish_with_connection_outcome [OF ok run] have "publish_outcome H prev i opts raws s (Inl e) s'" ..
  with False attempt_failure_not_stale [of H e] show ?thesis
    by (auto simp: publish_outcome_def retry_exhausted_def)
qed

lemma connection_load_run:
  "st_load (connection_ops H e) s i = (l, s') \<Longrightarrow>
    \<exists>r. load_from_connection H i s = (r, s') \<and> l = map_err error_from_sqlite r"
  by (cases "load_from_connection H i s") (auto simp: connection_ops_def seq_err_def)

lemma connection_publish_run:
  "st_publish (connection_ops H e) s i opts raws = (q, s') \<Longrightarrow>
    \<exists>r. publish_with_connection H i opts raws s = (r, s') \<and> q = map_err error_from_sqlite r"
  by (cases "publish_with_connection H i opts raws s") (auto simp: connection_ops_def seq_err_def)

section \<open>A SQLite connection on a calm host\<close>

text \<open>
  Libsql answers every call, the generator has ids left, and it minted, or is ahead of, every id
  in the table, as when no other process has written to it.
\<close>

definition rows_below :: "ulid_codec \<Rightarrow> ulid \<Rightarrow> event_row list \<Rightarrow> bool" where
  "rows_below U v rows \<longleftrightarrow>
     (\<forall>r\<in>set rows. (\<exists>u\<le>v. row_event_id r = ulid_to_string U u) \<and>
        (\<exists>u\<le>v. row_revision r = ulid_to_string U u))"

definition calm :: "'g host \<Rightarrow> bool" where
  "calm H \<longleftrightarrow> (\<forall>k. h_faults H k = None)"

definition session_live :: "'g host \<Rightarrow> ('g \<Rightarrow> ulid) \<Rightarrow> nat \<Rightarrow> 'g session \<Rightarrow> bool" where
  "session_live H prev n s \<longleftrightarrow>
     calm H \<and> generates (h_gen H) (2 * n) (se_generator s) \<and>
     (\<forall>rows. tbl_events (c_db s) = Some rows \<longrightarrow> rows_below (h_ulid H) (prev (se_generator s)) rows)"

lemma rows_below_mono: "rows_below U v rows \<Longrightarrow> v \<le> w \<Longrightarrow> rows_below U w rows"
  by (meson order_trans rows_below_def)

lemma below_stream_revision:
  assumes "ulid_laws U" and "rows_below U v rows" and "v < u"
  shows "stream_revision (rows_stream rows i) < revision_from_ulid U u"
proof (cases "rows_stream rows i = []")
  case True
  have "0 < u" using assms(3) by (rule le_less_trans [rotated]) simp
  with True show ?thesis by (simp add: revision_zero_less [OF assms(1)])
next
  case False
  from stream_revision_in [OF this] obtain r where r: "r \<in> set (agg_rows rows i)"
    "stream_revision (rows_stream rows i) = Revision (row_revision r)" by (auto simp: stream_rev_row)
  with assms(2) agg_rows_subset [of rows i] obtain w where "w \<le> v" "row_revision r = ulid_to_string U w"
    by (auto simp: rows_below_def)
  with r(2) assms(3) show ?thesis
    using revision_from_ulid_less [OF assms(1), of w u] by (simp add: revision_from_ulid_def)
qed

lemma below_no_violation:
  assumes laws: "ulid_laws U" and below: "rows_below U v rows" and "v < e" and "v < u"
    and "pr_event_id p = EventId (ulid_to_string U e)" and "pr_revision p = ulid_to_string U u"
  shows "constraint_violation rows (row_of p) = None"
proof -
  have "row_event_id r \<noteq> ulid_to_string U e \<and> row_revision r \<noteq> ulid_to_string U u" if "r \<in> set rows" for r
    using that below assms(3,4) by (auto simp: rows_below_def ulid_to_string_eq [OF laws])
  then show ?thesis
    by (force simp: constraint_violation_None row_of_def assms(5,6) ulid_lawsD(1) [OF laws])
qed

lemma calm_execute:
  assumes "calm H" and "tbl_events (c_db c) = Some rows"
    and "constraint_violation rows (row_of p) = None"
  shows "\<exists>n c'. execute_publish_statement H p c = (Inr n, c')"
  using assms
  by (auto simp: execute_publish_statement_def insert_where_def statement_def calm_def Let_def
      split: nat.split option.split)

lemma generate_ulid_live:
  assumes "generates (h_gen H) (Suc n) (se_generator s)" and "monotonic_generator (h_gen H) prev"
  obtains u g where "generate_ulid H s = (Inr u, s\<lparr>se_generator := g\<rparr>)"
    and "prev (se_generator s) < u" and "prev g = u" and "generates (h_gen H) n g"
proof -
  from assms(1) obtain u g where g: "h_gen H (se_generator s) = (Some u, g)" "generates (h_gen H) n g"
    by (rule generates_Suc)
  with monotonic_generatorD [OF assms(2) g(1)] show ?thesis
    by (intro that [of u g]) (simp_all add: generate_ulid_def)
qed

text \<open>The insert loop inserts the batch, or reports the conflict of a stale revision.\<close>

lemma insert_events_live:
  assumes calm: "calm H" and laws: "ulid_laws (h_ulid H)" and mono: "monotonic_generator (h_gen H) prev"
  shows "tbl_events (c_db s) = Some rows \<Longrightarrow> rows_inv (h_ulid H) rows \<Longrightarrow>
    rows_below (h_ulid H) (prev (se_generator s)) rows \<Longrightarrow>
    generates (h_gen H) (2 * length raws + m) (se_generator s) \<Longrightarrow>
    \<exists>r s' rows'. insert_events H i opts md k raws recorded s = (r, s') \<and>
      generates (h_gen H) m (se_generator s') \<and> prev (se_generator s) \<le> prev (se_generator s') \<and>
      tbl_events (c_db s') = Some rows' \<and> rows_below (h_ulid H) (prev (se_generator s')) rows' \<and>
      (if raws \<noteq> [] \<and> k = 0 \<and>
          expected_revision opts \<notin> {None, Some (stream_revision (rows_stream rows i))}
       then \<exists>c. r = Inl (Conflict c) else \<exists>out. r = Inr out)"
proof (induction raws arbitrary: k recorded s rows)
  case Nil
  then show ?case by (auto simp: give_def)
next
  case (Cons raw rest)
  let ?U = "h_ulid H"
  from Cons.prems(4) have g: "generates (h_gen H) (Suc (Suc (2 * length rest + m))) (se_generator s)" by simp
  from generate_ulid_live [OF g mono] obtain e g1 where
    1: "generate_ulid H s = (Inr e, s\<lparr>se_generator := g1\<rparr>)" "prev (se_generator s) < e" "prev g1 = e"
      "generates (h_gen H) (Suc (2 * length rest + m)) g1" by blast
  from generate_ulid_live [of H _ "s\<lparr>se_generator := g1\<rparr>", OF _ mono] 1(4) obtain u g2 where
    2: "generate_ulid H (s\<lparr>se_generator := g1\<rparr>) = (Inr u, s\<lparr>se_generator := g2\<rparr>)" "e < u" "prev g2 = u"
      "generates (h_gen H) (2 * length rest + m) g2" using 1(3) by force
  let ?p = "\<lparr>pr_index = k, pr_aggregate_id = i, pr_options = opts, pr_raw = raw, pr_metadata = md,
      pr_event_id = EventId (ulid_to_string ?U e), pr_revision = ulid_to_string ?U u\<rparr>"
  let ?s = "s\<lparr>se_generator := g2\<rparr>"
  have below: "rows_below ?U (prev (se_generator s)) rows" by (rule Cons.prems)
  from 1(2) 2(2) have u: "prev (se_generator s) < u" "0 < u" by (auto intro: le_less_trans)
  have free: "constraint_violation rows (row_of ?p) = None"
    using below_no_violation [OF laws below 1(2) u(1), of ?p] by simp
  from calm_execute [OF calm, of ?s rows ?p] Cons.prems(1) free obtain n s3 where
    run: "execute_publish_statement H ?p ?s = (Inr n, s3)" by auto
  have step: "insert_events H i opts md k (raw # rest) recorded s =
      (if n = 0 then report_conflict H i opts u s3
       else insert_events H i opts md (Suc k) rest (recorded @ [event_of_row (row_of ?p)]) s3)"
    using 1(1) 2(1) run
    by (simp add: seq_err_def seq_result_def event_of_row_row_of revision_from_ulid_def)
  have allowed: "publish_allowed (stream_revision (rows_stream rows i)) opts k (revision_from_ulid ?U u) \<longleftrightarrow>
      \<not> (k = 0 \<and> expected_revision opts \<notin> {None, Some (stream_revision (rows_stream rows i))})"
    using below_stream_revision [OF laws below u(1), of i] by (auto simp: publish_allowed_def)
  have tbl: "tbl_events (c_db ?s) = Some rows" using Cons.prems(1) by simp
  from execute_publish_statement_Inr [OF run laws Cons.prems(2) tbl _ u(2)] allowed
  consider (refused) "n = 0" "s3 = ?s\<lparr>c_calls := Suc (c_calls ?s)\<rparr>"
      "k = 0 \<and> expected_revision opts \<notin> {None, Some (stream_revision (rows_stream rows i))}"
    | (inserted) "n = 1"
      "\<not> (k = 0 \<and> expected_revision opts \<notin> {None, Some (stream_revision (rows_stream rows i))})"
    by fastforce
  then show ?case
  proof cases
    case refused
    obtain r :: "publish_attempt_error + recorded_event list" and s' where
      rep: "report_conflict H i opts u s3 = (r, s')" by fastforce
    have tbl3: "tbl_events (c_db s3) = Some rows" using refused Cons.prems(1) by simp
    have "r \<noteq> Inl (Store (Libsql l))" for l
      using rep calm tbl3 by (auto simp: report_conflict_def current_revision_def result_simps calm_def
          query_def statement_def Let_def ok_or_def split: option.splits)
    with report_conflict_cases [OF rep laws Cons.prems(2) tbl3] obtain c where
      c: "r = Inl (Conflict c)" "s' = s3\<lparr>c_calls := Suc (c_calls s3)\<rparr>" by auto
    have "generates (h_gen H) m g2" using 2(4) by (rule generates_mono)
    moreover have "insert_events H i opts md k (raw # rest) recorded s = (r, s')"
      using step refused(1) rep by (simp del: insert_events.simps)
    moreover have "se_generator s' = g2" "tbl_events (c_db s') = Some rows"
      using c(2) refused(2) tbl3 by simp_all
    moreover have "rows_below ?U u rows" using below u(1) by (auto intro: rows_below_mono)
    ultimately show ?thesis
      using c(1) refused(3) u(1) 2(3)
      by (intro exI [of _ r] exI [of _ s'] exI [of _ rows]) (simp del: insert_events.simps)
  next
    case inserted
    from insert_step [OF laws Cons.prems(2) tbl u(2) run] inserted(1)
    have s3: "s3 = ?s\<lparr>c_calls := Suc (c_calls ?s), c_db := (c_db ?s)\<lparr>tbl_events := Some (rows @ [row_of ?p])\<rparr>\<rparr>"
      and inv3: "rows_inv ?U (rows @ [row_of ?p])" by (auto simp: appended_rows_def)
    have "rows_below ?U u (rows @ [row_of ?p])"
      using rows_below_mono [OF below, of u] u(1) 2(2)
      by (auto simp: rows_below_def row_of_def intro: less_imp_le exI [of _ e])
    from Cons.IH [of s3 "rows @ [row_of ?p]" "Suc k" "recorded @ [event_of_row (row_of ?p)]"] s3 inv3 this 2(3,4)
      inserted step u(1)
    show ?thesis by (auto intro: order_trans less_imp_le)
  qed
qed

text \<open>One attempt either commits or reports a conflict; the busy loop has nothing to do.\<close>

lemma try_publish_once_live:
  assumes ok: "session_ok H prev s" and live: "session_live H prev (length raws + n) s" and ne: "raws \<noteq> []"
  obtains r s' where "try_publish_once H i opts raws s = (r, s')" and "session_live H prev n s'"
    and "(if expected_revision opts \<in> {None, Some (stream_revision (session_stream s i))}
      then \<exists>cs. r = Inr cs else \<exists>c. r = Inl (Conflict c))"
proof -
  from ok obtain rows where laws: "ulid_laws (h_ulid H)" and mono: "monotonic_generator (h_gen H) prev"
    and tbl: "tbl_events (c_db s) = Some rows" and inv: "rows_inv (h_ulid H) rows"
    by (auto simp: session_ok_def)
  from live have calm: "calm H" and gen: "generates (h_gen H) (2 * length raws + 2 * n) (se_generator s)"
    and below: "rows_below (h_ulid H) (prev (se_generator s)) rows"
    by (auto simp: session_live_def tbl)
  let ?s1 = "s\<lparr>c_calls := Suc (c_calls s), c_saved := Some (c_db s)\<rparr>"
  have b: "begin_transaction H s = (Inr (), ?s1)"
    using calm by (simp add: sql_run calm_def)
  obtain q s2 rows' where L: "insert_events H i opts (options_metadata opts) 0 raws [] ?s1 = (q, s2)"
    and s2: "generates (h_gen H) (2 * n) (se_generator s2)"
      "prev (se_generator s) \<le> prev (se_generator s2)" "tbl_events (c_db s2) = Some rows'"
      "rows_below (h_ulid H) (prev (se_generator s2)) rows'"
    and q: "if expected_revision opts \<notin> {None, Some (stream_revision (rows_stream rows i))}
      then \<exists>c. q = Inl (Conflict c) else \<exists>out. q = Inr out"
    using insert_events_live [OF calm laws mono, of ?s1 rows raws "2 * n" i opts "options_metadata opts" 0 "[]"]
      tbl inv below gen ne by auto
  have stream: "session_stream s i = rows_stream rows i" by (simp add: session_stream_def tbl)
  show ?thesis
  proof (cases q)
    case (Inl e)
    have "c_saved s2 = Some (c_db s)"
      using insert_events_spec [OF laws mono L _ inv] tbl by (auto simp: only_events_changed_def)
    then have "rollback s2 = s2\<lparr>c_db := c_db s, c_saved := None\<rparr>" by (simp add: rollback_def)
    with Inl q b L s2 calm below tbl show ?thesis
      by (intro that [of "Inl e" "rollback s2"])
        (auto simp: try_publish_once_def session_live_def stream intro: rows_below_mono split: if_splits)
  next
    case (Inr out)
    from insert_events_spec [OF laws mono L _ inv] tbl Inr ne have "out \<noteq> []"
      by (auto simp: appended_rows_def)
    then have "last_opt out = Some (last out)" by (simp only: last_opt_def if_False)
    moreover have "commit H s2 = (Inr (), s2\<lparr>c_calls := Suc (c_calls s2), c_saved := None\<rparr>)"
      using calm by (simp add: sql_run calm_def)
    ultimately show ?thesis using Inr q b L s2 calm
      by (intro that [OF _ _ _, of _ "s2\<lparr>c_calls := Suc (c_calls s2), c_saved := None\<rparr>"])
        (auto simp: try_publish_once_def session_live_def stream split: if_splits)
  qed
qed

lemma busy_loop_done: "(\<And>e. r \<noteq> Inl (Store e)) \<Longrightarrow> busy_loop H i opts raws n k (r, s) = (r, s)"
  by (cases n) (auto split: sum.split publish_attempt_error.split)

lemma session_live_load:
  assumes ok: "session_ok H prev s" and live: "session_live H prev n s"
    and run: "load_from_connection H i s = (r, s')"
  shows "session_live H prev n s' \<and> r = Inr (from_shared_events i (session_stream s i))"
  using load_from_connection_outcome [OF ok run] live by (auto simp: session_live_def calm_def)

lemma session_live_mono: "session_live H prev (m + n) s \<Longrightarrow> session_live H prev n s"
  using generates_mono [of "h_gen H" "2 * m" "2 * n"] by (simp add: session_live_def)

lemma publish_with_connection_live:
  assumes ok: "session_ok H prev s" and live: "session_live H prev (length raws + n) s"
    and run: "publish_with_connection H i opts raws s = (r, s')"
  shows "session_live H prev n s' \<and>
    (if raws = [] \<or> expected_revision opts \<in> {None, Some (stream_revision (session_stream s i))}
     then is_ok r
     else \<exists>x. expected_revision opts = Some x \<and>
       r = Inl (WeeEvents (RevisionConflict x (stream_revision (session_stream s i)))))"
proof (cases "raws = []")
  case True
  with run session_live_load [OF ok live] show ?thesis
    by (auto simp: publish_with_connection_def seq_result_def give_def split: prod.splits sum.splits)
next
  case False
  from try_publish_once_live [OF ok live False, of i opts] obtain q t where
    t: "try_publish_once H i opts raws s = (q, t)" "session_live H prev n t"
    and q: "if expected_revision opts \<in> {None, Some (stream_revision (session_stream s i))}
      then \<exists>cs. q = Inr cs else \<exists>c. q = Inl (Conflict c)" by blast
  have "busy_loop H i opts raws MAX_BUSY_RETRIES 0 (q, t) = (q, t)"
    using q by (intro busy_loop_done) (auto split: if_splits)
  with run False t q have "session_live H prev n s' \<and>
      (if expected_revision opts \<in> {None, Some (stream_revision (session_stream s i))} then is_ok r
       else \<exists>x a. r = Inl (WeeEvents (RevisionConflict x a)))"
    by (cases "expected_revision opts")
      (auto simp: publish_with_connection_def MAX_AUTO_RETRIES_def eval_nat_numeral Let_def
        split: if_splits)
  with publish_with_connection_outcome [OF ok run] False show ?thesis
    by (auto simp: publish_outcome_def attempt_failure_def retry_exhausted_def split: if_splits)
qed

interpretation connection_dependable:
  dependable_store "connection_ops H e" "session_ok H prev" session_stream "session_live H prev" "\<lambda>_. False"
  for H e prev
proof unfold_locales
  fix s :: "'a session" and n i l s'
  assume "session_ok H prev s" and "session_live H prev n s" and "st_load (connection_ops H e) s i = (l, s')"
  then show "session_live H prev n s'" by (auto dest: connection_load_run session_live_load)
next
  fix s :: "'a session" and n i d s'
  assume "session_ok H prev s" and "session_live H prev n s" and "st_load (connection_ops H e) s i = (Inl d, s')"
  then show False by (auto dest!: connection_load_run dest: session_live_load)
next
  fix s :: "'a session" and raws n i opts r s'
  assume "session_ok H prev s" and "session_live H prev (length raws + n) s"
    and "st_publish (connection_ops H e) s i opts raws = (r, s')"
  then show "session_live H prev n s'" by (auto dest!: connection_publish_run dest: publish_with_connection_live)
next
  fix s :: "'a session" and raws n i opts d s'
  assume ok: "session_ok H prev s" and live: "session_live H prev (length raws + n) s"
    and "st_publish (connection_ops H e) s i opts raws = (Inl d, s')"
  then obtain q where q: "publish_with_connection H i opts raws s = (Inl q, s')" "d = error_from_sqlite q"
    by (auto dest!: connection_publish_run simp: result_simps eq_commute [of "Inl _" "map_err _ _"])
  from publish_with_connection_live [OF ok live q(1)] q(2)
  show "False \<or> (\<exists>x. raws \<noteq> [] \<and> expected_revision opts = Some x \<and>
      x \<noteq> stream_revision (session_stream s i) \<and> d = RevisionConflict x (stream_revision (session_stream s i)))"
    by (auto split: if_splits)
qed

section \<open>The partitioned store, whatever its host does\<close>

text \<open>
  Only the publish path of a connection raises errors of the core crate; everything that opens
  and prepares partitions fails with errors of its own.
\<close>

definition plain :: "sqlite_error \<Rightarrow> bool" where
  "plain e \<longleftrightarrow> (\<forall>x. e \<noteq> WeeEvents x)"

lemma plain_simps [simp]:
  "plain (Libsql l)" "plain (Io t)" "plain (Serialization t)" "plain (Configuration t)" "plain (Internal t)"
  by (simp_all add: plain_def)

lemma plain_not_stale: "plain e \<Longrightarrow> not_stale (error_from_sqlite e)"
  by (cases e) (simp_all add: plain_def)

definition fails_plainly :: "('s, sqlite_error, 'a) action \<Rightarrow> bool" where
  "fails_plainly f \<longleftrightarrow> (\<forall>s e t. f s = (Inl e, t) \<longrightarrow> plain e)"

named_theorems plain_intros

lemma fails_plainlyD: "fails_plainly f \<Longrightarrow> f s = (Inl e, t) \<Longrightarrow> plain e"
  unfolding fails_plainly_def by blast

lemma fails_plainly_statement [plain_intros]: "fails_plainly (statement H f)"
  by (auto simp: fails_plainly_def result_simps)

lemma fails_plainly_query [plain_intros]: "fails_plainly (query H table name f)"
  by (auto simp: fails_plainly_def result_simps)

lemma fails_plainly_transaction [plain_intros]:
  "fails_plainly (begin_transaction H)" "fails_plainly (commit H)"
  by (auto simp: fails_plainly_def result_simps)

lemma fails_plainly_give [plain_intros]: "(\<And>e. r = Inl e \<Longrightarrow> plain e) \<Longrightarrow> fails_plainly (give r)"
  by (auto simp: fails_plainly_def give_iff)

lemma fails_plainly_seq [plain_intros]:
  "fails_plainly m \<Longrightarrow> (\<And>a. fails_plainly (f a)) \<Longrightarrow> fails_plainly (seq_result m f)"
  unfolding fails_plainly_def seq_result_Inl by blast

lemma fails_plainly_update [plain_intros]:
  "fails_plainly f \<Longrightarrow> fails_plainly (\<lambda>c. f (c\<lparr>c_busy_timeout_ms := ms\<rparr>))"
  "fails_plainly f \<Longrightarrow> fails_plainly (\<lambda>c. f (c\<lparr>c_foreign_keys := b\<rparr>))"
  "fails_plainly f \<Longrightarrow> fails_plainly (\<lambda>c. f (c\<lparr>c_db := h (c_db c)\<rparr>))"
  unfolding fails_plainly_def by blast+

lemma fails_plainly_split [plain_intros]:
  "(b \<Longrightarrow> fails_plainly f) \<Longrightarrow> (\<not> b \<Longrightarrow> fails_plainly g) \<Longrightarrow> fails_plainly (if b then f else g)"
  by simp

lemma fails_plainly_option [plain_intros]:
  "fails_plainly f \<Longrightarrow> (\<And>a. fails_plainly (g a)) \<Longrightarrow> fails_plainly (case x of None \<Rightarrow> f | Some a \<Rightarrow> g a)"
  by (cases x) simp_all

lemma fails_plainly_prepare [plain_intros]: "fails_plainly (prepare_local_connection H)"
  unfolding prepare_local_connection_def query_required_string_def
  by (intro plain_intros) (auto simp: result_simps)

lemma fails_plainly_migrate [plain_intros]: "fails_plainly (migrate_event_store H)"
  unfolding migrate_event_store_def migrate_schema_def current_schema_version_def upsert_version_def
  by (intro plain_intros) auto

lemma fails_plainly_connect_call [plain_intros]: "fails_plainly (connect H)"
  unfolding connect_def by (rule plain_intros)

lemma fails_plainly_open [plain_intros]: "fails_plainly (open_event_store_connection H target)"
  unfolding open_event_store_connection_def
  by (cases target) (auto intro!: plain_intros split: option.split)

lemma fails_plainly_name [plain_intros]: "fails_plainly (ensure_partition_name H name)"
  unfolding ensure_partition_name_def insert_partition_name_def load_partition_name_def
  by (intro plain_intros) auto

lemma fails_plainly_load [plain_intros]: "fails_plainly (load_from_connection H i)"
proof -
  have "plain e" if "decode_row H r = Inl e" for r e
    using that by (auto simp: decode_row_def result_simps)
  then have "collect_results (map (decode_row H) rows) = Inl e \<Longrightarrow> plain e" for rows e
  proof (induction rows)
    case (Cons r rows)
    then show ?case by (cases "decode_row H r") (auto simp: result_simps)
  qed simp
  then show ?thesis unfolding load_from_connection_def
    by (intro plain_intros) (auto simp: result_simps)
qed

lemma fails_plainly_on_connection [plain_intros]: "fails_plainly f \<Longrightarrow> fails_plainly (on_connection loc f)"
  unfolding fails_plainly_def by (auto simp: on_connection_def Let_def split: prod.splits)

lemma fails_plainly_open_target [plain_intros]: "fails_plainly (open_target H target)"
  using fails_plainly_open unfolding fails_plainly_def
  by (fastforce simp: open_target_def Let_def result_simps split: prod.splits)

lemma fails_plainly_connect [plain_intros]: "fails_plainly (connect_partition H C p target)"
proof -
  have "fails_plainly (prepare_connection_for_partition H C p loc)" for loc
    unfolding prepare_connection_for_partition_def by (intro plain_intros) simp
  then show ?thesis unfolding connect_partition_def
    by (intro plain_intros) (simp_all add: fails_plainly_def)
qed

text \<open>The strategy and the catalog, which may be the caller's, fail with errors of their own too.\<close>

definition plain_partitions :: "'p strategy \<Rightarrow> ('p, 'g) catalog \<Rightarrow> bool" where
  "plain_partitions S C \<longleftrightarrow>
     (\<forall>i e. ps_partition_for S i = Inl e \<longrightarrow> plain e) \<and>
     (\<forall>n D p e. cat_ensure C n D p = Inl e \<longrightarrow> plain e) \<and>
     (\<forall>n D p e. cat_existing C n D p = Inl e \<longrightarrow> plain e)"

lemma local_plain_partitions:
  "(\<And>i e. ps_partition_for S i = Inl e \<Longrightarrow> plain e) \<Longrightarrow> plain_partitions S (local_catalog B ue F root S)"
  by (auto simp: plain_partitions_def local_catalog_def path_for_partition_def result_simps
      split: option.splits local_partition_layout.splits partition_name.splits)

lemma single_plain_partitions:
  "(\<And>i e. ps_partition_for S i = Inl e \<Longrightarrow> plain e) \<Longrightarrow> (\<And>n e. sp_ensure R n = Inl e \<Longrightarrow> plain e) \<Longrightarrow>
    (\<And>n D e. sp_existing R n D = Inl e \<Longrightarrow> plain e) \<Longrightarrow> plain_partitions S (single_target_catalog R)"
  by (auto simp: plain_partitions_def single_target_catalog_def)

lemma named_plain_partitions:
  "(\<And>i e. ps_partition_for S i = Inl e \<Longrightarrow> plain e) \<Longrightarrow> (\<And>n x e. np_ensure R n x = Inl e \<Longrightarrow> plain e) \<Longrightarrow>
    (\<And>n D x e. np_existing R n D x = Inl e \<Longrightarrow> plain e) \<Longrightarrow>
    plain_partitions S (named_target_catalog H S R)"
  by (auto simp: plain_partitions_def named_target_catalog_def)

lemma open_partition_plain:
  assumes "plain_partitions S C"
  shows "fails_plainly (ensure_partition_open H C p)" "fails_plainly (open_partition_if_exists H C p)"
proof -
  have cat: "fails_plainly (give (cat_ensure C n D p))" "fails_plainly (give (cat_existing C n D p))" for n D
    using assms by (auto intro!: plain_intros simp: plain_partitions_def)
  have "fails_plainly (seq_result (give (cat_ensure C n D p)) (connect_partition H C p))" for n D
    by (intro plain_intros cat)
  then show "fails_plainly (ensure_partition_open H C p)"
    unfolding fails_plainly_def ensure_partition_open_def by (auto split: option.splits)
  have "fails_plainly (seq_result (give (cat_existing C n D p)) (\<lambda>found.
      case found of None \<Rightarrow> give (Inr None)
      | Some target \<Rightarrow> seq_result (connect_partition H C p target) (\<lambda>loc. give (Inr (Some loc)))))" for n D
    by (intro plain_intros cat) simp_all
  then show "fails_plainly (open_partition_if_exists H C p)"
    unfolding fails_plainly_def open_partition_if_exists_def by (auto split: option.splits)
qed

text \<open>The stale conflicts of the store are those of its connections.\<close>

lemma publish_in_partition_stale:
  assumes ok: "store_ok H prev C tgt s" and plain: "plain_partitions S C"
    and run: "publish_in_partition H C p i opts raws s = (Inl e, s')"
  shows "not_stale (error_from_sqlite e) \<or>
    (\<exists>x. raws \<noteq> [] \<and> expected_revision opts = Some x \<and>
       x \<noteq> stream_revision (rows_stream (rows_at s (At (tgt p))) i) \<and>
       error_from_sqlite e = RevisionConflict x (stream_revision (rows_stream (rows_at s (At (tgt p))) i)))"
  using run unfolding publish_in_partition_def
proof (cases rule: seq_result_cases)
  case (stop d)
  with fails_plainlyD [OF open_partition_plain(1) [OF plain] stop(1)] plain_not_stale show ?thesis by simp
next
  case (run loc t)
  from ensure_partition_open_result [OF ok run(1)]
  have t: "store_ok H prev C tgt t" "rows_at t = rows_at s" "loc = At (tgt p)" "table_at t loc" by auto
  obtain d where d: "ss_databases t loc = Some d"
    "session_ok H prev ((ss_session t)\<lparr>c_db := d, c_saved := None\<rparr>)"
    "session_stream ((ss_session t)\<lparr>c_db := d, c_saved := None\<rparr>) = rows_stream (rows_at t loc)"
    using session_of_connection [OF t(1,4)] by blast
  from run(2) d(1) obtain se where
    "publish_with_connection H i opts raws ((ss_session t)\<lparr>c_db := d, c_saved := None\<rparr>) = (Inl e, se)"
    by (auto simp: on_connection_def split: prod.splits)
  from publish_with_connection_stale [OF d(2) this] d(3) t(2,3) show ?thesis by simp
qed

lemma publish_loop_stale:
  assumes "store_ok H prev C tgt s" and "plain_partitions S C"
    and "publish_loop H C p i opts raws n s = (Inl e, s')"
  shows "not_stale (error_from_sqlite e) \<or>
    (\<exists>x. raws \<noteq> [] \<and> expected_revision opts = Some x \<and>
       x \<noteq> stream_revision (rows_stream (rows_at s (At (tgt p))) i) \<and>
       error_from_sqlite e = RevisionConflict x (stream_revision (rows_stream (rows_at s (At (tgt p))) i)))"
  using assms
proof (induction n arbitrary: s)
  case (Suc n)
  obtain q t where q: "publish_in_partition H C p i opts raws s = (q, t)" by fastforce
  note P = publish_in_partition_result [OF Suc.prems(1) q]
  show ?case
  proof (cases "\<exists>d. q = Inl d \<and> is_lazy_create_partition_not_ready d \<and> 0 < n")
    case True
    then obtain d where d: "q = Inl d" "is_lazy_create_partition_not_ready d" "0 < n" by blast
    let ?t = "store_sleep LAZY_CREATE_PARTITION_READY_DELAY_MS (forget_connection p t)"
    from Suc.prems(3) q d have "publish_loop H C p i opts raws n ?t = (Inl e, s')" by simp
    with P d Suc.IH [OF store_ok_between Suc.prems(2)] show ?thesis
      by (fastforce simp: store_published_def)
  next
    case False
    with Suc.prems(3) q have "q = Inl e" by (auto split: sum.splits if_splits)
    with publish_in_partition_stale [OF Suc.prems(1,2)] q show ?thesis by simp
  qed
qed auto

lemma publish_to_aggregate_stale:
  assumes ok: "store_ok H prev C tgt s" and plain: "plain_partitions S C"
    and run: "publish_to_aggregate H S C i opts raws s = (Inl e, s')"
  shows "not_stale (error_from_sqlite e) \<or>
    (\<exists>x. raws \<noteq> [] \<and> expected_revision opts = Some x \<and> x \<noteq> stream_revision (store_stream S tgt s i) \<and>
       error_from_sqlite e = RevisionConflict x (stream_revision (store_stream S tgt s i)))"
proof (cases "ps_partition_for S i")
  case (Inl d)
  with run have "e = d" by (simp add: publish_to_aggregate_def seq_result_def give_def)
  with Inl plain plain_not_stale show ?thesis by (simp add: plain_partitions_def)
next
  case (Inr p)
  with run have "publish_loop H C p i opts raws LAZY_CREATE_PARTITION_READY_ATTEMPTS s = (Inl e, s')"
    by (simp add: publish_to_aggregate_def give_def)
  from publish_loop_stale [OF ok plain this] Inr show ?thesis by (simp add: store_stream_def)
qed

lemma load_aggregate_plain:
  assumes "plain_partitions S C"
  shows "fails_plainly (load_aggregate H S C i)"
  unfolding load_aggregate_def using assms
  by (intro plain_intros open_partition_plain(2)) (auto simp: plain_partitions_def)

interpretation sqlite_dependable:
  dependable_store "sqlite_ops H S C" "store_ok H prev C tgt" "store_stream S tgt"
    "\<lambda>_ _. plain_partitions S C" not_stale
  for H S C prev tgt
proof unfold_locales
  fix s n i e s'
  assume "plain_partitions S C" and "st_load (sqlite_ops H S C) s i = (Inl e, s')"
  from this(2) obtain r where "load_aggregate H S C i s = (r, s')" "Inl e = map_err error_from_sqlite r"
    by (rule sqlite_load_cases)
  with fails_plainlyD [OF load_aggregate_plain [OF \<open>plain_partitions S C\<close>]] plain_not_stale
  show "not_stale e" by (cases r) auto
next
  fix s raws n i opts e s'
  assume ok: "store_ok H prev C tgt s" and plain: "plain_partitions S C"
    and "st_publish (sqlite_ops H S C) s i opts raws = (Inl e, s')"
  from this(3) obtain r where r: "publish_to_aggregate H S C i opts raws s = (r, s')"
    "Inl e = map_err error_from_sqlite r" by (rule sqlite_publish_cases)
  from publish_to_aggregate_stale [OF ok plain] r
  show "not_stale e \<or> (\<exists>x. raws \<noteq> [] \<and> expected_revision opts = Some x \<and>
      x \<noteq> stream_revision (store_stream S tgt s i) \<and>
      e = RevisionConflict x (stream_revision (store_stream S tgt s i)))"
    by (cases r) auto
qed

section \<open>Two instances of the partitioned store on the same databases\<close>

text \<open>
  Each instance has its connections, its session and its ULID generator; what one writes to a
  database the other sees at its next call.
\<close>

definition share :: "('p, 'g) sqlite_store \<Rightarrow> ('p, 'g) sqlite_store \<Rightarrow> ('p, 'g) sqlite_store" where
  "share a b = b\<lparr>ss_databases := ss_databases a\<rparr>"

definition first_ops ::
  "('p, 'g) sqlite_store store_ops \<Rightarrow> (('p, 'g) sqlite_store \<times> ('p, 'g) sqlite_store) store_ops" where
  "first_ops ops =
     \<lparr>st_load = (\<lambda>(a, b) i. case st_load ops a i of (r, a') \<Rightarrow> (r, (a', share a' b))),
      st_publish = (\<lambda>(a, b) i opts raws.
        case st_publish ops a i opts raws of (r, a') \<Rightarrow> (r, (a', share a' b))),
      st_encoding = (\<lambda>(a, b). st_encoding ops a)\<rparr>"

definition second_ops ::
  "('p, 'g) sqlite_store store_ops \<Rightarrow> (('p, 'g) sqlite_store \<times> ('p, 'g) sqlite_store) store_ops" where
  "second_ops ops =
     \<lparr>st_load = (\<lambda>(a, b) i. case st_load ops b i of (r, b') \<Rightarrow> (r, (share b' a, b'))),
      st_publish = (\<lambda>(a, b) i opts raws.
        case st_publish ops b i opts raws of (r, b') \<Rightarrow> (r, (share b' a, b'))),
      st_encoding = (\<lambda>(a, b). st_encoding ops b)\<rparr>"

definition pair_ok ::
  "'g host \<Rightarrow> ('g \<Rightarrow> ulid) \<Rightarrow> ('p, 'g) catalog \<Rightarrow> ('p \<Rightarrow> database_target) \<Rightarrow>
    ('p, 'g) sqlite_store \<times> ('p, 'g) sqlite_store \<Rightarrow> bool" where
  "pair_ok H prev C tgt ab \<longleftrightarrow>
     store_ok H prev C tgt (fst ab) \<and> store_ok H prev C tgt (snd ab) \<and>
     ss_databases (fst ab) = ss_databases (snd ab)"

text \<open>No call drops a table, so the other instance's open connections stay good.\<close>

lemma load_aggregate_tables:
  assumes ok: "store_ok H prev C tgt s" and run: "load_aggregate H S C i s = (r, s')"
    and loc: "table_at s l"
  shows "table_at s' l"
proof (cases "ps_partition_for S i")
  case (Inl e)
  with run loc show ?thesis by (auto simp: load_aggregate_def seq_result_def give_def)
next
  case (Inr p)
  with run have "seq_result (open_partition_if_exists H C p) (\<lambda>conn.
       case conn of
         None \<Rightarrow> give (Inr (aggregate_empty i))
       | Some loc \<Rightarrow> on_connection loc (load_from_connection H i)) s = (r, s')"
    by (simp add: load_aggregate_def give_def)
  then show ?thesis
  proof (cases rule: seq_result_cases)
    case (stop e)
    with open_partition_if_exists_result [OF ok stop(1)] loc show ?thesis by blast
  next
    case (run conn t)
    from open_partition_if_exists_result [OF ok run(1)] loc
    have t: "store_ok H prev C tgt t" "table_at t l" by auto
    have silent: "silent H prev C tgt (\<lambda>_. True) (on_connection k (load_from_connection H i)) (\<lambda>_ _. True)"
      for k by (intro silent_on_connection conn_idle_quiet idle_intros)
    from run(2) t silentD(4) [OF silent t(1) TrueI] show ?thesis
      by (auto simp: give_iff split: option.splits)
  qed
qed

lemma publish_in_partition_tables:
  assumes ok: "store_ok H prev C tgt s" and run: "publish_in_partition H C p i opts raws s = (r, s')"
    and loc: "table_at s l"
  shows "table_at s' l"
  using run unfolding publish_in_partition_def
proof (cases rule: seq_result_cases)
  case (stop e)
  with ensure_partition_open_result [OF ok stop(1)] loc show ?thesis by blast
next
  case (run k t)
  from ensure_partition_open_result [OF ok run(1)] loc
  have t: "store_ok H prev C tgt t" "table_at t k" "table_at t l" by auto
  obtain d where d: "ss_databases t k = Some d"
    "session_ok H prev ((ss_session t)\<lparr>c_db := d, c_saved := None\<rparr>)"
    using session_of_connection [OF t(1,2)] by blast
  from run(2) d(1) obtain se where
    se: "publish_with_connection H i opts raws ((ss_session t)\<lparr>c_db := d, c_saved := None\<rparr>) = (r, se)"
      "s' = t\<lparr>ss_session := se, ss_databases := (ss_databases t)(k \<mapsto> c_db (rollback se))\<rparr>"
    by (auto simp: on_connection_def split: prod.splits)
  from publish_with_connection_outcome [OF d(2) se(1)] have "session_ok H prev se"
    by (simp add: publish_outcome_def)
  with t(3) se(2) show ?thesis by (auto simp: table_at_def session_ok_def split: option.splits)
qed

lemma publish_loop_tables:
  assumes "store_ok H prev C tgt s" and "publish_loop H C p i opts raws n s = (r, s')" and "table_at s l"
  shows "table_at s' l"
  using assms
proof (induction n arbitrary: s)
  case (Suc n)
  obtain q t where q: "publish_in_partition H C p i opts raws s = (q, t)" by fastforce
  have t: "store_ok H prev C tgt t" "table_at t l"
    using publish_in_partition_result [OF Suc.prems(1) q] publish_in_partition_tables [OF Suc.prems(1) q Suc.prems(3)]
    by (simp_all add: store_published_def)
  have "table_at (store_sleep ms (forget_connection p t)) l" for ms
    using t(2) by (simp add: table_at_def store_sleep_def forget_connection_def)
  with Suc.IH [OF store_ok_between [OF t(1)]] Suc.prems(2) q t(2) show ?case
    by (auto split: sum.splits if_splits)
qed auto

lemma publish_to_aggregate_tables:
  assumes "store_ok H prev C tgt s" and "publish_to_aggregate H S C i opts raws s = (r, s')" and "table_at s l"
  shows "table_at s' l"
  using assms publish_loop_tables
  by (cases "ps_partition_for S i") (auto simp: publish_to_aggregate_def seq_result_def give_def)

lemma store_ok_share:
  assumes "store_ok H prev C tgt b" and "store_ok H prev C tgt a'"
    and "\<And>l. table_at b l \<Longrightarrow> table_at a' l"
  shows "store_ok H prev C tgt (share a' b)"
  using assms by (auto simp: store_ok_def share_def connections_ok_def table_at_def split: option.splits)

lemma store_stream_share:
  "ss_databases a = ss_databases b \<Longrightarrow> store_stream S tgt a = store_stream S tgt b"
  by (rule store_stream_cong) (simp add: rows_at_def fun_eq_iff)

lemma pair_ok_first:
  assumes "pair_ok H prev C tgt (a, b)" and "store_ok H prev C tgt a'"
    and "\<And>l. table_at a l \<Longrightarrow> table_at a' l"
  shows "pair_ok H prev C tgt (a', share a' b)" and "pair_ok H prev C tgt (share a' b, a')"
proof -
  have "table_at b l \<Longrightarrow> table_at a' l" for l
    using assms(1,3) by (auto simp: pair_ok_def table_at_def)
  with assms(1,2) store_ok_share [of H prev C tgt b a']
  show "pair_ok H prev C tgt (a', share a' b)" "pair_ok H prev C tgt (share a' b, a')"
    by (auto simp: pair_ok_def share_def)
qed

lemma sqlite_call_keeps:
  assumes "store_ok H prev C tgt a"
    and "st_load (sqlite_ops H S C) a i = (l, a') \<or> st_publish (sqlite_ops H S C) a i opts raws = (r, a')"
  shows "store_ok H prev C tgt a'" and "table_at a loc \<Longrightarrow> table_at a' loc"
proof -
  have "store_ok H prev C tgt a' \<and> (table_at a loc \<longrightarrow> table_at a' loc)"
    using assms(2)
  proof
    assume "st_load (sqlite_ops H S C) a i = (l, a')"
    then obtain q where "load_aggregate H S C i a = (q, a')" by (rule sqlite_load_cases)
    with load_aggregate_result [OF assms(1)] load_aggregate_tables [OF assms(1)] show ?thesis by blast
  next
    assume run: "st_publish (sqlite_ops H S C) a i opts raws = (r, a')"
    then obtain q where "publish_to_aggregate H S C i opts raws a = (q, a')" by (rule sqlite_publish_cases)
    with publish_to_aggregate_tables [OF assms(1)] sqlite.publish_keeps [OF assms(1) run]
    show ?thesis by blast
  qed
  then show "store_ok H prev C tgt a'" and "table_at a loc \<Longrightarrow> table_at a' loc" by blast+
qed

lemma first_dependable:
  "dependable_store (first_ops (sqlite_ops H S C)) (pair_ok H prev C tgt)
     (\<lambda>ab. store_stream S tgt (fst ab)) (\<lambda>n ab. plain_partitions S C) not_stale"
proof (rule sqlite_dependable.on_part)
  fix ab i l ab'
  assume ok: "pair_ok H prev C tgt ab" and run: "st_load (first_ops (sqlite_ops H S C)) ab i = (l, ab')"
  from run obtain a b a' where ab: "ab = (a, b)" "ab' = (a', share a' b)"
    and r: "st_load (sqlite_ops H S C) a i = (l, a')"
    by (cases ab) (auto simp: first_ops_def split: prod.splits)
  from ok ab have "store_ok H prev C tgt a" by (simp add: pair_ok_def)
  from pair_ok_first(1) [OF ok [unfolded ab(1)] sqlite_call_keeps [OF this disjI1 [OF r]]]
  show "pair_ok H prev C tgt ab'" by (simp add: ab(2))
next
  fix ab i opts raws r ab'
  assume ok: "pair_ok H prev C tgt ab"
    and run: "st_publish (first_ops (sqlite_ops H S C)) ab i opts raws = (r, ab')"
  from run obtain a b a' where ab: "ab = (a, b)" "ab' = (a', share a' b)"
    and r: "st_publish (sqlite_ops H S C) a i opts raws = (r, a')"
    by (cases ab) (auto simp: first_ops_def split: prod.splits)
  from ok ab have "store_ok H prev C tgt a" by (simp add: pair_ok_def)
  from pair_ok_first(1) [OF ok [unfolded ab(1)] sqlite_call_keeps [OF this disjI2 [OF r]]]
  show "pair_ok H prev C tgt ab'" by (simp add: ab(2))
qed (auto simp: pair_ok_def first_ops_def split: prod.splits)

lemma second_dependable:
  "dependable_store (second_ops (sqlite_ops H S C)) (pair_ok H prev C tgt)
     (\<lambda>ab. store_stream S tgt (fst ab)) (\<lambda>n ab. plain_partitions S C) not_stale"
proof (rule sqlite_dependable.on_part [where part = snd])
  fix ab i l ab'
  assume ok: "pair_ok H prev C tgt ab" and run: "st_load (second_ops (sqlite_ops H S C)) ab i = (l, ab')"
  from run obtain a b b' where ab: "ab = (a, b)" "ab' = (share b' a, b')"
    and r: "st_load (sqlite_ops H S C) b i = (l, b')"
    by (cases ab) (auto simp: second_ops_def split: prod.splits)
  from ok ab have b: "store_ok H prev C tgt b" "pair_ok H prev C tgt (b, a)"
    by (simp_all add: pair_ok_def)
  from pair_ok_first(2) [OF b(2) sqlite_call_keeps [OF b(1) disjI1 [OF r]]]
  show "pair_ok H prev C tgt ab'" by (simp add: ab(2))
next
  fix ab i opts raws r ab'
  assume ok: "pair_ok H prev C tgt ab"
    and run: "st_publish (second_ops (sqlite_ops H S C)) ab i opts raws = (r, ab')"
  from run obtain a b b' where ab: "ab = (a, b)" "ab' = (share b' a, b')"
    and r: "st_publish (sqlite_ops H S C) b i opts raws = (r, b')"
    by (cases ab) (auto simp: second_ops_def split: prod.splits)
  from ok ab have b: "store_ok H prev C tgt b" "pair_ok H prev C tgt (b, a)"
    by (simp_all add: pair_ok_def)
  from pair_ok_first(2) [OF b(2) sqlite_call_keeps [OF b(1) disjI2 [OF r]]]
  show "pair_ok H prev C tgt ab'" by (simp add: ab(2))
next
  fix ab
  assume "pair_ok H prev C tgt ab"
  then show "store_ok H prev C tgt (snd ab) \<and> store_stream S tgt (fst ab) = store_stream S tgt (snd ab)"
    using store_stream_share [of "fst ab" "snd ab"] by (simp add: pair_ok_def)
qed (auto simp: second_ops_def split: prod.splits)

interpretation sqlite_shared:
  shared_stores "first_ops (sqlite_ops H S C)" "second_ops (sqlite_ops H S C)" "pair_ok H prev C tgt"
    "\<lambda>ab. store_stream S tgt (fst ab)" "\<lambda>n ab. plain_partitions S C" not_stale
  for H S C prev tgt
  by (intro shared_stores.intro first_dependable second_dependable)

section \<open>A freshly opened local store\<close>

text \<open>
  A store with the global strategy keeps everything in one file; once that is open, its calls are
  those of the connection.
\<close>

definition single_live ::
  "'g host \<Rightarrow> ('g \<Rightarrow> ulid) \<Rightarrow> nat \<Rightarrow> (global_partition, 'g) sqlite_store \<Rightarrow> bool" where
  "single_live H prev n s \<longleftrightarrow>
     (\<exists>loc d. map_of (ss_connections s) GlobalPartition = Some loc \<and> ss_databases s loc = Some d \<and>
        session_live H prev n ((ss_session s)\<lparr>c_db := d, c_saved := None\<rparr>))"

lemma global_partition_for [simp]: "ps_partition_for global_strategy i = Inr GlobalPartition"
  by (simp add: global_strategy_def Let_def)

lemma single_connection:
  assumes ok: "store_ok H prev C tgt s" and live: "single_live H prev n s"
  obtains loc d where "map_of (ss_connections s) GlobalPartition = Some loc" "ss_databases s loc = Some d"
    "session_live H prev n ((ss_session s)\<lparr>c_db := d, c_saved := None\<rparr>)"
    "session_ok H prev ((ss_session s)\<lparr>c_db := d, c_saved := None\<rparr>)"
    "session_stream ((ss_session s)\<lparr>c_db := d, c_saved := None\<rparr>) i = store_stream global_strategy tgt s i"
proof -
  from live obtain loc d where l: "map_of (ss_connections s) GlobalPartition = Some loc"
    "ss_databases s loc = Some d" "session_live H prev n ((ss_session s)\<lparr>c_db := d, c_saved := None\<rparr>)"
    by (auto simp: single_live_def)
  with ok have loc: "loc = At (tgt GlobalPartition)" "table_at s loc"
    by (auto simp: store_ok_def connections_ok_def)
  from session_of_connection [OF ok loc(2)] l(2) have
    "session_ok H prev ((ss_session s)\<lparr>c_db := d, c_saved := None\<rparr>)"
    "session_stream ((ss_session s)\<lparr>c_db := d, c_saved := None\<rparr>) = rows_stream (rows_at s loc)" by force+
  with l loc(1) show ?thesis by (intro that) (auto simp: store_stream_def)
qed

lemma single_live_call:
  assumes "map_of (ss_connections s) GlobalPartition = Some loc" and "ss_databases s loc = Some d"
    and "f ((ss_session s)\<lparr>c_db := d, c_saved := None\<rparr>) = (r, se)"
    and "session_ok H prev se" and "session_live H prev n se"
  shows "fst (on_connection loc f s) = r" and "single_live H prev n (snd (on_connection loc f s))"
  using assms by (auto simp: on_connection_def single_live_def session_ok_def session_live_def)

lemma single_load:
  assumes ok: "store_ok H prev C tgt s" and live: "single_live H prev n s"
    and run: "load_aggregate H global_strategy C i s = (r, s')"
  shows "single_live H prev n s' \<and> is_ok r"
proof -
  from single_connection [OF ok live] obtain loc d where
    l: "map_of (ss_connections s) GlobalPartition = Some loc" "ss_databases s loc = Some d"
      "session_live H prev n ((ss_session s)\<lparr>c_db := d, c_saved := None\<rparr>)"
      "session_ok H prev ((ss_session s)\<lparr>c_db := d, c_saved := None\<rparr>)" by metis
  let ?c = "(ss_session s)\<lparr>c_db := d, c_saved := None\<rparr>"
  obtain q se where q: "load_from_connection H i ?c = (q, se)" by fastforce
  from session_live_load [OF l(4,3) q] load_from_connection_outcome [OF l(4) q] l(4)
  have se: "session_ok H prev se" "session_live H prev n se" "is_ok q" by (auto simp: session_ok_def)
  from single_live_call [where f = "load_from_connection H i", OF l(1,2) q se(1,2)] se(3) run l(1) show ?thesis
    by (simp add: load_aggregate_def give_def open_partition_if_exists_def seq_result_def)
qed

lemma single_publish:
  assumes ok: "store_ok H prev C tgt s" and live: "single_live H prev (length raws + n) s"
    and run: "publish_to_aggregate H global_strategy C i opts raws s = (r, s')"
  shows "single_live H prev n s' \<and>
    (if raws = [] \<or> expected_revision opts \<in> {None, Some (stream_revision (store_stream global_strategy tgt s i))}
     then is_ok r
     else \<exists>x. expected_revision opts = Some x \<and>
       r = Inl (WeeEvents (RevisionConflict x (stream_revision (store_stream global_strategy tgt s i)))))"
proof -
  from single_connection [OF ok live, of i] obtain loc d where
    l: "map_of (ss_connections s) GlobalPartition = Some loc" "ss_databases s loc = Some d"
      "session_live H prev (length raws + n) ((ss_session s)\<lparr>c_db := d, c_saved := None\<rparr>)"
      "session_ok H prev ((ss_session s)\<lparr>c_db := d, c_saved := None\<rparr>)"
      "session_stream ((ss_session s)\<lparr>c_db := d, c_saved := None\<rparr>) i = store_stream global_strategy tgt s i"
    by metis
  let ?c = "(ss_session s)\<lparr>c_db := d, c_saved := None\<rparr>"
  obtain q se where q: "publish_with_connection H i opts raws ?c = (q, se)" by fastforce
  note live' = publish_with_connection_live [OF l(4,3) q, unfolded l(5)]
  from publish_with_connection_outcome [OF l(4) q] have "session_ok H prev se"
    by (simp add: publish_outcome_def)
  from single_live_call [where f = "publish_with_connection H i opts raws",
      OF l(1,2) q this conjunct1 [OF live']]
  have on: "fst (on_connection loc (publish_with_connection H i opts raws) s) = q"
    "single_live H prev n (snd (on_connection loc (publish_with_connection H i opts raws) s))" by simp_all
  have once: "publish_in_partition H C GlobalPartition i opts raws s =
      on_connection loc (publish_with_connection H i opts raws) s"
    using l(1) by (simp add: publish_in_partition_def ensure_partition_open_def seq_result_def)
  have "\<not> is_lazy_create_partition_not_ready e" if "q = Inl e" for e
    using live' that by (auto split: if_splits)
  then have "publish_loop H C GlobalPartition i opts raws (Suc m) s =
      on_connection loc (publish_with_connection H i opts raws) s" for m
    using on(1) by (auto simp: once split: prod.split sum.split)
  from this [of 29] run have "(r, s') = on_connection loc (publish_with_connection H i opts raws) s"
    by (simp add: publish_to_aggregate_def give_def LAZY_CREATE_PARTITION_READY_ATTEMPTS_def
        del: publish_loop.simps)
  with on live' show ?thesis by (metis fst_conv snd_conv)
qed

interpretation single_dependable:
  dependable_store "sqlite_ops H global_strategy C" "store_ok H prev C tgt" "store_stream global_strategy tgt"
    "single_live H prev" "\<lambda>_. False"
  for H C prev tgt
proof unfold_locales
  fix s n i l s'
  assume ok: "store_ok H prev C tgt s" and live: "single_live H prev n s"
    and "st_load (sqlite_ops H global_strategy C) s i = (l, s')"
  from this(3) obtain r where "load_aggregate H global_strategy C i s = (r, s')" by (rule sqlite_load_cases)
  from single_load [OF ok live this] show "single_live H prev n s'" by simp
next
  fix s n i e s'
  assume ok: "store_ok H prev C tgt s" and live: "single_live H prev n s"
    and "st_load (sqlite_ops H global_strategy C) s i = (Inl e, s')"
  from this(3) obtain r where r: "load_aggregate H global_strategy C i s = (r, s')"
    "Inl e = map_err error_from_sqlite r" by (rule sqlite_load_cases)
  from single_load [OF ok live r(1)] r(2) show False by (cases r) auto
next
  fix s raws n i opts q s'
  assume ok: "store_ok H prev C tgt s" and live: "single_live H prev (length raws + n) s"
    and "st_publish (sqlite_ops H global_strategy C) s i opts raws = (q, s')"
  from this(3) obtain r where "publish_to_aggregate H global_strategy C i opts raws s = (r, s')"
    by (rule sqlite_publish_cases)
  from single_publish [OF ok live this] show "single_live H prev n s'" by simp
next
  fix s raws n i opts e s'
  assume ok: "store_ok H prev C tgt s" and live: "single_live H prev (length raws + n) s"
    and run: "st_publish (sqlite_ops H global_strategy C) s i opts raws = (Inl e, s')"
  from run obtain r where r: "publish_to_aggregate H global_strategy C i opts raws s = (r, s')"
    "Inl e = map_err error_from_sqlite r" by (rule sqlite_publish_cases)
  from single_publish [OF ok live r(1)] r(2)
  show "False \<or> (\<exists>x. raws \<noteq> [] \<and> expected_revision opts = Some x \<and>
      x \<noteq> stream_revision (store_stream global_strategy tgt s i) \<and>
      e = RevisionConflict x (stream_revision (store_stream global_strategy tgt s i)))"
    by (cases r) (auto split: if_splits)
qed

lemma open_target_generator:
  assumes "open_target H target s = (r, s')"
  shows "se_generator (ss_session s') = se_generator (ss_session s)"
proof -
  have "se_generator c' = se_generator c" if "open_event_store_connection H target c = (q, c')"
    for c c' :: "'b session" and q
  proof -
    have "conn.more c' = conn.more c"
      using bare_open [of H target] that unfolding conn_bare_def by blast
    then show ?thesis by (cases c; cases c') simp
  qed
  with assms show ?thesis by (fastforce simp: open_target_def Let_def split: prod.splits)
qed

lemma open_local_single:
  assumes calm: "calm H" and laws: "ulid_laws (h_ulid H)" and mono: "monotonic_generator (h_gen H) prev"
    and gen: "generates (h_gen H) (2 * n) g"
    and run: "open_local H B ue F root global_strategy (from_catalog g e) = (Inr C, s)"
  shows "C = local_catalog B ue F root global_strategy"
    and "store_ok H prev C (local_target B root global_strategy) s" and "single_live H prev n s"
    and "store_stream global_strategy (local_target B root global_strategy) s i = []"
proof -
  let ?C = "local_catalog B ue F root global_strategy" and ?tgt = "local_target B root global_strategy"
  let ?s0 = "from_catalog g e :: (global_partition, 'a) sqlite_store"
  from run show C: "C = ?C" by (auto simp: open_local_def result_simps)
  from run obtain loc where "ensure_partition_open H ?C GlobalPartition ?s0 = (Inr loc, s)"
    by (auto simp: open_local_def bootstrap_def global_strategy_def Let_def local_initialize_root_def
        result_simps)
  moreover note ok0 = local_store_new [OF laws mono, of B ue F root global_strategy g e]
  ultimately have ok: "store_ok H prev ?C ?tgt s" "rows_at s = rows_at ?s0" "table_at s loc"
    and conn: "connect_partition H ?C GlobalPartition (Local root) ?s0 = (Inr loc, s)"
    using ensure_partition_open_result [of H prev ?C ?tgt ?s0 GlobalPartition "Inr loc" s]
    by (auto simp: ensure_partition_open_def from_catalog_def seq_result_def give_def local_catalog_def
        path_for_partition_def global_strategy_def Let_def split: option.splits)
  from conn have con: "map_of (ss_connections s) GlobalPartition = Some loc"
    and "se_generator (ss_session s) = se_generator (ss_session ?s0)"
    by (auto simp: connect_partition_def prepare_connection_for_partition_def local_catalog_def
        name_to_record_def global_strategy_def Let_def result_simps map_of_upsert
        dest!: open_target_generator)
  then have g: "se_generator (ss_session s) = g" by (simp add: from_catalog_def)
  have rows: "rows_at s l = []" for l using ok(2) by (simp add: rows_at_def from_catalog_def)
  with ok(3) obtain d where "ss_databases s loc = Some d" "tbl_events d = Some []"
    by (force simp: table_at_def rows_at_def db_rows_def [abs_def] split: option.splits)
  with con g gen calm show "single_live H prev n s"
    by (auto simp: single_live_def session_live_def rows_below_def)
  show "store_ok H prev C ?tgt s" using ok(1) C by simp
  show "store_stream global_strategy ?tgt s i = []" by (simp add: store_stream_def rows)
qed

section \<open>The guarantees\<close>

text \<open>
  C2: a freshly opened local SQLite store passes its conformance suite. If opening the store in one
  file succeeded, the host fails no call and no other process writes to the file, then every test
  runs to its end, while the ULID generator has 34 values left: opening, migrations, transactions,
  conditional inserts and both retry loops together refuse nothing they should accept.
\<close>

theorem fresh_sqlite_store_conforms:
  assumes "calm H" and "ulid_laws (h_ulid H)" and "monotonic_generator (h_gen H) prev"
    and "generates (h_gen H) 34 g" and "env_ok T"
    and "open_local H B ue F root global_strategy (from_catalog g e) = (Inr C, s)"
    and "test \<in> set (store_test_suite T (sqlite_ops H global_strategy C))"
  shows "fst (test s) = Inr ()"
proof -
  have "generates (h_gen H) (2 * 17) g" using assms(4) by simp
  note open' = open_local_single [OF assms(1-3) this assms(6)]
  from single_dependable.suite_passes [OF assms(5,7) open'(2,3,4)]
  have "case fst (test s) of Inl p \<Rightarrow> tolerated (\<lambda>_. False) p | Inr _ \<Rightarrow> True" .
  then show ?thesis by (rule nothing_tolerated)
qed

text \<open>
  C9: two instances of the SQLite store on the same databases, each with its own connections and
  ULID generator, see each other's commits: no assertion of the shared-backing suite fails, and a
  revision that the other instance made stale is never accepted.
\<close>

theorem sqlite_stores_share:
  assumes "pair_ok H prev C tgt ab" and "plain_partitions S C" and "env_ok T"
    and "store_stream S tgt (fst ab) (test_id T) = []"
    and "test \<in> set (shared_store_test_suite T (first_ops (sqlite_ops H S C)) (second_ops (sqlite_ops H S C)))"
  shows "case fst (test ab) of
      Inr _ \<Rightarrow> True
    | Inl (AssertFailed m) \<Rightarrow> False
    | Inl (ExpectFailed m e) \<Rightarrow> \<forall>x a. e = RevisionConflict x a \<longrightarrow> x = a
    | Inl (WrongError e) \<Rightarrow> \<forall>x a. e \<noteq> RevisionConflict x a \<or> x = a"
  using sqlite_shared.shared_suite_passes [OF assms(3,5,1,2,4)]
  by (auto simp: not_stale_def split: sum.splits panic.splits)

section \<open>Surroundings for the witnesses\<close>

text \<open>A serialiser for the test event: the integer in unary, a separator, and the text.\<close>

definition demo_serde :: "store_validation_event serde" where
  "demo_serde =
     (let put = (\<lambda>v. replicate (unat (test_int_value v)) 0 @ 1 #
            map (\<lambda>c. word_of_nat (of_char c)) (test_string_value v));
          get = (\<lambda>b. \<lparr>test_string_value = map (\<lambda>w. char_of (unat w)) (tl (dropWhile ((=) 0) b)),
            test_int_value = word_of_nat (length (takeWhile ((=) 0) b))\<rparr>)
      in \<lparr>to_json = (\<lambda>v. Inr (put v)), from_json = (\<lambda>b. Inr (get b)),
          to_cbor = (\<lambda>v. Inr (put v)), from_cbor = (\<lambda>b. Inr (get b))\<rparr>)"

definition demo_env :: test_env where
  "demo_env = \<lparr>te_ulid = crockford_codec, te_serde = demo_serde, te_key = 7, te_draw = (\<lambda>n k. 0)\<rparr>"

lemma demo_env_ok: "env_ok demo_env"
proof -
  have zero: "takeWhile ((=) 0) (replicate n 0 @ 1 # bs) = replicate n (0 :: 8 word)"
    "dropWhile ((=) 0) (replicate n 0 @ 1 # bs) = 1 # bs" for n bs
    by (induction n) auto
  have "char_of (unat (word_of_nat (of_char c) :: 8 word)) = c" for c
    using nat_of_char_less_256 [of c] by (simp add: unat_of_nat)
  then have "serde_roundtrip demo_serde"
    by (simp add: serde_roundtrip_def demo_serde_def Let_def zero comp_def)
  then show ?thesis by (simp add: env_ok_def demo_env_def demo_serde_def Let_def)
qed

lemma counter_generates: "unat g + n < 2 ^ 128 \<Longrightarrow> generates counter_generator n g"
proof (induction n arbitrary: g)
  case (Suc n)
  have "unat (- 1 :: ulid) = 2 ^ 128 - 1" by (simp add: unsigned_minus_1_eq_mask mask_eq_exp_minus_1)
  with Suc.prems have "g \<noteq> - 1" by auto
  then have "1 + g \<noteq> 0" using max_word_wrap [of g] by (auto simp: add.commute)
  then have "unat (g + 1) = Suc (unat g)" by (simp add: unatSuc add.commute [of g])
  with Suc.IH [of "g + 1"] Suc.prems \<open>g \<noteq> - 1\<close> show ?case by (simp add: counter_generator_def)
qed simp

theorem memory_store_conforms_witness:
  "fst (causation demo_env (memory_ops crockford_codec counter_generator) (memory_new 0)) = Inr ()"
  by (rule memory_store_conforms [OF memory_demo_ok _ demo_env_ok])
    (simp_all add: memory_new_def counter_generates ms_stream_def store_test_suite_def)

lemma calm_calm_host: "calm calm_host"
  by (simp add: calm_def calm_host_def)

lemma demo_plain: "plain_partitions global_strategy demo_catalog"
  unfolding demo_catalog_def by (rule local_plain_partitions) simp

definition demo_opening where
  "demo_opening = open_local calm_host nibbles (\<lambda>_. ''invalid utf-8'') demo_files ''events.db''
     global_strategy (from_catalog 0 Json)"

lemma demo_parent: "create_parent demo_files n path = None"
  by (simp add: create_parent_def demo_files_def split: option.split)

lemma demo_opening_ok: "demo_opening = (Inr demo_catalog, snd demo_opening)"
proof -
  have "fst demo_opening = Inr demo_catalog"
    by (simp add: demo_opening_def open_local_def bootstrap_def ensure_partition_open_def
        connect_partition_def open_target_def open_event_store_connection_def connect_def
        prepare_local_connection_def query_required_string_def migrate_event_store_def
        migrate_schema_def current_schema_version_def upsert_version_def sql_run
        prepare_connection_for_partition_def name_to_record_def local_initialize_root_def
        local_catalog_def demo_parent path_for_partition_def target_location_def event_migrations_def
        global_strategy_def calm_host_def from_catalog_def empty_db_def
        EVENT_STORE_SCHEMA_VERSION_def pending_ddl_def demo_catalog_def)
  then show ?thesis by (metis prod.collapse)
qed

theorem fresh_sqlite_store_conforms_witness:
  "fst (stale_revision_detected_and_retry_succeeds demo_env
     (sqlite_ops calm_host global_strategy demo_catalog) (snd demo_opening)) = Inr ()"
  by (rule fresh_sqlite_store_conforms [OF calm_calm_host _ _ _ demo_env_ok
        demo_opening_ok [unfolded demo_opening_def]
        , folded demo_opening_def, where prev = id])
    (simp_all add: calm_host_def crockford_laws counter_generator_monotonic counter_generates
      store_test_suite_def)

lemma demo_store_empty:
  "store_stream global_strategy demo_target (demo_store demo_session) i = []"
  by (simp add: store_stream_def demo_target rows_at_def demo_store_def demo_session_def db_rows_def
      empty_db_def)

theorem sqlite_stores_share_witness:
  "case fst (stale_revision_conflicts_across_store_instances demo_env
      (first_ops (sqlite_ops calm_host global_strategy demo_catalog))
      (second_ops (sqlite_ops calm_host global_strategy demo_catalog))
      (demo_store demo_session, demo_store demo_session)) of
      Inr _ \<Rightarrow> True
    | Inl (AssertFailed m) \<Rightarrow> False
    | Inl (ExpectFailed m e) \<Rightarrow> \<forall>x a. e = RevisionConflict x a \<longrightarrow> x = a
    | Inl (WrongError e) \<Rightarrow> \<forall>x a. e \<noteq> RevisionConflict x a \<or> x = a"
proof (rule sqlite_stores_share [OF _ demo_plain demo_env_ok])
  show "pair_ok calm_host id demo_catalog demo_target (demo_store demo_session, demo_store demo_session)"
    by (simp add: pair_ok_def demo_start_ok)
qed (simp_all add: shared_store_test_suite_def demo_store_empty)

end
