(* ===== verification/BenchmarkStores.thy ===== *)
theory BenchmarkStores
  imports ConformanceStores
begin

text \<open>
  The benchmarks of \<^verbatim>\<open>Benchmarks\<close> on the stores of the library: on the in-memory store and on
  a single SQLite file the suite runs to its end within a known number of events.
\<close>

text \<open>
  C17: the benchmark suite finishes on the in-memory store. For any samples that Criterion asks
  for and any order in which the tasks of a benchmark run, no call fails, no task panics and no
  writer is left without events, provided that in each group the generator can mint two ULIDs for
  each of the events that the group publishes.
\<close>

theorem memory_benchmarks_finish:
  assumes "bench_ok B" and "memory_ok U gen prev factory"
    and "\<forall>c\<in>set (suite_events B name levels). generates gen (2 * c) (ms_generator factory)"
  shows "fst (store_bench_suite B (memory_ops U gen) factory name levels s) = Inr ()"
proof -
  from assms(3) have "\<forall>c\<in>set (suite_events B name levels). memory_live gen c factory"
    by (simp add: memory_live_def)
  from memory_dependable.bench_suite_runs [OF assms(1,2) this]
  have "case fst (store_bench_suite B (memory_ops U gen) factory name levels s) of
      Inl p \<Rightarrow> tolerated (\<lambda>_. False) p | Inr _ \<Rightarrow> True" .
  then show ?thesis by (rule nothing_tolerated)
qed

text \<open>The same of a SQLite store in one file, freshly opened for each group.\<close>

lemma sqlite_benchmarks_finish:
  assumes "bench_ok B" and "calm H" and "ulid_laws (h_ulid H)" and "monotonic_generator (h_gen H) prev"
    and "open_local H D ue F root global_strategy (from_catalog g e) = (Inr C, factory)"
    and "\<forall>c\<in>set (suite_events B name levels). generates (h_gen H) (2 * c) g"
  shows "fst (store_bench_suite B (sqlite_ops H global_strategy C) factory name levels s) = Inr ()"
proof -
  note opened = open_local_single [OF assms(2-4) _ assms(5)]
  have "C = local_catalog D ue F root global_strategy"
    and "store_ok H prev C (local_target D root global_strategy) factory"
    using opened(1,2) [of 0] by simp_all
  moreover have "\<forall>c\<in>set (suite_events B name levels). single_live H prev c factory"
    using opened(3) assms(6) by blast
  ultimately have "case fst (store_bench_suite B (sqlite_ops H global_strategy C) factory name levels s) of
      Inl p \<Rightarrow> tolerated (\<lambda>_. False) p | Inr _ \<Rightarrow> True"
    using single_dependable.bench_suite_runs [OF assms(1)] by blast
  then show ?thesis by (rule nothing_tolerated)
qed

section \<open>Surroundings for the witnesses\<close>

definition demo_bench :: bench_env where
  "demo_bench = \<lparr>be_ulid = crockford_codec, be_serde = demo_serde, be_draw = (\<lambda>n k. 0),
     be_samples = (\<lambda>_. [1]), be_order = (\<lambda>n. rev [0..<n])\<rparr>"

lemma demo_bench_ok: "bench_ok demo_bench"
  by (simp add: bench_ok_def demo_bench_def demo_serde_def Let_def)

theorem memory_benchmarks_finish_witness:
  "fst (store_bench_suite demo_bench (memory_ops crockford_codec counter_generator) (memory_new 0)
     ''memory_store'' [2, 4] \<lparr>bs_store = memory_new 0, bs_counter = 0, bs_built = 0\<rparr>) = Inr ()"
  by (rule memory_benchmarks_finish [OF demo_bench_ok memory_demo_ok])
    (simp add: suite_events_def creation_events_def steady_events_def partition_write_events_def
      mixed_events_def iterations_def demo_bench_def BATCH_SIZES_def LOAD_EVENT_COUNTS_def
      memory_new_def counter_generates)

end
