(* ===== verification/PublishSteps.thy ===== *)
theory PublishSteps
  imports SqlPublish
begin

text \<open>
  The publish path of \<^verbatim>\<open>crates/wee-events-sqlite/src/event_store/store.rs\<close> on one connection
  again, one statement of the transaction at a time, for programs in which other tasks run
  between two statements. Left alone, the steps add up to \<open>publish_with_connection\<close>.
\<close>

section \<open>The steps\<close>

text \<open>
  Where a publish is: before a try (with the number of the attempt and of the busy tries used up),
  inside its transaction with the events that are left and those recorded, or at its end.
\<close>

datatype publish_phase =
    Trying nat nat
  | Inserting nat nat nat "raw_event list" "recorded_event list"
  | Answered "sqlite_error + change_set"

fun answered :: "publish_phase \<Rightarrow> bool" where
  "answered (Answered r) = True"
| "answered w = False"

text \<open>The rest of the bodies of both loops, after a try.\<close>

fun after_try ::
  "'g host \<Rightarrow> publish_options \<Rightarrow> nat \<Rightarrow> nat \<Rightarrow> publish_attempt_error + change_set \<Rightarrow> 'g session \<Rightarrow>
    publish_phase \<times> 'g session" where
  "after_try H opts attempt busy (Inr cs) s = (Answered (Inr cs), s)"
| "after_try H opts attempt busy (Inl (Store e)) s =
     (if is_sqlite_busy e \<and> busy < MAX_BUSY_RETRIES
      then (Trying attempt (Suc busy), sleep (busy_retry_delay H busy s))
      else (Answered (Inl e), s))"
| "after_try H opts attempt busy (Inl (Conflict c)) s =
     (if expected_revision opts \<noteq> None
      then (Answered (Inl (WeeEvents (RevisionConflict (pc_expected c) (pc_actual c)))), s)
      else if attempt + 1 < MAX_AUTO_RETRIES
      then (Trying (Suc attempt) 0, sleep (retry_delay H attempt s))
      else (Answered (Inl (WeeEvents (retry_exhausted MAX_AUTO_RETRIES (conflict_diagnostics H c)))), s))"

text \<open>SQLite refuses to begin a transaction inside a transaction.\<close>

definition nested_transaction :: sqlite_error where
  "nested_transaction =
     Libsql (SqliteFailure 1 ''cannot start a transaction within a transaction'')"

fun write_step ::
  "'g host \<Rightarrow> aggregate_id \<Rightarrow> publish_options \<Rightarrow> raw_event list \<Rightarrow> publish_phase \<Rightarrow> 'g session \<Rightarrow>
    publish_phase \<times> 'g session" where
  "write_step H i opts events (Trying attempt busy) s =
     (if c_saved s \<noteq> None
      then after_try H opts attempt busy (Inl (Store nested_transaction)) (s\<lparr>c_calls := Suc (c_calls s)\<rparr>)
      else case begin_transaction H s of
          (Inl e, s1) \<Rightarrow> after_try H opts attempt busy (Inl (Store e)) s1
        | (Inr _, s1) \<Rightarrow> (Inserting attempt busy 0 events [], s1))"
| "write_step H i opts events (Inserting attempt busy index (raw # rest) recorded) s =
     (case insert_events H i opts (options_metadata opts) index [raw] recorded s of
        (Inl e, s1) \<Rightarrow> after_try H opts attempt busy (Inl e) (rollback s1)
      | (Inr recorded', s1) \<Rightarrow> (Inserting attempt busy (Suc index) rest recorded', s1))"
| "write_step H i opts events (Inserting attempt busy index [] recorded) s =
     (case commit H s of
        (Inl e, s1) \<Rightarrow> after_try H opts attempt busy (Inl (Store e)) (rollback s1)
      | (Inr _, s1) \<Rightarrow>
          after_try H opts attempt busy
            (case last_opt recorded of
               None \<Rightarrow> Inl (Store (WeeEvents (Custom (Panicked
                 ''recorded is non-empty because events was non-empty''))))
             | Some e \<Rightarrow> Inr \<lparr>cs_aggregate_id = i, cs_revision = re_revision e, cs_events = recorded\<rparr>) s1)"
| "write_step H i opts events (Answered r) s = (Answered r, s)"

section \<open>A publish left alone\<close>

definition writes ::
  "'g host \<Rightarrow> aggregate_id \<Rightarrow> publish_options \<Rightarrow> raw_event list \<Rightarrow> publish_phase \<times> 'g session \<Rightarrow>
    publish_phase \<times> 'g session \<Rightarrow> bool" where
  "writes H i opts events x y \<longleftrightarrow> \<not> answered (fst x) \<and> y = write_step H i opts events (fst x) (snd x)"

abbreviation written where
  "written H i opts events \<equiv> (writes H i opts events)\<^sup>*\<^sup>*"

lemma written_step:
  "\<not> answered w \<Longrightarrow> written H i opts events (write_step H i opts events w s) z \<Longrightarrow>
    written H i opts events (w, s) z"
  by (rule converse_rtranclp_into_rtranclp) (simp_all add: writes_def)

text \<open>The steps are deterministic, so a run that has ended is the run.\<close>

lemma written_ends:
  assumes "written H i opts events x y" and "written H i opts events x z" and "answered (fst z)"
  shows "written H i opts events y z"
  using assms(1,2)
proof (induction rule: converse_rtranclp_induct)
  case (step x y')
  from step.prems show ?case
  proof (cases rule: converse_rtranclpE)
    case base
    with step.hyps(1) assms(3) show ?thesis by (simp add: writes_def)
  next
    case (step w)
    with \<open>writes H i opts events x y'\<close> have "w = y'" by (simp add: writes_def)
    with step(2) \<open>written H i opts events y' z \<Longrightarrow> _\<close> show ?thesis by simp
  qed
qed simp

lemma written_answered:
  assumes "written H i opts events (Answered r, s) z"
  shows "z = (Answered r, s)"
  using assms by (cases rule: converse_rtranclpE) (simp_all add: writes_def)

text \<open>The insert loop is its iterations.\<close>

lemma report_conflict_fails [simp]: "report_conflict H i opts u t \<noteq> (Inr x, t')"
  by (auto simp: report_conflict_def seq_result_def give_def Let_def split: prod.splits sum.splits)

lemma insert_events_single:
  "insert_events H i opts md k (raw # rest) recorded s =
     (case insert_events H i opts md k [raw] recorded s of
        (Inl e, s1) \<Rightarrow> (Inl e, s1)
      | (Inr recorded', s1) \<Rightarrow> insert_events H i opts md (Suc k) rest recorded' s1)"
  by (auto simp: seq_result_def give_def split: prod.split sum.split)

lemma written_inserts:
  assumes "insert_events H i opts (options_metadata opts) k raws recorded s = (r, t)"
  shows "written H i opts events (Inserting a b k raws recorded, s)
    (case r of
       Inl e \<Rightarrow> after_try H opts a b (Inl e) (rollback t)
     | Inr recorded' \<Rightarrow> (Inserting a b (k + length raws) [] recorded', t))"
  using assms
proof (induction raws arbitrary: k recorded s)
  case Nil
  then show ?case by (auto simp: give_def)
next
  case (Cons raw rest)
  obtain q u where q: "insert_events H i opts (options_metadata opts) k [raw] recorded s = (q, u)" by fastforce
  show ?case
  proof (cases q)
    case (Inl e)
    with Cons.prems q have "r = Inl e" "t = u" unfolding insert_events_single [of _ _ _ _ _ _ rest] by auto
    with q Inl show ?thesis by (intro written_step) (simp_all del: insert_events.simps)
  next
    case (Inr recorded')
    with Cons.prems q have "insert_events H i opts (options_metadata opts) (Suc k) rest recorded' u = (r, t)"
      unfolding insert_events_single [of _ _ _ _ _ _ rest] by simp
    from Cons.IH [OF this] q Inr show ?thesis
      by (intro written_step) (simp_all del: insert_events.simps cong: sum.case_cong)
  qed
qed

lemma written_try:
  assumes "c_saved s = None" and "try_publish_once H i opts events s = (r, t)"
  shows "written H i opts events (Trying a b, s) (after_try H opts a b r t)"
proof -
  obtain x s1 where x: "begin_transaction H s = (x, s1)" by fastforce
  show ?thesis
  proof (cases x)
    case (Inl e)
    with assms x show ?thesis by (intro written_step) (simp_all add: try_publish_once_def)
  next
    case (Inr u)
    obtain y s2 where y: "insert_events H i opts (options_metadata opts) 0 events [] s1 = (y, s2)" by fastforce
    note run = written_inserts [OF y, of events a b]
    have first: "written H i opts events (Trying a b, s) z"
      if "written H i opts events (Inserting a b 0 events [], s1) z" for z
      using that assms(1) x Inr by (intro written_step) simp_all
    show ?thesis
    proof (cases y)
      case (Inl e)
      with assms(2) x \<open>x = Inr u\<close> y have "r = Inl e" "t = rollback s2"
        by (auto simp: try_publish_once_def)
      with run Inl show ?thesis by (intro first) simp
    next
      case (Inr recorded)
      obtain v s3 where v: "commit H s2 = (v, s3)" by fastforce
      have "written H i opts events (Inserting a b (length events) [] recorded, s2) (after_try H opts a b r t)"
        using assms(2) x \<open>x = Inr u\<close> y Inr v
        by (intro written_step) (auto simp: try_publish_once_def split: sum.splits option.splits)
      with run Inr show ?thesis by (intro first) simp
    qed
  qed
qed

lemma written_busy:
  assumes ok: "session_ok H prev s" and ne: "events \<noteq> []"
  shows "busy_loop H i opts events n b (r, t) = (r', t') \<Longrightarrow> b + n = MAX_BUSY_RETRIES \<Longrightarrow>
    attempt_outcome H prev i opts events s r t \<Longrightarrow>
    written H i opts events (after_try H opts a b r t) (after_try H opts a MAX_BUSY_RETRIES r' t')"
proof (induction n arbitrary: b r t)
  case 0
  then show ?case by simp
next
  case (Suc n)
  show ?case
  proof (cases "still_busy r")
    case True
    then obtain e where e: "r = Inl (Store e)" "is_sqlite_busy e" by (auto simp: still_busy_def)
    let ?t = "sleep (busy_retry_delay H b t)"
    obtain q u where q: "try_publish_once H i opts events ?t = (q, u)" by fastforce
    from Suc.prems(3) e have t: "c_db ?t = c_db s" "session_ok H prev ?t"
      by (auto simp: attempt_outcome_def session_ok_def)
    with try_publish_once_outcome [OF t(2) ne q] attempt_outcome_cong [OF t(1)]
    have "attempt_outcome H prev i opts events s q u" by simp
    moreover have "busy_loop H i opts events n (Suc b) (q, u) = (r', t')"
      using Suc.prems(1) e q by simp
    ultimately have IH: "written H i opts events (after_try H opts a (Suc b) q u)
        (after_try H opts a MAX_BUSY_RETRIES r' t')"
      using Suc.IH Suc.prems(2) by simp
    have "c_saved ?t = None" using t(2) by (simp add: session_ok_def)
    from written_try [OF this q, of a "Suc b"] IH
    have "written H i opts events (Trying a (Suc b), ?t) (after_try H opts a MAX_BUSY_RETRIES r' t')"
      by (rule rtranclp_trans)
    with e Suc.prems(2) show ?thesis by simp
  next
    case False
    then have "(r', t') = (r, t)"
      using Suc.prems(1)
      by (auto simp: still_busy_def split: sum.splits publish_attempt_error.splits if_splits)
    moreover have "after_try H opts a b r t = after_try H opts a MAX_BUSY_RETRIES r t"
      using False by (cases r rule: after_try.cases [of "(H, opts, a, b, _, t)"])
        (auto simp: still_busy_def split: sum.splits publish_attempt_error.splits)
    ultimately show ?thesis by simp
  qed
qed

lemma written_attempts:
  assumes ne: "events \<noteq> []" and m: "m = (if expected_revision opts = None then MAX_AUTO_RETRIES else 1)"
  shows "attempt_loop H i opts events m n lc s = (r, t) \<Longrightarrow> session_ok H prev s \<Longrightarrow> 0 < n \<Longrightarrow> n \<le> m \<Longrightarrow>
    written H i opts events (Trying (m - n) 0, s) (Answered r, t)"
proof (induction n arbitrary: lc s)
  case (Suc n)
  let ?a = "m - Suc n"
  obtain q0 t0 where t0: "try_publish_once H i opts events s = (q0, t0)" by fastforce
  obtain q u where q: "busy_loop H i opts events MAX_BUSY_RETRIES 0 (q0, t0) = (q, u)" by fastforce
  have "c_saved s = None" using Suc.prems(2) by (simp add: session_ok_def)
  note once = written_try [OF this t0, of ?a 0]
  have T: "attempt_outcome H prev i opts events s q0 t0"
    using try_publish_once_outcome [OF Suc.prems(2) ne t0] by simp
  note Q = busy_loop_outcome [OF ne q T]
  have to: "written H i opts events (Trying ?a 0, s) (after_try H opts ?a MAX_BUSY_RETRIES q u)"
    using once written_busy [OF Suc.prems(2) ne q _ T, of ?a] by (auto intro: rtranclp_trans)
  note run = Suc.prems(1) [simplified, unfolded t0 Let_def, unfolded q, simplified]
  show ?case
  proof (cases "\<exists>c. q = Inl (Conflict c) \<and> expected_revision opts = None")
    case True
    then obtain c where c: "q = Inl (Conflict c)" "expected_revision opts = None" by blast
    show ?thesis
    proof (cases "n = 0")
      case True
      with run c to Suc.prems(4) m show ?thesis by (simp add: conflict_diagnostics_def)
    next
      case False
      let ?u = "sleep (retry_delay H ?a u)"
      from Suc.prems(4) False have a: "Suc ?a < m" "Suc ?a = m - n" by auto
      from Q c have "session_ok H prev ?u" by (auto simp: attempt_outcome_def session_ok_def)
      moreover from run c a(1) have "\<exists>lc. attempt_loop H i opts events m n lc ?u = (r, t)" by auto
      ultimately have "written H i opts events (Trying (m - n) 0, ?u) (Answered r, t)"
        using Suc.IH False Suc.prems(4) by fastforce
      with to c a m show ?thesis by (simp add: rtranclp_trans)
    qed
  next
    case False
    then have "after_try H opts ?a MAX_BUSY_RETRIES q u = (Answered r, t)"
      using run by (auto split: sum.splits publish_attempt_error.splits)
    with to show ?thesis by simp
  qed
qed simp

text \<open>Left alone, the steps are the publish.\<close>

lemma publish_written:
  assumes "session_ok H prev s" and "events \<noteq> []"
    and "publish_with_connection H i opts events s = (r, t)"
  shows "written H i opts events (Trying 0 0, s) (Answered r, t)"
proof -
  let ?m = "if expected_revision opts = None then MAX_AUTO_RETRIES else 1"
  from assms(2,3) have "attempt_loop H i opts events ?m ?m None s = (r, t)"
    by (simp add: publish_with_connection_def Let_def)
  from written_attempts [OF assms(2) refl this assms(1)] show ?thesis
    by (simp add: MAX_AUTO_RETRIES_def)
qed

lemma written_publish:
  assumes "session_ok H prev s" and "events \<noteq> []"
    and "written H i opts events (Trying 0 0, s) (Answered r, t)"
  shows "publish_with_connection H i opts events s = (r, t)"
proof -
  obtain q u where q: "publish_with_connection H i opts events s = (q, u)" by fastforce
  from written_answered [OF written_ends [OF publish_written [OF assms(1,2) q] assms(3)]] q
  show ?thesis by simp
qed

end
