(* ===== verification/BenchmarkConcurrent.thy ===== *)
theory BenchmarkConcurrent
  imports BenchmarkStores PublishSteps
begin

text \<open>
  The contention benchmark of \<^verbatim>\<open>crates/wee-events/src/bench_suite.rs\<close> (\<open>bench_write_contention\<close>
  and \<open>drain\<close>) as the concurrent program it is: the main task spawns \<open>n\<close> writers into a \<open>JoinSet\<close>,
  each waits at the barrier and then publishes to the one aggregate, and the main task joins them.
  The aggregate has been seeded, so its partition's connection is open, and looking it up changes
  nothing; a writer waits for the connection's mutex, holds it during its publish, statement by
  statement, and releases it. Between any two steps of a task any other may run.
\<close>

section \<open>The tasks\<close>

datatype writer =
    Spawned
  | AtBarrier
  | AwaitingLock
  | Publishing publish_phase
  | Succeeded change_set
  | Panicking error
  | Reopening  \<comment> \<open>after an error for a namespace that is not ready; not followed further\<close>
  | Joined change_set

datatype bench_main =
    Spawning nat  \<comment> \<open>the number of writers spawned\<close>
  | Draining
  | Drained
  | Aborted panic

record 'g contention =
  cn_session :: "'g session"  \<comment> \<open>the connection\<close>
  cn_holder :: "nat option"  \<comment> \<open>the writer that holds its mutex\<close>
  cn_main :: bench_main
  cn_writers :: "nat \<Rightarrow> writer option"

definition contention_start :: "'g session \<Rightarrow> 'g contention" where
  "contention_start s =
     \<lparr>cn_session = s, cn_holder = None, cn_main = Spawning 0, cn_writers = (\<lambda>_. None)\<rparr>"

text \<open>What a writer does with the answer of its attempt.\<close>

fun writer_answered :: "sqlite_error + change_set \<Rightarrow> writer" where
  "writer_answered (Inr changes) = Succeeded changes"
| "writer_answered (Inl e) =
     (if is_lazy_create_partition_not_ready e then Reopening else Panicking (error_from_sqlite e))"

definition set_writer :: "nat \<Rightarrow> writer \<Rightarrow> 'g contention \<Rightarrow> 'g contention" where
  "set_writer t k W = W\<lparr>cn_writers := (cn_writers W)(t \<mapsto> k)\<rparr>"

inductive contention_step ::
  "'g host \<Rightarrow> aggregate_id \<Rightarrow> nat \<Rightarrow> raw_event list \<Rightarrow> 'g contention \<Rightarrow> 'g contention \<Rightarrow> bool"
  for H i n raw where
  spawned: "cn_main W = Spawning k \<Longrightarrow> k < n \<Longrightarrow>
    contention_step H i n raw W (set_writer k Spawned (W\<lparr>cn_main := Spawning (Suc k)\<rparr>))"
| all_spawned: "cn_main W = Spawning n \<Longrightarrow> contention_step H i n raw W (W\<lparr>cn_main := Draining\<rparr>)"
| arrived: "cn_writers W t = Some Spawned \<Longrightarrow> contention_step H i n raw W (set_writer t AtBarrier W)"
| released: "cn_writers W t = Some AtBarrier \<Longrightarrow>
    \<forall>k<n. cn_writers W k \<notin> {None, Some Spawned} \<Longrightarrow>
    contention_step H i n raw W (set_writer t AwaitingLock W)"
| locked: "cn_writers W t = Some AwaitingLock \<Longrightarrow> cn_holder W = None \<Longrightarrow>
    contention_step H i n raw W (set_writer t (Publishing (Trying 0 0)) (W\<lparr>cn_holder := Some t\<rparr>))"
| published: "cn_writers W t = Some (Publishing w) \<Longrightarrow> \<not> answered w \<Longrightarrow>
    write_step H i default_options raw w (cn_session W) = (w', s') \<Longrightarrow>
    contention_step H i n raw W (set_writer t (Publishing w') (W\<lparr>cn_session := s'\<rparr>))"
| unlocked: "cn_writers W t = Some (Publishing (Answered r)) \<Longrightarrow>
    contention_step H i n raw W (set_writer t (writer_answered r) (W\<lparr>cn_holder := None\<rparr>))"
| joined: "cn_main W = Draining \<Longrightarrow> cn_writers W t = Some (Succeeded changes) \<Longrightarrow>
    contention_step H i n raw W (set_writer t (Joined changes) W)"
| panicked: "cn_main W = Draining \<Longrightarrow> cn_writers W t = Some (Panicking e) \<Longrightarrow>
    contention_step H i n raw W (W\<lparr>cn_main := Aborted (ExpectFailed PUBLISHED e)\<rparr>)"
| drained: "cn_main W = Draining \<Longrightarrow> \<forall>k<n. \<exists>changes. cn_writers W k = Some (Joined changes) \<Longrightarrow>
    contention_step H i n raw W (W\<lparr>cn_main := Drained\<rparr>)"

abbreviation contention_runs where
  "contention_runs H i n raw \<equiv> (contention_step H i n raw)\<^sup>*\<^sup>*"

lemma set_writer_simps [simp]:
  "cn_session (set_writer t k W) = cn_session W" "cn_holder (set_writer t k W) = cn_holder W"
  "cn_main (set_writer t k W) = cn_main W" "cn_writers (set_writer t k W) = (cn_writers W)(t \<mapsto> k)"
  by (simp_all add: set_writer_def)

section \<open>The invariant\<close>

fun writer_changes :: "writer option \<Rightarrow> change_set option" where
  "writer_changes (Some (Succeeded changes)) = Some changes"
| "writer_changes (Some (Joined changes)) = Some changes"
| "writer_changes k = None"

text \<open>The changes of the writers that have published and released the mutex.\<close>

definition changes_of :: "'g contention \<Rightarrow> nat \<Rightarrow> change_set option" where
  "changes_of W t = writer_changes (cn_writers W t)"

definition batches :: "'g contention \<Rightarrow> nat list \<Rightarrow> recorded_event list" where
  "batches W order = concat (map (\<lambda>t. cs_events (the (changes_of W t))) order)"

text \<open>
  \<open>c\<close> is the connection as the last writer left it; whoever holds the mutex has made the steps of
  its publish from there, and nobody else is publishing.
\<close>

definition holds_from ::
  "'g host \<Rightarrow> aggregate_id \<Rightarrow> raw_event list \<Rightarrow> 'g session \<Rightarrow> 'g contention \<Rightarrow> bool" where
  "holds_from H i raw c W \<longleftrightarrow>
     (case cn_holder W of
        None \<Rightarrow> cn_session W = c
      | Some t \<Rightarrow> \<exists>w. cn_writers W t = Some (Publishing w) \<and>
          written H i default_options raw (Trying 0 0, c) (w, cn_session W)) \<and>
     (\<forall>t w. cn_writers W t = Some (Publishing w) \<longrightarrow> cn_holder W = Some t)"

text \<open>The connection after the writers of \<open>order\<close>: one batch of each has been appended.\<close>

definition left_by ::
  "'g host \<Rightarrow> ('g \<Rightarrow> ulid) \<Rightarrow> aggregate_id \<Rightarrow> nat \<Rightarrow> raw_event list \<Rightarrow> 'g session \<Rightarrow>
    'g contention \<Rightarrow> nat list \<Rightarrow> 'g session \<Rightarrow> bool" where
  "left_by H prev i n raw s W order c \<longleftrightarrow>
     session_ok H prev c \<and>
     session_stream c = (session_stream s)(i := session_stream s i @ batches W order) \<and>
     (session_live H prev (n * length raw) s \<longrightarrow>
        session_live H prev ((n - length order) * length raw) c) \<and>
     distinct order \<and> set order = {t. changes_of W t \<noteq> None} \<and>
     (\<forall>t changes. changes_of W t = Some changes \<longrightarrow>
        list_all2 (records default_options) raw (cs_events changes))"

definition exclusive ::
  "'g host \<Rightarrow> ('g \<Rightarrow> ulid) \<Rightarrow> aggregate_id \<Rightarrow> nat \<Rightarrow> raw_event list \<Rightarrow> 'g session \<Rightarrow>
    'g contention \<Rightarrow> bool" where
  "exclusive H prev i n raw s W \<longleftrightarrow>
     (\<exists>c order. left_by H prev i n raw s W order c \<and> holds_from H i raw c W)"

definition all_known :: "nat \<Rightarrow> 'g contention \<Rightarrow> bool" where
  "all_known n W \<longleftrightarrow>
     (\<forall>t. cn_writers W t \<noteq> None \<longleftrightarrow> t < (case cn_main W of Spawning k \<Rightarrow> k | _ \<Rightarrow> n)) \<and>
     (\<forall>k. cn_main W = Spawning k \<longrightarrow> k \<le> n) \<and>
     (cn_main W = Drained \<longrightarrow> (\<forall>t<n. \<exists>changes. cn_writers W t = Some (Joined changes)))"

lemma all_known_less: "all_known n W \<Longrightarrow> cn_writers W t = Some k \<Longrightarrow> t < n"
  unfolding all_known_def by (cases "cn_main W") (auto dest: less_le_trans)

text \<open>A writer fails for a reason, and never because of a stale revision.\<close>

definition bad_luck :: "bool \<Rightarrow> error \<Rightarrow> bool" where
  "bad_luck live e \<longleftrightarrow> \<not> live \<and> (\<forall>x a. e \<noteq> RevisionConflict x a)"

definition failures_ok :: "bool \<Rightarrow> 'g contention \<Rightarrow> bool" where
  "failures_ok live W \<longleftrightarrow>
     (\<forall>t e. cn_writers W t = Some (Panicking e) \<longrightarrow> bad_luck live e) \<and>
     (\<forall>t. cn_writers W t = Some Reopening \<longrightarrow> \<not> live) \<and>
     (\<forall>p. cn_main W = Aborted p \<longrightarrow> (\<exists>e. p = ExpectFailed PUBLISHED e \<and> bad_luck live e))"

lemma exclusive_step:
  assumes "exclusive H prev i n raw s W" and "changes_of V = changes_of W"
    and "\<And>c. holds_from H i raw c W \<Longrightarrow> holds_from H i raw c V"
  shows "exclusive H prev i n raw s V"
  using assms unfolding exclusive_def left_by_def batches_def by metis

lemma changes_of_set:
  "changes_of W t = writer_changes (Some k) \<Longrightarrow> changes_of (set_writer t k W) = changes_of W"
  by (auto simp: changes_of_def fun_eq_iff)

lemma changes_of_update [simp]:
  "changes_of (W\<lparr>cn_main := m\<rparr>) = changes_of W" "changes_of (W\<lparr>cn_holder := h\<rparr>) = changes_of W"
  "changes_of (W\<lparr>cn_session := c\<rparr>) = changes_of W"
  by (simp_all add: changes_of_def fun_eq_iff)

text \<open>A step that neither starts nor ends a publish, of a writer that is not publishing.\<close>

lemma holds_from_set:
  assumes "holds_from H i raw c W" and "\<And>w. cn_writers W t \<noteq> Some (Publishing w)" and "\<And>w. k \<noteq> Publishing w"
  shows "holds_from H i raw c (set_writer t k W)"
  using assms unfolding holds_from_def by (cases "cn_holder W") auto

lemma holds_from_main [simp]: "holds_from H i raw c (W\<lparr>cn_main := m\<rparr>) = holds_from H i raw c W"
  by (simp add: holds_from_def split: option.split)

lemma exclusive_set:
  assumes "exclusive H prev i n raw s W" and "\<And>w. cn_writers W t \<noteq> Some (Publishing w)"
    and "\<And>w. k \<noteq> Publishing w" and "changes_of W t = writer_changes (Some k)"
  shows "exclusive H prev i n raw s (set_writer t k W)"
  using exclusive_step [OF assms(1) changes_of_set [OF assms(4)] holds_from_set [OF _ assms(2,3)]] .

lemma exclusive_main: "exclusive H prev i n raw s (W\<lparr>cn_main := m\<rparr>) = exclusive H prev i n raw s W"
  by (simp add: exclusive_def left_by_def batches_def)

text \<open>The steps in which a writer takes the mutex, uses it and gives it back.\<close>

lemma exclusive_locked:
  assumes "exclusive H prev i n raw s W" and "cn_writers W t = Some AwaitingLock" and "cn_holder W = None"
  shows "exclusive H prev i n raw s (set_writer t (Publishing (Trying 0 0)) (W\<lparr>cn_holder := Some t\<rparr>))"
proof (rule exclusive_step [OF assms(1)])
  show "changes_of (set_writer t (Publishing (Trying 0 0)) (W\<lparr>cn_holder := Some t\<rparr>)) = changes_of W"
    using assms(2) by (subst changes_of_set) (simp_all, simp add: changes_of_def)
next
  fix c
  assume "holds_from H i raw c W"
  with assms(3) show "holds_from H i raw c (set_writer t (Publishing (Trying 0 0)) (W\<lparr>cn_holder := Some t\<rparr>))"
    by (auto simp: holds_from_def)
qed

lemma exclusive_published:
  assumes "exclusive H prev i n raw s W" and "cn_writers W t = Some (Publishing w)"
    and "\<not> answered w" and "write_step H i default_options raw w (cn_session W) = (w', s')"
  shows "exclusive H prev i n raw s (set_writer t (Publishing w') (W\<lparr>cn_session := s'\<rparr>))"
proof (rule exclusive_step [OF assms(1)])
  show "changes_of (set_writer t (Publishing w') (W\<lparr>cn_session := s'\<rparr>)) = changes_of W"
    using assms(2) by (subst changes_of_set) (simp_all, simp add: changes_of_def)
next
  fix c
  assume c: "holds_from H i raw c W"
  with assms(2) have holder: "cn_holder W = Some t"
    and run: "written H i default_options raw (Trying 0 0, c) (w, cn_session W)"
    by (auto simp: holds_from_def)
  have "writes H i default_options raw (w, cn_session W) (w', s')"
    using assms(3,4) by (simp add: writes_def)
  with run have "written H i default_options raw (Trying 0 0, c) (w', s')"
    by (rule rtranclp.rtrancl_into_rtrancl)
  with c holder show "holds_from H i raw c (set_writer t (Publishing w') (W\<lparr>cn_session := s'\<rparr>))"
    by (auto simp: holds_from_def split: if_splits)
qed

lemma exclusive_unlocked:
  assumes "exclusive H prev i n raw s W" and "all_known n W" and "raw \<noteq> []"
    and t: "cn_writers W t = Some (Publishing (Answered r))"
  shows "exclusive H prev i n raw s (set_writer t (writer_answered r) (W\<lparr>cn_holder := None\<rparr>))"
    and "r = Inl e \<Longrightarrow> bad_luck (session_live H prev (n * length raw) s) (error_from_sqlite e)"
proof -
  let ?V = "set_writer t (writer_answered r) (W\<lparr>cn_holder := None\<rparr>)"
  let ?live = "session_live H prev (n * length raw) s"
  from assms(1) obtain c order where c: "left_by H prev i n raw s W order c" "holds_from H i raw c W"
    unfolding exclusive_def by blast
  from c(2) t have holder: "cn_holder W = Some t"
    and run: "written H i default_options raw (Trying 0 0, c) (Answered r, cn_session W)"
    by (auto simp: holds_from_def)
  from c(1) have ok: "session_ok H prev c" by (simp add: left_by_def)
  note pub = written_publish [OF ok assms(3) run]
  note P = publish_with_connection_outcome [OF ok pub, THEN conjunct1]
  have "t < n" by (rule all_known_less [OF assms(2) t])
  moreover have fresh: "t \<notin> set order" using c(1) t by (simp add: left_by_def changes_of_def)
  moreover have "set order \<subseteq> {..<n}"
  proof
    fix u assume "u \<in> set order"
    with c(1) have "writer_changes (cn_writers W u) \<noteq> None" unfolding left_by_def changes_of_def by blast
    then have "cn_writers W u \<noteq> None" by (cases "cn_writers W u") auto
    with all_known_less [OF assms(2)] show "u \<in> {..<n}" by auto
  qed
  ultimately have "card (insert t (set order)) \<le> n"
    using card_mono [of "{..<n}" "insert t (set order)"] by simp
  moreover have "distinct order" using c(1) by (simp add: left_by_def)
  ultimately have room: "length order < n" using fresh by (simp add: distinct_card)
  then have "(n - length order) * length raw = length raw + (n - Suc (length order)) * length raw"
    by (cases "n - length order") (auto simp: Suc_diff_Suc [symmetric])
  with c(1) have live: "session_live H prev (length raw + (n - Suc (length order)) * length raw) c" if ?live
    using that by (simp add: left_by_def)
  have L: "session_live H prev ((n - Suc (length order)) * length raw) (cn_session W) \<and> is_ok r" if ?live
    using publish_with_connection_live [OF ok live [OF that] pub] by (simp add: default_options_def)
  have V: "holds_from H i raw (cn_session W) ?V"
    using c(2) holder by (cases r) (auto simp: holds_from_def split: if_splits)
  show "bad_luck ?live (error_from_sqlite e)" if e: "r = Inl e"
  proof -
    from L e have "\<not> ?live" by auto
    with P e show ?thesis
      by (auto simp: bad_luck_def publish_outcome_def attempt_failure_def retry_exhausted_def
          default_options_def)
  qed
  show "exclusive H prev i n raw s ?V"
  proof (cases r)
    case (Inl e)
    have same: "changes_of ?V = changes_of W"
      using t Inl by (subst changes_of_set) (simp_all, simp add: changes_of_def)
    from P Inl have "c_db (cn_session W) = c_db c" "session_ok H prev (cn_session W)"
      by (simp_all add: publish_outcome_def)
    moreover have "\<not> ?live" using L Inl by auto
    ultimately have "left_by H prev i n raw s ?V order (cn_session W)"
      using c(1) session_stream_cong [of "cn_session W" c] unfolding left_by_def batches_def same by simp
    with V show ?thesis unfolding exclusive_def by blast
  next
    case (Inr cs)
    have ch: "changes_of ?V = (changes_of W)(t \<mapsto> cs)"
      using Inr by (simp add: changes_of_def fun_eq_iff)
    have "batches ?V (order @ [t]) = batches W order @ cs_events cs"
      using fresh unfolding batches_def ch by (auto intro!: arg_cong [where f = concat])
    moreover from P Inr have "session_ok H prev (cn_session W)"
      "session_stream (cn_session W) = (session_stream c)(i := session_stream c i @ cs_events cs)"
      "list_all2 (records default_options) raw (cs_events cs)"
      by (simp_all add: publish_outcome_def)
    moreover have "set (order @ [t]) = {t. changes_of ?V t \<noteq> None}"
      using c(1) unfolding ch by (auto simp: left_by_def)
    ultimately have "left_by H prev i n raw s ?V (order @ [t]) (cn_session W)"
      using c(1) L fresh unfolding left_by_def ch by auto
    with V show ?thesis unfolding exclusive_def by blast
  qed
qed

definition contention_ok ::
  "'g host \<Rightarrow> ('g \<Rightarrow> ulid) \<Rightarrow> aggregate_id \<Rightarrow> nat \<Rightarrow> raw_event list \<Rightarrow> 'g session \<Rightarrow>
    'g contention \<Rightarrow> bool" where
  "contention_ok H prev i n raw s W \<longleftrightarrow>
     exclusive H prev i n raw s W \<and> all_known n W \<and>
     failures_ok (session_live H prev (n * length raw) s) W"

lemma contention_ok_set:
  assumes "contention_ok H prev i n raw s W" and "cn_writers W t = Some k" and "\<And>w. k \<noteq> Publishing w"
    and "\<And>w. k' \<noteq> Publishing w" and "writer_changes (Some k) = writer_changes (Some k')"
    and "\<And>e. k' \<noteq> Panicking e" and "k' \<noteq> Reopening" and "\<And>changes. k \<noteq> Joined changes"
  shows "contention_ok H prev i n raw s (set_writer t k' W)"
proof -
  from assms(1) have W: "exclusive H prev i n raw s W" "all_known n W"
    "failures_ok (session_live H prev (n * length raw) s) W" by (simp_all add: contention_ok_def)
  have "exclusive H prev i n raw s (set_writer t k' W)"
    by (rule exclusive_set [OF W(1)]) (use assms in \<open>auto simp: changes_of_def\<close>)
  moreover have "all_known n (set_writer t k' W)"
    using W(2) assms(2,8) by (fastforce simp: all_known_def)
  moreover have "failures_ok (session_live H prev (n * length raw) s) (set_writer t k' W)"
    using W(3) assms(6,7) by (auto simp: failures_ok_def)
  ultimately show ?thesis by (simp add: contention_ok_def)
qed

lemma all_known_set:
  assumes "all_known n W" and "cn_writers W t = Some k" and "\<And>changes. k \<noteq> Joined changes"
  shows "all_known n (set_writer t k' (W\<lparr>cn_holder := h, cn_session := c\<rparr>))"
  using assms by (fastforce simp: all_known_def)

lemma contention_step_ok:
  assumes "contention_step H i n raw W W'" and "contention_ok H prev i n raw s W" and "raw \<noteq> []"
  shows "contention_ok H prev i n raw s W'"
proof -
  let ?live = "session_live H prev (n * length raw) s"
  from assms(2) have W: "exclusive H prev i n raw s W" "all_known n W" "failures_ok ?live W"
    by (simp_all add: contention_ok_def)
  from assms(1) show ?thesis
  proof cases
    case (spawned k)
    let ?V = "W\<lparr>cn_main := Spawning (Suc k)\<rparr>"
    from spawned W(2) have k: "cn_writers W k = None" by (auto simp: all_known_def)
    have "exclusive H prev i n raw s (set_writer k Spawned ?V)"
      by (rule exclusive_set) (use W(1) k in \<open>simp_all add: exclusive_main changes_of_def\<close>)
    moreover have "all_known n (set_writer k Spawned ?V)"
      using W(2) spawned by (auto simp: all_known_def less_Suc_eq)
    moreover have "failures_ok ?live (set_writer k Spawned ?V)"
      using W(3) by (auto simp: failures_ok_def)
    ultimately show ?thesis by (simp add: contention_ok_def spawned)
  next
    case all_spawned
    with W show ?thesis
      by (auto simp: contention_ok_def exclusive_main all_known_def failures_ok_def)
  next
    case (arrived t)
    show ?thesis unfolding arrived(1) by (rule contention_ok_set [OF assms(2) arrived(2)]) simp_all
  next
    case (released t)
    show ?thesis unfolding released(1) by (rule contention_ok_set [OF assms(2) released(2)]) simp_all
  next
    case (locked t)
    from exclusive_locked [OF W(1) locked(2,3)] all_known_set [OF W(2) locked(2), where h = "Some t" and c = "cn_session W"] W(3)
    show ?thesis by (auto simp: contention_ok_def locked(1) failures_ok_def)
  next
    case (published t w w' s')
    from exclusive_published [OF W(1) published(2-4)]
      all_known_set [OF W(2) published(2), where h = "cn_holder W" and c = s'] W(3)
    show ?thesis by (auto simp: contention_ok_def published(1) failures_ok_def)
  next
    case (unlocked t r)
    note U = exclusive_unlocked [OF W(1,2) assms(3) unlocked(2)]
    have "failures_ok ?live W'"
      using W(3) U(2) by (cases r) (auto simp: unlocked(1) failures_ok_def bad_luck_def)
    with U(1) all_known_set [OF W(2) unlocked(2), where h = None and c = "cn_session W"]
    show ?thesis by (simp add: contention_ok_def unlocked(1))
  next
    case (joined t changes)
    show ?thesis unfolding joined(1) by (rule contention_ok_set [OF assms(2) joined(3)]) simp_all
  next
    case (panicked t e)
    with W show ?thesis
      by (auto simp: contention_ok_def exclusive_main all_known_def failures_ok_def)
  next
    case drained
    with W show ?thesis
      by (auto simp: contention_ok_def exclusive_main all_known_def failures_ok_def)
  qed
qed

lemma contention_runs_ok:
  assumes "contention_runs H i n raw (contention_start s) W" and "session_ok H prev s" and "raw \<noteq> []"
  shows "contention_ok H prev i n raw s W"
  using assms(1)
proof (induction rule: rtranclp_induct)
  case base
  have "left_by H prev i n raw s (contention_start s) [] s"
    using assms(2) by (simp add: left_by_def batches_def changes_of_def contention_start_def)
  moreover have "holds_from H i raw s (contention_start s)"
    by (simp add: holds_from_def contention_start_def)
  ultimately show ?case
    unfolding contention_ok_def exclusive_def
    by (auto simp: all_known_def failures_ok_def contention_start_def)
next
  case (step V W)
  from contention_step_ok [OF step.hyps(2) step.IH assms(3)] show ?case .
qed

text \<open>Nobody waits for ever: until the end some task can move.\<close>

lemma contention_moves:
  assumes "contention_ok H prev i n raw s W" and "cn_main W \<noteq> Drained" and "\<And>p. cn_main W \<noteq> Aborted p"
    and "\<And>t. cn_writers W t \<noteq> Some Reopening"
  shows "\<exists>W'. contention_step H i n raw W W'"
proof (cases "cn_main W")
  case (Spawning k)
  with assms(1) have "k \<le> n" by (simp add: contention_ok_def all_known_def)
  show ?thesis
  proof (cases "k = n")
    case True
    with Spawning contention_step.all_spawned show ?thesis by metis
  next
    case False
    with \<open>k \<le> n\<close> have "k < n" by simp
    from contention_step.spawned [OF Spawning this] show ?thesis ..
  qed
next
  case Draining
  show ?thesis
  proof (cases "\<forall>k<n. \<exists>changes. cn_writers W k = Some (Joined changes)")
    case True
    from contention_step.drained [OF Draining this] show ?thesis ..
  next
    case False
    then obtain t where "t < n" and t: "\<nexists>changes. cn_writers W t = Some (Joined changes)" by blast
    have known: "cn_writers W u \<noteq> None" if "u < n" for u
      using assms(1) Draining that by (simp add: contention_ok_def all_known_def)
    with \<open>t < n\<close> obtain k where k: "cn_writers W t = Some k" by blast
    have writing: "\<exists>W'. contention_step H i n raw W W'" if "cn_writers W u = Some (Publishing w)" for u w
    proof (cases w)
      case (Answered r)
      with that contention_step.unlocked show ?thesis by metis
    qed (use that contention_step.published in \<open>metis answered.simps prod.collapse\<close>)+
    have lock: "\<exists>u w. cn_writers W u = Some (Publishing w)" if "cn_holder W \<noteq> None"
      using assms(1) that unfolding contention_ok_def exclusive_def holds_from_def
      by (cases "cn_holder W") (simp, fastforce)
    show ?thesis
    proof (cases k)
      case Spawned
      with k contention_step.arrived show ?thesis by metis
    next
      case AtBarrier
      show ?thesis
      proof (cases "\<exists>u<n. cn_writers W u = Some Spawned")
        case True
        with contention_step.arrived show ?thesis by metis
      next
        case False
        with known have "\<forall>u<n. cn_writers W u \<notin> {None, Some Spawned}" by auto
        with k AtBarrier contention_step.released show ?thesis by metis
      qed
    next
      case AwaitingLock
      with k contention_step.locked lock writing show ?thesis by metis
    next
      case (Publishing w)
      with k writing show ?thesis by metis
    next
      case (Succeeded changes)
      with k contention_step.joined [OF Draining] show ?thesis by metis
    next
      case (Panicking e)
      with k contention_step.panicked [OF Draining] show ?thesis by metis
    qed (use k assms(4) t in auto)
  qed
qed (use assms(2,3) in auto)

section \<open>The guarantees\<close>

text \<open>
  C16: writers that contend for one aggregate on one open connection (a file's or an in-memory
  database's) lose nothing, however the statements of their transactions and everything else the
  tasks do interleave. When the main task has joined all the writers, the stream has grown by one
  whole batch for each of them, in the order in which they held the connection's mutex, and no
  other stream has changed. If a panic of a writer has ended the benchmark instead, the error was
  not a revision conflict, and the host had failed a call or the ULID generator was not ahead of
  the table with values for all the batches. Until one of the two happens some task can move: the
  barrier opens, and the mutex is given back. (After an error for a namespace that is not ready a
  writer would open the partition again; that is not followed here.)
\<close>

theorem sqlite_contention_keeps_writes:
  assumes "session_ok H prev s" and "raw \<noteq> []"
    and "contention_runs H i n raw (contention_start s) W"
  shows "(case cn_main W of
      Drained \<Rightarrow>
        session_ok H prev (cn_session W) \<and>
        (\<exists>order changes. distinct order \<and> set order = {..<n} \<and>
           (\<forall>t<n. cn_writers W t = Some (Joined (changes t)) \<and>
              list_all2 (records default_options) raw (cs_events (changes t))) \<and>
           session_stream (cn_session W) = (session_stream s)
             (i := session_stream s i @ concat (map (\<lambda>t. cs_events (changes t)) order)))
    | Aborted p \<Rightarrow>
        \<not> session_live H prev (n * length raw) s \<and>
        (\<exists>e. p = ExpectFailed PUBLISHED e \<and> (\<forall>x a. e \<noteq> RevisionConflict x a))
    | _ \<Rightarrow> (\<exists>W'. contention_step H i n raw W W') \<or> (\<exists>t. cn_writers W t = Some Reopening))"
proof -
  note ok = contention_runs_ok [OF assms(3,1,2)]
  then have W: "exclusive H prev i n raw s W" "all_known n W"
    "failures_ok (session_live H prev (n * length raw) s) W" by (simp_all add: contention_ok_def)
  show ?thesis
  proof (cases "cn_main W")
    case Drained
    with W(2) have all: "\<forall>t<n. \<exists>changes. cn_writers W t = Some (Joined changes)"
      and known: "\<And>t. cn_writers W t \<noteq> None \<longleftrightarrow> t < n" by (simp_all add: all_known_def)
    define changes where "changes t = the (changes_of W t)" for t
    have joined: "cn_writers W t = Some (Joined (changes t))" "changes_of W t = Some (changes t)" if "t < n" for t
      using all that by (auto simp: changes_def changes_of_def)
    from W(1) obtain c order where c: "left_by H prev i n raw s W order c" "holds_from H i raw c W"
      unfolding exclusive_def by blast
    have "cn_writers W t \<noteq> Some (Publishing w)" for t w
    proof
      assume w: "cn_writers W t = Some (Publishing w)"
      with known have "t < n" by auto
      with joined(1) w show False by simp
    qed
    with c(2) have session: "cn_session W = c" unfolding holds_from_def by (cases "cn_holder W") auto
    have "set order = {..<n}"
    proof
      show "set order \<subseteq> {..<n}"
      proof
        fix t assume "t \<in> set order"
        with c(1) have "writer_changes (cn_writers W t) \<noteq> None" unfolding left_by_def changes_of_def by blast
        then have "cn_writers W t \<noteq> None" by (cases "cn_writers W t") auto
        with known show "t \<in> {..<n}" by simp
      qed
      show "{..<n} \<subseteq> set order" using c(1) joined(2) by (auto simp: left_by_def)
    qed
    moreover have "batches W order = concat (map (\<lambda>t. cs_events (changes t)) order)"
      by (simp add: batches_def changes_def)
    moreover have "list_all2 (records default_options) raw (cs_events (changes t))" if "t < n" for t
      using c(1) joined(2) [OF that] by (simp add: left_by_def)
    ultimately show ?thesis
      using c(1) joined Drained unfolding session left_by_def
      by (auto intro!: exI [of _ order] exI [of _ changes])
  next
    case (Aborted p)
    with W(3) show ?thesis by (auto simp: failures_ok_def bad_luck_def)
  qed (use contention_moves [OF ok] in auto)
qed

section \<open>A run for the witness\<close>

text \<open>The steps of a publish, as steps of the writer that holds the mutex.\<close>

lemma written_runs:
  assumes "written H i default_options raw (w, s) (w', s')"
    and "cn_writers W t = Some (Publishing w)" and "cn_session W = s"
  shows "contention_runs H i n raw W (set_writer t (Publishing w') (W\<lparr>cn_session := s'\<rparr>))"
  using assms
proof (induction "(w, s)" arbitrary: w s W rule: converse_rtranclp_induct)
  case base
  then have "set_writer t (Publishing w') (W\<lparr>cn_session := s'\<rparr>) = W"
    by (simp add: set_writer_def fun_upd_idem)
  then show ?case by simp
next
  case (step x)
  obtain v u where x: "x = (v, u)" by fastforce
  let ?V = "set_writer t (Publishing v) (W\<lparr>cn_session := u\<rparr>)"
  from step.hyps(1) x have "\<not> answered w" "write_step H i default_options raw w (cn_session W) = (v, u)"
    using step.prems(2) by (simp_all add: writes_def)
  from contention_step.published [OF step.prems(1) this] have "contention_step H i n raw W ?V" .
  moreover have "contention_runs H i n raw ?V
      (set_writer t (Publishing w') (?V\<lparr>cn_session := s'\<rparr>))"
    by (rule step.hyps(3) [OF x]) simp_all
  moreover have "set_writer t (Publishing w') (?V\<lparr>cn_session := s'\<rparr>) =
      set_writer t (Publishing w') (W\<lparr>cn_session := s'\<rparr>)"
    by (simp add: set_writer_def)
  ultimately show ?case by (metis converse_rtranclp_into_rtranclp)
qed

text \<open>A writer that finds the mutex free publishes and gives it back.\<close>

lemma writer_runs:
  assumes "cn_writers W t = Some AwaitingLock" and "cn_holder W = None"
    and "session_ok H prev (cn_session W)" and "raw \<noteq> []"
    and "publish_with_connection H i default_options raw (cn_session W) = (Inr changes, s')"
  shows "contention_runs H i n raw W (set_writer t (Succeeded changes) (W\<lparr>cn_session := s'\<rparr>))"
proof -
  let ?A = "set_writer t (Publishing (Trying 0 0)) (W\<lparr>cn_holder := Some t\<rparr>)"
  let ?B = "set_writer t (Publishing (Answered (Inr changes))) (?A\<lparr>cn_session := s'\<rparr>)"
  have "contention_step H i n raw W ?A" by (rule contention_step.locked [OF assms(1,2)])
  moreover have "contention_runs H i n raw ?A ?B"
    by (rule written_runs [OF publish_written [OF assms(3-5)]]) simp_all
  moreover have "contention_step H i n raw ?B (set_writer t (writer_answered (Inr changes)) (?B\<lparr>cn_holder := None\<rparr>))"
    by (rule contention_step.unlocked) simp
  moreover have "set_writer t (writer_answered (Inr changes)) (?B\<lparr>cn_holder := None\<rparr>) =
      set_writer t (Succeeded changes) (W\<lparr>cn_session := s'\<rparr>)"
    using assms(2) by (simp add: set_writer_def)
  ultimately show ?thesis
    by (metis converse_rtranclp_into_rtranclp rtranclp.rtrancl_into_rtrancl)
qed

text \<open>Two writers; both are at the barrier before either publishes, and the second comes first.\<close>

lemma two_writers_run:
  assumes ok: "session_ok H prev s" and live: "session_live H prev (2 * length raw) s" and ne: "raw \<noteq> []"
  shows "\<exists>W. contention_runs H i 2 raw (contention_start s) W \<and> cn_main W = Drained"
proof -
  let ?run = "contention_runs H i 2 raw (contention_start s)"
  let ?w = "\<lambda>m f g c. \<lparr>cn_session = c, cn_holder = None, cn_main = m,
    cn_writers = [0 \<mapsto> f, Suc 0 \<mapsto> g]\<rparr>"
  note onward = rtranclp.rtrancl_into_rtrancl [of "contention_step H i 2 raw" "contention_start s"]
  have "?run (set_writer 0 Spawned (contention_start s\<lparr>cn_main := Spawning (Suc 0)\<rparr>))"
    by (rule onward [OF _ contention_step.spawned]) (simp_all add: contention_start_def)
  then have "?run (set_writer (Suc 0) Spawned ((set_writer 0 Spawned
      (contention_start s\<lparr>cn_main := Spawning (Suc 0)\<rparr>))\<lparr>cn_main := Spawning (Suc (Suc 0))\<rparr>))"
    by (rule onward [OF _ contention_step.spawned]) (simp_all add: contention_start_def)
  then have "?run (?w (Spawning 2) Spawned Spawned s)"
    by (simp add: contention_start_def set_writer_def numeral_2_eq_2)
  from onward [OF this contention_step.all_spawned] have "?run (?w Draining Spawned Spawned s)" by simp
  from onward [OF this contention_step.arrived [of _ 0]] have "?run (?w Draining AtBarrier Spawned s)"
    by (simp add: set_writer_def fun_upd_twist)
  from onward [OF this contention_step.arrived [of _ "Suc 0"]] have "?run (?w Draining AtBarrier AtBarrier s)"
    by (simp add: set_writer_def)
  from onward [OF this contention_step.released [of _ 0]] have "?run (?w Draining AwaitingLock AtBarrier s)"
    by (simp add: set_writer_def fun_upd_twist less_Suc_eq numeral_2_eq_2)
  from onward [OF this contention_step.released [of _ "Suc 0"]] have waiting: "?run (?w Draining AwaitingLock AwaitingLock s)"
    by (simp add: set_writer_def less_Suc_eq numeral_2_eq_2)
  have live': "session_live H prev (length raw + length raw) s" using live by (simp add: mult_2)
  obtain q s1 where q: "publish_with_connection H i default_options raw s = (q, s1)" by fastforce
  from publish_with_connection_live [OF ok live' q] ne obtain cs1 where "q = Inr cs1"
    and live1: "session_live H prev (length raw + 0) s1" by (cases q) (auto simp: default_options_def)
  with q have p1: "publish_with_connection H i default_options raw s = (Inr cs1, s1)" by simp
  from publish_with_connection_outcome [OF ok p1] have ok1: "session_ok H prev s1"
    by (simp add: publish_outcome_def)
  obtain r s2 where r: "publish_with_connection H i default_options raw s1 = (r, s2)" by fastforce
  from publish_with_connection_live [OF ok1 live1 r] ne obtain cs2 where "r = Inr cs2"
    by (cases r) (auto simp: default_options_def)
  with r have p2: "publish_with_connection H i default_options raw s1 = (Inr cs2, s2)" by simp
  from rtranclp_trans [OF waiting writer_runs [of _ "Suc 0", OF _ _ _ ne]] ok p1
  have "?run (?w Draining AwaitingLock (Succeeded cs1) s1)" by (simp add: set_writer_def)
  from rtranclp_trans [OF this writer_runs [of _ 0, OF _ _ _ ne]] ok1 p2
  have "?run (?w Draining (Succeeded cs2) (Succeeded cs1) s2)"
    by (simp add: set_writer_def fun_upd_twist)
  from onward [OF this contention_step.joined [of _ 0]] have "?run (?w Draining (Joined cs2) (Succeeded cs1) s2)"
    by (simp add: set_writer_def fun_upd_twist)
  from onward [OF this contention_step.joined [of _ "Suc 0"]] have "?run (?w Draining (Joined cs2) (Joined cs1) s2)"
    by (simp add: set_writer_def)
  from onward [OF this contention_step.drained] have "?run (?w Drained (Joined cs2) (Joined cs1) s2)"
    by (simp add: less_Suc_eq numeral_2_eq_2)
  then show ?thesis by fastforce
qed

theorem sqlite_contention_keeps_writes_witness:
  "\<exists>W. contention_runs calm_host demo_id 2 [demo_raw] (contention_start demo_session) W \<and>
     cn_main W = Drained \<and> length (session_stream (cn_session W) demo_id) = 2"
proof -
  have "session_live calm_host id (2 * length [demo_raw]) demo_session"
    by (simp add: session_live_def calm_calm_host demo_session_def rows_below_def counter_generates)
      (simp add: calm_host_def counter_generates)
  from two_writers_run [OF demo_session_ok this] obtain W where
    W: "contention_runs calm_host demo_id 2 [demo_raw] (contention_start demo_session) W" "cn_main W = Drained"
    by blast
  from sqlite_contention_keeps_writes [OF demo_session_ok _ W(1)] W(2)
  have "\<exists>order changes. distinct order \<and> set order = {..<2} \<and>
      (\<forall>t<2. cn_writers W t = Some (Joined (changes t)) \<and>
         list_all2 (records default_options) [demo_raw] (cs_events (changes t))) \<and>
      session_stream (cn_session W) = (session_stream demo_session)
        (demo_id := session_stream demo_session demo_id @ concat (map (\<lambda>t. cs_events (changes t)) order))"
    by simp
  then obtain order changes where order: "distinct order" "set order = {..<2}"
    "\<forall>t<2. cn_writers W t = Some (Joined (changes t)) \<and>
       list_all2 (records default_options) [demo_raw] (cs_events (changes t))"
    and all: "session_stream (cn_session W) = (session_stream demo_session)
      (demo_id := session_stream demo_session demo_id @ concat (map (\<lambda>t. cs_events (changes t)) order))"
    by blast
  from all have stream: "session_stream (cn_session W) demo_id = session_stream demo_session demo_id @
      concat (map (\<lambda>t. cs_events (changes t)) order)" by simp
  have "length (cs_events (changes t)) = 1" if "t \<in> set order" for t
    using list_all2_lengthD [of "records default_options" "[demo_raw]" "cs_events (changes t)"] order(2,3) that
    by simp
  then have "length (concat (map (\<lambda>t. cs_events (changes t)) order)) = length order"
    by (induction order) auto
  moreover have "length order = 2" using order(1,2) distinct_card [of order] by simp
  moreover have "session_stream demo_session demo_id = []"
    by (simp add: session_stream_def demo_session_def rows_stream_def agg_rows_def)
  ultimately show ?thesis using W stream by auto
qed

end
