(* ===== verification/MemoryDatabases.thy ===== *)
theory MemoryDatabases
  imports ConformanceStores
begin

text \<open>
  The SQLite store that \<open>open_in_memory\<close> (\<^verbatim>\<open>crates/wee-events-sqlite/src/event_store/store.rs\<close>)
  opens: each partition is a \<open>:memory:\<close> database behind the connection that the store holds, and is
  gone when that is dropped. The store keeps its contract as long as it keeps its connections,
  that is on a host that never answers as a remote database does whose namespace is not ready.
  With it the conformance suite is answered for every store that \<^verbatim>\<open>tests/conformance.rs\<close> opens.
\<close>

section \<open>The state\<close>

abbreviation memory_catalog :: "('p, 'g) catalog" where
  "memory_catalog \<equiv> single_target_catalog in_memory_target_resolver"

lemma memory_catalog_simps [simp]:
  "cat_ensure memory_catalog n D p = Inr InMemory" "cat_existing memory_catalog n D p = Inr (Some InMemory)"
  "cat_prepare memory_catalog p = None"
  by (simp_all add: single_target_catalog_def in_memory_target_resolver_def)

text \<open>No call makes the publish loop drop a connection and open it again.\<close>

definition never_reopens :: "'g host \<Rightarrow> bool" where
  "never_reopens H \<longleftrightarrow> (\<forall>n l. h_faults H n = Some l \<longrightarrow> \<not> is_lazy_create_partition_not_ready (Libsql l))"

text \<open>Every partition has its own database, which the connection in the store is the only way to.\<close>

definition memories_ok :: "'g host \<Rightarrow> ('g \<Rightarrow> ulid) \<Rightarrow> ('p, 'g) sqlite_store \<Rightarrow> bool" where
  "memories_ok H prev s \<longleftrightarrow>
     never_reopens H \<and> ulid_laws (h_ulid H) \<and> monotonic_generator (h_gen H) prev \<and>
     (\<forall>loc d. ss_databases s loc = Some d \<longrightarrow> db_ok (h_ulid H) d) \<and>
     (\<forall>k\<ge>ss_memories s. ss_databases s (Memory k) = None) \<and>
     (\<forall>p loc. map_of (ss_connections s) p = Some loc \<longrightarrow> (\<exists>k. loc = Memory k) \<and> table_at s loc) \<and>
     (\<forall>p q loc. map_of (ss_connections s) p = Some loc \<longrightarrow> map_of (ss_connections s) q = Some loc \<longrightarrow> p = q)"

text \<open>The events of a partition: those in the memory of its connection, if it is open.\<close>

definition held_rows :: "('p, 'g) sqlite_store \<Rightarrow> 'p \<Rightarrow> event_row list" where
  "held_rows s p = (case map_of (ss_connections s) p of None \<Rightarrow> [] | Some loc \<Rightarrow> rows_at s loc)"

definition memory_stream :: "'p strategy \<Rightarrow> ('p, 'g) sqlite_store \<Rightarrow> aggregate_id \<Rightarrow> recorded_event list" where
  "memory_stream S s i =
     (case ps_partition_for S i of Inl _ \<Rightarrow> [] | Inr p \<Rightarrow> rows_stream (held_rows s p) i)"

lemma memories_okD:
  assumes "memories_ok H prev s"
  shows "never_reopens H" and "ulid_laws (h_ulid H)" and "monotonic_generator (h_gen H) prev"
    and "ss_databases s loc = Some d \<Longrightarrow> db_ok (h_ulid H) d"
    and "ss_databases s (Memory (ss_memories s)) = None"
    and "map_of (ss_connections s) p = Some loc \<Longrightarrow> table_at s loc"
    and "map_of (ss_connections s) p = Some loc \<Longrightarrow> map_of (ss_connections s) q = Some loc \<Longrightarrow> p = q"
  using assms unfolding memories_ok_def by blast+

lemma held_session:
  assumes "memories_ok H prev s" and "map_of (ss_connections s) p = Some loc"
  obtains d where "ss_databases s loc = Some d" and "schema_ok d"
    and "session_ok H prev ((ss_session s)\<lparr>c_db := d, c_saved := None\<rparr>)"
    and "session_stream ((ss_session s)\<lparr>c_db := d, c_saved := None\<rparr>) = rows_stream (held_rows s p)"
proof -
  from memories_okD(6) [OF assms] obtain d rows where
    d: "ss_databases s loc = Some d" "tbl_events d = Some rows"
    by (auto simp: table_at_def split: option.splits)
  with memories_okD(2,3) [OF assms(1)] memories_okD(4) [OF assms(1) d(1)] have "schema_ok d"
    "rows_inv (h_ulid H) rows" "ulid_laws (h_ulid H)" "monotonic_generator (h_gen H) prev"
    by (simp_all add: db_ok_def)
  with d assms(2) show ?thesis
    by (intro that [of d]) (simp_all add: session_ok_def session_stream_def held_rows_def rows_at_def)
qed

lemma held_rows_cong:
  assumes "\<And>p. map_of (ss_connections s') p = map_of (ss_connections s) p" and "ss_databases s' = ss_databases s"
  shows "held_rows s' = held_rows s"
proof -
  have "rows_at s' = rows_at s" using assms(2) by (simp add: rows_at_def fun_eq_iff)
  with assms(1) show ?thesis by (simp add: held_rows_def fun_eq_iff split: option.split)
qed

lemma held_rows_inv:
  assumes "memories_ok H prev s"
  shows "rows_inv (h_ulid H) (held_rows s p)"
proof -
  have "rows_inv (h_ulid H) (db_rows d)" if "ss_databases s loc = Some d" for loc d
    using memories_okD(4) [OF assms that] by (simp add: db_ok_def)
  then show ?thesis by (simp add: held_rows_def rows_at_def split: option.split)
qed

text \<open>The strategy, which may be the caller's, fails with errors of its own only.\<close>

definition plain_strategy :: "'p strategy \<Rightarrow> bool" where
  "plain_strategy S \<longleftrightarrow> (\<forall>i e. ps_partition_for S i = Inl e \<longrightarrow> plain e)"

lemma plain_memory: "plain_strategy S \<Longrightarrow> plain_partitions S memory_catalog"
  by (simp add: plain_strategy_def plain_partitions_def)

section \<open>Opening a partition\<close>

lemma open_memory:
  assumes ok: "memories_ok H prev s" and run: "open_target H InMemory s = (r, s')"
  shows "memories_ok H prev s' \<and> ss_connections s' = ss_connections s \<and>
    held_rows s' = held_rows s \<and>
    (\<forall>loc. r = Inr loc \<longrightarrow> loc = Memory (ss_memories s) \<and> table_at s' loc \<and> rows_at s' loc = [])"
proof -
  let ?loc = "Memory (ss_memories s)" and ?fresh = "empty_db ''memory''"
  note S = memories_okD [OF ok]
  let ?c = "(ss_session s)\<lparr>c_db := ?fresh, c_saved := None, c_busy_timeout_ms := 0, c_foreign_keys := False\<rparr>"
  obtain q se where q: "open_event_store_connection H InMemory ?c = (q, se)" by fastforce
  let ?d = "c_db (rollback se)"
  from run q S(5) have s': "r = map_ok (\<lambda>_. ?loc) q" "ss_connections s' = ss_connections s"
    "ss_memories s' = Suc (ss_memories s)"
    "ss_databases s' = (if ?d = ?fresh then ss_databases s else (ss_databases s)(?loc \<mapsto> ?d))"
    by (auto simp: open_target_def target_location_def Let_def)
  from open_event_store_connection_result [OF q] have R: "schema_ok ?d"
    "tbl_events ?d \<in> {None, Some []}" "q = Inr u \<Longrightarrow> tbl_events ?d \<noteq> None" for u
    by (auto simp: empty_db_def schema_ok_def schema_version_def)
  have d: "db_ok (h_ulid H) ?d" "db_rows ?d = []" using R(1,2) by (auto simp: db_ok_def db_rows_def)
  have old: "ss_databases s' l = ss_databases s l" if "l \<noteq> ?loc" for l using that s'(4) by simp
  have open_elsewhere: "loc \<noteq> ?loc" if "map_of (ss_connections s) p = Some loc" for p loc
    using S(5) S(6) [OF that] by (auto simp: table_at_def)
  then have same: "table_at s' loc = table_at s loc" "rows_at s' loc = rows_at s loc"
    if "map_of (ss_connections s) p = Some loc" for p loc
    using old that by (auto simp: table_at_def rows_at_def)
  have "memories_ok H prev s'"
    using ok same(1) d(1) unfolding memories_ok_def s'(2-4) by (auto split: if_splits)
  moreover have "held_rows s' = held_rows s"
    using same(2) by (simp add: held_rows_def [abs_def] s'(2) fun_eq_iff split: option.split)
  moreover have "table_at s' ?loc \<and> rows_at s' ?loc = []" if "q = Inr u" for u
    using R(3) [OF that] d(2) by (auto simp: table_at_def rows_at_def s'(4) empty_db_def)
  ultimately show ?thesis using s'(1,2) by (auto simp: result_simps)
qed

lemma connect_memory:
  assumes ok: "memories_ok H prev s" and new: "map_of (ss_connections s) p = None"
    and run: "connect_partition H memory_catalog p InMemory s = (r, s')"
  shows "memories_ok H prev s' \<and> held_rows s' = held_rows s \<and>
    map_of (ss_connections s') p = (case r of Inl e \<Rightarrow> None | Inr loc \<Rightarrow> Some loc)"
proof -
  obtain q t where q: "open_target H InMemory s = (q, t)" by fastforce
  note O = open_memory [OF ok q]
  show ?thesis
  proof (cases q)
    case (Inl e)
    with run q have "r = Inl e" "s' = t" by (simp_all add: connect_partition_def seq_result_def)
    with O new show ?thesis by simp
  next
    case (Inr loc)
    with run q have s': "r = Inr loc" "s' = t\<lparr>ss_connections := upsert p loc (ss_connections t)\<rparr>"
      by (simp_all add: connect_partition_def seq_result_def prepare_connection_for_partition_def give_def)
    from O Inr have loc: "loc = Memory (ss_memories s)" "table_at t loc" "rows_at t loc = []" by auto
    have "map_of (ss_connections t) j \<noteq> Some loc" for j
      using O memories_okD(5,6) [OF ok] loc(1) by (metis option.simps(4) table_at_def)
    with O loc(1,2) have "memories_ok H prev s'"
      unfolding memories_ok_def s'(2) by (auto simp: map_of_upsert' table_at_def split: if_splits)
    moreover have "rows_at s' = rows_at t" by (simp add: s'(2) rows_at_def [abs_def])
    with O new loc(3) have "held_rows s' = held_rows t"
      by (simp add: held_rows_def [abs_def] s'(2) map_of_upsert' fun_eq_iff split: option.split)
    ultimately show ?thesis using O by (simp add: s' map_of_upsert')
  qed
qed

lemma ensure_memory_open:
  assumes "memories_ok H prev s" and "ensure_partition_open H memory_catalog p s = (r, s')"
  shows "memories_ok H prev s' \<and> held_rows s' = held_rows s \<and>
    map_of (ss_connections s') p = (case r of Inl e \<Rightarrow> None | Inr loc \<Rightarrow> Some loc)"
proof (cases "map_of (ss_connections s) p")
  case None
  with assms connect_memory [OF assms(1) None] show ?thesis
    by (simp add: ensure_partition_open_def seq_result_def give_def)
qed (use assms in \<open>auto simp: ensure_partition_open_def\<close>)

lemma open_memory_if_exists:
  assumes "memories_ok H prev s" and "open_partition_if_exists H memory_catalog p s = (r, s')"
  shows "memories_ok H prev s' \<and> held_rows s' = held_rows s \<and>
    (\<forall>found. r = Inr found \<longrightarrow> found \<noteq> None \<and> map_of (ss_connections s') p = found)"
proof (cases "map_of (ss_connections s) p")
  case None
  obtain q t where q: "connect_partition H memory_catalog p InMemory s = (q, t)" by fastforce
  with None assms(2) have "r = map_ok Some q" "s' = t"
    by (auto simp: open_partition_if_exists_def seq_result_def give_def split: sum.splits)
  with connect_memory [OF assms(1) None q] show ?thesis by (auto simp: result_simps)
qed (use assms in \<open>auto simp: open_partition_if_exists_def\<close>)

section \<open>Loading and publishing\<close>

lemma load_from_memory:
  assumes ok: "memories_ok H prev s" and run: "load_aggregate H S memory_catalog i s = (r, s')"
  shows "memories_ok H prev s' \<and> held_rows s' = held_rows s \<and>
    (\<forall>a. r = Inr a \<longrightarrow> a = from_shared_events i (memory_stream S s i))"
proof (cases "ps_partition_for S i")
  case (Inl e)
  with run ok show ?thesis by (auto simp: load_aggregate_def seq_result_def give_def)
next
  case (Inr p)
  obtain found t where found: "open_partition_if_exists H memory_catalog p s = (found, t)" by fastforce
  note O = open_memory_if_exists [OF ok found]
  show ?thesis
  proof (cases found)
    case (Inl e)
    with run \<open>ps_partition_for S i = Inr p\<close> found O show ?thesis
      by (auto simp: load_aggregate_def seq_result_def give_def)
  next
    case (Inr conn)
    with O obtain loc where loc: "conn = Some loc" "map_of (ss_connections t) p = Some loc" by auto
    with run \<open>ps_partition_for S i = Inr p\<close> found Inr
    have on: "on_connection loc (load_from_connection H i) t = (r, s')"
      by (simp add: load_aggregate_def seq_result_def give_def)
    from O have t: "memories_ok H prev t" by simp
    from held_session [OF t loc(2)] obtain d where d: "ss_databases t loc = Some d"
      "session_ok H prev ((ss_session t)\<lparr>c_db := d, c_saved := None\<rparr>)"
      "session_stream ((ss_session t)\<lparr>c_db := d, c_saved := None\<rparr>) = rows_stream (held_rows t p)" by metis
    from on d(1) obtain se where
      "load_from_connection H i ((ss_session t)\<lparr>c_db := d, c_saved := None\<rparr>) = (r, se)"
      and s': "s' = t\<lparr>ss_session := se, ss_databases := (ss_databases t)(loc \<mapsto> c_db (rollback se))\<rparr>"
      by (auto simp: on_connection_def split: prod.splits)
    from load_from_connection_outcome [OF d(2) this(1)] d(3) have
      se: "c_db (rollback se) = d" and r: "r = Inr a \<Longrightarrow> a = from_shared_events i (rows_stream (held_rows t p) i)" for a
      by auto
    from s' se d(1) have "ss_databases s' = ss_databases t" "ss_connections s' = ss_connections t"
      "ss_memories s' = ss_memories t" by (simp_all add: fun_upd_idem)
    then have "memories_ok H prev s'" "held_rows s' = held_rows t"
      using t held_rows_cong [of s' t] by (simp_all add: memories_ok_def table_at_def)
    with r O show ?thesis by (simp add: memory_stream_def \<open>ps_partition_for S i = Inr p\<close>)
  qed
qed

text \<open>What a publish promises; a conflict that is not excused is that of a stale expectation.\<close>

definition memory_published ::
  "'g host \<Rightarrow> ('g \<Rightarrow> ulid) \<Rightarrow> 'p \<Rightarrow> aggregate_id \<Rightarrow> publish_options \<Rightarrow> raw_event list \<Rightarrow>
    ('p, 'g) sqlite_store \<Rightarrow> sqlite_error + change_set \<Rightarrow> ('p, 'g) sqlite_store \<Rightarrow> bool" where
  "memory_published H prev p i opts raws s r s' \<longleftrightarrow>
     memories_ok H prev s' \<and>
     (let stream = rows_stream (held_rows s p); stream' = rows_stream (held_rows s' p) in
      case r of
        Inl e \<Rightarrow> held_rows s' = held_rows s \<and>
          (not_stale (error_from_sqlite e) \<or>
           (\<exists>x. raws \<noteq> [] \<and> expected_revision opts = Some x \<and> x \<noteq> stream_revision (stream i) \<and>
              error_from_sqlite e = RevisionConflict x (stream_revision (stream i))))
      | Inr cs \<Rightarrow>
          (\<forall>q. q \<noteq> p \<longrightarrow> held_rows s' q = held_rows s q) \<and>
          stream' = stream(i := stream i @ cs_events cs) \<and>
          list_all2 (records opts) raws (cs_events cs) \<and> cs_aggregate_id cs = i \<and>
          cs_revision cs = stream_revision (stream' i) \<and>
          (raws \<noteq> [] \<longrightarrow> expected_revision opts \<in> {None, Some (stream_revision (stream i))}))"

lemma memory_published_cong:
  "held_rows t = held_rows s \<Longrightarrow>
    memory_published H prev p i opts raws t r s' = memory_published H prev p i opts raws s r s'"
  by (cases r) (simp_all add: memory_published_def Let_def)

lemma publish_on_memory:
  assumes ok: "memories_ok H prev s" and held: "map_of (ss_connections s) p = Some loc"
    and run: "on_connection loc (publish_with_connection H i opts raws) s = (r, s')"
  shows "memory_published H prev p i opts raws s r s'"
    and "r = Inl e \<Longrightarrow> \<not> is_lazy_create_partition_not_ready e"
proof -
  from held_session [OF ok held] obtain d where d: "ss_databases s loc = Some d" "schema_ok d"
    "session_ok H prev ((ss_session s)\<lparr>c_db := d, c_saved := None\<rparr>)"
    "session_stream ((ss_session s)\<lparr>c_db := d, c_saved := None\<rparr>) = rows_stream (held_rows s p)" by metis
  let ?c = "(ss_session s)\<lparr>c_db := d, c_saved := None\<rparr>"
  from run d(1) obtain se where se: "publish_with_connection H i opts raws ?c = (r, se)"
    "s' = s\<lparr>ss_session := se, ss_databases := (ss_databases s)(loc \<mapsto> c_db (rollback se))\<rparr>"
    by (auto simp: on_connection_def split: prod.splits)
  from publish_with_connection_outcome [OF d(3) se(1)]
  have out: "publish_outcome H prev i opts raws ?c r se" by simp
  then have sok: "session_ok H prev se" by (simp add: publish_outcome_def)
  then have roll: "rollback se = se" by (simp add: session_ok_def)
  from sok obtain rows where rows: "tbl_events (c_db se) = Some rows" "rows_inv (h_ulid H) rows"
    by (auto simp: session_ok_def)
  have "schema_ok (c_db se)"
  proof (cases r)
    case (Inl e)
    with out d(2) show ?thesis by (simp add: publish_outcome_def)
  next
    case (Inr cs)
    with out have "(c_db se)\<lparr>tbl_events := tbl_events d\<rparr> = d" by (simp add: publish_outcome_def)
    from only_events_schema_ok [OF this d(2)] rows(1) show ?thesis by simp
  qed
  with rows have db: "db_ok (h_ulid H) (c_db se)" by (simp add: db_ok_def)
  have s': "ss_connections s' = ss_connections s" "ss_memories s' = ss_memories s"
    "ss_databases s' = (ss_databases s)(loc \<mapsto> c_db se)" by (simp_all add: se(2) roll)
  have "loc \<noteq> Memory k" if "k \<ge> ss_memories s" for k
    using ok d(1) that by (auto simp: memories_ok_def)
  with ok db rows(1) have inv: "memories_ok H prev s'"
    unfolding memories_ok_def s' by (auto simp: table_at_def s' split: if_splits)
  have other: "held_rows s' q = held_rows s q" if "q \<noteq> p" for q
    using that memories_okD(7) [OF ok held] by (auto simp: held_rows_def s' rows_at_def split: option.split)
  have own: "rows_stream (held_rows s' p) = session_stream se"
    by (simp add: held_rows_def s' held rows_at_def session_stream_def db_rows_def)
  have kept: "held_rows s' = held_rows s" if "r = Inl e" for e
  proof
    fix q
    show "held_rows s' q = held_rows s q"
      using that out d(1) held other by (cases "q = p") (auto simp: publish_outcome_def held_rows_def s' rows_at_def)
  qed
  show "memory_published H prev p i opts raws s r s'"
  proof (cases r)
    case (Inl e)
    with publish_with_connection_stale [OF d(3), of i opts raws e se] se(1) d(4) inv kept show ?thesis
      by (simp add: memory_published_def Let_def)
  next
    case (Inr cs)
    with out inv other own d(4) show ?thesis by (simp add: memory_published_def publish_outcome_def Let_def)
  qed
  show "\<not> is_lazy_create_partition_not_ready e" if "r = Inl e"
    using out memories_okD(1) [OF ok] that
    by (auto simp: publish_outcome_def attempt_failure_def answers_with_def never_reopens_def)
qed

lemma publish_in_memory:
  fixes S :: "'p strategy" and p :: 'p
  assumes ok: "memories_ok H prev s" and plain: "plain_strategy S"
    and run: "publish_in_partition H memory_catalog p i opts raws s = (r, s')"
  shows "memory_published H prev p i opts raws s r s' \<and>
    (\<forall>e. r = Inl e \<longrightarrow> is_lazy_create_partition_not_ready e \<longrightarrow> map_of (ss_connections s') p = None)"
  using run unfolding publish_in_partition_def
proof (cases rule: seq_result_cases)
  case (stop e)
  with ensure_memory_open [OF ok stop(1)] fails_plainlyD [OF open_partition_plain(1) [OF plain_memory [OF plain]] stop(1)]
  show ?thesis by (simp add: memory_published_def Let_def plain_not_stale)
next
  case (run loc t)
  from ensure_memory_open [OF ok run(1)]
  have t: "memories_ok H prev t" "held_rows t = held_rows s" "map_of (ss_connections t) p = Some loc"
    by simp_all
  from publish_on_memory [OF t(1,3) run(2)] memory_published_cong [OF t(2)] show ?thesis by metis
qed

lemma publish_loop_memory:
  fixes S :: "'p strategy" and p :: 'p
  assumes "memories_ok H prev s" and "plain_strategy S"
    and "publish_loop H memory_catalog p i opts raws n s = (r, s')"
  shows "memory_published H prev p i opts raws s r s'"
  using assms
proof (induction n arbitrary: s)
  case 0
  then show ?case by (auto simp: memory_published_def Let_def)
next
  case (Suc n)
  obtain q t where q: "publish_in_partition H memory_catalog p i opts raws s = (q, t)" by fastforce
  note P = publish_in_memory [OF Suc.prems(1,2) q]
  show ?case
  proof (cases "\<exists>e. q = Inl e \<and> is_lazy_create_partition_not_ready e \<and> 0 < n")
    case True
    then obtain e where e: "q = Inl e" "is_lazy_create_partition_not_ready e" "0 < n" by blast
    let ?t = "store_sleep LAZY_CREATE_PARTITION_READY_DELAY_MS (forget_connection p t)"
    from P e have t: "memories_ok H prev t" "map_of (ss_connections t) p = None"
      "held_rows t = held_rows s" by (simp_all add: memory_published_def Let_def)
    then have same: "map_of (ss_connections ?t) j = map_of (ss_connections t) j" for j
      by (simp add: store_sleep_def forget_connection_def map_of_filter_key)
    have rest: "ss_databases ?t = ss_databases t" "ss_memories ?t = ss_memories t"
      by (simp_all add: store_sleep_def forget_connection_def)
    from t(1) have "memories_ok H prev ?t" unfolding memories_ok_def same rest table_at_def .
    moreover have "held_rows ?t = held_rows s"
      unfolding t(3) [symmetric] by (rule held_rows_cong [OF same rest(1)])
    moreover from Suc.prems(3) q e have "publish_loop H memory_catalog p i opts raws n ?t = (r, s')" by simp
    ultimately show ?thesis
      using Suc.IH [OF _ Suc.prems(2)] memory_published_cong [of ?t s] by metis
  next
    case False
    with Suc.prems(3) q have "r = q" "s' = t" by (auto split: sum.splits if_splits)
    with P show ?thesis by simp
  qed
qed

lemma publish_to_memory:
  assumes ok: "memories_ok H prev s" and plain: "plain_strategy S"
    and run: "publish_to_aggregate H S memory_catalog i opts raws s = (r, s')"
  shows "(\<exists>e. ps_partition_for S i = Inl e \<and> r = Inl e \<and> s' = s) \<or>
    (\<exists>p. ps_partition_for S i = Inr p \<and> memory_published H prev p i opts raws s r s')"
  using run publish_loop_memory [OF ok plain]
  by (cases "ps_partition_for S i") (auto simp: publish_to_aggregate_def seq_result_def give_def)

text \<open>The contract of \<open>EventStore\<close>, and the errors that a publish may answer.\<close>

lemma memory_stream_cong:
  "held_rows s' = held_rows s \<Longrightarrow> memory_stream S s' = memory_stream S s"
  by (simp add: memory_stream_def fun_eq_iff split: sum.split)

lemma memory_stream_published:
  assumes "ps_partition_for S i = Inr p" and "memory_published H prev p i opts raws s (Inr cs) s'"
  shows "memory_stream S s' = (memory_stream S s)(i := memory_stream S s i @ cs_events cs)"
proof
  fix j
  show "memory_stream S s' j = ((memory_stream S s)(i := memory_stream S s i @ cs_events cs)) j"
  proof (cases "ps_partition_for S j")
    case (Inr q)
    with assms show ?thesis
      by (cases "q = p") (auto simp: memory_stream_def memory_published_def Let_def)
  next
    case (Inl e)
    with assms(1) show ?thesis by (auto simp: memory_stream_def)
  qed
qed

definition memory_inv ::
  "'g host \<Rightarrow> ('g \<Rightarrow> ulid) \<Rightarrow> 'p strategy \<Rightarrow> ('p, 'g) sqlite_store \<Rightarrow> bool" where
  "memory_inv H prev S s \<longleftrightarrow>
     memories_ok H prev s \<and> plain_strategy S"

lemma memory_load_step:
  assumes "memory_inv H prev S s" and "st_load (sqlite_ops H S memory_catalog) s i = (l, s')"
  shows "memory_inv H prev S s'" and "memory_stream S s' = memory_stream S s"
    and "l = Inr a \<Longrightarrow> a = from_shared_events i (memory_stream S s i)" and "l = Inl e \<Longrightarrow> not_stale e"
proof -
  from assms(2) obtain r where r: "load_aggregate H S memory_catalog i s = (r, s')"
    "l = map_err error_from_sqlite r" by (rule sqlite_load_cases)
  from assms(1) have ok: "memories_ok H prev s" and plain: "plain_strategy S"
    unfolding memory_inv_def by blast+
  note L = load_from_memory [OF ok r(1)]
  show "memory_inv H prev S s'" using L plain by (simp add: memory_inv_def)
  show "memory_stream S s' = memory_stream S s" using L by (intro memory_stream_cong) simp
  show "l = Inr a \<Longrightarrow> a = from_shared_events i (memory_stream S s i)" using L r(2) by (cases r) auto
  show "not_stale e" if "l = Inl e"
  proof -
    from that r(2) obtain d where d: "r = Inl d" "e = error_from_sqlite d" by (cases r) auto
    from fails_plainlyD [OF load_aggregate_plain [OF plain_memory [OF plain]] r(1) [unfolded d(1)]] d(2)
    show ?thesis by (simp add: plain_not_stale)
  qed
qed

lemma memory_publish_step:
  assumes "memory_inv H prev S s" and "st_publish (sqlite_ops H S memory_catalog) s i opts raws = (q, s')"
  shows "memory_inv H prev S s'"
    and "q = Inl e \<Longrightarrow> memory_stream S s' = memory_stream S s \<and>
      (not_stale e \<or> (\<exists>x. raws \<noteq> [] \<and> expected_revision opts = Some x \<and>
         x \<noteq> stream_revision (memory_stream S s i) \<and>
         e = RevisionConflict x (stream_revision (memory_stream S s i))))"
    and "q = Inr cs \<Longrightarrow>
      memory_stream S s' = (memory_stream S s)(i := memory_stream S s i @ cs_events cs) \<and>
      list_all2 (records opts) raws (cs_events cs) \<and> cs_aggregate_id cs = i \<and>
      cs_revision cs = stream_revision (memory_stream S s' i) \<and>
      (raws \<noteq> [] \<longrightarrow> expected_revision opts \<in> {None, Some (stream_revision (memory_stream S s i))})"
proof -
  from assms(2) obtain r where r: "publish_to_aggregate H S memory_catalog i opts raws s = (r, s')"
    "q = map_err error_from_sqlite r" by (rule sqlite_publish_cases)
  from assms(1) have ok: "memories_ok H prev s" and plain: "plain_strategy S"
    unfolding memory_inv_def by blast+
  consider (unnamed) e where "ps_partition_for S i = Inl e" "r = Inl e" "s' = s"
    | (routed) p where "ps_partition_for S i = Inr p" "memory_published H prev p i opts raws s r s'"
    using publish_to_memory [OF ok plain r(1)] by blast
  note cases = this
  show "memory_inv H prev S s'"
    using cases by cases (use ok plain in \<open>simp_all add: memory_inv_def memory_published_def\<close>)
  show "memory_stream S s' = memory_stream S s \<and>
      (not_stale e \<or> (\<exists>x. raws \<noteq> [] \<and> expected_revision opts = Some x \<and>
         x \<noteq> stream_revision (memory_stream S s i) \<and>
         e = RevisionConflict x (stream_revision (memory_stream S s i))))" if "q = Inl e"
    using cases
  proof cases
    case (unnamed d)
    with plain have "plain d" by (simp add: plain_strategy_def)
    from plain_not_stale [OF this] unnamed that r(2) show ?thesis by auto
  next
    case (routed p)
    from that r(2) obtain d where d: "r = Inl d" "e = error_from_sqlite d" by (cases r) auto
    with routed have "held_rows s' = held_rows s" by (simp add: memory_published_def Let_def)
    from memory_stream_cong [of s' s S, OF this] routed d show ?thesis
      by (simp add: memory_published_def Let_def memory_stream_def)
  qed
  show "memory_stream S s' = (memory_stream S s)(i := memory_stream S s i @ cs_events cs) \<and>
      list_all2 (records opts) raws (cs_events cs) \<and> cs_aggregate_id cs = i \<and>
      cs_revision cs = stream_revision (memory_stream S s' i) \<and>
      (raws \<noteq> [] \<longrightarrow> expected_revision opts \<in> {None, Some (stream_revision (memory_stream S s i))})"
    if "q = Inr cs"
    using cases
  proof cases
    case (unnamed d)
    with that r(2) show ?thesis by simp
  next
    case (routed p)
    from that r(2) have "r = Inr cs" by (cases r) auto
    with routed memory_stream_published [of S i p H prev opts raws s cs s'] show ?thesis
      by (simp add: memory_published_def Let_def) (simp add: memory_stream_def)
  qed
qed

interpretation memory_databases:
  dependable_store "sqlite_ops H S memory_catalog" "memory_inv H prev S" "memory_stream S"
    "\<lambda>_ _. True" not_stale
  for H S prev
proof unfold_locales
  fix s i l s'
  assume "memory_inv H prev S s" and "st_load (sqlite_ops H S memory_catalog) s i = (l, s')"
  from memory_load_step(1,2) [OF this]
  show "memory_inv H prev S s' \<and> memory_stream S s' = memory_stream S s" by simp
next
  fix s i a s'
  assume "memory_inv H prev S s" and "st_load (sqlite_ops H S memory_catalog) s i = (Inr a, s')"
  from memory_load_step(3) [OF this refl] show "a = from_shared_events i (memory_stream S s i)" .
next
  fix s i opts raws r s'
  assume "memory_inv H prev S s" and "st_publish (sqlite_ops H S memory_catalog) s i opts raws = (r, s')"
  then show "memory_inv H prev S s'" by (rule memory_publish_step(1))
next
  fix s i opts raws e s'
  assume "memory_inv H prev S s" and "st_publish (sqlite_ops H S memory_catalog) s i opts raws = (Inl e, s')"
  from memory_publish_step(2) [OF this refl] show "memory_stream S s' = memory_stream S s" ..
next
  fix s i opts raws cs s'
  assume "memory_inv H prev S s" and "st_publish (sqlite_ops H S memory_catalog) s i opts raws = (Inr cs, s')"
  from memory_publish_step(3) [OF this refl]
  show "memory_stream S s' = (memory_stream S s)(i := memory_stream S s i @ cs_events cs) \<and>
      list_all2 (records opts) raws (cs_events cs) \<and> cs_aggregate_id cs = i \<and>
      cs_revision cs = stream_revision (memory_stream S s' i)" by blast
next
  fix s i opts raws cs s' x
  assume run: "memory_inv H prev S s" "st_publish (sqlite_ops H S memory_catalog) s i opts raws = (Inr cs, s')"
    and "raws \<noteq> []" "expected_revision opts = Some x"
  with memory_publish_step(3) [OF run refl] show "x = stream_revision (memory_stream S s i)" by simp
next
  fix s i
  assume "memory_inv H prev S s"
  then have ok: "memories_ok H prev s" by (simp add: memory_inv_def)
  show "strictly_increasing (revisions (memory_stream S s i))"
    by (simp add: memory_stream_def sorted_revisions [OF held_rows_inv [OF ok]] split: sum.splits)
next
  fix s i v
  assume inv: "memory_inv H prev S s" and "v \<in> set (revisions (memory_stream S s i))"
  from this(2) obtain p where p: "v \<in> set (revisions (rows_stream (held_rows s p) i))"
    by (auto simp: memory_stream_def split: sum.splits)
  from inv have ok: "memories_ok H prev s" by (simp add: memory_inv_def)
  from stream_rev_ulid [OF held_rows_inv [OF ok] p] revision_zero_less [OF memories_okD(2) [OF ok]]
  show "revision_zero < v" by auto
next
  fix s i e s'
  assume "memory_inv H prev S s" and "st_load (sqlite_ops H S memory_catalog) s i = (Inl e, s')"
  from memory_load_step(4) [OF this refl] show "not_stale e" .
next
  fix s i opts raws e s'
  assume "memory_inv H prev S s" and "st_publish (sqlite_ops H S memory_catalog) s i opts raws = (Inl e, s')"
  from memory_publish_step(2) [OF this refl]
  show "not_stale e \<or> (\<exists>x. raws \<noteq> [] \<and> expected_revision opts = Some x \<and>
      x \<noteq> stream_revision (memory_stream S s i) \<and>
      e = RevisionConflict x (stream_revision (memory_stream S s i)))" ..
qed simp_all

section \<open>Opening the store\<close>

lemma bootstrap_memory:
  assumes "memories_ok H prev s" and "collect_actions (ensure_partition_open H memory_catalog) ps s = (r, s')"
  shows "memories_ok H prev s' \<and> held_rows s' = held_rows s"
  using assms
proof (induction ps arbitrary: s r s')
  case (Cons p ps)
  obtain q t where q: "ensure_partition_open H memory_catalog p s = (q, t)" by fastforce
  note O = ensure_memory_open [OF Cons.prems(1) q]
  obtain u v where u: "collect_actions (ensure_partition_open H memory_catalog) ps t = (u, v)" by fastforce
  show ?case
  proof (cases q)
    case (Inl e)
    with Cons.prems(2) q O show ?thesis by (simp add: seq_result_def)
  next
    case (Inr loc)
    with Cons.prems(2) q u have "s' = v" by (auto simp: seq_result_def give_def split: sum.splits)
    with Cons.IH [OF _ u] O show ?thesis by simp
  qed
qed (simp add: give_def)

lemma open_in_memory_opens:
  assumes "never_reopens H" and "ulid_laws (h_ulid H)" and "monotonic_generator (h_gen H) prev"
    and run: "open_in_memory H S (from_catalog g e) = (Inr C, s)"
  shows "C = memory_catalog" and "memories_ok H prev s" and "memory_stream S s i = []"
proof -
  from run obtain r where
    "collect_actions (ensure_partition_open H memory_catalog) (ps_bootstrap S) (from_catalog g e) = (r, s)"
    and C: "C = memory_catalog"
    by (auto simp: open_in_memory_def open_single_def bootstrap_def seq_result_def give_def
        split: prod.splits sum.splits)
  moreover have "memories_ok H prev (from_catalog g e)"
    using assms(1-3) by (simp add: memories_ok_def from_catalog_def)
  ultimately have "memories_ok H prev s" "held_rows s = held_rows (from_catalog g e)"
    using bootstrap_memory by blast+
  then show "memories_ok H prev s" and "memory_stream S s i = []"
    by (simp_all add: memory_stream_def held_rows_def from_catalog_def rows_stream_def agg_rows_def
        split: sum.split)
  show "C = memory_catalog" by (rule C)
qed

section \<open>The guarantee\<close>

text \<open>
  C11: the SQLite store never breaks its contract, whatever fails. The store is either one of any
  strategy over databases that outlive their connections and stay where they are (files, or
  remote databases of a provisioner that never moves one), in a healthy state, or it has just been
  opened in memory, of any strategy, on a host that never answers as a remote namespace does that
  is not ready (on such an answer the store drops its connection, and an in-memory database is
  gone with it). In both cases a conformance test on a new aggregate either runs to its end or
  stops at a call that returned an error, and that error is not a revision conflict between two
  different revisions. No assertion of the suite ever fails. (The caller's strategy and catalog
  may answer with any errors of the SQLite crate, but not with a core error of their own making,
  which could pretend to be such a conflict.)
\<close>

theorem sqlite_store_conforms:
  assumes "store_ok H prev C tgt s \<and> plain_partitions S C \<and> store_stream S tgt s (test_id T) = [] \<or>
      never_reopens H \<and> ulid_laws (h_ulid H) \<and> monotonic_generator (h_gen H) prev \<and>
      plain_strategy S \<and> open_in_memory H S (from_catalog g e) = (Inr C, s)"
    and "env_ok T" and "test \<in> set (store_test_suite T (sqlite_ops H S C))"
  shows "case fst (test s) of
      Inr _ \<Rightarrow> True
    | Inl (AssertFailed m) \<Rightarrow> False
    | Inl (ExpectFailed m e) \<Rightarrow> \<forall>x a. e = RevisionConflict x a \<longrightarrow> x = a
    | Inl (WrongError e) \<Rightarrow> \<forall>x a. e \<noteq> RevisionConflict x a \<or> x = a"
proof -
  have "case fst (test s) of Inl p \<Rightarrow> tolerated not_stale p | Inr _ \<Rightarrow> True"
    using assms(1)
  proof
    assume "store_ok H prev C tgt s \<and> plain_partitions S C \<and> store_stream S tgt s (test_id T) = []"
    with sqlite_dependable.suite_passes [OF assms(2,3)] show ?thesis by blast
  next
    assume opened: "never_reopens H \<and> ulid_laws (h_ulid H) \<and> monotonic_generator (h_gen H) prev \<and>
      plain_strategy S \<and> open_in_memory H S (from_catalog g e) = (Inr C, s)"
    then have C: "C = memory_catalog" and "memory_inv H prev S s" and "memory_stream S s (test_id T) = []"
      using open_in_memory_opens [of H prev S g e C s] by (simp_all add: memory_inv_def)
    with memory_databases.suite_passes [OF assms(2) assms(3) [unfolded C]] show ?thesis by blast
  qed
  then show ?thesis by (auto simp: not_stale_def split: sum.splits panic.splits)
qed

text \<open>The witness: the store of one file, and the store that the suite opens in memory.\<close>

definition demo_memory where
  "demo_memory = open_in_memory calm_host global_strategy (from_catalog 0 Json)"

lemma demo_memory_opened: "demo_memory = (Inr memory_catalog, snd demo_memory)"
proof -
  have "fst demo_memory = Inr memory_catalog"
    by (simp add: demo_memory_def open_in_memory_def open_single_def bootstrap_def ensure_partition_open_def
        connect_partition_def open_target_def open_event_store_connection_def connect_def
        prepare_local_connection_def query_required_string_def migrate_event_store_def
        migrate_schema_def current_schema_version_def upsert_version_def sql_run
        prepare_connection_for_partition_def target_location_def event_migrations_def
        global_strategy_def calm_host_def from_catalog_def empty_db_def
        EVENT_STORE_SCHEMA_VERSION_def pending_ddl_def)
  then show ?thesis by (metis prod.collapse)
qed

theorem sqlite_store_conforms_witness:
  "case fst (event_ordering_preserved demo_env (sqlite_ops calm_host global_strategy memory_catalog)
      (snd demo_memory)) of
      Inr _ \<Rightarrow> True
    | Inl (AssertFailed m) \<Rightarrow> False
    | Inl (ExpectFailed m e) \<Rightarrow> \<forall>x a. e = RevisionConflict x a \<longrightarrow> x = a
    | Inl (WrongError e) \<Rightarrow> \<forall>x a. e \<noteq> RevisionConflict x a \<or> x = a"
proof (rule sqlite_store_conforms [where prev = id and g = 0 and e = Json, OF disjI2 demo_env_ok])
  show "never_reopens calm_host \<and> ulid_laws (h_ulid calm_host) \<and>
      monotonic_generator (h_gen calm_host) id \<and> plain_strategy global_strategy \<and>
      open_in_memory calm_host global_strategy (from_catalog 0 Json) = (Inr memory_catalog, snd demo_memory)"
    using demo_memory_opened
    by (simp add: demo_memory_def never_reopens_def plain_strategy_def calm_host_def crockford_laws
        counter_generator_monotonic)
qed (simp add: store_test_suite_def)

end
