(* ===== verification/TursoTests.thy ===== *)
theory TursoTests
  imports Turso
begin

text \<open>
  The unit tests of \<^verbatim>\<open>crates/wee-events-sqlite/src/event_store/turso_platform/\<close>, as definitions over
  the model: each is the body of a test function, true if it runs to its end without a panic. The
  lemmas show that the model passes the tests that the code is written against. The in-memory
  platform counts its calls here, and the in-memory metadata store is that of the tests.
\<close>

text \<open>\<open>m.await.unwrap()\<close> followed by the rest of the test.\<close>

definition unwrapped :: "('s, 'e, 'a) action \<Rightarrow> ('a \<Rightarrow> 's \<Rightarrow> bool) \<Rightarrow> 's \<Rightarrow> bool" where
  "unwrapped m k s = (case m s of (Inl e, t) \<Rightarrow> False | (Inr a, t) \<Rightarrow> k a t)"

lemma unwrapped_run [simp]: "m s = (Inr a, t) \<Longrightarrow> unwrapped m k s = k a t"
  by (simp add: unwrapped_def)

section \<open>The platform with its counters\<close>

record counted_platform =
  fake_databases :: fake_platform
  create_calls :: nat
  get_calls :: nat
  list_calls :: nat

definition counted_platform_new :: counted_platform where
  "counted_platform_new = \<lparr>fake_databases = [], create_calls = 0, get_calls = 0, list_calls = 0\<rparr>"

definition counted :: "(fake_platform, 'e, 'a) action \<Rightarrow> (counted_platform, 'e, 'a) action" where
  "counted f c = (case f (fake_databases c) of (r, dbs) \<Rightarrow> (r, c\<lparr>fake_databases := dbs\<rparr>))"

definition counted_api :: "counted_platform turso_api" where
  "counted_api =
     \<lparr>ta_create_database = (\<lambda>name grp c.
        counted (ta_create_database fake_api name grp) (c\<lparr>create_calls := create_calls c + 1\<rparr>)),
      ta_get_database = (\<lambda>name c.
        counted (ta_get_database fake_api name) (c\<lparr>get_calls := get_calls c + 1\<rparr>)),
      ta_list_databases = (\<lambda>grp c.
        counted (ta_list_databases fake_api grp) (c\<lparr>list_calls := list_calls c + 1\<rparr>)),
      ta_delete_database = (\<lambda>name. counted (ta_delete_database fake_api name))\<rparr>"

lemmas counted_simps = counted_api_def counted_def counted_platform_new_def fake_api_def
  fake_create_database_def fake_hostname_def Let_def

text \<open>The tests of \<^verbatim>\<open>api.rs\<close>.\<close>

definition fake_create_succeeds_then_returns_already_exists :: bool where
  "fake_create_succeeds_then_returns_already_exists =
     unwrapped (ta_create_database counted_api ''myapp-orders'' ''default'') (\<lambda>info c.
       di_hostname info = ''myapp-orders-testorg.turso.io'' \<and> di_name info = ''myapp-orders'' \<and>
       fst (ta_create_database counted_api ''myapp-orders'' ''default'' c) = Inl AlreadyExists)
     counted_platform_new"

definition fake_get_returns_none_for_unknown :: bool where
  "fake_get_returns_none_for_unknown =
     unwrapped (ta_get_database counted_api ''missing'') (\<lambda>found c. found = None) counted_platform_new"

definition fake_get_returns_some_for_known :: bool where
  "fake_get_returns_some_for_known =
     unwrapped (ta_create_database counted_api ''myapp-orders'' ''default'') (\<lambda>_.
     unwrapped (ta_get_database counted_api ''myapp-orders'') (\<lambda>found c.
       case found of None \<Rightarrow> False | Some info \<Rightarrow> di_name info = ''myapp-orders'')) counted_platform_new"

definition fake_list_returns_all_created :: bool where
  "fake_list_returns_all_created =
     unwrapped (ta_create_database counted_api ''myapp-a'' ''default'') (\<lambda>_.
     unwrapped (ta_create_database counted_api ''myapp-b'' ''default'') (\<lambda>_.
     unwrapped (ta_list_databases counted_api ''default'') (\<lambda>dbs c. length dbs = 2)))
     counted_platform_new"

lemma api_tests:
  fake_create_succeeds_then_returns_already_exists fake_get_returns_none_for_unknown
  fake_get_returns_some_for_known fake_list_returns_all_created
  by (simp_all add: fake_create_succeeds_then_returns_already_exists_def
      fake_get_returns_none_for_unknown_def fake_get_returns_some_for_known_def
      fake_list_returns_all_created_def counted_simps)

section \<open>The metadata store of the tests\<close>

record fake_metadata =
  fm_names :: "(string \<times> string) list"
  ensure_calls :: nat
  load_calls :: nat

definition fake_metadata_new :: fake_metadata where
  "fake_metadata_new = \<lparr>fm_names = [], ensure_calls = 0, load_calls = 0\<rparr>"

text \<open>\<open>target_key\<close> panics on a target that is not a Turso database.\<close>

fun target_key :: "database_target \<Rightarrow> sqlite_error + string" where
  "target_key (Turso url token) = Inr url"
| "target_key other = Inl (WeeEvents (Custom (Panicked ''unexpected target for fake metadata store'')))"

definition seed :: "database_target \<Rightarrow> string \<Rightarrow> (fake_metadata, sqlite_error, unit) action" where
  "seed target logical_name m =
     (case target_key target of
        Inl e \<Rightarrow> (Inl e, m)
      | Inr key \<Rightarrow> (Inr (), m\<lparr>fm_names := upsert key logical_name (fm_names m)\<rparr>))"

definition fake_ensure_partition_name ::
  "database_target \<Rightarrow> string \<Rightarrow> (fake_metadata, sqlite_error, unit) action" where
  "fake_ensure_partition_name target logical_name m0 =
     (let m = m0\<lparr>ensure_calls := ensure_calls m0 + 1\<rparr> in
      case target_key target of
        Inl e \<Rightarrow> (Inl e, m)
      | Inr key \<Rightarrow>
          (case map_of (fm_names m) key of
             Some recorded_name \<Rightarrow>
               if recorded_name \<noteq> logical_name then
                 (Inl (Configuration (''logical partition name mismatch: target is recorded as '' @
                    quote_char @ recorded_name @ quote_char @ '' but was opened for '' @ quote_char @
                    logical_name @ quote_char)), m)
               else (Inr (), m)
           | None \<Rightarrow> (Inr (), m\<lparr>fm_names := upsert key logical_name (fm_names m)\<rparr>)))"

definition fake_load_partition_name ::
  "database_target \<Rightarrow> (fake_metadata, sqlite_error, string option) action" where
  "fake_load_partition_name target m0 =
     (let m = m0\<lparr>load_calls := load_calls m0 + 1\<rparr> in
      case target_key target of
        Inl e \<Rightarrow> (Inl e, m)
      | Inr key \<Rightarrow> (Inr (map_of (fm_names m) key), m))"

definition fake_metadata_store :: "fake_metadata metadata_store" where
  "fake_metadata_store =
     \<lparr>pm_ensure_partition_name = fake_ensure_partition_name,
      pm_load_partition_name = fake_load_partition_name\<rparr>"

type_synonym test_provisioner = "(counted_platform, fake_metadata) provisioner"

definition test_provisioner :: test_provisioner where
  "test_provisioner = with_api counted_platform_new fake_metadata_new ''default'' ''myapp'' ''group-tok-123''"

lemmas provisioner_simps = counted_simps test_provisioner_def with_api_def fake_metadata_store_def
  fake_metadata_new_def fake_ensure_partition_name_def fake_load_partition_name_def seed_def
  ensure_target_for_name_def target_for_existing_name_def find_existing_database_def
  lookup_existing_database_def create_or_get_def adopt_database_def make_target_def
  on_platform_def on_metadata_def seq_err_def give_def unwrapped_def seq_result_def

section \<open>The tests of the provisioner\<close>

abbreviation ensure_named :: "string \<Rightarrow> (test_provisioner, sqlite_error, database_target) action" where
  "ensure_named n \<equiv> ensure_target_for_name counted_api fake_metadata_store (Named n)"

abbreviation existing_named :: "string \<Rightarrow> (test_provisioner, sqlite_error, database_target option) action" where
  "existing_named n \<equiv> target_for_existing_name counted_api fake_metadata_store (Named n)"

abbreviation test_names :: "(test_provisioner, sqlite_error, string list) action" where
  "test_names \<equiv> provisioner_names counted_api fake_metadata_store"

text \<open>A database that somebody else created; what was recorded in it.\<close>

abbreviation created :: "string \<Rightarrow> (test_provisioner, api_error, database_info) action" where
  "created n \<equiv> on_platform (ta_create_database counted_api n ''default'')"

abbreviation seeded :: "database_target \<Rightarrow> string \<Rightarrow> (test_provisioner, sqlite_error, unit) action" where
  "seeded target n \<equiv> on_metadata (seed target n)"

definition ensure_creates_database_and_returns_turso_target :: bool where
  "ensure_creates_database_and_returns_turso_target =
     unwrapped (ensure_named ''orders'') (\<lambda>target P.
       target = Turso (''libsql://'' @ sanitize_database_name ''orders'' ''myapp'' @ ''-testorg.turso.io'')
         ''group-tok-123'') test_provisioner"

definition ensure_default_partition_uses_prefix_only :: bool where
  "ensure_default_partition_uses_prefix_only =
     unwrapped (ensure_target_for_name counted_api fake_metadata_store DefaultName) (\<lambda>target P.
       target = Turso ''libsql://myapp-testorg.turso.io'' ''group-tok-123'') test_provisioner"

definition ensure_returns_cached_on_second_call :: bool where
  "ensure_returns_cached_on_second_call =
     unwrapped (ensure_named ''orders'') (\<lambda>_. unwrapped (ensure_named ''orders'') (\<lambda>_ P.
       create_calls (tp_platform P) = 1)) test_provisioner"

definition is_turso :: "database_target \<Rightarrow> bool" where
  "is_turso target = (case target of Turso _ _ \<Rightarrow> True | _ \<Rightarrow> False)"

definition ensure_handles_already_exists_by_fetching :: bool where
  "ensure_handles_already_exists_by_fetching =
     unwrapped (created (sanitize_database_name ''orders'' ''myapp'')) (\<lambda>_.
     unwrapped (ensure_named ''orders'') (\<lambda>target P.
       create_calls (tp_platform P) = 1 \<and> get_calls (tp_platform P) = 1 \<and> is_turso target))
     test_provisioner"

definition ensure_sanitizes_partition_name :: bool where
  "ensure_sanitizes_partition_name =
     unwrapped (ensure_named ''Tenant:ACME'') (\<lambda>_.
     unwrapped (on_platform (ta_get_database counted_api (sanitize_database_name ''Tenant:ACME'' ''myapp'')))
       (\<lambda>found P. found \<noteq> None)) test_provisioner"

definition ensure_records_original_name :: bool where
  "ensure_records_original_name =
     unwrapped (ensure_named ''orders'') (\<lambda>_. unwrapped test_names (\<lambda>names P.
       names = [''orders''])) test_provisioner"

definition ensure_persists_partition_metadata_for_named_targets :: bool where
  "ensure_persists_partition_metadata_for_named_targets =
     unwrapped (ensure_named ''tenant/acme:blue'') (\<lambda>target.
     unwrapped (on_metadata (fake_load_partition_name target)) (\<lambda>recorded P.
       recorded = Some ''tenant/acme:blue'')) test_provisioner"

definition existing_returns_cached :: bool where
  "existing_returns_cached =
     unwrapped (ensure_named ''orders'') (\<lambda>_ P.
     unwrapped (existing_named ''orders'') (\<lambda>target Q. target \<noteq> None \<and> get_calls (tp_platform Q) = 0)
       (P\<lparr>tp_platform := (tp_platform P)\<lparr>get_calls := 0\<rparr>\<rparr>)) test_provisioner"

definition existing_falls_back_to_api :: bool where
  "existing_falls_back_to_api =
     unwrapped (created (sanitize_database_name ''orders'' ''myapp'')) (\<lambda>_.
     unwrapped (existing_named ''orders'') (\<lambda>target P.
       target \<noteq> None \<and> get_calls (tp_platform P) = 1 \<and> ensure_calls (tp_metadata P) = 1))
     test_provisioner"

definition existing_returns_none_for_unknown :: bool where
  "existing_returns_none_for_unknown =
     unwrapped (existing_named ''missing'') (\<lambda>target P. target = None) test_provisioner"

lemma provisioner_tests:
  ensure_creates_database_and_returns_turso_target ensure_returns_cached_on_second_call
  ensure_handles_already_exists_by_fetching ensure_sanitizes_partition_name
  ensure_persists_partition_metadata_for_named_targets existing_returns_cached
  existing_falls_back_to_api existing_returns_none_for_unknown
  by (simp_all add: ensure_creates_database_and_returns_turso_target_def
      ensure_returns_cached_on_second_call_def ensure_handles_already_exists_by_fetching_def
      ensure_sanitizes_partition_name_def ensure_persists_partition_metadata_for_named_targets_def
      existing_returns_cached_def existing_falls_back_to_api_def existing_returns_none_for_unknown_def
      is_turso_def provisioner_simps)

definition names_returns_known_names_from_cache :: bool where
  "names_returns_known_names_from_cache =
     unwrapped (ensure_named ''orders'') (\<lambda>_. unwrapped (ensure_named ''users'') (\<lambda>_.
     unwrapped test_names (\<lambda>names P. sort names = [''orders'', ''users'']))) test_provisioner"

definition names_reads_exact_logical_names_from_metadata :: bool where
  "names_reads_exact_logical_names_from_metadata =
     unwrapped (created (sanitize_database_name ''orders'' ''myapp'')) (\<lambda>info.
     unwrapped (seeded (make_target test_provisioner (di_hostname info)) ''tenant/acme:blue'') (\<lambda>_.
     unwrapped test_names (\<lambda>names P. names = [''tenant/acme:blue'']))) test_provisioner"

definition names_errors_when_metadata_is_missing :: "foreign_display \<Rightarrow> bool" where
  "names_errors_when_metadata_is_missing F =
     unwrapped (created (sanitize_database_name ''orders'' ''myapp'')) (\<lambda>_ P.
       case fst (test_names P) of
         Inl error \<Rightarrow> contains_str ''missing logical partition metadata'' (sqlite_error_display F error)
       | Inr names \<Rightarrow> False) test_provisioner"

definition unsanitized_provisioner :: test_provisioner where
  "unsanitized_provisioner = with_api counted_platform_new fake_metadata_new ''default'' ''My_App'' ''group-tok-123''"

definition names_fallback_uses_sanitized_default_prefix :: bool where
  "names_fallback_uses_sanitized_default_prefix =
     unwrapped (created (sanitize_database_name ''orders'' ''My_App'')) (\<lambda>info.
     unwrapped (seeded (make_target unsanitized_provisioner (di_hostname info)) ''orders'') (\<lambda>_.
     unwrapped test_names (\<lambda>names P. names = [''orders'']))) unsanitized_provisioner"

text \<open>\<open>remove_var\<close> on the environment of the process.\<close>

definition from_env_returns_error_on_missing_var ::
  "foreign_display \<Rightarrow> (string \<Rightarrow> string option) \<Rightarrow> bool" where
  "from_env_returns_error_on_missing_var F env =
     (case config_from_env (env(''TURSO_ORG'' := None)) of
        Inl e \<Rightarrow> contains_str ''TURSO_ORG'' (sqlite_error_display F e)
      | Inr config \<Rightarrow> False)"

lemma contains_str_append: "contains_str p b \<Longrightarrow> contains_str p (a @ b)"
  unfolding contains_str_iff by (metis append.assoc)

lemma default_names: "sanitize_database_name [] ''myapp'' = ''myapp''" "sanitize_database_name [] ''My_App'' = ''my-app''"
  by code_simp+

lemma managed_name:
  assumes "n \<noteq> []" and "length (sanitize_database_name [] pre) < 18"
  shows "is_managed_named_database pre (sanitize_database_name n pre)"
proof -
  obtain f where f: "sanitize_database_name n pre =
      named_database_prefix pre @ CHR ''-'' # (f @ stable_hash_hex n)"
    by (rule sanitize_database_name_cases [OF assms(1)])
  have "18 \<le> length (sanitize_database_name n pre)"
    using named_database_prefix_ok(2) [of pre] by (cases "named_database_prefix pre") (simp_all add: f stable_hash_hex_def)
  with assms(2) have "sanitize_database_name n pre \<noteq> sanitize_database_name [] pre" by auto
  with f show ?thesis
    by (auto simp: is_managed_named_database_def named_db_prefix_def text_simps)
qed

lemma managed_orders:
  "is_managed_named_database ''myapp'' (sanitize_database_name ''orders'' ''myapp'')"
  "is_managed_named_database ''My_App'' (sanitize_database_name ''orders'' ''My_App'')"
  by (rule managed_name; simp add: default_names)+

lemma other_name: "sanitize_database_name ''users'' ''myapp'' \<noteq> sanitize_database_name ''orders'' ''myapp''"
proof
  assume "sanitize_database_name ''users'' ''myapp'' = sanitize_database_name ''orders'' ''myapp''"
  then have "stable_hash ''users'' = stable_hash ''orders''" by (rule sanitized_name_collision [rotated 2]) simp_all
  then show False by (simp add: stable_hash_def str_bytes_def FNV64_OFFSET_def FNV64_PRIME_def)
qed

lemmas names_simps = provisioner_simps provisioner_names_def logical_name_of_def cache_target_def
  managed_orders ok_or_def

lemma names_tests:
  ensure_default_partition_uses_prefix_only ensure_records_original_name
  names_returns_known_names_from_cache names_reads_exact_logical_names_from_metadata
  names_fallback_uses_sanitized_default_prefix
  by (simp_all add: ensure_default_partition_uses_prefix_only_def ensure_records_original_name_def
      names_returns_known_names_from_cache_def names_reads_exact_logical_names_from_metadata_def
      names_fallback_uses_sanitized_default_prefix_def unsanitized_provisioner_def default_names other_name names_simps)

lemma missing_tests:
  "names_errors_when_metadata_is_missing F" "from_env_returns_error_on_missing_var F env"
  by (simp_all add: contains_str_append starts_with_def names_errors_when_metadata_is_missing_def from_env_returns_error_on_missing_var_def
      config_from_env_def names_simps)

section \<open>The tests of database names\<close>

definition database_name_is :: "string \<Rightarrow> string \<Rightarrow> string \<Rightarrow> bool" where
  "database_name_is name pre fragment =
     (sanitize_database_name name pre =
        named_database_prefix pre @ ''-'' @ fragment @ ''-'' @ stable_hash_hex name)"

definition simple_lowercase_name_gets_prefixed :: bool where
  "simple_lowercase_name_gets_prefixed = database_name_is ''orders'' ''myapp'' ''orders''"

definition uppercase_is_lowercased :: bool where
  "uppercase_is_lowercased = database_name_is ''Orders'' ''myapp'' ''orders''"

definition special_chars_become_dashes :: bool where
  "special_chars_become_dashes = database_name_is ''tenant:acme/us-east'' ''myapp'' ''tenant-acme-us-east''"

definition underscores_become_dashes :: bool where
  "underscores_become_dashes = database_name_is ''my_db'' ''app'' ''my-db''"

definition consecutive_dashes_are_collapsed :: bool where
  "consecutive_dashes_are_collapsed = database_name_is ''a--b'' ''myapp'' ''a-b''"

definition trailing_special_chars_are_stripped :: bool where
  "trailing_special_chars_are_stripped = database_name_is ''trail:'' ''myapp'' ''trail''"

definition mixed_case_complex_name :: bool where
  "mixed_case_complex_name = database_name_is ''Tenant:ACME/US_East'' ''ev'' ''tenant-acme-us-east''"

definition long_names_are_truncated_to_51_chars :: bool where
  "long_names_are_truncated_to_51_chars =
     (let long_name = replicate 100 CHR ''a''; result = sanitize_database_name long_name ''myapp''
      in length result \<le> 51 \<and> starts_with (named_database_prefix ''myapp'' @ ''-'') result)"

definition empty_partition_name_returns_prefix_only :: bool where
  "empty_partition_name_returns_prefix_only = (sanitize_database_name [] ''myapp'' = ''myapp'')"

definition default_partition_sanitizes_prefix :: bool where
  "default_partition_sanitizes_prefix = (sanitize_database_name [] ''My_App:'' = ''my-app'')"

definition partition_is_dropped_when_prefix_already_uses_remaining_budget :: bool where
  "partition_is_dropped_when_prefix_already_uses_remaining_budget =
     (let result = sanitize_database_name ''b'' (replicate 50 CHR ''a'')
      in length result \<le> 51 \<and> strip_suffix (stable_hash_hex ''b'') result \<noteq> None)"

definition different_logical_names_do_not_collapse_after_sanitization :: bool where
  "different_logical_names_do_not_collapse_after_sanitization =
     (sanitize_database_name ''tenant/acme'' ''myapp'' \<noteq> sanitize_database_name ''tenant:acme'' ''myapp'')"

definition different_long_logical_names_do_not_collapse_after_truncation :: bool where
  "different_long_logical_names_do_not_collapse_after_truncation =
     (let left = ''tenant-'' @ replicate 80 CHR ''a''; right = ''tenant-'' @ replicate 80 CHR ''a'' @ ''b''
      in sanitize_database_name left ''myapp'' \<noteq> sanitize_database_name right ''myapp'')"

lemma database_name_isI:
  assumes "sanitize_fragment pre 12 = p" and "p \<noteq> []" and "sanitize_fragment name (24 - length p) = fragment"
    and "name \<noteq> []" and "fragment \<noteq> []"
  shows "database_name_is name pre fragment"
proof -
  have "length (named_database_prefix pre) = length p + 9"
    using assms(1,2) by (simp add: named_database_prefix_def stable_hash_hex_def)
  with assms(3-5) show ?thesis
    by (simp add: database_name_is_def sanitize_database_name_def Let_def stable_hash_hex_def)
qed

lemma fragments_of_tests:
  "sanitize_fragment ''myapp'' 12 = ''myapp''" "sanitize_fragment ''app'' 12 = ''app''"
  "sanitize_fragment ''ev'' 12 = ''ev''" "sanitize_fragment ''orders'' 19 = ''orders''"
  "sanitize_fragment ''Orders'' 19 = ''orders''"
  "sanitize_fragment ''tenant:acme/us-east'' 19 = ''tenant-acme-us-east''"
  "sanitize_fragment ''my_db'' 21 = ''my-db''" "sanitize_fragment ''a--b'' 19 = ''a-b''"
  "sanitize_fragment ''trail:'' 19 = ''trail''"
  "sanitize_fragment ''Tenant:ACME/US_East'' 22 = ''tenant-acme-us-east''"
  by code_simp+

lemma database_name_tests:
  simple_lowercase_name_gets_prefixed uppercase_is_lowercased special_chars_become_dashes
  underscores_become_dashes consecutive_dashes_are_collapsed trailing_special_chars_are_stripped
  mixed_case_complex_name
  unfolding simple_lowercase_name_gets_prefixed_def uppercase_is_lowercased_def
    special_chars_become_dashes_def underscores_become_dashes_def consecutive_dashes_are_collapsed_def
    trailing_special_chars_are_stripped_def mixed_case_complex_name_def
  using fragments_of_tests
  by (auto intro: database_name_isI [OF fragments_of_tests(1)] database_name_isI [OF fragments_of_tests(2)]
      database_name_isI [OF fragments_of_tests(3)])

lemma long_name_tests:
  long_names_are_truncated_to_51_chars partition_is_dropped_when_prefix_already_uses_remaining_budget
proof -
  have named: "length (sanitize_database_name n p) \<le> 51 \<and>
      starts_with (named_database_prefix p @ ''-'') (sanitize_database_name n p) \<and>
      strip_suffix (stable_hash_hex n) (sanitize_database_name n p) \<noteq> None" if nonempty: "n \<noteq> []" for n p
  proof -
    obtain f where f: "sanitize_database_name n p = named_database_prefix p @ CHR ''-'' # (f @ stable_hash_hex n)"
      "\<forall>c\<in>set f. name_char c \<or> c = CHR ''-''" "length (named_database_prefix p) + 1 + length f + 16 \<le> 51"
      by (rule sanitize_database_name_cases [OF nonempty])
    then have "strip_suffix (stable_hash_hex n) (sanitize_database_name n p) =
        Some (named_database_prefix p @ CHR ''-'' # f)"
      by (simp add: strip_suffix_Some)
    with f show ?thesis by (simp add: starts_with_iff stable_hash_hex_def)
  qed
  show long_names_are_truncated_to_51_chars
    using named [of "replicate 100 CHR ''a''" "''myapp''"]
    by (simp add: long_names_are_truncated_to_51_chars_def Let_def)
  show partition_is_dropped_when_prefix_already_uses_remaining_budget
    using named [of "''b''" "replicate 50 CHR ''a''"]
    by (simp add: partition_is_dropped_when_prefix_already_uses_remaining_budget_def Let_def)
qed

lemma default_name_tests: empty_partition_name_returns_prefix_only default_partition_sanitizes_prefix
  by code_simp+

lemma different_hashes:
  assumes "stable_hash n \<noteq> stable_hash m" and "n \<noteq> []" and "m \<noteq> []"
  shows "sanitize_database_name n pre \<noteq> sanitize_database_name m pre"
  using sanitized_name_collision [OF assms(2,3)] assms(1) by blast

lemma different_name_tests:
  different_logical_names_do_not_collapse_after_sanitization
  different_long_logical_names_do_not_collapse_after_truncation
  unfolding different_logical_names_do_not_collapse_after_sanitization_def
    different_long_logical_names_do_not_collapse_after_truncation_def Let_def
  by (rule different_hashes, code_simp, simp, simp)+

end
