(* ===== verification/UnitTests.thy ===== *)
theory UnitTests
  imports Renderer UlidInstance RestateTypes SqliteStore TursoTests
begin

text \<open>
  The other unit tests inside the source files, as definitions over the model: each is the body of
  a test function, true if it runs to its end without a panic; the lemmas show that the model
  passes them. Revisions and ulids are those of the codec of \<^verbatim>\<open>UlidInstance\<close>; what a test takes
  from elsewhere (a fresh ulid, an error text, an encoded payload) is an argument.
\<close>

section \<open>Revisions\<close>

text \<open>\<^verbatim>\<open>wee-events/src/id.rs\<close>, \<open>revision_tests\<close>; \<open>W\<close> is serde's JSON at a string.\<close>

abbreviation parse_revision :: "string \<Rightarrow> revision_parse_error + revision" where
  "parse_revision \<equiv> revision_from_str crockford_codec"

definition rejects_garbage_strings :: bool where
  "rejects_garbage_strings \<longleftrightarrow>
     parse_revision ''zzz'' = Inl (WrongLength 3) \<and> parse_revision [] = Inl (WrongLength 0) \<and>
     parse_revision ''a'' = Inl (WrongLength 1) \<and>
     (case parse_revision (replicate 26 CHR ''i'') of Inl (InvalidUlid _) \<Rightarrow> True | _ \<Rightarrow> False)"

definition accepts_zero_revision_and_real_ulids :: "ulid \<Rightarrow> bool" where
  "accepts_zero_revision_and_real_ulids fresh \<longleftrightarrow>
     is_ok (parse_revision ''00000000000000000000000000'') \<and>
     is_ok (parse_revision ''01ARZ3NDEKTSV4RRFFQ69G5FAV'') \<and>
     length (revision_str (revision_from_ulid crockford_codec fresh)) = 26"

definition deserialize_rejects_garbage :: bool where
  "deserialize_rejects_garbage \<longleftrightarrow> \<not> is_ok (revision_deserialize crockford_codec (Inr ''zzz'' :: string + string))"

definition deserialize_accepts_real_ulid :: bool where
  "deserialize_accepts_real_ulid \<longleftrightarrow>
     (case revision_deserialize crockford_codec (Inr ''01ARZ3NDEKTSV4RRFFQ69G5FAV'' :: string + string) of
        Inl e \<Rightarrow> False
      | Inr good \<Rightarrow> revision_str good = ''01ARZ3NDEKTSV4RRFFQ69G5FAV'')"

lemma digit_value_Some: "digit_value c xs k = Some d \<Longrightarrow> k \<le> d \<and> d < k + length xs \<and> xs ! (d - k) = c"
proof (induction xs arbitrary: k)
  case (Cons x xs)
  show ?case
  proof (cases "x = c")
    case False
    with Cons.prems have "digit_value c xs (Suc k) = Some d" by simp
    from Cons.IH [OF this] show ?thesis by (auto simp: nth_Cons')
  qed (use Cons.prems in simp)
qed simp

lemma digits32_parse32: "parse32 0 s = Some n \<Longrightarrow> digits32 (length s) n = s"
proof (induction s arbitrary: n rule: rev_induct)
  case (snoc c s)
  then obtain a d where "parse32 0 s = Some a" "digit_value c crockford 0 = Some d" "n = 32 * a + d"
    by (auto simp: parse32_append split: option.splits)
  with snoc.IH [of a] digit_value_Some [of c crockford 0 d] show ?case by simp
qed simp

lemma parse_revision_ulid:
  assumes "length s = 26" and "s \<noteq> ZERO_REVISION" and "parse32 0 s = Some n" and "n < 2 ^ 128"
  shows "parse_revision s = Inr (Revision s)"
proof -
  have "unat (word_of_nat n :: ulid) = n" using assms(4) by (simp add: unat_of_nat)
  with assms digits32_parse32 [OF assms(3)] show ?thesis
    by (simp add: revision_from_str_def crockford_codec_def revision_from_ulid_def del: digits32.simps)
qed

lemma parse_revision_examples:
  "parse_revision ''01ARZ3NDEKTSV4RRFFQ69G5FAV'' = Inr (Revision ''01ARZ3NDEKTSV4RRFFQ69G5FAV'')"
  "parse_revision ''01ARZ3NDEKTSV4RRFFQ69G5FAW'' = Inr (Revision ''01ARZ3NDEKTSV4RRFFQ69G5FAW'')"
  by (rule parse_revision_ulid, simp, simp add: ZERO_REVISION_def, simp add: crockford_def, simp)+

lemma revision_tests:
  rejects_garbage_strings "accepts_zero_revision_and_real_ulids u" deserialize_rejects_garbage
  deserialize_accepts_real_ulid
  by (simp_all add: rejects_garbage_strings_def accepts_zero_revision_and_real_ulids_def
      deserialize_rejects_garbage_def deserialize_accepts_real_ulid_def revision_deserialize_def
      parse_revision_examples)
    (simp_all add: revision_from_str_def ZERO_REVISION_def crockford_codec_def crockford_def
      revision_from_ulid_def numeral_eq_Suc del: digits32.simps)

section \<open>Errors\<close>

text \<open>\<^verbatim>\<open>wee-events/src/error.rs\<close> and \<^verbatim>\<open>wee-events-sqlite/src/error.rs\<close>.\<close>

definition test_diagnostics :: "u64 option \<Rightarrow> error + retry_diagnostics" where
  "test_diagnostics skew =
     (case (parse_revision ''01ARZ3NDEKTSV4RRFFQ69G5FAV'', parse_revision ''01ARZ3NDEKTSV4RRFFQ69G5FAW'') of
        (Inr a, Inr b) \<Rightarrow>
          Inr \<lparr>last_attempted_revision = a, observed_max_revision = b, possible_clock_skew = skew\<rparr>
      | _ \<Rightarrow> Inl (Custom (Panicked ''unwrap'')))"

definition retry_diagnostics_display_without_clock_skew_hint :: bool where
  "retry_diagnostics_display_without_clock_skew_hint =
     (case test_diagnostics None of Inl e \<Rightarrow> False | Inr diagnostics \<Rightarrow>
        retry_diagnostics_display diagnostics =
          ''last attempted revision 01ARZ3NDEKTSV4RRFFQ69G5FAV, observed max revision 01ARZ3NDEKTSV4RRFFQ69G5FAW'')"

definition retry_diagnostics_display_with_clock_skew_hint :: bool where
  "retry_diagnostics_display_with_clock_skew_hint =
     (case test_diagnostics (Some 17) of Inl e \<Rightarrow> False | Inr diagnostics \<Rightarrow>
        retry_diagnostics_display diagnostics =
          ''last attempted revision 01ARZ3NDEKTSV4RRFFQ69G5FAV, observed max revision 01ARZ3NDEKTSV4RRFFQ69G5FAW, possible clock skew 17 ms'')"

text \<open>The error is whatever \<open>serde_json\<close> says of an invalid text.\<close>

definition sqlite_serialization_errors_display_includes_inner_message :: "foreign_display \<Rightarrow> json_error \<Rightarrow> bool" where
  "sqlite_serialization_errors_display_includes_inner_message F e =
     starts_with ''serialization error: '' (sqlite_error_display F (Serialization e))"

definition sqlite_retry_exhausted_errors_preserve_retry_diagnostics :: bool where
  "sqlite_retry_exhausted_errors_preserve_retry_diagnostics =
     (case test_diagnostics (Some 17) of Inl e \<Rightarrow> False | Inr diagnostics \<Rightarrow>
        (case WeeEvents (retry_exhausted 5 diagnostics) of
           WeeEvents e \<Rightarrow> downcast_retry_exhausted e = Some (5, diagnostics)
         | _ \<Rightarrow> False))"

lemma test_diagnostics_eq: "test_diagnostics skew = Inr
    \<lparr>last_attempted_revision = Revision ''01ARZ3NDEKTSV4RRFFQ69G5FAV'',
     observed_max_revision = Revision ''01ARZ3NDEKTSV4RRFFQ69G5FAW'', possible_clock_skew = skew\<rparr>"
  by (simp add: test_diagnostics_def parse_revision_examples)

lemma error_tests:
  retry_diagnostics_display_without_clock_skew_hint retry_diagnostics_display_with_clock_skew_hint
  "sqlite_serialization_errors_display_includes_inner_message F e"
  sqlite_retry_exhausted_errors_preserve_retry_diagnostics
  by (simp_all add: retry_diagnostics_display_without_clock_skew_hint_def
      retry_diagnostics_display_with_clock_skew_hint_def test_diagnostics_eq
      retry_diagnostics_display_def decimal.simps digit_char_def char_of_def bit_0
      sqlite_serialization_errors_display_includes_inner_message_def starts_with_def
      sqlite_retry_exhausted_errors_preserve_retry_diagnostics_def retry_exhausted_def)

section \<open>Precedence of the renderer's rules\<close>

text \<open>\<^verbatim>\<open>wee-events/src/renderer.rs\<close>, \<open>precedence_tests\<close>.\<close>

record hits =
  legacy_hits :: u32
  glob_hits :: u32

definition no_hits :: hits where
  "no_hits = \<lparr>legacy_hits = 0, glob_hits = 0\<rparr>"

definition legacy_reducer :: "(hits, decode_error) reduce_fn" where
  "legacy_reducer t d s = Inr (s\<lparr>legacy_hits := legacy_hits s + 1\<rparr>)"

definition glob_reducer :: "(hits, decode_error) reduce_fn" where
  "glob_reducer t d s = Inr (s\<lparr>glob_hits := glob_hits s + 1\<rparr>)"

definition aggregate_with_event :: "revision \<Rightarrow> event_data \<Rightarrow> string \<Rightarrow> aggregate" where
  "aggregate_with_event r data t =
     from_events (aggregate_id_new ''counter'' ''p'')
       [\<lparr>re_event_id = EventId ''event-1'', re_event_type = EventType t, re_revision = r,
         re_metadata = \<lparr>md_causation_id = None, md_correlation_id = None\<rparr>, re_data = data\<rparr>]"

definition rendered_state :: "(hits, decode_error) renderer \<Rightarrow> aggregate \<Rightarrow> (hits \<Rightarrow> bool) \<Rightarrow> bool" where
  "rendered_state R a check =
     (case render R no_hits a of Inl e \<Rightarrow> False | Inr entity \<Rightarrow> check (ent_state entity))"

definition with_glob :: "string \<Rightarrow> (event_pattern \<Rightarrow> bool) \<Rightarrow> bool" where
  "with_glob p k = (case event_pattern_glob p of Inl e \<Rightarrow> False | Inr pattern \<Rightarrow> k pattern)"

definition earlier_specific_rule_beats_later_glob :: "revision \<Rightarrow> event_data \<Rightarrow> bool" where
  "earlier_specific_rule_beats_later_glob r data =
     with_glob ''counter:*'' (\<lambda>pattern.
     rendered_state
       (renderer_with (renderer_with renderer_new (event_pattern_from_str ''counter:legacy'') legacy_reducer)
         pattern glob_reducer)
       (aggregate_with_event r data ''counter:legacy'')
       (\<lambda>state. legacy_hits state = 1 \<and> glob_hits state = 0))"

definition earlier_ignore_beats_later_reducer :: "revision \<Rightarrow> event_data \<Rightarrow> bool" where
  "earlier_ignore_beats_later_reducer r data =
     with_glob ''counter:legacy-*'' (\<lambda>ignored. with_glob ''counter:*'' (\<lambda>pattern.
     rendered_state (renderer_with (renderer_ignore renderer_new ignored) pattern glob_reducer)
       (aggregate_with_event r data ''counter:legacy-reset'') (\<lambda>state. glob_hits state = 0)))"

definition earlier_reducer_beats_later_ignore :: "revision \<Rightarrow> event_data \<Rightarrow> bool" where
  "earlier_reducer_beats_later_ignore r data =
     with_glob ''counter:legacy*'' (\<lambda>pattern.
     rendered_state
       (renderer_ignore (renderer_with renderer_new (event_pattern_from_str ''counter:legacy'') legacy_reducer)
         pattern)
       (aggregate_with_event r data ''counter:legacy'') (\<lambda>state. legacy_hits state = 1))"

definition no_matching_rule_fails :: "revision \<Rightarrow> event_data \<Rightarrow> bool" where
  "no_matching_rule_fails r data \<longleftrightarrow>
     \<not> is_ok (render (renderer_with renderer_new (event_pattern_from_str ''counter:other'') legacy_reducer) no_hits
       (aggregate_with_event r data ''counter:unhandled''))"

lemma renderer_tests:
  "earlier_specific_rule_beats_later_glob r data" "earlier_ignore_beats_later_reducer r data"
  "earlier_reducer_beats_later_ignore r data" "no_matching_rule_fails r data"
proof -
  have "glob_matches ''counter:legacy-*'' ''counter:legacy-reset''"
    by (simp add: glob_matches_def glob_loop.simps)
  then show "earlier_specific_rule_beats_later_glob r data" "earlier_ignore_beats_later_reducer r data"
    "earlier_reducer_beats_later_ignore r data" "no_matching_rule_fails r data"
    by (simp_all add: earlier_specific_rule_beats_later_glob_def earlier_ignore_beats_later_reducer_def
        earlier_reducer_beats_later_ignore_def no_matching_rule_fails_def rendered_state_def render_def
        aggregate_with_event_def renderer_with_def renderer_ignore_def renderer_new_def find_action_def
        legacy_reducer_def no_hits_def into_parts_def with_glob_def event_pattern_glob_def
        event_pattern_from_str_def event_pattern_exact_def)
qed

section \<open>Effects and correlation ids\<close>

text \<open>\<^verbatim>\<open>wee-events-restate/src/effects.rs\<close>.\<close>

definition test_notification :: "string \<Rightarrow> execute_notification" where
  "test_notification n =
     \<lparr>en_command = \<lparr>cr_name = CommandName n, cr_target = aggregate_id_new ''test'' ''1'', cr_command = JObject []\<rparr>,
      en_response = \<lparr>er_aggregate = aggregate_id_new ''test'' ''1'', er_revision = revision_zero, er_state = JObject []\<rparr>,
      en_metadata = \<lparr>rm_correlation_id = ''test-corr'', rm_causation_id = None, rm_idempotency_key = None\<rparr>\<rparr>"

definition filter_all_matches_everything :: bool where
  "filter_all_matches_everything = filter_matches FilterAll (test_notification ''anything'')"

definition filter_name_matches_exact :: bool where
  "filter_name_matches_exact =
     (let f = FilterName (CommandName ''create'')
      in filter_matches f (test_notification ''create'') \<and> \<not> filter_matches f (test_notification ''delete''))"

definition filter_names_matches_any :: bool where
  "filter_names_matches_any =
     (let f = FilterNames [CommandName ''create'', CommandName ''update'']
      in filter_matches f (test_notification ''create'') \<and> filter_matches f (test_notification ''update'') \<and>
         \<not> filter_matches f (test_notification ''delete''))"

definition filter_predicate_uses_closure :: bool where
  "filter_predicate_uses_closure =
     (let f = FilterPredicate (\<lambda>n. starts_with ''admin:'' (command_name_str (cr_name (en_command n))))
      in filter_matches f (test_notification ''admin:reset'') \<and>
         \<not> filter_matches f (test_notification ''user:login''))"

definition router_matching_effects_filters_correctly :: bool where
  "router_matching_effects_filters_correctly =
     (let router = effect_router_new ''test''
        [effect_trigger_new ''audit-log'',
         effect_trigger_with_filter ''notifications'' (FilterName (CommandName ''create''))]
      in matching_effects router (test_notification ''create'') = [''audit-log'', ''notifications''] \<and>
         matching_effects router (test_notification ''delete'') = [''audit-log''])"

text \<open>\<^verbatim>\<open>wee-events-restate/src/correlation.rs\<close>; each call takes a fresh ulid.\<close>

definition includes_aggregate_and_command :: "ulid_codec \<Rightarrow> ulid \<Rightarrow> bool" where
  "includes_aggregate_and_command U fresh =
     (case aggregate_id_from_str ''counter:c1'' of Inl e \<Rightarrow> False | Inr i \<Rightarrow>
        starts_with ''counter:c1-counter:increment-''
          (restate_correlation_id U i (CommandName ''counter:increment'') fresh))"

definition successive_calls_produce_distinct_ids :: "ulid_codec \<Rightarrow> ulid \<Rightarrow> ulid \<Rightarrow> bool" where
  "successive_calls_produce_distinct_ids U fresh fresh' =
     (case aggregate_id_from_str ''counter:c1'' of Inl e \<Rightarrow> False | Inr i \<Rightarrow>
        restate_correlation_id U i (CommandName ''counter:increment'') fresh \<noteq>
        restate_correlation_id U i (CommandName ''counter:increment'') fresh')"

lemma effect_tests:
  filter_all_matches_everything filter_name_matches_exact filter_names_matches_any
  filter_predicate_uses_closure router_matching_effects_filters_correctly
  by (simp_all add: filter_all_matches_everything_def filter_name_matches_exact_def
      filter_names_matches_any_def filter_predicate_uses_closure_def
      router_matching_effects_filters_correctly_def test_notification_def starts_with_def
      effect_router_new_def effect_trigger_new_def effect_trigger_with_filter_def matching_effects_def)

lemma correlation_tests:
  "includes_aggregate_and_command U u"
  "ulid_laws U \<Longrightarrow> u \<noteq> v \<Longrightarrow> successive_calls_produce_distinct_ids U u v"
  by (simp_all add: includes_aggregate_and_command_def successive_calls_produce_distinct_ids_def
      aggregate_id_from_str_def restate_correlation_id_def aggregate_id_display_def starts_with_def
      ulid_to_string_eq ok_or_def)

section \<open>Partition strategies\<close>

text \<open>\<^verbatim>\<open>event_store/strategies/\<close>: \<^verbatim>\<open>hashed.rs\<close>, \<^verbatim>\<open>partition_by.rs\<close>.\<close>

definition type_key_boundary_does_not_collide :: bool where
  "type_key_boundary_does_not_collide \<longleftrightarrow>
     hash_aggregate_id (aggregate_id_new ''foo'' '':bar'') \<noteq> hash_aggregate_id (aggregate_id_new ''foo:'' ''bar'')"

definition distinct_aggregates_have_distinct_hashes :: bool where
  "distinct_aggregates_have_distinct_hashes \<longleftrightarrow>
     hash_aggregate_id (aggregate_id_new ''user'' ''alice'') \<noteq> hash_aggregate_id (aggregate_id_new ''user'' ''bob'')"

text \<open>\<open>split(':').next()\<close>: what precedes the first colon.\<close>

definition partition_by_user :: "aggregate_id \<Rightarrow> string" where
  "partition_by_user i =
     (case split_once CHR '':'' (aggregate_key i) of None \<Rightarrow> aggregate_key i | Some (user, _) \<Rightarrow> user)"

definition partition_by_strategy_routes_with_partitioner :: bool where
  "partition_by_strategy_routes_with_partitioner \<longleftrightarrow>
     (let S = partition_by_strategy partition_by_user in
      ps_partition_for S (aggregate_id_new ''order'' ''kevin:123'') = Inr (NamedPartition ''kevin'' ''kevin'') \<and>
      ps_partition_for S (aggregate_id_new ''payment'' ''kevin:123'') = Inr (NamedPartition ''kevin'' ''kevin''))"

definition partition_from_name_restores_named_partition :: bool where
  "partition_from_name_restores_named_partition \<longleftrightarrow>
     ps_from_name (partition_by_strategy partition_by_user) ''kevin/team:1'' =
       Inr (NamedPartition ''kevin/team:1'' ''kevin/team:1'')"

text \<open>\<^verbatim>\<open>by_type.rs\<close> and \<^verbatim>\<open>by_aggregate.rs\<close>.\<close>

definition partition_name_matches_aggregate_type :: bool where
  "partition_name_matches_aggregate_type =
     (case ps_partition_for type_strategy (aggregate_id_new ''a/b:c'' ''123'') of
        Inl e \<Rightarrow> False
      | Inr p \<Rightarrow> np_name p = ''a/b:c'' \<and> np_key p = AggregateType ''a/b:c'')"

definition partition_from_name_restores_type_partition :: bool where
  "partition_from_name_restores_type_partition \<longleftrightarrow>
     ps_from_name type_strategy ''a/b:c'' = Inr (NamedPartition ''a/b:c'' (AggregateType ''a/b:c''))"

definition partition_name_matches_aggregate_id :: bool where
  "partition_name_matches_aggregate_id =
     (case ps_partition_for aggregate_strategy (aggregate_id_new ''campaign/run'' ''urn:uuid:abc/123'') of
        Inl e \<Rightarrow> False
      | Inr p \<Rightarrow> np_name p = ''campaign/run:urn:uuid:abc/123'' \<and>
          np_key p = aggregate_id_new ''campaign/run'' ''urn:uuid:abc/123'')"

definition partition_from_name_restores_aggregate_partition :: bool where
  "partition_from_name_restores_aggregate_partition \<longleftrightarrow>
     ps_from_name aggregate_strategy ''campaign/run:urn:uuid:abc/123'' =
       Inr (NamedPartition ''campaign/run:urn:uuid:abc/123'' (aggregate_id_new ''campaign/run'' ''urn:uuid:abc/123''))"

lemma strategy_tests:
  partition_by_strategy_routes_with_partitioner partition_from_name_restores_named_partition
  partition_name_matches_aggregate_type partition_from_name_restores_type_partition
  partition_name_matches_aggregate_id partition_from_name_restores_aggregate_partition
  by (simp_all add: partition_by_strategy_routes_with_partitioner_def
      partition_from_name_restores_named_partition_def partition_name_matches_aggregate_type_def
      partition_from_name_restores_type_partition_def partition_name_matches_aggregate_id_def
      partition_from_name_restores_aggregate_partition_def partition_by_strategy_def partition_by_user_def
      type_strategy_def type_partition_def aggregate_strategy_def aggregate_partition_def
      aggregate_from_name_def aggregate_id_from_str_def aggregate_id_new_def aggregate_id_display_def Let_def ok_or_def)

lemma hash_tests: type_key_boundary_does_not_collide distinct_aggregates_have_distinct_hashes
  by (simp_all add: type_key_boundary_does_not_collide_def distinct_aggregates_have_distinct_hashes_def
      hash_aggregate_id_def hash_input_def aggregate_id_new_def str_bytes_def to_le_bytes_def fnv_step_def Let_def)

section \<open>Errors and clocks of the store\<close>

text \<open>\<^verbatim>\<open>event_store/store.rs\<close>. \<open>Ulid::from_parts\<close>: 48 bits of time, 80 of randomness.\<close>

definition ulid_from_parts :: "u64 \<Rightarrow> ulid \<Rightarrow> ulid" where
  "ulid_from_parts ms random = or (push_bit 80 (take_bit 48 (ucast ms))) (take_bit 80 random)"

abbreviation revision_at :: "u64 \<Rightarrow> ulid \<Rightarrow> revision" where
  "revision_at ms random \<equiv> revision_from_ulid crockford_codec (ulid_from_parts ms random)"

definition partition_not_ready_detector_matches_turso_namespace_404 :: bool where
  "partition_not_ready_detector_matches_turso_namespace_404 =
     is_lazy_create_partition_not_ready_message
       (''Hrana(Api('' @ [CHR 0x22] @ ''status=404 Not Found, body={'' @ [CHR 0x5C, CHR 0x22] @ ''error'' @
        [CHR 0x5C, CHR 0x22] @ '':'' @ [CHR 0x5C, CHR 0x22] @ ''Namespace '' @ [CHR 0x60] @
        ''01HXQG8N7R1RJ2XJ8SQ7K6A8SP'' @ [CHR 0x60] @ '' doesn'' @ [CHR 0x27] @ ''t exist'' @
        [CHR 0x5C, CHR 0x22] @ ''}'' @ [CHR 0x22] @ ''))'')"

definition partition_not_ready_detector_ignores_unrelated_errors :: bool where
  "partition_not_ready_detector_ignores_unrelated_errors \<longleftrightarrow>
     \<not> is_lazy_create_partition_not_ready_message ''database is locked'' \<and>
     \<not> is_lazy_create_partition_not_ready_message ''revision conflict''"

definition possible_clock_skew_reports_positive_timestamp_gap :: bool where
  "possible_clock_skew_reports_positive_timestamp_gap \<longleftrightarrow>
     possible_clock_skew_ms crockford_codec (revision_at 1000 7) (revision_at 1017 3) = Some 17"

definition possible_clock_skew_ignores_non_positive_gaps :: bool where
  "possible_clock_skew_ignores_non_positive_gaps \<longleftrightarrow>
     (let attempted = revision_at 1000 7 in
      possible_clock_skew_ms crockford_codec attempted (revision_at 1000 99) = None \<and>
      possible_clock_skew_ms crockford_codec attempted (revision_at 999 3) = None)"

lemma to_lower_upper: "is_upper c \<Longrightarrow> to_lower c = char_of (of_char c + 32 :: nat)"
  by (simp add: to_lower_def)

lemma detector_tests:
  partition_not_ready_detector_matches_turso_namespace_404
  partition_not_ready_detector_ignores_unrelated_errors
proof -
  have "map to_lower (''Hrana(Api('' @ [CHR 0x22] @ ''status=404 Not Found, body={'') =
      ''hrana(api('' @ [CHR 0x22] @ ''status=404 not found, body={''" by code_simp
  moreover have "map to_lower ''Namespace '' = ''namespace ''" by code_simp
  ultimately show partition_not_ready_detector_matches_turso_namespace_404
    unfolding partition_not_ready_detector_matches_turso_namespace_404_def
      is_lazy_create_partition_not_ready_message_def Let_def
    by (simp add: starts_with_def contains_str_append)
  have "map to_lower ''database is locked'' = ''database is locked''"
    "map to_lower ''revision conflict'' = ''revision conflict''" by code_simp+
  then show partition_not_ready_detector_ignores_unrelated_errors
    unfolding partition_not_ready_detector_ignores_unrelated_errors_def
      is_lazy_create_partition_not_ready_message_def Let_def
    by (simp add: starts_with_def)
qed

lemma skew_of_revisions:
  "possible_clock_skew_ms crockford_codec (revision_from_ulid crockford_codec u) (revision_from_ulid crockford_codec v) =
     (let a = ucast (drop_bit 80 u); b = ucast (drop_bit 80 v) in
      if b < a then None else if 0 < b - a then Some (b - a) else None)"
  using ulid_lawsD(2) [OF crockford_laws]
  by (simp add: possible_clock_skew_ms_def revision_from_ulid_def Let_def)
    (simp add: crockford_codec_def)

lemma skew_tests:
  possible_clock_skew_reports_positive_timestamp_gap possible_clock_skew_ignores_non_positive_gaps
  by (simp_all add: possible_clock_skew_reports_positive_timestamp_gap_def
      possible_clock_skew_ignores_non_positive_gaps_def skew_of_revisions ulid_from_parts_def Let_def)

section \<open>Targets and catalogs\<close>

text \<open>\<^verbatim>\<open>event_store/types.rs\<close>: a provisioner that names a database after the partition.\<close>

definition test_turso_provisioner :: named_provisioner where
  "test_turso_provisioner =
     (let target = (\<lambda>name. case name of
          DefaultName \<Rightarrow> Turso ''libsql://root-org.turso.io'' ''token''
        | Named n \<Rightarrow> Turso (''libsql://'' @ n @ ''-org.turso.io'') ''token'')
      in \<lparr>np_ensure = (\<lambda>_ name. Inr (target name)), np_existing = (\<lambda>_ _ name. Inr (Some (target name))),
          np_names = (\<lambda>_. Inr [''orders'', ''users''])\<rparr>)"

definition turso_provisioners_resolve_named_partitions :: "nat \<Rightarrow> bool" where
  "turso_provisioners_resolve_named_partitions n \<longleftrightarrow>
     np_ensure test_turso_provisioner n DefaultName = Inr (Turso ''libsql://root-org.turso.io'' ''token'') \<and>
     np_ensure test_turso_provisioner n (Named ''orders'') = Inr (Turso ''libsql://orders-org.turso.io'' ''token'') \<and>
     np_names test_turso_provisioner n = Inr [''orders'', ''users'']"

lemma turso_provisioners_resolve_named_partitions: "turso_provisioners_resolve_named_partitions n"
  by (simp add: turso_provisioners_resolve_named_partitions_def test_turso_provisioner_def Let_def)

text \<open>
  \<^verbatim>\<open>event_store/backends/local.rs\<close>: the root is a fresh directory, which the file system can create
  things in; \<open>files\<close> are its entries.
\<close>

definition temp_dir :: "string list \<Rightarrow> file_system" where
  "temp_dir files = \<lparr>fs_read_dir = (\<lambda>_ _. Inr files), fs_create_dir_all = (\<lambda>_ _. None)\<rparr>"

definition path_file_name :: "string \<Rightarrow> string" where
  "path_file_name path = rev (takeWhile (\<lambda>c. c \<noteq> CHR ''/'') (rev path))"

definition named_partition_paths_are_base32_encoded :: "base32 \<Rightarrow> (bytes \<Rightarrow> string) \<Rightarrow> string \<Rightarrow> bool" where
  "named_partition_paths_are_base32_encoded B ue root =
     (case cat_ensure (local_catalog B ue (temp_dir []) root type_strategy :: (_, unit) catalog) 0 (\<lambda>_. None)
        (type_partition ''a/b:c'') of
        Inr (Local path) \<Rightarrow>
          (let file_name = path_file_name path in
           starts_with ''b32-'' file_name \<and> CHR ''/'' \<notin> set file_name \<and> CHR 0x5C \<notin> set file_name \<and>
           CHR '':'' \<notin> set file_name)
      | _ \<Rightarrow> False)"

definition named_partition_discovery_restores_typed_partitions ::
  "base32 \<Rightarrow> (bytes \<Rightarrow> string) \<Rightarrow> string \<Rightarrow> (aggregate_id named_partition, 'g) sqlite_store \<Rightarrow> bool" where
  "named_partition_discovery_restores_typed_partitions B ue root s =
     (let p = aggregate_partition (aggregate_id_new ''campaign/run'' ''urn:uuid:abc/123'') in
      case cat_ensure (local_catalog B ue (temp_dir []) root aggregate_strategy :: (_, unit) catalog) 0 (\<lambda>_. None) p of
        Inr (Local path) \<Rightarrow>
          unwrapped (cat_partitions (local_catalog B ue (temp_dir [path_file_name path]) root aggregate_strategy))
            (\<lambda>partitions t. partitions = [p]) s
      | _ \<Rightarrow> False)"

definition single_database_layout_uses_root_path :: "base32 \<Rightarrow> (bytes \<Rightarrow> string) \<Rightarrow> string \<Rightarrow> bool" where
  "single_database_layout_uses_root_path B ue root \<longleftrightarrow>
     (let path = path_join root ''store.db'' in
      cat_ensure (local_catalog B ue (temp_dir []) path global_strategy :: (_, unit) catalog) 0 (\<lambda>_. None) GlobalPartition =
        Inr (Local path))"

lemma path_file_name_joined:
  assumes "CHR ''/'' \<notin> set name"
  shows "path_file_name (path_join root name) = name"
proof -
  have tw: "takeWhile (\<lambda>c. c \<noteq> CHR ''/'') (rev name @ xs) = rev name @ takeWhile (\<lambda>c. c \<noteq> CHR ''/'') xs" for xs
    using assms by (intro takeWhile_append2) auto
  have tn: "takeWhile (\<lambda>c. c \<noteq> CHR ''/'') (rev name) = rev name"
    using assms by (subst takeWhile_eq_all_conv) auto
  show ?thesis
  proof (cases root rule: rev_cases)
    case Nil
    then show ?thesis by (simp add: path_join_def path_file_name_def tn)
  next
    case (snoc front c)
    then show ?thesis
      by (cases "c = CHR ''/''") (simp_all only: path_join_def path_file_name_def, simp_all add: tw)
  qed
qed

lemma encoded_letters:
  assumes "base32_law B" and "c \<in> set (b32_encode B bs)"
  shows "c \<in> set ''ABCDEFGHIJKLMNOPQRSTUVWXYZ234567''"
  using assms unfolding base32_law_def by blast

lemma encoded_file_name:
  assumes "base32_law B" and "c \<in> set ''/:'' \<or> c = CHR 0x5C"
  shows "c \<notin> set (encode_path_component B v @ ''.db'')"
  using assms(2) encoded_letters [OF assms(1), of c "str_bytes v"]
  by (auto simp: encode_path_component_def ENCODED_PATH_PREFIX_def)

lemma catalog_tests:
  assumes "base32_law B"
  shows "named_partition_paths_are_base32_encoded B ue root"
    and "named_partition_discovery_restores_typed_partitions B ue root s"
    and "single_database_layout_uses_root_path B ue root"
proof -
  have mk: "create_parent (temp_dir files) n path = None" for files n path
    by (simp add: create_parent_def temp_dir_def split: option.split)
  have leaf: "path_file_name (path_join root (encode_path_component B v @ ''.db'')) =
      encode_path_component B v @ ''.db''" for v
    using encoded_file_name [OF assms, of "CHR ''/''" v] by (intro path_file_name_joined) simp
  have "starts_with ''b32-'' (encode_path_component B v @ ''.db'')" for v
    by (simp add: encode_path_component_def ENCODED_PATH_PREFIX_def starts_with_def)
  then show "named_partition_paths_are_base32_encoded B ue root"
    using encoded_file_name [OF assms, of "CHR ''/''" "''a/b:c''"]
      encoded_file_name [OF assms, of "CHR 0x5C" "''a/b:c''"] encoded_file_name [OF assms, of "CHR '':''" "''a/b:c''"]
    by (simp add: named_partition_paths_are_base32_encoded_def leaf type_strategy_def type_partition_def
        local_catalog_def path_for_partition_def mk)
  let ?p = "aggregate_partition (aggregate_id_new ''campaign/run'' ''urn:uuid:abc/123'')"
  let ?n = "''campaign/run:urn:uuid:abc/123''"
  have "utf8_valid (str_bytes ?n)" by (rule utf8_valid_ascii) (auto simp: str_bytes_def)
  moreover have "encode_path_component B ?n \<noteq> []"
    by (simp add: encode_path_component_def ENCODED_PATH_PREFIX_def)
  moreover have "ps_from_name aggregate_strategy ?n = Inr ?p" "ps_name aggregate_strategy ?p = Named ?n"
    "ps_layout aggregate_strategy = NamedDatabases"
    by (simp_all add: aggregate_strategy_def aggregate_from_name_def aggregate_id_from_str_def
        aggregate_partition_def aggregate_id_new_def aggregate_id_display_def ok_or_def)
  ultimately show "named_partition_discovery_restores_typed_partitions B ue root s"
    using split_extension_db [OF encoded_no_dot [OF assms]] decode_encode_path [OF assms, of ?n ue]
    by (simp add: named_partition_discovery_restores_typed_partitions_def Let_def leaf
        local_catalog_def path_for_partition_def mk unwrapped_def give_def) (simp add: temp_dir_def)
  show "single_database_layout_uses_root_path B ue root"
    by (simp add: single_database_layout_uses_root_path_def Let_def local_catalog_def
        path_for_partition_def global_strategy_def mk)
qed

section \<open>Discovery in a database\<close>

text \<open>
  \<^verbatim>\<open>by_type.rs\<close> and \<^verbatim>\<open>by_aggregate.rs\<close>: a row is inserted into a new database, and the strategy reads
  its partition off the rows.
\<close>

definition discovers ::
  "'g host \<Rightarrow> string \<Rightarrow> 'p strategy \<Rightarrow> string \<Rightarrow> event_row \<Rightarrow> 'p \<Rightarrow> ('p, 'g) sqlite_store \<Rightarrow> bool" where
  "discovers H path S name row p =
     unwrapped (open_target H (Local path)) (\<lambda>conn.
     unwrapped (on_connection conn (insert_where H (\<lambda>_ _. True) row)) (\<lambda>_.
     unwrapped (partition_from_target_name H S name (Local path)) (\<lambda>found t. found = Some p)))"

definition test_row :: "string \<Rightarrow> string \<Rightarrow> string \<Rightarrow> string \<Rightarrow> event_row" where
  "test_row event_id agg_type key revision =
     \<lparr>row_event_id = event_id, row_aggregate_type = agg_type, row_aggregate_key = key,
      row_event_type = ''created'', row_revision = revision, row_causation_id = None,
      row_correlation_id = None, row_encoding = ''json'', row_data = []\<rparr>"

definition partition_from_target_name_reads_exact_type_from_store ::
  "'g host \<Rightarrow> string \<Rightarrow> (aggregate_type named_partition, 'g) sqlite_store \<Rightarrow> bool" where
  "partition_from_target_name_reads_exact_type_from_store H path =
     discovers H path type_strategy ''campaign-run''
       (test_row ''01ARZ3NDEKTSV4RRFFQ69G5FAV'' ''campaign/run'' ''123'' ''01ARZ3NDEKTSV4RRFFQ69G5FAW'')
       (NamedPartition ''campaign/run'' (AggregateType ''campaign/run''))"

definition partition_from_target_name_reads_exact_aggregate_from_store ::
  "'g host \<Rightarrow> string \<Rightarrow> (aggregate_id named_partition, 'g) sqlite_store \<Rightarrow> bool" where
  "partition_from_target_name_reads_exact_aggregate_from_store H path =
     discovers H path aggregate_strategy ''campaign-run-urn-uuid-abc-123''
       (test_row ''01ARZ3NDEKTSV4RRFFQ69G5FAX'' ''campaign/run'' ''urn:uuid:abc/123'' ''01ARZ3NDEKTSV4RRFFQ69G5FAY'')
       (NamedPartition ''campaign/run:urn:uuid:abc/123'' (aggregate_id_new ''campaign/run'' ''urn:uuid:abc/123''))"

lemmas discovery_simps = discovers_def test_row_def unwrapped_def open_target_def on_connection_def
  open_event_store_connection_def connect_def prepare_local_connection_def query_required_string_def
  migrate_event_store_def migrate_schema_def current_schema_version_def upsert_version_def sql_run
  target_location_def event_migrations_def calm_host_def from_catalog_def empty_db_def
  EVENT_STORE_SCHEMA_VERSION_def pending_ddl_def insert_where_def constraint_violation_def
  partition_from_target_name_def

lemma discovery_tests:
  "partition_from_target_name_reads_exact_type_from_store calm_host ''type.db'' (from_catalog g e)"
  "partition_from_target_name_reads_exact_aggregate_from_store calm_host ''aggregate.db'' (from_catalog g e)"
  by (simp_all add: partition_from_target_name_reads_exact_type_from_store_def
      partition_from_target_name_reads_exact_aggregate_from_store_def discovery_simps
      type_strategy_def type_from_rows_def type_partition_def aggregate_strategy_def
      aggregate_from_rows_def aggregate_partition_def aggregate_id_new_def aggregate_id_display_def)

end
