(* ===== verification/Spec2Isabelle.thy ===== *)
theory Spec2Isabelle
  imports MemoryConcurrent SqlProcesses StoreConcurrent TursoConcurrent Projections RestateContract MacroBounds
    BenchmarkConcurrent MemoryDatabases UnitTests
begin

text \<open>
  wee-events is a Rust library for event sourcing. An aggregate is a stream of events; a publisher
  appends to it under an optional expected revision; a renderer folds a stream into an entity; a
  service loads an entity, lets a handler decide on a command, and publishes what it decided.
  Stores keep the streams: one in memory, one in SQLite databases, a database per partition.
  Projections write entities as documents. An adapter exposes services through Restate, and macros
  generate the services from annotated functions. This development models all of these parts and
  proves what makes them correct. Paths below are relative to \<^verbatim>\<open>src/crates/\<close>.

  \<^bold>\<open>Conventions.\<close> A Rust \<open>str\<close> is the list of its UTF-8 bytes. A \<open>Result\<close> is a sum, \<open>Inl\<close> the
  error. An \<open>async fn\<close> is an action: a function from a state to a result and a state, sequenced
  by \<open>seq_result\<close>, which is the question-mark operator with the state kept; futures run to
  completion in place. Where calls run concurrently (\<open>MemoryConcurrent\<close>, \<open>SqlProcesses\<close>,
  \<open>StoreConcurrent\<close>, \<open>TursoConcurrent\<close>, \<open>BenchmarkConcurrent\<close>) the atomic steps are the steps of an
  inductive relation, and the last three show that the steps of a call left alone add up to the
  action that models it (the last one in \<open>PublishSteps\<close>). What is not code of the
  repository is a parameter, with its documented behaviour as a hypothesis of the theorems that
  need it, and an instance in a witness: the ulid crate (\<open>ulid_laws\<close>, \<open>monotonic_generator\<close>), serde
  (\<open>serde_roundtrip\<close>, \<open>value_roundtrip\<close>, \<open>wire_stable\<close>, \<open>json_stable\<close>), libsql (a host that may fail
  any statement, and a clock), the file system and base 32, the HTTP transport, the Restate SDK
  (\<open>runs_closure\<close>, \<open>replays\<close>), syn and the case-conversion crate.

  \<^bold>\<open>Shared.\<close> \<open>Prelude\<close>: results, actions, strings, JSON, increasing lists, with the collections
  \<open>result_simps\<close> and \<open>text_simps\<close>. \<open>Wire\<close>: derived deserialisers, \<open>serde_json::Value\<close>, HTTP responses.
  \<open>UlidInstance\<close>: a Crockford codec and a generator with the laws of the ulid crate.

  \<^bold>\<open>Core crate\<close> (\<^verbatim>\<open>wee-events/src/\<close>).
  \<open>Ids\<close> (\<^verbatim>\<open>id.rs\<close>): newtypes, revisions, aggregate ids; parsing undoes printing exactly where it can.
  \<open>Codec\<close> (\<^verbatim>\<open>codec/\<close>): the encodings; decoding undoes encoding and refuses another tag.
  \<open>Events\<close> (\<^verbatim>\<open>event.rs\<close>, \<^verbatim>\<open>aggregate.rs\<close>, \<^verbatim>\<open>entity.rs\<close>, \<^verbatim>\<open>error.rs\<close>): the data and the error types.
  \<open>StoreContract\<close> (\<^verbatim>\<open>store.rs\<close>): the trait \<open>EventStore\<close> as the locale \<open>event_store\<close>, whose laws say what
  a publish does to the streams and what a load returns. It is interpreted three times: by the
  in-memory store, by a SQLite connection, and by the partitioned SQLite store.
  \<open>MemoryStore\<close>, \<open>MemoryConcurrent\<close> (\<^verbatim>\<open>memory_store.rs\<close>): the outcomes of a publish, and
  linearizability of interleaved publishes and loads at the granularity of the stream locks.
  \<open>Renderer\<close> (\<^verbatim>\<open>renderer.rs\<close>): the glob matcher agrees with the meaning of a pattern; rendering is
  incremental and strict.
  \<open>Service\<close> (\<^verbatim>\<open>service.rs\<close>, \<^verbatim>\<open>service_builder.rs\<close>, \<^verbatim>\<open>create.rs\<close>, \<^verbatim>\<open>handler_env.rs\<close>, \<^verbatim>\<open>publisher.rs\<close>):
  type-level dispatch picks one handler per command; a publisher writes only against the revision
  its entity was loaded at (proved once inside \<open>event_store\<close>).

  \<open>Conformance\<close> (\<^verbatim>\<open>test_suite.rs\<close>): the conformance suite, each test a function of the store's
  operations that ends with a panic or without one. Its logic \<open>upholds\<close> is that of total
  correctness up to the panics one tolerates; the locale \<open>dependable_store\<close> extends \<open>event_store\<close> by
  what a store can still do (\<open>live\<close>) and the errors that are excused, and every test is proved to
  pass inside it. \<open>Benchmarks\<close> (\<^verbatim>\<open>bench_suite.rs\<close>): the benchmarks likewise, and how many events each
  publishes. \<open>ConformanceStores\<close>, \<open>BenchmarkStores\<close>: the stores against both. The in-memory store
  and a SQLite store in one file pass every test and finish every benchmark, while their
  generator has ids left (two for each event: 34 for the 17 events of the longest test; a generator
  of 128-bit values does run out) and, for SQLite, no call to libsql fails; a partitioned SQLite store
  on any host, alone or as two instances, never fails an assertion. That is so for databases that
  outlive their connections; \<open>MemoryDatabases\<close> shows it of a store opened in memory, as long as the
  host never makes it drop a connection. \<open>BenchmarkConcurrent\<close> is the contention benchmark with
  its tasks interleaved, the barrier, the mutex of the connection and each publish statement by
  statement: no writer's batch is lost, and until the end some task can
  always move.

  \<^bold>\<open>SQLite crate\<close> (\<^verbatim>\<open>wee-events-sqlite/src/\<close>).
  \<open>Database\<close> (\<^verbatim>\<open>database.rs\<close>): tables as lists of rows, statements that may fail at every call, the
  transaction log; migrations are all or nothing, the first partition name stays.
  \<open>SqlEvents\<close>: the SQL texts of \<^verbatim>\<open>event_store/store.rs\<close> as list operations. \<open>SqlPublish\<close>: one publish
  attempt and the two retry loops. Their bounds are the code's constants: five attempts, each
  with eight delays of the busy loop and one of its own; at most 45 sleeps and 20.64 s. The run of
  attempts that leads to each answer is an inductive trace. \<open>PublishSteps\<close>: the same publish one
  statement at a time. \<open>SqlProcesses\<close>: any number of
  processes on one database, one attempt per step, which is what SQLite's write lock allows.
  \<open>Strategies\<close> (\<^verbatim>\<open>event_store/strategies/\<close>): the five strategies, against the locale
  \<open>partition_strategy\<close>. \<open>Catalogs\<close> (\<^verbatim>\<open>event_store/partitioning.rs\<close>, \<^verbatim>\<open>backends/\<close>): where partitions
  live. \<open>SqliteStore\<close> (\<^verbatim>\<open>event_store/store.rs\<close>): opening, loading, publishing and enumerating over
  partitions; a publish makes at most 30 attempts of up to 46 sleeps (the last one sleeps once
  less), hence 1379 sleeps and 648.2 s. \<open>SqliteContract\<close>: the store keeps the contract, reads see
  earlier writes, enumeration is exact. \<open>StoreConcurrent\<close>: any number of tasks on one store,
  interleaved at the lock on the map of connections and at the lock of each connection; the calls
  are linearizable in the order of their ends, and of the publishes that expected the same revision
  at most one succeeds.
  \<open>Sanitize\<close>, \<open>Turso\<close> (\<^verbatim>\<open>event_store/turso_platform/\<close>): database names, the platform API with its HTTP
  client, the provisioner. The locale \<open>turso_platform\<close> holds the platform's laws, and \<open>turso_http\<close> what
  Turso documents of its HTTP interface, from which the laws of the client follow (\<open>sublocale\<close>);
  the first is interpreted by the in-memory platform of the sources, the second by a server that
  answers the client's requests from such a platform. \<open>TursoConcurrent\<close>: any number of calls of any number of
  provisioners on one platform, interleaved at requests, metadata accesses and mutexes; without a
  cleanup all calls for a name agree on the target, every call returns (no fuel: a rank falls with
  each step), and a cleanup in between can leave the target of a deleted database in the cache.
  \<open>Documents\<close> (\<^verbatim>\<open>document_store.rs\<close>): the table against the locale \<open>document_store\<close>, a map that keeps
  the newest revision. \<open>Projections\<close> (\<^verbatim>\<open>projections.rs\<close>): the locale \<open>projecting\<close> joins an event store
  and a document store; projections are faithful, and a rebuild leaves each document rendered at its
  aggregate's revision, except those it found at that revision, which it keeps as they are.

  \<^bold>\<open>Restate adapter\<close> (\<^verbatim>\<open>wee-events-restate/src/\<close> and the templates of
  \<^verbatim>\<open>wee-events-macros/src/service_macro.rs\<close>).
  \<open>RestateTypes\<close> (\<^verbatim>\<open>names.rs\<close>, \<^verbatim>\<open>types.rs\<close>, \<^verbatim>\<open>correlation.rs\<close>, \<^verbatim>\<open>effects.rs\<close>): the types with their
  JSON, both ways, and the effect filters. \<open>RestateService\<close> (\<^verbatim>\<open>lib.rs\<close>, \<^verbatim>\<open>error.rs\<close>, \<^verbatim>\<open>client.rs\<close>,
  \<^verbatim>\<open>generated.rs\<close>): the generated in-process service and the generated binding, and the client.
  \<open>RestateContract\<close>: the two services agree, effects follow a success, a retried invocation repeats
  its journaled notification, and what the client posts and makes of each answer: it reads back the
  entities and rejections of the services (at the addresses that it uses; that nothing is served
  there is a finding).
  \<open>Registration\<close> (\<^verbatim>\<open>lib.rs\<close>): the type parameter that lists the effects still needed, as a value;
  attaching compiles exactly when each effect was supplied once.

  \<^bold>\<open>Macros\<close> (\<^verbatim>\<open>wee-events-macros/src/\<close>).
  \<open>MacroSyntax\<close>: tokens, types and paths, parsing steps; the fuel of a list parser is the number of
  tokens plus one, and \<open>terminated_loop_fuel\<close> shows that more changes nothing. \<open>MacroAttrs\<close>
  (\<^verbatim>\<open>handler_attr.rs\<close>, \<^verbatim>\<open>loader_attr.rs\<close>, \<^verbatim>\<open>capability_attr.rs\<close>, \<^verbatim>\<open>lib.rs\<close>): which signatures are accepted
  and how they are read, and the derived names. \<open>ServiceMacro\<close> (\<^verbatim>\<open>service_macro.rs\<close>): the declaration
  parser with its round trip, wire names, and the names of the generated items. \<open>MacroBounds\<close>: the
  headers of the emitted impls as data, and trait resolution as an inductive relation over them and
  over the impls that exist elsewhere; a service can be attached to Restate exactly when store and
  services give what its functions declare, and then it also runs in process.

  \<^bold>\<open>Unit tests.\<close> \<open>TursoTests\<close> and \<open>UnitTests\<close>: the \<open>#[cfg(test)]\<close> modules of both crates and of the
  adapter as definitions over the model, with lemmas that the model passes them. They are checks of
  the model: where a definition strayed from the code, a test the code passes would fail here.

  \<^bold>\<open>Composition.\<close> The interfaces meet in the contracts: \<open>SqliteContract\<close> builds on \<open>SqlPublish\<close> and the
  strategies, \<open>Projections\<close> on \<open>SqliteContract\<close>, \<open>Documents\<close> and \<open>Renderer\<close>, the publisher on any
  \<open>event_store\<close>, the Restate binding on the in-process service of the same declaration, and the
  registration on the markers that \<open>generate_full\<close> computes.

  \<^bold>\<open>Not modelled.\<close> Trait declarations without behaviour (\<^verbatim>\<open>command.rs\<close>, \<^verbatim>\<open>spec.rs\<close>) and
  re-exports. Of the macros, whether the emitted method bodies type-check, and the spans of errors;
  what \<open>syn\<close> does inside paths, visibilities and closures. Cancelled futures; what a failing
  future of \<open>try_join_all\<close> leaves of the others is what they have done so far. Inside one lock of a
  SQLite connection a call is one step: what other processes do between its statements is in
  \<open>SqlProcesses\<close>, and what other tasks do between them in \<open>BenchmarkConcurrent\<close>. A call of libsql that
  fails is taken to have had no effect: an error of a remote \<open>COMMIT\<close> that has taken place all the
  same is not modelled. Of the benchmarks, time; all but the one for contention run their tasks
  one after the other.
  The Restate runtime beyond the calls of a handler's context.
\<close>

end
